(* ===== verification/Prelude.thy ===== *)
theory Prelude
  imports Main "HOL-Library.Word" "HOL-Library.Multiset"
begin

unbundle bit_operations_syntax

section \<open>Shared vocabulary of the development\<close>

text \<open>
  This theory holds what every component uses: the byte and integer types of the Go code, the
  big- and little-endian conversions of the package encoding/binary, the slices of a byte slice,
  the iteration order of a Go map, Go's time arithmetic, and the interface of a wire codec (decoding an
  encoding gives the value back), which several components promise.
\<close>

type_synonym byte = "8 word"
type_synonym bytes = "byte list"
type_synonym u16 = "16 word"
type_synonym u32 = "32 word"
type_synonym u64 = "64 word"

named_theorems wire_simps \<open>lengths and slices of encoded data\<close>
named_theorems codec_defs \<open>definitions of the encoders and decoders\<close>


subsection \<open>Big- and little-endian integers\<close>

definition put_be16 :: "u16 \<Rightarrow> bytes" where
  "put_be16 w = [ucast (drop_bit 8 w), ucast w]"

definition put_be32 :: "u32 \<Rightarrow> bytes" where
  "put_be32 w = [ucast (drop_bit 24 w), ucast (drop_bit 16 w), ucast (drop_bit 8 w), ucast w]"

definition put_le16 :: "u16 \<Rightarrow> bytes" where
  "put_le16 w = rev (put_be16 w)"

definition put_le32 :: "u32 \<Rightarrow> bytes" where
  "put_le32 w = rev (put_be32 w)"

text \<open>
  The readers fold the bytes from the most significant one on. They are applied to slices of
  exactly two or four bytes only, as the Go functions are.
\<close>

definition get_be16 :: "bytes \<Rightarrow> u16" where
  "get_be16 bs = foldl (\<lambda>acc b. push_bit 8 acc OR ucast b) 0 bs"

definition get_be32 :: "bytes \<Rightarrow> u32" where
  "get_be32 bs = foldl (\<lambda>acc b. push_bit 8 acc OR ucast b) 0 bs"

definition get_le16 :: "bytes \<Rightarrow> u16" where
  "get_le16 bs = get_be16 (rev bs)"

definition get_le32 :: "bytes \<Rightarrow> u32" where
  "get_le32 bs = get_be32 (rev bs)"

lemma length_put [wire_simps, simp]:
  "length (put_be16 v) = 2" "length (put_le16 v) = 2"
  "length (put_be32 w) = 4" "length (put_le32 w) = 4"
  by (simp_all add: put_be16_def put_le16_def put_be32_def put_le32_def)

lemma get_put_be16 [simp]: "get_be16 (put_be16 w) = w"
  by (rule bit_word_eqI)
    (auto simp: get_be16_def put_be16_def bit_simps simp del: push_bit_of_0 push_bit_or)

lemma get_put_be32 [simp]: "get_be32 (put_be32 w) = w"
  by (rule bit_word_eqI)
    (auto simp: get_be32_def put_be32_def bit_simps simp del: push_bit_of_0 push_bit_or)

lemma get_put_le16 [simp]: "get_le16 (put_le16 w) = w"
  by (simp add: get_le16_def put_le16_def)

lemma get_put_le32 [simp]: "get_le32 (put_le32 w) = w"
  by (simp add: get_le32_def put_le32_def)


subsection \<open>Big integers as bytes\<close>

text \<open>\<open>big.Int.SetBytes\<close> and \<open>big.Int.FillBytes\<close>: big-endian, any length.\<close>

definition be_nat :: "bytes \<Rightarrow> nat" where
  "be_nat bs = foldl (\<lambda>acc b. acc * 256 + unat b) 0 bs"

fun be_bytes :: "nat \<Rightarrow> nat \<Rightarrow> bytes" where
  "be_bytes 0 n = []"
| "be_bytes (Suc k) n = be_bytes k (n div 256) @ [word_of_nat (n mod 256)]"

lemma be_nat_snoc: "be_nat (bs @ [b]) = be_nat bs * 256 + unat b"
  by (simp add: be_nat_def)

lemma be_nat_Nil [simp]: "be_nat [] = 0"
  by (simp add: be_nat_def)

lemma length_be_bytes [simp, wire_simps]: "length (be_bytes k n) = k"
  by (induction k arbitrary: n) auto

lemma unat_lt_256: "unat (b :: byte) < 256"
  using unsigned_less [where 'b = 8 and 'a = nat, of b] by simp

lemma be_nat_less: "be_nat bs < 256 ^ length bs"
proof (induction bs rule: rev_induct)
  case Nil
  then show ?case by simp
next
  case (snoc b bs)
  then have "Suc (be_nat bs) * 256 \<le> 256 ^ length bs * 256"
    by (intro mult_le_mono1) simp
  then show ?case
    using unat_lt_256 [of b] by (simp add: be_nat_snoc)
qed

lemma be_nat_bytes: "n < 256 ^ k \<Longrightarrow> be_nat (be_bytes k n) = n"
proof (induction k arbitrary: n)
  case 0
  then show ?case by simp
next
  case (Suc k)
  then have "n div 256 < 256 ^ k"
    by (simp add: div_less_iff_less_mult mult.commute)
  then show ?case
    using Suc.IH [of "n div 256"] by (simp add: be_nat_snoc unat_of_nat)
qed

lemma be_bytes_nat: "length bs = k \<Longrightarrow> be_bytes k (be_nat bs) = bs"
proof (induction k arbitrary: bs)
  case 0
  then show ?case by simp
next
  case (Suc k)
  then obtain cs c where bs: "bs = cs @ [c]" "length cs = k"
    by (metis length_Suc_conv_rev)
  have "(be_nat cs * 256 + unat c) div 256 = be_nat cs" "(be_nat cs * 256 + unat c) mod 256 = unat c"
    using unat_lt_256 [of c] by simp_all
  with bs Suc.IH [of cs] show ?case
    by (simp add: be_nat_snoc)
qed

lemma be_nat_append: "be_nat (xs @ ys) = be_nat xs * 256 ^ length ys + be_nat ys"
proof (induction ys rule: rev_induct)
  case Nil
  then show ?case by simp
next
  case (snoc y ys)
  have "be_nat (xs @ ys @ [y]) = be_nat (xs @ ys) * 256 + unat y"
    using be_nat_snoc [of "xs @ ys" y] by simp
  with snoc show ?case by (simp add: be_nat_snoc algebra_simps)
qed

lemma be_nat_Cons: "be_nat (b # bs) = unat b * 256 ^ length bs + be_nat bs"
  using be_nat_append [of "[b]" bs] be_nat_snoc [of "[]" b] by simp


subsection \<open>Slices\<close>

text \<open>
  Go's \<open>b[i:j]\<close>. Every slice of the code is guarded so that \<open>i \<le> j\<close> and \<open>j \<le> len(b)\<close>;
  outside that range Go panics, and no definition of the development slices there.
\<close>

definition slice :: "nat \<Rightarrow> nat \<Rightarrow> 'a list \<Rightarrow> 'a list" where
  "slice i j b = take (j - i) (drop i b)"

lemma length_slice [wire_simps]: "length (slice i j b) = min (j - i) (length b - i)"
  by (simp add: slice_def min.commute)

lemma slice_append_left [wire_simps]:
  "j \<le> length xs \<Longrightarrow> slice i j (xs @ ys) = slice i j xs"
  by (simp add: slice_def)

lemma slice_append_right [wire_simps]:
  "length xs \<le> i \<Longrightarrow> slice i j (xs @ ys) = slice (i - length xs) (j - length xs) ys"
  by (simp add: slice_def)

lemma slice_all [wire_simps]: "i = 0 \<Longrightarrow> length xs \<le> j \<Longrightarrow> slice i j xs = xs"
  by (simp add: slice_def)

text \<open>\<open>copy(dst, src)\<close> into a fixed-size array of \<open>n\<close> zero bytes.\<close>

definition copy_into :: "nat \<Rightarrow> bytes \<Rightarrow> bytes" where
  "copy_into n src = take n src @ replicate (n - length src) 0"

lemma length_copy_into [simp, wire_simps]: "length (copy_into n src) = n"
  by (simp add: copy_into_def)

lemma copy_into_exact [simp]: "length src = n \<Longrightarrow> copy_into n src = src"
  by (simp add: copy_into_def)


subsection \<open>Errors as values\<close>

text \<open>
  A Go function that returns \<open>(v, err)\<close> returns \<open>Inr v\<close> or \<open>Inl err\<close>. The combinator is the
  \<open>if err != nil { return err }\<close> idiom.
\<close>

definition bind_err :: "'e + 'a \<Rightarrow> ('a \<Rightarrow> 'e + 'b) \<Rightarrow> 'e + 'b" where
  "bind_err r f = (case r of Inl e \<Rightarrow> Inl e | Inr x \<Rightarrow> f x)"

lemma bind_err_simps [simp]:
  "bind_err (Inl e) f = Inl e" "bind_err (Inr x) f = f x"
  by (simp_all add: bind_err_def)

lemma bind_err_Inr_iff:
  "bind_err r f = Inr y \<longleftrightarrow> (\<exists>x. r = Inr x \<and> f x = Inr y)"
  by (cases r) auto


subsection \<open>Ranging over a Go map\<close>

text \<open>
  The order in which \<open>for k, v := range m\<close> visits a map is unspecified and differs from run to
  run. Every operation that ranges over a map takes the visiting order as an argument; the
  theorems hold for every order that visits each key exactly once.
\<close>

definition range_order :: "('k \<rightharpoonup> 'v) \<Rightarrow> 'k list \<Rightarrow> bool" where
  "range_order m ord \<longleftrightarrow> distinct ord \<and> set ord = dom m"

definition range_vals :: "('k \<rightharpoonup> 'v) \<Rightarrow> 'k list \<Rightarrow> 'v list" where
  "range_vals m ord = List.map_filter m ord"

lemma range_vals_Nil [simp]: "range_vals m [] = []"
  by (simp add: range_vals_def)

lemma range_vals_Cons:
  "range_vals m (k # ord) = (case m k of None \<Rightarrow> range_vals m ord | Some v \<Rightarrow> v # range_vals m ord)"
  by (simp add: range_vals_def List.map_filter_def split: option.split)

lemma set_range_vals: "set (range_vals m ord) = {v. \<exists>k\<in>set ord. m k = Some v}"
  by (induction ord) (auto simp: range_vals_Cons split: option.split)

lemma set_range_vals_order: "range_order m ord \<Longrightarrow> set (range_vals m ord) = ran m"
  by (auto simp: set_range_vals range_order_def ran_def dom_def)

subsection \<open>Time\<close>

text \<open>
  A \<open>time.Time\<close> is the number of nanoseconds since Go's zero time, so that \<open>t.IsZero()\<close> is
  \<open>t = 0\<close>. \<open>t.Sub(u)\<close> saturates at the largest duration, which is how a never-set timer looks
  infinitely old.
\<close>

type_synonym time = int
type_synonym duration = int

definition maxDuration :: duration where
  "maxDuration = 2 ^ 63 - 1"

definition time_sub :: "time \<Rightarrow> time \<Rightarrow> duration" where
  "time_sub t u = max (- maxDuration - 1) (min maxDuration (t - u))"

definition millisecond :: duration where
  "millisecond = 1000000"

definition second :: duration where
  "second = 1000 * millisecond"

lemma time_sub_less_iff:
  "0 \<le> d \<Longrightarrow> d < maxDuration \<Longrightarrow> d < time_sub t u \<longleftrightarrow> d < t - u"
  by (auto simp: time_sub_def maxDuration_def)


subsection \<open>The interface of a wire codec\<close>

text \<open>
  What a client of an encoder relies on: decoding what was encoded gives the value back. Two
  different values then never share an encoding, and a decoder accepts every encoding.
\<close>

locale wire_codec =
  fixes encode :: "'a \<Rightarrow> bytes"
    and decode :: "bytes \<Rightarrow> 'e + 'a"
    and valid :: "'a \<Rightarrow> bool"
  assumes roundtrip: "valid x \<Longrightarrow> decode (encode x) = Inr x"
begin

lemma encode_inj: "valid x \<Longrightarrow> valid y \<Longrightarrow> encode x = encode y \<longleftrightarrow> x = y"
  by (metis roundtrip sum.inject(2))

lemma decode_accepts: "valid x \<Longrightarrow> \<exists>y. decode (encode x) = Inr y"
  by (simp add: roundtrip)

lemma decode_image: "valid x \<Longrightarrow> decode b = Inl e \<Longrightarrow> encode x \<noteq> b"
  by (auto simp: roundtrip)

end

end
