(* ===== verification/Rudp_Sequence.thy ===== *)
theory Rudp_Sequence
  imports Prelude
begin

section \<open>Sequence numbers of the reliable-UDP layer\<close>

text \<open>
  internal/frpg/rudp/sequence.go: 12-bit sequence numbers, held in a \<open>uint32\<close>, compared modulo
  \<open>maxAckValue\<close>. A number is newer than another when the forward distance to it is less than half
  of the space.
\<close>

definition maxAckValue :: u32 where
  "maxAckValue = 4096"

definition seqDelta :: "u32 \<Rightarrow> u32 \<Rightarrow> u32" where
  "seqDelta a b = (b - a) mod maxAckValue"

definition seqNewer :: "u32 \<Rightarrow> u32 \<Rightarrow> bool" where
  "seqNewer a b = (let d = seqDelta b a in d \<noteq> 0 \<and> d < maxAckValue div 2)"

definition seqAtOrBefore :: "u32 \<Rightarrow> u32 \<Rightarrow> bool" where
  "seqAtOrBefore a b = (seqDelta a b < maxAckValue div 2)"

lemmas seq_defs = seqDelta_def seqNewer_def seqAtOrBefore_def maxAckValue_def

definition seq_ok :: "u32 \<Rightarrow> bool" where
  "seq_ok a \<longleftrightarrow> a < maxAckValue"

definition seqNext :: "u32 \<Rightarrow> u32" where
  "seqNext a = (a + 1) mod maxAckValue"

lemma uint_mod_4096: "uint (a mod (4096 :: u32)) = uint a mod 4096"
  by (simp add: uint_mod)

lemma uint_seqDelta: "uint (seqDelta a b) = (uint b - uint a) mod 4096"
proof -
  have "(4096 :: int) dvd 2 ^ 32" by simp
  then show ?thesis
    by (simp add: seqDelta_def maxAckValue_def uint_mod_4096 uint_word_ariths mod_mod_cancel)
qed

lemma uint_seqNext: "uint (seqNext a) = (uint a + 1) mod 4096"
  by (simp add: seqNext_def maxAckValue_def uint_mod_4096 uint_word_ariths mod_mod_cancel)

lemma seq_ok_uint: "seq_ok a \<longleftrightarrow> uint a < 4096"
  by (simp add: seq_ok_def maxAckValue_def word_less_def)

lemma seq_ok_mod [simp, intro]: "seq_ok (a mod maxAckValue)" "seq_ok 0" "seq_ok (seqNext a)"
  by (simp_all add: seq_ok_uint maxAckValue_def uint_mod_4096 seqNext_def)

lemma seqNewer_uint:
  "seqNewer a b \<longleftrightarrow> 0 < (uint a - uint b) mod 4096 \<and> (uint a - uint b) mod 4096 < 2048"
proof -
  have "seqNewer a b \<longleftrightarrow> uint (seqDelta b a) \<noteq> 0 \<and> uint (seqDelta b a) < 2048"
    by (simp add: seqNewer_def Let_def maxAckValue_def word_less_def uint_0_iff)
  then show ?thesis
    by (auto simp: uint_seqDelta order_le_less)
qed

lemma seqAtOrBefore_uint:
  "seqAtOrBefore a b \<longleftrightarrow> (uint b - uint a) mod 4096 < 2048"
  by (simp add: seqAtOrBefore_def maxAckValue_def word_less_def flip: uint_seqDelta)

text \<open>The predicates on representatives: advancing \<open>n\<close> steps from a number.\<close>

definition seqAdd :: "u32 \<Rightarrow> nat \<Rightarrow> u32" where
  "seqAdd a n = (seqNext ^^ n) a"

lemma uint_seqAdd: "seq_ok a \<Longrightarrow> uint (seqAdd a n) = (uint a + int n) mod 4096"
proof (induction n)
  case 0
  then show ?case by (simp add: seqAdd_def seq_ok_uint)
next
  case (Suc n)
  then have "uint (seqAdd a (Suc n)) = ((uint a + int n) mod 4096 + 1) mod 4096"
    by (simp add: seqAdd_def uint_seqNext)
  also have "\<dots> = (uint a + int (Suc n)) mod 4096"
    by (simp add: mod_simps algebra_simps)
  finally show ?case .
qed

lemma seq_ok_seqAdd [simp]: "seq_ok a \<Longrightarrow> seq_ok (seqAdd a n)"
  by (simp add: seq_ok_uint uint_seqAdd)

text \<open>
  An acknowledgement counts as newer exactly when it lies one to 2047 steps ahead, wherever the
  pair sits on the circle, so a lost acknowledgement at the wrap cannot freeze the session.
\<close>

lemma seqNewer_seqAdd: "seq_ok a \<Longrightarrow> seqNewer (seqAdd a n) a \<longleftrightarrow> 0 < n mod 4096 \<and> n mod 4096 < 2048"
proof -
  assume "seq_ok a"
  then have "(uint (seqAdd a n) - uint a) mod 4096 = int (n mod 4096)"
    by (simp add: uint_seqAdd mod_diff_left_eq zmod_int)
  then show ?thesis by (simp add: seqNewer_uint)
qed

lemma seqAtOrBefore_seqAdd: "seq_ok a \<Longrightarrow> seqAtOrBefore a (seqAdd a n) \<longleftrightarrow> n mod 4096 < 2048"
proof -
  assume "seq_ok a"
  then have "(uint (seqAdd a n) - uint a) mod 4096 = int (n mod 4096)"
    by (simp add: uint_seqAdd mod_diff_left_eq zmod_int)
  then show ?thesis by (simp add: seqAtOrBefore_uint)
qed

lemma seqNewer_asym:
  assumes "seqNewer a b"
  shows "\<not> seqNewer b a"
proof -
  let ?d = "uint a - uint b"
  have "(uint b - uint a) mod 4096 = (- ?d) mod 4096" by simp
  also have "\<dots> = (if ?d mod 4096 = 0 then 0 else 4096 - ?d mod 4096)"
    by (rule zmod_zminus1_eq_if)
  finally show ?thesis
    using assms by (auto simp: seqNewer_uint)
qed

end
