(* ===== verification/Rudp_Packet.thy ===== *)
theory Rudp_Packet
  imports Rudp_Sequence
begin

section \<open>Reliable-UDP packets\<close>

text \<open>
  internal/frpg/rudp/packet.go: the opcodes, the 7-byte header that packs two 12-bit counters into
  three bytes, the 35-byte connection prefix of a SYN, and the parser. An opcode is any byte: the
  ones the session knows are named below, every other one is legal and counted as unknown.
\<close>

type_synonym OpCode = byte

definition OpUnset :: OpCode where "OpUnset = 0x00"
definition OpSYN :: OpCode where "OpSYN = 0x02"
definition OpRACK :: OpCode where "OpRACK = 0x03"
definition OpDAT :: OpCode where "OpDAT = 0x04"
definition OpHBT :: OpCode where "OpHBT = 0x05"
definition OpFIN :: OpCode where "OpFIN = 0x06"
definition OpRST :: OpCode where "OpRST = 0x07"
definition OpPTDATFRAG :: OpCode where "OpPTDATFRAG = 0x08"
definition OpACK :: OpCode where "OpACK = 0x31"
definition OpSYNACK :: OpCode where "OpSYNACK = 0x32"
definition OpDATACK :: OpCode where "OpDATACK = 0x34"
definition OpFINACK :: OpCode where "OpFINACK = 0x36"
definition OpPTDATFRGACK :: OpCode where "OpPTDATFRGACK = 0x38"

lemmas opcode_defs = OpUnset_def OpSYN_def OpRACK_def OpDAT_def OpHBT_def OpFIN_def OpRST_def
  OpPTDATFRAG_def OpACK_def OpSYNACK_def OpDATACK_def OpFINACK_def OpPTDATFRGACK_def

definition isSequenced :: "OpCode \<Rightarrow> bool" where
  "isSequenced o' \<longleftrightarrow> o' = OpDAT \<or> o' = OpDATACK \<or> o' = OpFINACK"

definition headerSize :: nat where "headerSize = 7"
definition magic0 :: byte where "magic0 = 0xF5"
definition magic1 :: byte where "magic1 = 0x02"
definition initialDataSize :: nat where "initialDataSize = 35"

record packet =
  opcode :: OpCode
  local_seq :: u32
  remote_seq :: u32
  payload :: bytes

definition mk_packet :: "OpCode \<Rightarrow> u32 \<Rightarrow> u32 \<Rightarrow> bytes \<Rightarrow> packet" where
  "mk_packet o' l r b = \<lparr>opcode = o', local_seq = l, remote_seq = r, payload = b\<rparr>"

lemma mk_packet_sel [simp]:
  "opcode (mk_packet o' l r b) = o'" "local_seq (mk_packet o' l r b) = l"
  "remote_seq (mk_packet o' l r b) = r" "payload (mk_packet o' l r b) = b"
  by (simp_all add: mk_packet_def)

definition synPayload :: bytes where
  "synPayload = [0x12, 0x10, 0x20, 0x20, 0x00, 0x00, 0xA0, 0x00]"

definition synAckPayload :: bytes where
  "synAckPayload = [0x12, 0x10, 0x20, 0x20, 0x00, 0x01, 0x00, 0x00]"

datatype rudp_error =
    ShortPacket nat
  | BadMagic byte byte
  | SendFailed string
  | MaxRetransmits

text \<open>The shared third counter byte: the local high nibble above the remote high nibble.\<close>

definition pack_high :: "u32 \<Rightarrow> u32 \<Rightarrow> byte" where
  "pack_high l r = ucast (push_bit 4 (drop_bit 8 l AND 0xF)) OR ucast (drop_bit 8 r AND 0xF)"

definition unpack_local :: "byte \<Rightarrow> byte \<Rightarrow> u32" where
  "unpack_local b2 b3 = ucast b2 OR push_bit 8 (ucast (drop_bit 4 (b3 AND 0xF0)))"

definition unpack_remote :: "byte \<Rightarrow> byte \<Rightarrow> u32" where
  "unpack_remote b4 b3 = ucast b4 OR push_bit 8 (ucast (b3 AND 0x0F))"

definition encode :: "packet \<Rightarrow> bytes" where
  "encode p =
     [magic0, magic1,
      ucast (local_seq p AND 0xFF),
      pack_high (local_seq p) (remote_seq p),
      ucast (remote_seq p AND 0xFF),
      opcode p, 0xFF] @ payload p"

definition decodePacket :: "bytes \<Rightarrow> rudp_error + packet" where
  "decodePacket b =
     (if length b < headerSize then Inl (ShortPacket (length b))
      else if b ! 0 \<noteq> magic0 \<or> b ! 1 \<noteq> magic1 then Inl (BadMagic (b ! 0) (b ! 1))
      else Inr \<lparr>opcode = b ! 5,
                local_seq = unpack_local (b ! 2) (b ! 3),
                remote_seq = unpack_remote (b ! 4) (b ! 3),
                payload = drop headerSize b\<rparr>)"

definition initialData :: "bytes \<Rightarrow> bytes" where
  "initialData ident = copy_into 17 ident @ [0] @ copy_into 17 ident"

definition looksLikeInitialData :: "bytes \<Rightarrow> bool" where
  "looksLikeInitialData b \<longleftrightarrow> length b > initialDataSize \<and> b ! 0 \<noteq> 0xF5 \<and> b ! 0 \<noteq> 0x25"

lemmas [codec_defs] = encode_def decodePacket_def initialData_def


subsection \<open>The counters survive the packing\<close>

lemma seq_ok_bits: "seq_ok a \<longleftrightarrow> (\<forall>n. bit a n \<longrightarrow> n < 12)"
proof -
  have bl: "bit a n \<Longrightarrow> n < 32" for n
    using bit_imp_le_length [of a n] by simp
  have "seq_ok a \<longleftrightarrow> take_bit 12 (uint a) = uint a"
    by (simp add: seq_ok_uint take_bit_int_eq_self_iff)
  also have "\<dots> \<longleftrightarrow> take_bit 12 a = a"
    by (simp add: word_uint_eq_iff unsigned_take_bit_eq)
  also have "\<dots> \<longleftrightarrow> (\<forall>n. bit a n \<longrightarrow> n < 12)"
    unfolding bit_eq_iff using bl by (simp add: bit_take_bit_iff) blast
  finally show ?thesis .
qed

lemma byte_masks:
  "(0xFF :: u32) = mask 8" "(0xF :: u32) = mask 4" "(0x0F :: byte) = mask 4"
  "(0xF0 :: byte) = push_bit 4 (mask 4)"
  by (simp_all add: mask_eq_exp_minus_1 push_bit_eq_mult)

lemmas packing_defs = pack_high_def unpack_local_def unpack_remote_def

lemma unpack_local_pack [simp]:
  assumes "seq_ok l"
  shows "unpack_local (ucast (l AND 0xFF)) (pack_high l r) = l"
proof (rule bit_word_eqI)
  fix n assume "n < LENGTH(32)"
  then show "bit (unpack_local (ucast (l AND 0xFF)) (pack_high l r)) n = bit l n"
    unfolding packing_defs byte_masks
    using assms by (cases "n < 8") (auto simp: bit_simps seq_ok_bits)
qed

lemma unpack_remote_pack [simp]:
  assumes "seq_ok r"
  shows "unpack_remote (ucast (r AND 0xFF)) (pack_high l r) = r"
proof (rule bit_word_eqI)
  fix n assume "n < LENGTH(32)"
  then show "bit (unpack_remote (ucast (r AND 0xFF)) (pack_high l r)) n = bit r n"
    unfolding packing_defs byte_masks
    using assms by (cases "n < 8") (auto simp: bit_simps seq_ok_bits)
qed

lemma seq_ok_unpack [simp]: "seq_ok (unpack_local b2 b3)" "seq_ok (unpack_remote b4 b3)"
  unfolding packing_defs byte_masks
  by (auto simp: seq_ok_bits bit_simps dest: bit_imp_le_length)

text \<open>Every counter that came off the wire or out of the session is a 12-bit value.\<close>

definition packet_ok :: "packet \<Rightarrow> bool" where
  "packet_ok p \<longleftrightarrow> seq_ok (local_seq p) \<and> seq_ok (remote_seq p)"

interpretation rudp_codec: wire_codec encode decodePacket packet_ok
proof
  fix p assume "packet_ok p"
  then show "decodePacket (encode p) = Inr p"
    by (simp add: decodePacket_def encode_def headerSize_def packet_ok_def)
qed

lemma decodePacket_ok: "decodePacket b = Inr p \<Longrightarrow> packet_ok p"
  by (auto simp: decodePacket_def packet_ok_def split: if_splits)

lemma length_encode [simp]: "length (encode p) = headerSize + length (payload p)"
  by (simp add: encode_def headerSize_def)

lemma length_initialData [simp]: "length (initialData ident) = initialDataSize"
  by (simp add: initialData_def initialDataSize_def)

text \<open>
  A packet is never mistaken for a connection prefix, and a prefixed packet is recognised exactly
  when the account id it starts with does not begin with one of the two magic bytes.
\<close>

lemma encode_not_prefix [simp]: "\<not> looksLikeInitialData (encode p)"
  by (simp add: looksLikeInitialData_def encode_def magic0_def)

lemma prefix_recognised:
  assumes "ident \<noteq> []" "hd ident \<noteq> 0xF5" "hd ident \<noteq> 0x25"
  shows "looksLikeInitialData (initialData ident @ encode p)"
proof -
  have "initialData ident ! 0 = hd ident"
    using assms(1) by (cases ident) (simp_all add: initialData_def copy_into_def)
  with assms show ?thesis
    by (simp add: looksLikeInitialData_def nth_append initialDataSize_def headerSize_def)
qed

end
