(* ===== verification/Rudp_Session.thy ===== *)
theory Rudp_Session
  imports Rudp_Packet
begin

section \<open>Reliable-UDP sessions\<close>

text \<open>
  internal/frpg/rudp/session.go: one connection, in the server or the client role. The record has
  the fields of the Go struct. The clock and the two random bytes an operation may draw are its
  environment \<open>env\<close>, so one operation sees one reading of the clock. The transmit function is the
  field \<open>send\<close>: it sees every datagram handed to it so far (the field \<open>wire\<close>, oldest first) and
  may fail on the last one, which covers any transport.
\<close>

datatype State =
  StateListening | StateSynReceived | StateEstablished | StateClosing | StateClosed | StateConnecting

definition maxPacketsInFlight :: nat where "maxPacketsInFlight = 32"
definition maxPacketsPerPump :: nat where "maxPacketsPerPump = 8"
definition retransmitInterval :: duration where "retransmitInterval = 1000 * millisecond"
definition retransmitCycleInterval :: duration where "retransmitCycleInterval = 200 * millisecond"
definition retransmitMaxAttempts :: nat where "retransmitMaxAttempts = 160"
definition resendSynInterval :: duration where "resendSynInterval = 500 * millisecond"
definition minTimeBetweenResendAck :: duration where "minTimeBetweenResendAck = 150 * millisecond"
definition heartbeatInterval :: duration where "heartbeatInterval = 5 * second"
definition connectionCloseTimeout :: duration where "connectionCloseTimeout = 5 * second"

record env =
  now :: time
  rnd :: "byte \<times> byte"

record outPacket =
  pkt :: packet
  sendTime :: time
  rawSendTime :: time

record recvItem =
  item_data :: bytes
  item_ackSeq :: u32

type_synonym datagram = "bytes \<times> bool"

record Session =
  isClient :: bool
  psnID :: bytes
  send :: "datagram list \<Rightarrow> string option"
  sess_state :: State
  sequenceIndex :: u32
  sequenceIndexAcked :: u32
  remoteSequenceIndex :: u32
  remoteSequenceIndexAcked :: u32
  pendingReceive :: "packet list"
  received :: "recvItem list"
  sendQueue :: "outPacket list"
  retransmitBuf :: "outPacket list"
  isRetransmit :: bool
  retransmitIndex :: u32
  retransmitTimer :: time
  retransmitTries :: nat
  rackCount :: nat
  holeMisses :: nat
  unknownOpcodes :: nat
  retransmitPkt :: packet
  lastPacketReceived :: time
  lastAckSend :: time
  lastHeartbeat :: time
  resendSynTimer :: time
  closeTimer :: time
  errState :: "rudp_error option"
  wire :: "datagram list"

definition randSequence :: "env \<Rightarrow> u32" where
  "randSequence e = (ucast (fst (rnd e)) OR push_bit 8 (ucast (snd (rnd e)))) mod maxAckValue"

definition newSession :: "env \<Rightarrow> bool \<Rightarrow> bytes \<Rightarrow> (datagram list \<Rightarrow> string option) \<Rightarrow> Session" where
  "newSession e client ident snd_fn =
     \<lparr>isClient = client, psnID = ident, send = snd_fn, sess_state = StateListening,
      sequenceIndex = randSequence e, sequenceIndexAcked = 0,
      remoteSequenceIndex = 0, remoteSequenceIndexAcked = 0,
      pendingReceive = [], received = [], sendQueue = [], retransmitBuf = [],
      isRetransmit = False, retransmitIndex = 0, retransmitTimer = 0, retransmitTries = 0,
      rackCount = 0, holeMisses = 0, unknownOpcodes = 0, retransmitPkt = mk_packet OpUnset 0 0 [],
      lastPacketReceived = 0, lastAckSend = 0, lastHeartbeat = 0, resendSynTimer = 0,
      closeTimer = 0, errState = None, wire = []\<rparr>"

definition WithInitialSequence :: "u32 \<Rightarrow> Session \<Rightarrow> Session" where
  "WithInitialSequence v s = s\<lparr>sequenceIndex := v mod maxAckValue\<rparr>"

definition NewServerSession :: "env \<Rightarrow> (datagram list \<Rightarrow> string option) \<Rightarrow> Session" where
  "NewServerSession e snd_fn = newSession e False [] snd_fn"

definition NewClientSession :: "env \<Rightarrow> bytes \<Rightarrow> (datagram list \<Rightarrow> string option) \<Rightarrow> Session" where
  "NewClientSession e ident snd_fn = newSession e True ident snd_fn"

definition Receive :: "Session \<Rightarrow> recvItem option \<times> Session" where
  "Receive s = (case received s of
       [] \<Rightarrow> (None, s)
     | p # rest \<Rightarrow> (Some p, s\<lparr>received := rest\<rparr>))"

definition nextRemoteSequence :: "Session \<Rightarrow> u32" where
  "nextRemoteSequence s = (remoteSequenceIndex s + 1) mod maxAckValue"


subsection \<open>Sending\<close>

definition sendRaw :: "Session \<Rightarrow> packet \<Rightarrow> Session" where
  "sendRaw s p =
     (if errState s \<noteq> None then s
      else
        let b = encode p;
            dg = (if opcode p = OpSYN then (initialData (psnID s) @ b, True) else (b, False));
            s' = s\<lparr>wire := wire s @ [dg]\<rparr>
        in (case send s (wire s') of
              None \<Rightarrow> s'
            | Some err \<Rightarrow> s'\<lparr>errState := Some (SendFailed err)\<rparr>))"

definition enqueue :: "env \<Rightarrow> Session \<Rightarrow> packet \<Rightarrow> Session" where
  "enqueue e s p =
     (if sess_state s = StateClosing then s
      else if isSequenced (opcode p) \<or> opcode p = OpUnset then
        let (p', s') =
          (if opcode p = OpUnset then
             (if 0 < remote_seq p
              then (p\<lparr>local_seq := sequenceIndex s, opcode := OpDATACK\<rparr>,
                    s\<lparr>remoteSequenceIndexAcked := remote_seq p\<rparr>)
              else (p\<lparr>local_seq := sequenceIndex s, opcode := OpDAT\<rparr>, s))
           else (p, s))
        in s'\<lparr>sequenceIndex := (sequenceIndex s' + 1) mod maxAckValue,
              sendQueue := sendQueue s' @ [\<lparr>pkt = p', sendTime = now e, rawSendTime = 0\<rparr>]\<rparr>
      else sendRaw s p)"

definition SendData :: "env \<Rightarrow> Session \<Rightarrow> bytes \<Rightarrow> Session" where
  "SendData e s b = enqueue e s (mk_packet OpUnset 0 0 b)"

definition SendDataAck :: "env \<Rightarrow> Session \<Rightarrow> bytes \<Rightarrow> u32 \<Rightarrow> Session" where
  "SendDataAck e s b ackRemote = enqueue e s (mk_packet OpUnset 0 ackRemote b)"

definition sendSYN :: "env \<Rightarrow> Session \<Rightarrow> Session" where
  "sendSYN e s = enqueue e s (mk_packet OpSYN (sequenceIndex s) 0 synPayload)"

definition sendSYNACK :: "env \<Rightarrow> Session \<Rightarrow> u32 \<Rightarrow> Session" where
  "sendSYNACK e s remote =
     (let s' = enqueue e s (mk_packet OpSYNACK (sequenceIndex s) remote synAckPayload)
      in s'\<lparr>remoteSequenceIndex := remote,
            sequenceIndex := (sequenceIndex s' + 1) mod maxAckValue\<rparr>)"

definition sendACK :: "env \<Rightarrow> Session \<Rightarrow> u32 \<Rightarrow> Session" where
  "sendACK e s remote =
     (enqueue e s (mk_packet OpACK 0 remote []))
       \<lparr>remoteSequenceIndexAcked := remote, lastAckSend := now e\<rparr>"

definition sendFINACK :: "env \<Rightarrow> Session \<Rightarrow> u32 \<Rightarrow> Session" where
  "sendFINACK e s remote = enqueue e s (mk_packet OpFINACK (sequenceIndex s) remote [])"

definition sendHBT :: "env \<Rightarrow> Session \<Rightarrow> Session" where
  "sendHBT e s = enqueue e s (mk_packet OpHBT 0 (remoteSequenceIndexAcked s) [])"

definition Connect :: "env \<Rightarrow> Session \<Rightarrow> Session" where
  "Connect e s = sendSYN e (s\<lparr>sess_state := StateConnecting, resendSynTimer := now e\<rparr>)"

definition SendReset :: "Session \<Rightarrow> Session" where
  "SendReset s =
     (sendRaw (s\<lparr>errState := None\<rparr>) (mk_packet OpRST 0 (remoteSequenceIndexAcked s) []))
       \<lparr>errState := errState s\<rparr>"

definition reset :: "env \<Rightarrow> Session \<Rightarrow> Session" where
  "reset e s = s\<lparr>sequenceIndex := randSequence e, sequenceIndexAcked := 0,
                 remoteSequenceIndex := 0, remoteSequenceIndexAcked := 0,
                 pendingReceive := [], received := [], sendQueue := [], retransmitBuf := []\<rparr>"


subsection \<open>Receiving\<close>

definition handleAckLike :: "Session \<Rightarrow> u32 \<Rightarrow> Session" where
  "handleAckLike s inRemoteAck =
     (if seqNewer inRemoteAck (sequenceIndexAcked s)
      then s\<lparr>sequenceIndexAcked := inRemoteAck\<rparr> else s)"

definition startRetransmit :: "env \<Rightarrow> Session \<Rightarrow> packet \<Rightarrow> Session" where
  "startRetransmit e s p =
     (sendRaw s p)\<lparr>isRetransmit := True, retransmitIndex := local_seq p, retransmitPkt := p,
                   retransmitTries := 0, retransmitTimer := now e\<rparr>"

definition retransmitHole :: "env \<Rightarrow> Session \<Rightarrow> bool \<times> Session" where
  "retransmitHole e s =
     (let want = (sequenceIndexAcked s + 1) mod maxAckValue
      in case List.find (\<lambda>op. local_seq (pkt op) = want) (retransmitBuf s) of
           Some op \<Rightarrow> (True, startRetransmit e s (pkt op))
         | None \<Rightarrow> (False, s\<lparr>holeMisses := Suc (holeMisses s)\<rparr>))"

definition handleRACK :: "env \<Rightarrow> Session \<Rightarrow> packet \<Rightarrow> Session" where
  "handleRACK e s p =
     snd (retransmitHole e (handleAckLike (s\<lparr>rackCount := Suc (rackCount s)\<rparr>) (remote_seq p)))"

definition handleSYN :: "env \<Rightarrow> Session \<Rightarrow> packet \<Rightarrow> Session" where
  "handleSYN e s p =
     sendACK e (sendSYNACK e (s\<lparr>sess_state := StateSynReceived\<rparr>) (local_seq p)) (local_seq p)"

definition handleSYNACK :: "env \<Rightarrow> Session \<Rightarrow> packet \<Rightarrow> Session" where
  "handleSYNACK e s p =
     (let s' = sendACK e (s\<lparr>sess_state := StateSynReceived, remoteSequenceIndex := local_seq p\<rparr>)
                 (local_seq p)
      in s'\<lparr>sequenceIndex := (sequenceIndex s' + 1) mod maxAckValue\<rparr>)"

definition deliver :: "Session \<Rightarrow> packet \<Rightarrow> Session" where
  "deliver s p = s\<lparr>received := received s @ [\<lparr>item_data = payload p, item_ackSeq = local_seq p\<rparr>]\<rparr>"

definition handleDAT :: "env \<Rightarrow> Session \<Rightarrow> packet \<Rightarrow> Session" where
  "handleDAT e s p = sendACK e (deliver s p) (local_seq p)"

definition processPacket :: "env \<Rightarrow> Session \<Rightarrow> packet \<Rightarrow> Session" where
  "processPacket e s p =
     (if opcode p = OpSYN then handleSYN e s p
      else if opcode p = OpSYNACK then handleSYNACK e s p
      else if opcode p = OpDAT \<or> opcode p = OpPTDATFRAG then handleDAT e s p
      else if opcode p = OpHBT then
        (let s' = handleAckLike s (remote_seq p) in if isClient s' then s' else sendHBT e s')
      else if opcode p = OpFIN then
        (sendFINACK e s (local_seq p))\<lparr>sess_state := StateClosing\<rparr>
      else if opcode p = OpFINACK then s\<lparr>sess_state := StateClosing\<rparr>
      else if opcode p = OpRST then reset e (s\<lparr>sess_state := StateListening\<rparr>)
      else if opcode p = OpACK then
        handleAckLike
          (if sess_state s = StateSynReceived then s\<lparr>sess_state := StateEstablished\<rparr> else s)
          (remote_seq p)
      else if opcode p = OpDATACK \<or> opcode p = OpPTDATFRGACK then
        deliver (sendACK e (handleAckLike s (remote_seq p)) (local_seq p)) p
      else if opcode p = OpRACK then handleRACK e s p
      else s\<lparr>unknownOpcodes := Suc (unknownOpcodes s)\<rparr>)"

fun indexByLocal :: "packet list \<Rightarrow> u32 \<Rightarrow> nat option" where
  "indexByLocal [] l = None"
| "indexByLocal (p # q) l =
     (if local_seq p = l then Some 0 else map_option Suc (indexByLocal q l))"

definition handleIncomingPacket :: "env \<Rightarrow> Session \<Rightarrow> packet \<Rightarrow> Session" where
  "handleIncomingPacket e s0 p =
     (let s = s0\<lparr>lastPacketReceived := now e\<rparr>
      in if isSequenced (opcode p) then
           (if sess_state s = StateListening then
              (if minTimeBetweenResendAck < time_sub (now e) (lastAckSend s)
               then (sendRaw s (mk_packet OpRST 0 (remoteSequenceIndexAcked s) []))
                      \<lparr>lastAckSend := now e\<rparr>
               else s)
            else if sess_state s \<noteq> StateEstablished \<or> local_seq p \<noteq> nextRemoteSequence s
                    \<or> indexByLocal (pendingReceive s) (local_seq p) \<noteq> None then
              (if minTimeBetweenResendAck < time_sub (now e) (lastAckSend s)
               then sendACK e s (remoteSequenceIndexAcked s)
               else s)
            else s\<lparr>pendingReceive := pendingReceive s @ [p]\<rparr>)
         else processPacket e s p)"


text \<open>
  What the elementary operations leave alone. A transmission touches only the log of datagrams and
  the error; the handlers of unsequenced packets never put a packet into the receive queue.
\<close>

lemma sendRaw_frame [simp]:
  "isClient (sendRaw s p) = isClient s" "psnID (sendRaw s p) = psnID s"
  "send (sendRaw s p) = send s" "sess_state (sendRaw s p) = sess_state s"
  "sequenceIndex (sendRaw s p) = sequenceIndex s"
  "sequenceIndexAcked (sendRaw s p) = sequenceIndexAcked s"
  "remoteSequenceIndex (sendRaw s p) = remoteSequenceIndex s"
  "remoteSequenceIndexAcked (sendRaw s p) = remoteSequenceIndexAcked s"
  "pendingReceive (sendRaw s p) = pendingReceive s" "received (sendRaw s p) = received s"
  "sendQueue (sendRaw s p) = sendQueue s" "retransmitBuf (sendRaw s p) = retransmitBuf s"
  "isRetransmit (sendRaw s p) = isRetransmit s"
  "retransmitIndex (sendRaw s p) = retransmitIndex s"
  "retransmitTimer (sendRaw s p) = retransmitTimer s"
  "retransmitTries (sendRaw s p) = retransmitTries s"
  "retransmitPkt (sendRaw s p) = retransmitPkt s"
  "lastAckSend (sendRaw s p) = lastAckSend s" "closeTimer (sendRaw s p) = closeTimer s"
  "holeMisses (sendRaw s p) = holeMisses s" "rackCount (sendRaw s p) = rackCount s"
  "unknownOpcodes (sendRaw s p) = unknownOpcodes s"
  by (auto simp: sendRaw_def Let_def split: option.splits)

lemma handleAckLike_frame [simp]:
  "isClient (handleAckLike s a) = isClient s" "sess_state (handleAckLike s a) = sess_state s"
  "sequenceIndex (handleAckLike s a) = sequenceIndex s"
  "remoteSequenceIndex (handleAckLike s a) = remoteSequenceIndex s"
  "remoteSequenceIndexAcked (handleAckLike s a) = remoteSequenceIndexAcked s"
  "pendingReceive (handleAckLike s a) = pendingReceive s"
  "received (handleAckLike s a) = received s" "sendQueue (handleAckLike s a) = sendQueue s"
  "retransmitBuf (handleAckLike s a) = retransmitBuf s"
  "isRetransmit (handleAckLike s a) = isRetransmit s"
  "retransmitPkt (handleAckLike s a) = retransmitPkt s"
  "retransmitIndex (handleAckLike s a) = retransmitIndex s"
  "retransmitTries (handleAckLike s a) = retransmitTries s"
  "errState (handleAckLike s a) = errState s" "wire (handleAckLike s a) = wire s"
  "send (handleAckLike s a) = send s"
  by (simp_all add: handleAckLike_def)

lemma isSequenced_simps [simp]:
  "\<not> isSequenced OpUnset" "\<not> isSequenced OpSYN" "\<not> isSequenced OpRACK" "isSequenced OpDAT"
  "\<not> isSequenced OpHBT" "\<not> isSequenced OpFIN" "\<not> isSequenced OpRST" "\<not> isSequenced OpPTDATFRAG"
  "\<not> isSequenced OpACK" "\<not> isSequenced OpSYNACK" "isSequenced OpDATACK" "isSequenced OpFINACK"
  "\<not> isSequenced OpPTDATFRGACK"
  by (simp_all add: isSequenced_def opcode_defs)

lemma opcode_distinct [simp]:
  "OpACK \<noteq> OpUnset" "OpSYN \<noteq> OpUnset" "OpSYNACK \<noteq> OpUnset" "OpHBT \<noteq> OpUnset"
  "OpFINACK \<noteq> OpUnset" "OpACK \<noteq> OpSYN" "OpHBT \<noteq> OpSYN" "OpSYNACK \<noteq> OpSYN" "OpRST \<noteq> OpSYN"
  "OpDAT \<noteq> OpSYN" "OpDATACK \<noteq> OpSYN" "OpFINACK \<noteq> OpSYN"
  by (simp_all add: opcode_defs)

lemma enqueue_frame [simp]:
  "isClient (enqueue e s p) = isClient s" "sess_state (enqueue e s p) = sess_state s"
  "sequenceIndexAcked (enqueue e s p) = sequenceIndexAcked s"
  "remoteSequenceIndex (enqueue e s p) = remoteSequenceIndex s"
  "pendingReceive (enqueue e s p) = pendingReceive s" "received (enqueue e s p) = received s"
  "retransmitBuf (enqueue e s p) = retransmitBuf s"
  "isRetransmit (enqueue e s p) = isRetransmit s"
  "retransmitIndex (enqueue e s p) = retransmitIndex s"
  "retransmitPkt (enqueue e s p) = retransmitPkt s"
  "retransmitTries (enqueue e s p) = retransmitTries s"
  "closeTimer (enqueue e s p) = closeTimer s" "send (enqueue e s p) = send s"
  by (auto simp: enqueue_def Let_def split: prod.splits if_splits)

lemma enqueue_unsequenced:
  "\<not> isSequenced (opcode p) \<Longrightarrow> opcode p \<noteq> OpUnset \<Longrightarrow> sess_state s \<noteq> StateClosing \<Longrightarrow>
     enqueue e s p = sendRaw s p"
  by (simp add: enqueue_def)

lemma enqueue_closing [simp]: "sess_state s = StateClosing \<Longrightarrow> enqueue e s p = s"
  by (simp add: enqueue_def)

lemma sendACK_frame [simp]:
  "isClient (sendACK e s a) = isClient s" "sess_state (sendACK e s a) = sess_state s"
  "sequenceIndex (sendACK e s a) = sequenceIndex s"
  "sequenceIndexAcked (sendACK e s a) = sequenceIndexAcked s"
  "remoteSequenceIndex (sendACK e s a) = remoteSequenceIndex s"
  "remoteSequenceIndexAcked (sendACK e s a) = a"
  "pendingReceive (sendACK e s a) = pendingReceive s" "received (sendACK e s a) = received s"
  "sendQueue (sendACK e s a) = sendQueue s" "retransmitBuf (sendACK e s a) = retransmitBuf s"
  "isRetransmit (sendACK e s a) = isRetransmit s" "retransmitPkt (sendACK e s a) = retransmitPkt s"
  "retransmitIndex (sendACK e s a) = retransmitIndex s"
  by (simp_all add: sendACK_def enqueue_def)

lemma deliver_frame [simp]:
  "isClient (deliver s p) = isClient s" "sess_state (deliver s p) = sess_state s"
  "sequenceIndex (deliver s p) = sequenceIndex s"
  "sequenceIndexAcked (deliver s p) = sequenceIndexAcked s"
  "remoteSequenceIndex (deliver s p) = remoteSequenceIndex s"
  "remoteSequenceIndexAcked (deliver s p) = remoteSequenceIndexAcked s"
  "pendingReceive (deliver s p) = pendingReceive s"
  "received (deliver s p) = received s @ [\<lparr>item_data = payload p, item_ackSeq = local_seq p\<rparr>]"
  "sendQueue (deliver s p) = sendQueue s" "retransmitBuf (deliver s p) = retransmitBuf s"
  "retransmitPkt (deliver s p) = retransmitPkt s" "isRetransmit (deliver s p) = isRetransmit s"
  "retransmitIndex (deliver s p) = retransmitIndex s"
  by (simp_all add: deliver_def)

lemma startRetransmit_frame [simp]:
  "sess_state (startRetransmit e s p) = sess_state s"
  "sequenceIndex (startRetransmit e s p) = sequenceIndex s"
  "sequenceIndexAcked (startRetransmit e s p) = sequenceIndexAcked s"
  "remoteSequenceIndex (startRetransmit e s p) = remoteSequenceIndex s"
  "remoteSequenceIndexAcked (startRetransmit e s p) = remoteSequenceIndexAcked s"
  "pendingReceive (startRetransmit e s p) = pendingReceive s"
  "received (startRetransmit e s p) = received s"
  "sendQueue (startRetransmit e s p) = sendQueue s"
  "retransmitBuf (startRetransmit e s p) = retransmitBuf s"
  "isRetransmit (startRetransmit e s p)" "retransmitPkt (startRetransmit e s p) = p"
  "retransmitIndex (startRetransmit e s p) = local_seq p"
  by (simp_all add: startRetransmit_def)

lemma retransmitHole_frame [simp]:
  "sess_state (snd (retransmitHole e s)) = sess_state s"
  "sequenceIndex (snd (retransmitHole e s)) = sequenceIndex s"
  "sequenceIndexAcked (snd (retransmitHole e s)) = sequenceIndexAcked s"
  "remoteSequenceIndex (snd (retransmitHole e s)) = remoteSequenceIndex s"
  "remoteSequenceIndexAcked (snd (retransmitHole e s)) = remoteSequenceIndexAcked s"
  "pendingReceive (snd (retransmitHole e s)) = pendingReceive s"
  "received (snd (retransmitHole e s)) = received s"
  "sendQueue (snd (retransmitHole e s)) = sendQueue s"
  "retransmitBuf (snd (retransmitHole e s)) = retransmitBuf s"
  by (simp_all add: retransmitHole_def Let_def split: option.split)

lemma retransmitHole_frameD:
  assumes "retransmitHole e s = (found, s')"
  shows "pendingReceive s' = pendingReceive s" "sendQueue s' = sendQueue s"
    and "retransmitBuf s' = retransmitBuf s" "sequenceIndexAcked s' = sequenceIndexAcked s"
    and "sess_state s' = sess_state s"
  using retransmitHole_frame [of e s, unfolded assms] by simp_all

lemma processPacket_pending:
  "pendingReceive (processPacket e s p) = pendingReceive s \<or>
   pendingReceive (processPacket e s p) = []"
  by (simp add: processPacket_def handleSYN_def handleSYNACK_def handleDAT_def sendSYNACK_def
      sendHBT_def sendFINACK_def reset_def handleRACK_def Let_def)

text \<open>The switch of \<open>processPacket\<close>, one equation per opcode.\<close>

lemma processPacket_cases:
  "opcode p = OpSYN \<Longrightarrow> processPacket e s p = handleSYN e s p"
  "opcode p = OpSYNACK \<Longrightarrow> processPacket e s p = handleSYNACK e s p"
  "opcode p = OpDAT \<Longrightarrow> processPacket e s p = handleDAT e s p"
  "opcode p = OpPTDATFRAG \<Longrightarrow> processPacket e s p = handleDAT e s p"
  "opcode p = OpFIN \<Longrightarrow>
     processPacket e s p = (sendFINACK e s (local_seq p))\<lparr>sess_state := StateClosing\<rparr>"
  "opcode p = OpFINACK \<Longrightarrow> processPacket e s p = s\<lparr>sess_state := StateClosing\<rparr>"
  "opcode p = OpRST \<Longrightarrow> processPacket e s p = reset e (s\<lparr>sess_state := StateListening\<rparr>)"
  "opcode p = OpACK \<Longrightarrow> processPacket e s p = handleAckLike
     (if sess_state s = StateSynReceived then s\<lparr>sess_state := StateEstablished\<rparr> else s)
     (remote_seq p)"
  "opcode p = OpDATACK \<Longrightarrow>
     processPacket e s p = deliver (sendACK e (handleAckLike s (remote_seq p)) (local_seq p)) p"
  "opcode p = OpRACK \<Longrightarrow> processPacket e s p = handleRACK e s p"
  unfolding processPacket_def opcode_defs by simp_all

lemma processPacket_pending_sequenced:
  "isSequenced (opcode p) \<Longrightarrow> pendingReceive (processPacket e s p) = pendingReceive s"
  by (auto simp: isSequenced_def processPacket_cases handleDAT_def)

function consumeIncoming :: "env \<Rightarrow> Session \<Rightarrow> Session" where
  "consumeIncoming e s =
     (case pendingReceive s of
        [] \<Rightarrow> s
      | nxt # _ \<Rightarrow>
          if local_seq nxt = nextRemoteSequence s then
            let s1 = processPacket e s nxt;
                s2 = s1\<lparr>pendingReceive := tl (pendingReceive s1)\<rparr>
            in consumeIncoming e (s2\<lparr>remoteSequenceIndex := (remoteSequenceIndex s2 + 1) mod maxAckValue\<rparr>)
          else s)"
  by pat_completeness auto
termination
proof (relation "measure (\<lambda>(e, s). length (pendingReceive s))", goal_cases)
  case (2 e s nxt rest)
  then show ?case using processPacket_pending [of e s nxt] by auto
qed simp

declare consumeIncoming.simps [simp del]

definition Feed :: "env \<Rightarrow> Session \<Rightarrow> bytes \<Rightarrow> Session" where
  "Feed e s b =
     (let b' = (if looksLikeInitialData b then drop initialDataSize b else b)
      in case decodePacket b' of
           Inl err \<Rightarrow> s\<lparr>errState := Some err\<rparr>
         | Inr p \<Rightarrow> consumeIncoming e (handleIncomingPacket e s p))"


subsection \<open>The pump\<close>

definition trimAcked :: "Session \<Rightarrow> Session" where
  "trimAcked s = s\<lparr>retransmitBuf :=
     filter (\<lambda>op. \<not> seqAtOrBefore (local_seq (pkt op)) (sequenceIndexAcked s)) (retransmitBuf s)\<rparr>"

text \<open>The retransmit step; the boolean says that the session died and the pump stops there.\<close>

definition retransmitStep :: "env \<Rightarrow> Session \<Rightarrow> bool \<times> Session" where
  "retransmitStep e s =
     (if \<not> isRetransmit s then
        (case retransmitBuf s of
           [] \<Rightarrow> (False, s)
         | op # _ \<Rightarrow>
             if retransmitInterval < time_sub (now e) (sendTime op) then
               (case retransmitHole e s of
                  (True, s') \<Rightarrow> (False, s')
                | (False, s') \<Rightarrow> (False, startRetransmit e s' (pkt op)))
             else (False, s))
      else if seqAtOrBefore (retransmitIndex s) (sequenceIndexAcked s) then
        (False, s\<lparr>isRetransmit := False\<rparr>)
      else if retransmitCycleInterval < time_sub (now e) (retransmitTimer s) then
        (let s' = s\<lparr>retransmitTimer := now e, retransmitTries := Suc (retransmitTries s)\<rparr>
         in if retransmitMaxAttempts < retransmitTries s'
            then (True, s'\<lparr>errState := Some MaxRetransmits\<rparr>)
            else (False, sendRaw s' (retransmitPkt s')))
      else (False, s))"

text \<open>The flush loop, with the number of packets the pump may still send.\<close>

primrec flushQueue :: "env \<Rightarrow> nat \<Rightarrow> Session \<Rightarrow> Session" where
  "flushQueue e 0 s = s"
| "flushQueue e (Suc k) s =
     (if isRetransmit s \<or> maxPacketsInFlight \<le> length (retransmitBuf s) then s
      else case sendQueue s of
             [] \<Rightarrow> s
           | op # rest \<Rightarrow>
               flushQueue e k
                 (sendRaw (s\<lparr>sendQueue := rest,
                             retransmitBuf := retransmitBuf s @ [op\<lparr>rawSendTime := now e\<rparr>]\<rparr>)
                    (pkt op)))"

definition handleOutgoing :: "env \<Rightarrow> Session \<Rightarrow> Session" where
  "handleOutgoing e s =
     (case retransmitStep e (trimAcked s) of
        (True, s') \<Rightarrow> s'
      | (False, s') \<Rightarrow> flushQueue e maxPacketsPerPump s')"

definition Pump :: "env \<Rightarrow> Session \<Rightarrow> rudp_error option \<times> Session" where
  "Pump e s0 =
     (if errState s0 \<noteq> None then (errState s0, s0)
      else
        let s1 = (if sess_state s0 = StateClosing \<and> sendQueue s0 = []
                  then s0\<lparr>sess_state := StateClosed\<rparr> else s0)
        in if sess_state s1 = StateClosed then (None, reset e s1)
           else
             let s2 = (if sess_state s1 = StateEstablished \<and> isClient s1
                           \<and> heartbeatInterval < time_sub (now e) (lastHeartbeat s1)
                       then (sendHBT e s1)\<lparr>lastHeartbeat := now e\<rparr> else s1);
                 s3 = (if sess_state s2 = StateConnecting
                           \<and> resendSynInterval < time_sub (now e) (resendSynTimer s2)
                       then (sendSYN e s2)\<lparr>resendSynTimer := now e\<rparr> else s2)
             in if closeTimer s3 \<noteq> 0 \<and> sess_state s3 = StateClosing
                   \<and> connectionCloseTimeout < time_sub (now e) (closeTimer s3)
                then (None, s3\<lparr>sess_state := StateClosed\<rparr>)
                else let s4 = handleOutgoing e s3 in (errState s4, s4))"

record Diag =
  Retransmitting :: bool
  StuckSeq :: u32
  Tries :: nat
  MaxTries :: nat
  Acked :: u32
  Pending :: nat
  RACKs :: nat
  HoleMisses :: nat
  UnknownOpcodes :: nat

definition diag :: "Session \<Rightarrow> Diag" where
  "diag s = \<lparr>Retransmitting = isRetransmit s, StuckSeq = retransmitIndex s,
             Tries = retransmitTries s, MaxTries = retransmitMaxAttempts,
             Acked = sequenceIndexAcked s, Pending = length (retransmitBuf s),
             RACKs = rackCount s, HoleMisses = holeMisses s, UnknownOpcodes = unknownOpcodes s\<rparr>"

end
