(* ===== verification/Rudp_Invariant.thy ===== *)
theory Rudp_Invariant
  imports Rudp_Session
begin

section \<open>The invariant of a reliable-UDP session\<close>

text \<open>
  Well-formedness of a session and its preservation by every operation, lifted to all reachable
  sessions: the four counters stay 12-bit values, the receive queue is empty between operations,
  the unacknowledged window never exceeds its cap, everything queued is a sequenced packet with
  12-bit counters, and everything ever handed to the transport decodes to a packet again, with the
  connection prefix on exactly the SYN packets.
\<close>

definition datagram_ok :: "bytes \<Rightarrow> datagram \<Rightarrow> bool" where
  "datagram_ok ident dg \<longleftrightarrow>
     (\<exists>p. packet_ok p \<and> snd dg = (opcode p = OpSYN) \<and>
        fst dg = (if snd dg then initialData ident @ encode p else encode p))"

definition queued_ok :: "outPacket \<Rightarrow> bool" where
  "queued_ok op \<longleftrightarrow> packet_ok (pkt op) \<and> isSequenced (opcode (pkt op))"

definition sess_wf :: "Session \<Rightarrow> bool" where
  "sess_wf s \<longleftrightarrow>
     seq_ok (sequenceIndex s) \<and> seq_ok (sequenceIndexAcked s) \<and>
     seq_ok (remoteSequenceIndex s) \<and> seq_ok (remoteSequenceIndexAcked s) \<and>
     list_all queued_ok (sendQueue s) \<and> list_all queued_ok (retransmitBuf s) \<and>
     length (retransmitBuf s) \<le> maxPacketsInFlight \<and> packet_ok (retransmitPkt s) \<and>
     list_all (\<lambda>it. seq_ok (item_ackSeq it)) (received s) \<and>
     list_all (datagram_ok (psnID s)) (wire s)"

definition sess_inv :: "Session \<Rightarrow> bool" where
  "sess_inv s \<longleftrightarrow> sess_wf s \<and> pendingReceive s = []"

lemma packet_ok_mk [simp]: "packet_ok (mk_packet o' l r b) \<longleftrightarrow> seq_ok l \<and> seq_ok r"
  by (simp add: packet_ok_def)

lemma wf_counters:
  "sess_wf s \<Longrightarrow> seq_ok (sequenceIndex s)" "sess_wf s \<Longrightarrow> seq_ok (sequenceIndexAcked s)"
  "sess_wf s \<Longrightarrow> seq_ok (remoteSequenceIndex s)" "sess_wf s \<Longrightarrow> seq_ok (remoteSequenceIndexAcked s)"
  "sess_wf s \<Longrightarrow> packet_ok (retransmitPkt s)"
  by (simp_all add: sess_wf_def)

lemma sendRaw_psnID [simp]: "psnID (sendRaw s p) = psnID s"
  by (rule sendRaw_frame)

lemma wire_sendRaw:
  "wire (sendRaw s p) = (if errState s = None
     then wire s @ [if opcode p = OpSYN then (initialData (psnID s) @ encode p, True)
                    else (encode p, False)]
     else wire s)"
  by (auto simp: sendRaw_def Let_def split: option.split)

lemma datagram_ok_sendRaw:
  "packet_ok p \<Longrightarrow> list_all (datagram_ok (psnID s)) (wire s) \<Longrightarrow>
     list_all (datagram_ok (psnID s)) (wire (sendRaw s p))"
  by (auto simp: wire_sendRaw datagram_ok_def)

lemma wf_sendRaw: "sess_wf s \<Longrightarrow> packet_ok p \<Longrightarrow> sess_wf (sendRaw s p)"
  by (simp add: sess_wf_def datagram_ok_sendRaw)

lemma wf_enqueue: "sess_wf s \<Longrightarrow> packet_ok p \<Longrightarrow> sess_wf (enqueue e s p)"
proof -
  assume s: "sess_wf s" and p: "packet_ok p"
  show ?thesis
  proof (cases "isSequenced (opcode p) \<or> opcode p = OpUnset")
    case True
    with s p show ?thesis
      by (auto simp: enqueue_def sess_wf_def queued_ok_def packet_ok_def Let_def)
  next
    case False
    with s p show ?thesis by (simp add: enqueue_def wf_sendRaw)
  qed
qed

lemma wf_updates:
  "sess_wf (s\<lparr>sess_state := st\<rparr>) = sess_wf s" "sess_wf (s\<lparr>lastAckSend := t\<rparr>) = sess_wf s"
  "sess_wf (s\<lparr>lastPacketReceived := t\<rparr>) = sess_wf s" "sess_wf (s\<lparr>errState := er\<rparr>) = sess_wf s"
  "sess_wf (s\<lparr>rackCount := k\<rparr>) = sess_wf s" "sess_wf (s\<lparr>holeMisses := k\<rparr>) = sess_wf s"
  "sess_wf (s\<lparr>unknownOpcodes := k\<rparr>) = sess_wf s" "sess_wf (s\<lparr>lastHeartbeat := t\<rparr>) = sess_wf s"
  "sess_wf (s\<lparr>resendSynTimer := t\<rparr>) = sess_wf s" "sess_wf (s\<lparr>retransmitTimer := t\<rparr>) = sess_wf s"
  "sess_wf (s\<lparr>retransmitTries := k\<rparr>) = sess_wf s" "sess_wf (s\<lparr>isRetransmit := b\<rparr>) = sess_wf s"
  "sess_wf (s\<lparr>retransmitIndex := a\<rparr>) = sess_wf s" "sess_wf (s\<lparr>pendingReceive := ps\<rparr>) = sess_wf s"
  by (simp_all add: sess_wf_def)

lemma wf_set:
  "sess_wf s \<Longrightarrow> seq_ok a \<Longrightarrow> sess_wf (s\<lparr>sequenceIndex := a\<rparr>)"
  "sess_wf s \<Longrightarrow> seq_ok a \<Longrightarrow> sess_wf (s\<lparr>sequenceIndexAcked := a\<rparr>)"
  "sess_wf s \<Longrightarrow> seq_ok a \<Longrightarrow> sess_wf (s\<lparr>remoteSequenceIndex := a\<rparr>)"
  "sess_wf s \<Longrightarrow> seq_ok a \<Longrightarrow> sess_wf (s\<lparr>remoteSequenceIndexAcked := a\<rparr>)"
  "sess_wf s \<Longrightarrow> packet_ok p \<Longrightarrow> sess_wf (s\<lparr>retransmitPkt := p\<rparr>)"
  by (simp_all add: sess_wf_def)

lemmas wf_intros = wf_sendRaw wf_enqueue wf_set

lemma wf_deliver: "sess_wf s \<Longrightarrow> packet_ok p \<Longrightarrow> sess_wf (deliver s p)"
  by (simp add: sess_wf_def deliver_def packet_ok_def)

lemma wf_handleAckLike: "sess_wf s \<Longrightarrow> seq_ok a \<Longrightarrow> sess_wf (handleAckLike s a)"
  by (simp add: handleAckLike_def wf_intros)

lemma wf_sendACK: "sess_wf s \<Longrightarrow> seq_ok a \<Longrightarrow> sess_wf (sendACK e s a)"
  by (simp add: sendACK_def wf_intros wf_updates)

lemma wf_startRetransmit: "sess_wf s \<Longrightarrow> packet_ok p \<Longrightarrow> sess_wf (startRetransmit e s p)"
  by (simp add: startRetransmit_def wf_intros wf_updates)

lemma wf_retransmitHole: "sess_wf s \<Longrightarrow> sess_wf (snd (retransmitHole e s))"
proof (cases "List.find (\<lambda>op. local_seq (pkt op) = (sequenceIndexAcked s + 1) mod maxAckValue)
    (retransmitBuf s)")
  case None
  assume "sess_wf s"
  with None show ?thesis by (simp add: retransmitHole_def wf_updates)
next
  case (Some op)
  assume s: "sess_wf s"
  from Some have "op \<in> set (retransmitBuf s)"
    by (auto simp: find_Some_iff)
  with s have "packet_ok (pkt op)"
    by (auto simp: sess_wf_def list_all_iff queued_ok_def)
  with s Some show ?thesis by (simp add: retransmitHole_def wf_startRetransmit)
qed

lemma wf_reset: "sess_wf s \<Longrightarrow> sess_wf (reset e s)"
  by (simp add: sess_wf_def reset_def randSequence_def)

lemma wf_processPacket:
  assumes "sess_wf s" "packet_ok p"
  shows "sess_wf (processPacket e s p)"
proof -
  have "seq_ok (local_seq p)" "seq_ok (remote_seq p)"
    using assms(2) by (simp_all add: packet_ok_def)
  with assms show ?thesis
    unfolding processPacket_def handleSYN_def handleSYNACK_def handleDAT_def handleRACK_def
      sendSYNACK_def sendHBT_def sendFINACK_def
    by (simp add: Let_def wf_intros wf_updates wf_deliver wf_handleAckLike wf_sendACK
        wf_retransmitHole wf_reset wf_counters)
qed

lemma wf_handleIncomingPacket:
  "sess_wf s \<Longrightarrow> packet_ok p \<Longrightarrow> sess_wf (handleIncomingPacket e s p)"
  by (simp add: handleIncomingPacket_def Let_def wf_processPacket wf_updates wf_sendACK wf_sendRaw
      wf_counters)

lemma inv_consume:
  assumes "sess_wf s" "pendingReceive s = [] \<or>
    (\<exists>p. pendingReceive s = [p] \<and> packet_ok p \<and> isSequenced (opcode p) \<and>
         local_seq p = nextRemoteSequence s)"
  shows "sess_inv (consumeIncoming e s)"
  using assms(2)
proof (elim disjE exE conjE)
  assume "pendingReceive s = []"
  then show ?thesis
    using assms(1) by (subst consumeIncoming.simps) (simp add: sess_inv_def)
next
  fix p
  assume p: "pendingReceive s = [p]" "packet_ok p" "isSequenced (opcode p)"
    "local_seq p = nextRemoteSequence s"
  let ?s = "(processPacket e s p)\<lparr>pendingReceive := [],
    remoteSequenceIndex := (remoteSequenceIndex (processPacket e s p) + 1) mod maxAckValue\<rparr>"
  have "consumeIncoming e s = consumeIncoming e ?s"
    using p by (subst consumeIncoming.simps) (simp add: Let_def processPacket_pending_sequenced)
  also have "\<dots> = ?s"
    by (subst consumeIncoming.simps) simp
  finally show ?thesis
    using p assms(1) by (simp add: sess_inv_def wf_intros wf_updates wf_processPacket)
qed

lemma pending_handleIncoming:
  assumes "pendingReceive s = []"
  shows "pendingReceive (handleIncomingPacket e s p) = [] \<or>
    (pendingReceive (handleIncomingPacket e s p) = [p] \<and> isSequenced (opcode p) \<and>
     local_seq p = nextRemoteSequence (handleIncomingPacket e s p))"
proof (cases "isSequenced (opcode p)")
  case True
  with assms show ?thesis
    by (simp add: handleIncomingPacket_def Let_def nextRemoteSequence_def)
next
  case False
  with assms processPacket_pending [of e "s\<lparr>lastPacketReceived := now e\<rparr>" p] show ?thesis
    by (simp add: handleIncomingPacket_def Let_def)
qed

lemma inv_Feed: "sess_inv s \<Longrightarrow> sess_inv (Feed e s b)"
proof -
  assume s: "sess_inv s"
  let ?b = "if looksLikeInitialData b then drop initialDataSize b else b"
  show ?thesis
  proof (cases "decodePacket ?b")
    case (Inl err)
    with s show ?thesis by (simp add: Feed_def Let_def sess_inv_def wf_updates)
  next
    case (Inr p)
    then have p: "packet_ok p" by (rule decodePacket_ok)
    with s have "sess_inv (consumeIncoming e (handleIncomingPacket e s p))"
      using pending_handleIncoming [of s e p]
      by (intro inv_consume) (auto simp: sess_inv_def wf_handleIncomingPacket)
    with Inr show ?thesis by (simp add: Feed_def Let_def)
  qed
qed

lemma wf_trimAcked: "sess_wf s \<Longrightarrow> sess_wf (trimAcked s)"
  unfolding sess_wf_def trimAcked_def
  by (auto simp: list_all_iff intro: le_trans [OF length_filter_le])

lemma wf_retransmitStep: "sess_wf s \<Longrightarrow> sess_wf (snd (retransmitStep e s))"
proof (cases "retransmitBuf s")
  case Nil
  assume "sess_wf s"
  with Nil show ?thesis
    by (simp add: retransmitStep_def Let_def wf_updates wf_sendRaw wf_counters)
next
  case (Cons op ops)
  assume s: "sess_wf s"
  with Cons have "packet_ok (pkt op)" by (simp add: sess_wf_def queued_ok_def)
  with s Cons wf_retransmitHole [OF s, of e] show ?thesis
    by (auto simp: retransmitStep_def Let_def wf_updates wf_sendRaw wf_counters wf_startRetransmit
        split: prod.split bool.split)
qed

lemma wf_flushQueue: "sess_wf s \<Longrightarrow> sess_wf (flushQueue e k s)"
proof (induction k arbitrary: s)
  case 0
  then show ?case by simp
next
  case (Suc k)
  show ?case
  proof (cases "isRetransmit s \<or> maxPacketsInFlight \<le> length (retransmitBuf s) \<or> sendQueue s = []")
    case True
    with Suc.prems show ?thesis by (auto split: list.split)
  next
    case False
    then obtain op rest where q: "sendQueue s = op # rest" by (cases "sendQueue s") auto
    let ?s = "s\<lparr>sendQueue := rest, retransmitBuf := retransmitBuf s @ [op\<lparr>rawSendTime := now e\<rparr>]\<rparr>"
    have op: "packet_ok (pkt op)" and "sess_wf ?s"
      using Suc.prems False q by (auto simp: sess_wf_def queued_ok_def)
    then have "sess_wf (flushQueue e k (sendRaw ?s (pkt op)))"
      by (intro Suc.IH wf_sendRaw)
    with False q show ?thesis by simp
  qed
qed

lemma wf_handleOutgoing: "sess_wf s \<Longrightarrow> sess_wf (handleOutgoing e s)"
  using wf_retransmitStep [OF wf_trimAcked, of s e]
  by (auto simp: handleOutgoing_def wf_flushQueue split: prod.split bool.split)

lemma wf_Pump: "sess_wf s \<Longrightarrow> sess_wf (snd (Pump e s))"
  by (simp add: Pump_def Let_def wf_reset wf_handleOutgoing sendHBT_def sendSYN_def wf_intros
      wf_updates wf_counters)

lemma pending_flushQueue [simp]: "pendingReceive (flushQueue e k s) = pendingReceive s"
  by (induction k arbitrary: s) (auto split: list.split)

lemma pending_retransmitStep:
  "retransmitStep e s = (dead, s') \<Longrightarrow> pendingReceive s' = pendingReceive s"
  by (auto simp: retransmitStep_def Let_def dest: retransmitHole_frameD
      split: prod.splits bool.splits list.splits if_splits)

lemma pending_Pump: "pendingReceive s = [] \<Longrightarrow> pendingReceive (snd (Pump e s)) = []"
proof -
  have "pendingReceive (handleOutgoing e s') = pendingReceive s'" for s'
    by (auto simp: handleOutgoing_def trimAcked_def dest!: pending_retransmitStep
        split: prod.split bool.split)
  then show "pendingReceive s = [] \<Longrightarrow> pendingReceive (snd (Pump e s)) = []"
    by (simp add: Pump_def Let_def reset_def sendHBT_def sendSYN_def)
qed


subsection \<open>Reachable sessions\<close>

inductive session_step :: "Session \<Rightarrow> Session \<Rightarrow> bool" where
  feed: "session_step s (Feed e s b)"
| pump: "session_step s (snd (Pump e s))"
| send_data: "session_step s (SendData e s b)"
| send_data_ack: "seq_ok a \<Longrightarrow> session_step s (SendDataAck e s b a)"
| receive: "session_step s (snd (Receive s))"
| connect: "session_step s (Connect e s)"
| send_reset: "session_step s (SendReset s)"

inductive reachable_session :: "Session \<Rightarrow> bool" where
  fresh: "reachable_session (newSession e client ident snd_fn)"
| seeded: "reachable_session (WithInitialSequence v (newSession e client ident snd_fn))"
| step: "reachable_session s \<Longrightarrow> session_step s t \<Longrightarrow> reachable_session t"

lemma inv_newSession: "sess_inv (newSession e client ident snd_fn)"
  by (simp add: sess_inv_def sess_wf_def newSession_def randSequence_def maxPacketsInFlight_def)

lemma inv_step: "session_step s t \<Longrightarrow> sess_inv s \<Longrightarrow> sess_inv t"
proof (induction rule: session_step.induct)
  case (feed s e b)
  then show ?case by (rule inv_Feed)
next
  case (pump s e)
  then show ?case by (simp add: sess_inv_def wf_Pump pending_Pump)
next
  case (send_data s e b)
  then show ?case by (simp add: sess_inv_def SendData_def wf_enqueue)
next
  case (send_data_ack a s e b)
  then show ?case by (simp add: sess_inv_def SendDataAck_def wf_enqueue)
next
  case (receive s)
  then show ?case
    by (auto simp: Receive_def sess_inv_def sess_wf_def split: list.split)
next
  case (connect s e)
  then show ?case
    by (simp add: sess_inv_def Connect_def sendSYN_def wf_enqueue wf_updates wf_counters)
next
  case (send_reset s)
  then show ?case
    by (simp add: sess_inv_def SendReset_def wf_sendRaw wf_updates wf_counters)
qed

text \<open>
  C8: whatever datagrams arrive, in whatever order it is pumped and whatever is sent on it, a
  session stays well formed: its four counters are 12-bit values, its receive queue is empty between
  operations, at most 32 packets are in flight, only sequenced packets are queued, and every datagram
  it ever handed to the transport is the encoding of a packet, prefixed exactly when it is a SYN.
\<close>

theorem reachable_session_inv: "reachable_session s \<Longrightarrow> sess_inv s"
proof (induction rule: reachable_session.induct)
  case (fresh e client ident snd_fn)
  show ?case by (rule inv_newSession)
next
  case (seeded v e client ident snd_fn)
  show ?case
    using inv_newSession [of e client ident snd_fn]
    by (simp add: sess_inv_def WithInitialSequence_def wf_set)
next
  case (step s t)
  then show ?case by (blast intro: inv_step)
qed

theorem reachable_session_inv_witness:
  "sess_inv (snd (Pump \<lparr>now = 3, rnd = (1, 2)\<rparr>
     (Connect \<lparr>now = 2, rnd = (1, 2)\<rparr>
       (newSession \<lparr>now = 1, rnd = (200, 14)\<rparr> True [65, 66] (\<lambda>_. None)))))"
  by (rule reachable_session_inv
      [OF reachable_session.step
        [OF reachable_session.step [OF reachable_session.fresh session_step.connect]
          session_step.pump]])

end
