(* ===== verification/Rudp_Delivery.thy ===== *)
theory Rudp_Delivery
  imports Rudp_Invariant "HOL-Library.Sublist"
begin

section \<open>Ordered delivery and the send window\<close>

text \<open>
  The guarantees of a reliable-UDP session: the well-formedness invariant over every sequence of
  operations, the receive side as a refinement of an in-order filter, the conservation of queued
  packets by the pump, and the death of a session whose peer stops acknowledging.
\<close>

subsection \<open>The receive side refines an in-order filter\<close>

text \<open>
  The abstract receiver keeps the last sequence number it took and takes a packet exactly when
  that packet is the next one.
\<close>

fun accepted :: "u32 \<Rightarrow> packet list \<Rightarrow> packet list" where
  "accepted n [] = []"
| "accepted n (p # ps) =
     (if local_seq p = seqNext n then p # accepted (seqNext n) ps else accepted n ps)"

definition item_of :: "packet \<Rightarrow> recvItem" where
  "item_of p = \<lparr>item_data = payload p, item_ackSeq = local_seq p\<rparr>"

definition is_data :: "packet \<Rightarrow> bool" where
  "is_data p \<longleftrightarrow> (opcode p = OpDAT \<or> opcode p = OpDATACK) \<and> packet_ok p"

lemma nextRemote_seqNext: "nextRemoteSequence s = seqNext (remoteSequenceIndex s)"
  by (simp add: nextRemoteSequence_def seqNext_def)

lemma consume_empty [simp]: "pendingReceive s = [] \<Longrightarrow> consumeIncoming e s = s"
  by (subst consumeIncoming.simps) simp

lemma is_data_sequenced: "is_data p \<Longrightarrow> isSequenced (opcode p)"
  by (auto simp: is_data_def)

lemma processPacket_data:
  assumes "is_data p"
  shows "received (processPacket e s p) = received s @ [item_of p]"
    and "sess_state (processPacket e s p) = sess_state s"
    and "remoteSequenceIndex (processPacket e s p) = remoteSequenceIndex s"
    and "pendingReceive (processPacket e s p) = pendingReceive s"
  using assms
  by (auto simp: is_data_def processPacket_cases handleDAT_def item_of_def)

lemma consume_one:
  assumes "is_data p" "local_seq p = nextRemoteSequence s"
  shows "consumeIncoming e (s\<lparr>pendingReceive := [p]\<rparr>) =
    (processPacket e (s\<lparr>pendingReceive := [p]\<rparr>) p)
      \<lparr>pendingReceive := [], remoteSequenceIndex := seqNext (remoteSequenceIndex s)\<rparr>"
proof -
  let ?s = "s\<lparr>pendingReceive := [p]\<rparr>"
  have "pendingReceive (processPacket e ?s p) = [p]"
    and "remoteSequenceIndex (processPacket e ?s p) = remoteSequenceIndex s"
    using processPacket_data [OF assms(1), of e ?s] by simp_all
  with assms(2) show ?thesis
    by (subst consumeIncoming.simps) (simp add: Let_def nextRemoteSequence_def seqNext_def)
qed

lemma Feed_encode:
  "packet_ok p \<Longrightarrow> Feed e s (encode p) = consumeIncoming e (handleIncomingPacket e s p)"
  by (simp add: Feed_def rudp_codec.roundtrip)

text \<open>One datagram: delivered when it is the next in sequence, otherwise nothing is delivered.\<close>

lemma Feed_data_next:
  fixes e :: env
  assumes "is_data p" "sess_state s = StateEstablished" "pendingReceive s = []"
    and "local_seq p = nextRemoteSequence s"
  defines "s' \<equiv> Feed e s (encode p)"
  shows "received s' = received s @ [item_of p]" "sess_state s' = StateEstablished"
    and "pendingReceive s' = []" "remoteSequenceIndex s' = seqNext (remoteSequenceIndex s)"
proof -
  let ?s = "s\<lparr>lastPacketReceived := now e\<rparr>"
  have "handleIncomingPacket e s p = ?s\<lparr>pendingReceive := [p]\<rparr>"
    using assms by (simp add: handleIncomingPacket_def is_data_sequenced nextRemoteSequence_def)
  moreover have "local_seq p = nextRemoteSequence ?s"
    using assms(4) by (simp add: nextRemoteSequence_def)
  ultimately have "s' = (processPacket e (?s\<lparr>pendingReceive := [p]\<rparr>) p)
      \<lparr>pendingReceive := [], remoteSequenceIndex := seqNext (remoteSequenceIndex ?s)\<rparr>"
    using assms(1) by (simp add: s'_def Feed_encode is_data_def consume_one)
  then show "received s' = received s @ [item_of p]" "sess_state s' = StateEstablished"
    and "pendingReceive s' = []" "remoteSequenceIndex s' = seqNext (remoteSequenceIndex s)"
    using assms(1,2) by (simp_all add: processPacket_data)
qed

lemma Feed_data_other:
  fixes e :: env
  assumes "is_data p" "sess_state s = StateEstablished" "pendingReceive s = []"
    and "local_seq p \<noteq> nextRemoteSequence s"
  defines "s' \<equiv> Feed e s (encode p)"
  shows "received s' = received s" "sess_state s' = StateEstablished"
    and "pendingReceive s' = []" "remoteSequenceIndex s' = remoteSequenceIndex s"
proof -
  have "pendingReceive (handleIncomingPacket e s p) = []"
    using assms
    by (simp add: handleIncomingPacket_def is_data_sequenced nextRemoteSequence_def Let_def)
  then have "s' = handleIncomingPacket e s p"
    using assms(1) by (simp add: s'_def Feed_encode is_data_def)
  then show "received s' = received s" "sess_state s' = StateEstablished"
    and "pendingReceive s' = []" "remoteSequenceIndex s' = remoteSequenceIndex s"
    using assms
    by (simp_all add: handleIncomingPacket_def is_data_sequenced nextRemoteSequence_def Let_def)
qed

fun feed_all :: "(env \<times> packet) list \<Rightarrow> Session \<Rightarrow> Session" where
  "feed_all [] s = s"
| "feed_all ((e, p) # rest) s = feed_all rest (Feed e s (encode p))"

lemma feed_all_refines:
  assumes "list_all (\<lambda>(e, p). is_data p) evs"
    and "sess_state s = StateEstablished" "pendingReceive s = []"
  shows "received (feed_all evs s) =
      received s @ map item_of (accepted (remoteSequenceIndex s) (map snd evs)) \<and>
    sess_state (feed_all evs s) = StateEstablished \<and> pendingReceive (feed_all evs s) = []"
  using assms
proof (induction evs arbitrary: s)
  case Nil
  then show ?case by simp
next
  case (Cons ev evs)
  obtain e p where ev: "ev = (e, p)" by (cases ev)
  show ?case
  proof (cases "local_seq p = nextRemoteSequence s")
    case True
    with Cons ev Feed_data_next [of p s e] show ?thesis
      by (simp add: nextRemote_seqNext)
  next
    case False
    with Cons ev Feed_data_other [of p s e] show ?thesis
      by (simp add: nextRemote_seqNext)
  qed
qed


subsection \<open>What the filter lets through\<close>

text \<open>A stream of packets numbered consecutively after \<open>n\<close>.\<close>

fun numbered :: "u32 \<Rightarrow> packet list \<Rightarrow> bool" where
  "numbered n [] = True"
| "numbered n (p # ps) = (local_seq p = seqNext n \<and> numbered (seqNext n) ps)"

lemma accepted_numbered: "numbered n (accepted n ps)"
  by (induction ps arbitrary: n) auto

lemma numbered_nth:
  "numbered n ps \<Longrightarrow> i < length ps \<Longrightarrow> local_seq (ps ! i) = seqAdd n (Suc i)"
proof (induction ps arbitrary: n i)
  case Nil
  then show ?case by simp
next
  case (Cons p ps)
  then show ?case
    by (cases i) (simp_all add: seqAdd_def funpow_swap1)
qed

lemma seqAdd_inj:
  assumes "seq_ok n" "i < 4096" "j < 4096" "seqAdd n (Suc i) = seqAdd n (Suc j)"
  shows "i = j"
proof -
  have "(uint n + 1 + int i) mod 4096 = (uint n + 1 + int j) mod 4096"
    using assms(1,4) uint_seqAdd [of n "Suc i"] uint_seqAdd [of n "Suc j"]
    by (simp add: algebra_simps)
  then have "(uint n + 1 + int i - (uint n + 1)) mod 4096 = (uint n + 1 + int j - (uint n + 1)) mod 4096"
    by (rule mod_diff_cong [OF _ refl])
  with assms(2,3) show ?thesis by simp
qed

text \<open>
  In a stream shorter than the sequence space a number names one packet, so whatever the network
  drops, repeats or reorders, what gets through is a prefix of the stream.
\<close>

lemma numbered_member:
  assumes "seq_ok n" "numbered n sent" "length sent < 4096" "p \<in> set sent"
    and "local_seq p = seqAdd n (Suc i)" "i < 4096"
  shows "i < length sent \<and> p = sent ! i"
proof -
  obtain j where j: "j < length sent" "p = sent ! j"
    using assms(4) by (auto simp: in_set_conv_nth)
  then have "seqAdd n (Suc i) = seqAdd n (Suc j)"
    using numbered_nth [OF assms(2) j(1)] assms(5) by simp
  then have "i = j"
    using assms j by (intro seqAdd_inj [of n]) auto
  with j show ?thesis by simp
qed

lemma accepted_prefix_aux:
  assumes "seq_ok n" "numbered n sent" "length sent < 4096"
    and "set ps \<subseteq> set sent" "i \<le> length sent"
  shows "accepted (seqAdd n i) ps = take (length (accepted (seqAdd n i) ps)) (drop i sent)"
  using assms(4,5)
proof (induction ps arbitrary: i)
  case Nil
  then show ?case by simp
next
  case (Cons p ps)
  have nxt: "seqNext (seqAdd n i) = seqAdd n (Suc i)"
    by (simp add: seqAdd_def)
  show ?case
  proof (cases "local_seq p = seqAdd n (Suc i)")
    case True
    then have i: "i < length sent" "p = sent ! i"
      using numbered_member [OF assms(1-3), of p i] Cons.prems assms(3) by auto
    then have "accepted (seqAdd n (Suc i)) ps =
        take (length (accepted (seqAdd n (Suc i)) ps)) (drop (Suc i) sent)"
      using Cons by simp
    with True i nxt show ?thesis
      by (simp add: Cons_nth_drop_Suc [symmetric])
  next
    case False
    with Cons nxt show ?thesis by simp
  qed
qed

lemma seqAdd_0 [simp]: "seqAdd n 0 = n"
  by (simp add: seqAdd_def)

lemma accepted_is_prefix:
  assumes "seq_ok n" "numbered n sent" "length sent < 4096" "set ps \<subseteq> set sent"
  shows "prefix (accepted n ps) sent"
  using accepted_prefix_aux [OF assms, of 0] by simp (metis take_is_prefix)

text \<open>If every packet of the stream eventually arrives after its predecessors, all get through.\<close>

lemma accepted_length_mono:
  assumes "seq_ok n" "numbered n sent" "length sent < 4096" "set ps \<subseteq> set sent"
    and "subseq (drop i sent) ps" "i \<le> length sent"
  shows "length (accepted (seqAdd n i) ps) \<ge> length sent - i"
  using assms(4-6)
proof (induction ps arbitrary: i)
  case Nil
  then show ?case by (auto dest!: list_emb_Nil2)
next
  case (Cons p ps)
  have nxt: "seqNext (seqAdd n i) = seqAdd n (Suc i)"
    by (simp add: seqAdd_def)
  show ?case
  proof (cases "local_seq p = seqAdd n (Suc i)")
    case True
    then have i: "i < length sent" "p = sent ! i"
      using numbered_member [OF assms(1-3), of p i] Cons.prems assms(3) by auto
    then have "subseq (drop (Suc i) sent) ps"
      using Cons.prems(2) by (simp add: Cons_nth_drop_Suc [symmetric])
    then have "length sent - Suc i \<le> length (accepted (seqAdd n (Suc i)) ps)"
      using Cons i by simp
    with True nxt show ?thesis by simp
  next
    case False
    have "subseq (drop i sent) ps"
    proof (cases "i < length sent")
      case True
      then have "sent ! i \<noteq> p"
        using False numbered_nth [OF assms(2)] by auto
      with Cons.prems(2) True show ?thesis
        by (metis Cons_nth_drop_Suc subseq_Cons2_neq)
    qed simp
    with False Cons nxt show ?thesis by simp
  qed
qed

lemma accepted_complete:
  assumes "seq_ok n" "numbered n sent" "length sent < 4096" "set ps \<subseteq> set sent" "subseq sent ps"
  shows "accepted n ps = sent"
proof -
  have "prefix (accepted n ps) sent"
    by (rule accepted_is_prefix [OF assms(1-4)])
  moreover have "length sent \<le> length (accepted n ps)"
    using accepted_length_mono [OF assms(1-4), of 0] assms(5) by simp
  ultimately show ?thesis
    by (metis prefix_length_prefix prefix_order.antisym prefix_order.refl)
qed


text \<open>
  C1: an established session, fed any sequence of data packets of a peer's stream with losses,
  duplicates and reordering, delivers exactly a prefix of that stream, once and in order; and it
  delivers all of it as soon as every packet of the stream arrived at least once after the ones
  before it. The stream is shorter than the sequence space, as the window guarantees.
\<close>

theorem reliable_in_order_delivery:
  assumes "sess_inv s" "sess_state s = StateEstablished"
    and "numbered (remoteSequenceIndex s) sent" "length sent < 4096"
    and "list_all (\<lambda>(e, p). is_data p) evs" "snd ` set evs \<subseteq> set sent"
  shows "\<exists>k \<le> length sent. received (feed_all evs s) = received s @ map item_of (take k sent) \<and>
    (subseq sent (map snd evs) \<longrightarrow> k = length sent)"
proof -
  let ?n = "remoteSequenceIndex s" and ?ps = "map snd evs"
  have n: "seq_ok ?n" and "pendingReceive s = []"
    using assms(1) by (auto simp: sess_inv_def sess_wf_def)
  then have got: "received (feed_all evs s) = received s @ map item_of (accepted ?n ?ps)"
    using feed_all_refines [OF assms(5,2)] by simp
  have "prefix (accepted ?n ?ps) sent"
    using n assms by (intro accepted_is_prefix) auto
  then have "accepted ?n ?ps = take (length (accepted ?n ?ps)) sent"
    and le: "length (accepted ?n ?ps) \<le> length sent"
    by (auto simp: prefix_def)
  moreover have "subseq sent ?ps \<longrightarrow> length (accepted ?n ?ps) = length sent"
    using n assms accepted_complete [of ?n sent ?ps] by simp
  ultimately show ?thesis
    using got by (metis le)
qed

definition demo_session :: Session where
  "demo_session = (newSession \<lparr>now = 5, rnd = (7, 0)\<rparr> False [] (\<lambda>_. None))
     \<lparr>sess_state := StateEstablished, remoteSequenceIndex := 4095\<rparr>"

definition demo_packet :: "u32 \<Rightarrow> packet" where
  "demo_packet i = mk_packet OpDAT i 0 [ucast i]"

lemma demo_session_facts:
  "sess_inv demo_session" "sess_state demo_session = StateEstablished" "received demo_session = []"
  "remoteSequenceIndex demo_session = 4095"
  by (simp_all add: demo_session_def newSession_def sess_inv_def sess_wf_def randSequence_def
      maxPacketsInFlight_def seq_ok_def maxAckValue_def)

lemma is_data_demo: "i < 4096 \<Longrightarrow> is_data (demo_packet i)"
  by (simp add: demo_packet_def is_data_def seq_ok_def maxAckValue_def)

theorem reliable_in_order_delivery_witness:
  "received (feed_all
       [(\<lparr>now = 9, rnd = (0, 0)\<rparr>, demo_packet 1), (\<lparr>now = 10, rnd = (0, 0)\<rparr>, demo_packet 0),
        (\<lparr>now = 11, rnd = (0, 0)\<rparr>, demo_packet 0), (\<lparr>now = 12, rnd = (0, 0)\<rparr>, demo_packet 1)]
       demo_session) = [item_of (demo_packet 0), item_of (demo_packet 1)]"
  (is "received (feed_all ?evs demo_session) = _")
proof -
  have num: "numbered (remoteSequenceIndex demo_session) [demo_packet 0, demo_packet 1]"
    by (simp add: demo_session_facts demo_packet_def seqNext_def maxAckValue_def)
  have sub: "subseq [demo_packet 0, demo_packet 1] (map snd ?evs)"
    by (simp add: demo_packet_def mk_packet_def)
  have "list_all (\<lambda>(e, p). is_data p) ?evs"
    by (simp add: is_data_demo)
  from reliable_in_order_delivery [OF demo_session_facts(1,2) num _ this] sub
  show ?thesis by (auto simp: demo_session_facts)
qed


subsection \<open>The pump conserves the packets it queues\<close>

lemma flushQueue_retransmit [simp]: "isRetransmit s \<Longrightarrow> flushQueue e k s = s"
  by (cases k) simp_all

lemma flushQueue_conserves:
  "map pkt (retransmitBuf (flushQueue e k s)) @ map pkt (sendQueue (flushQueue e k s)) =
     map pkt (retransmitBuf s) @ map pkt (sendQueue s) \<and>
   length (sendQueue s) \<le> length (sendQueue (flushQueue e k s)) + k"
proof (induction k arbitrary: s)
  case 0
  then show ?case by simp
next
  case (Suc k)
  show ?case
  proof (cases "sendQueue s")
    case Nil
    then show ?thesis by simp
  next
    case (Cons op rest)
    with Suc.IH [of "sendRaw (s\<lparr>sendQueue := rest,
        retransmitBuf := retransmitBuf s @ [op\<lparr>rawSendTime := now e\<rparr>]\<rparr>) (pkt op)"]
    show ?thesis by auto
  qed
qed

lemma retransmitStep_queues:
  "retransmitStep e s = (dead, s') \<Longrightarrow> sendQueue s' = sendQueue s \<and> retransmitBuf s' = retransmitBuf s"
  by (auto simp: retransmitStep_def Let_def dest: retransmitHole_frameD
      split: prod.splits bool.splits list.splits if_splits)

definition unacked :: "Session \<Rightarrow> outPacket list" where
  "unacked s = filter (\<lambda>op. \<not> seqAtOrBefore (local_seq (pkt op)) (sequenceIndexAcked s)) (retransmitBuf s)"

lemma handleOutgoing_conserves:
  "map pkt (retransmitBuf (handleOutgoing e s)) @ map pkt (sendQueue (handleOutgoing e s)) =
     map pkt (unacked s) @ map pkt (sendQueue s) \<and>
   length (sendQueue s) \<le> length (sendQueue (handleOutgoing e s)) + maxPacketsPerPump"
proof -
  obtain dead s' where st: "retransmitStep e (trimAcked s) = (dead, s')"
    by (cases "retransmitStep e (trimAcked s)")
  then have "sendQueue s' = sendQueue s" "retransmitBuf s' = unacked s"
    using retransmitStep_queues by (auto simp: trimAcked_def unacked_def)
  with st flushQueue_conserves [of e maxPacketsPerPump s'] show ?thesis
    by (cases dead) (simp_all add: handleOutgoing_def)
qed

lemma Pump_live:
  assumes "errState s = None" "sess_state s \<noteq> StateClosing" "sess_state s \<noteq> StateClosed"
  shows "\<exists>s'. snd (Pump e s) = handleOutgoing e s' \<and> sendQueue s' = sendQueue s \<and>
    retransmitBuf s' = retransmitBuf s \<and> sequenceIndexAcked s' = sequenceIndexAcked s"
  using assms by (auto simp: Pump_def Let_def sendHBT_def sendSYN_def enqueue_unsequenced)

text \<open>
  C7: pumping a live session loses, duplicates and reorders nothing: the packets in flight followed
  by the packets still queued are the unacknowledged ones followed by the queue as before. At most
  eight packets leave the queue, and at most 32 are in flight.
\<close>

theorem pump_conserves_packets:
  assumes "sess_inv s" "errState s = None"
    and "sess_state s \<noteq> StateClosing" "sess_state s \<noteq> StateClosed"
  shows "map pkt (retransmitBuf (snd (Pump e s)) @ sendQueue (snd (Pump e s))) =
      map pkt (unacked s @ sendQueue s)
    \<and> length (sendQueue s) \<le> length (sendQueue (snd (Pump e s))) + 8
    \<and> length (retransmitBuf (snd (Pump e s))) \<le> 32"
proof -
  obtain s' where s': "snd (Pump e s) = handleOutgoing e s'" "sendQueue s' = sendQueue s"
    "retransmitBuf s' = retransmitBuf s" "sequenceIndexAcked s' = sequenceIndexAcked s"
    using Pump_live [OF assms(2-4)] by blast
  have "unacked s' = unacked s"
    using s'(3,4) by (simp add: unacked_def)
  moreover have "length (retransmitBuf (snd (Pump e s))) \<le> 32"
    using wf_Pump [of s e] assms(1) by (simp add: sess_inv_def sess_wf_def maxPacketsInFlight_def)
  ultimately show ?thesis
    using handleOutgoing_conserves [of e s'] s'(1,2) by (simp add: maxPacketsPerPump_def)
qed

definition demo_env :: env where
  "demo_env = \<lparr>now = 9, rnd = (0, 0)\<rparr>"

definition demo_queued :: Session where
  "demo_queued = SendData demo_env demo_session [42]"

lemma demo_queued_facts:
  "sess_inv demo_queued" "errState demo_queued = None" "sess_state demo_queued = StateEstablished"
  "map pkt (sendQueue demo_queued) = [mk_packet OpDAT 7 0 [42]]" "retransmitBuf demo_queued = []"
proof -
  show "sess_inv demo_queued"
    unfolding demo_queued_def
    by (rule inv_step [OF session_step.send_data demo_session_facts(1)])
qed (simp_all add: demo_queued_def demo_session_def newSession_def SendData_def enqueue_def
    demo_env_def mk_packet_def randSequence_def maxAckValue_def OpUnset_def)

theorem pump_conserves_packets_witness:
  "map pkt (retransmitBuf (snd (Pump demo_env demo_queued)) @
      sendQueue (snd (Pump demo_env demo_queued))) = [mk_packet OpDAT 7 0 [42]]"
  using pump_conserves_packets [OF demo_queued_facts(1,2), of demo_env]
  by (simp add: demo_queued_facts unacked_def)


subsection \<open>A peer that stops acknowledging is detected\<close>

text \<open>A blocked session: it is retransmitting a packet that the peer has not acknowledged.\<close>

definition blocked :: "Session \<Rightarrow> bool" where
  "blocked s \<longleftrightarrow> isRetransmit s \<and> \<not> seqAtOrBefore (retransmitIndex s) (sequenceIndexAcked s) \<and>
     sess_state s = StateEstablished \<and> (\<forall>w. send s w = None)"

lemma sendRaw_ok: "\<forall>w. send s w = None \<Longrightarrow> errState (sendRaw s p) = errState s"
  by (auto simp: sendRaw_def Let_def split: option.split)

lemma blocked_sendRaw [simp]: "blocked (sendRaw s p) = blocked s"
  by (simp add: blocked_def)

lemma blocked_updates [simp]:
  "blocked (s\<lparr>lastHeartbeat := t\<rparr>) = blocked s" "blocked (s\<lparr>retransmitTimer := t\<rparr>) = blocked s"
  "blocked (s\<lparr>retransmitTries := k\<rparr>) = blocked s" "blocked (s\<lparr>retransmitBuf := b\<rparr>) = blocked s"
  by (simp_all add: blocked_def)

lemma handleOutgoing_blocked:
  assumes "blocked s" "errState s = None"
    and "retransmitCycleInterval < time_sub (now e) (retransmitTimer s)"
  shows "if retransmitTries s < retransmitMaxAttempts
     then blocked (handleOutgoing e s) \<and> errState (handleOutgoing e s) = None \<and>
       retransmitTries (handleOutgoing e s) = Suc (retransmitTries s) \<and>
       retransmitTimer (handleOutgoing e s) = now e \<and> sendQueue (handleOutgoing e s) = sendQueue s
     else errState (handleOutgoing e s) = Some MaxRetransmits \<and>
       sendQueue (handleOutgoing e s) = sendQueue s"
  using assms
  by (auto simp: handleOutgoing_def trimAcked_def retransmitStep_def blocked_def Let_def sendRaw_ok)

lemma Pump_blocked_step:
  assumes "blocked s" "errState s = None"
  shows "\<exists>s'. snd (Pump e s) = handleOutgoing e s' \<and> blocked s' \<and> errState s' = None \<and>
    sendQueue s' = sendQueue s \<and> retransmitTries s' = retransmitTries s \<and>
    retransmitTimer s' = retransmitTimer s"
  using assms
  by (auto simp: Pump_def Let_def sendHBT_def enqueue_unsequenced blocked_def sendRaw_ok)

fun pump_all :: "env list \<Rightarrow> Session \<Rightarrow> Session" where
  "pump_all [] s = s"
| "pump_all (e # es) s = pump_all es (snd (Pump e s))"

text \<open>Pump ticks, each more than one retransmit cycle after the one before.\<close>

fun spaced :: "time \<Rightarrow> env list \<Rightarrow> bool" where
  "spaced t [] = True"
| "spaced t (e # es) = (retransmitCycleInterval < time_sub (now e) t \<and> spaced (now e) es)"

text \<open>
  While the tries last the session stays blocked and alive, with one more try for every tick; the tick
  after the last try sets the error.
\<close>

lemma Pump_blocked:
  assumes "blocked s" "errState s = None"
    and "retransmitCycleInterval < time_sub (now e) (retransmitTimer s)"
  shows "if retransmitTries s < retransmitMaxAttempts
     then blocked (snd (Pump e s)) \<and> errState (snd (Pump e s)) = None \<and>
       retransmitTries (snd (Pump e s)) = Suc (retransmitTries s) \<and>
       retransmitTimer (snd (Pump e s)) = now e \<and> sendQueue (snd (Pump e s)) = sendQueue s
     else errState (snd (Pump e s)) = Some MaxRetransmits \<and> sendQueue (snd (Pump e s)) = sendQueue s"
proof -
  obtain s' where s': "snd (Pump e s) = handleOutgoing e s'" "blocked s'" "errState s' = None"
    "sendQueue s' = sendQueue s" "retransmitTries s' = retransmitTries s"
    "retransmitTimer s' = retransmitTimer s"
    using Pump_blocked_step [OF assms(1,2), of e] by blast
  then show ?thesis
    using handleOutgoing_blocked [of s' e] assms(3) by simp
qed

lemma pump_all_trying:
  assumes "blocked s" "errState s = None" "spaced (retransmitTimer s) es"
    and "retransmitTries s + length es \<le> retransmitMaxAttempts"
  shows "blocked (pump_all es s) \<and> errState (pump_all es s) = None \<and>
    retransmitTries (pump_all es s) = retransmitTries s + length es \<and>
    sendQueue (pump_all es s) = sendQueue s"
  using assms
proof (induction es arbitrary: s)
  case Nil
  then show ?case by simp
next
  case (Cons e es)
  then have "retransmitCycleInterval < time_sub (now e) (retransmitTimer s)" by simp
  from Pump_blocked [OF Cons.prems(1,2) this] Cons.prems Cons.IH [of "snd (Pump e s)"]
  show ?case by simp
qed

lemma spaced_take: "spaced t es \<Longrightarrow> spaced t (take k es)"
  by (induction t es arbitrary: k rule: spaced.induct) (auto simp: take_Cons split: nat.splits)

lemma pump_all_blocked:
  assumes "blocked s" "errState s = None" "spaced (retransmitTimer s) es"
    and "retransmitTries s \<le> retransmitMaxAttempts"
    and "length es = Suc retransmitMaxAttempts - retransmitTries s"
  shows "errState (pump_all es s) = Some MaxRetransmits \<and> sendQueue (pump_all es s) = sendQueue s"
  using assms
proof (induction es arbitrary: s)
  case Nil
  then show ?case by simp
next
  case (Cons e es)
  then have "retransmitCycleInterval < time_sub (now e) (retransmitTimer s)" by simp
  note out = Pump_blocked [OF Cons.prems(1,2) this]
  show ?case
  proof (cases "retransmitTries s < retransmitMaxAttempts")
    case True
    with out Cons.prems Cons.IH [of "snd (Pump e s)"] show ?thesis by simp
  next
    case False
    with Cons.prems have "es = []" by simp
    with out False show ?thesis by simp
  qed
qed

text \<open>
  C33: an established session that can transmit, whose peer never acknowledges the packet being
  retransmitted and which is pumped once per retransmit cycle, dies after exactly 161 cycles: after any number
  of cycles below that it is alive, with one retransmission counted for every cycle, the 161st sets the
  error, and all the while nothing new leaves its queue.
\<close>

theorem dead_peer_detected:
  assumes "blocked s" "errState s = None" "retransmitTries s = 0"
    and "spaced (retransmitTimer s) es" "length es = 161"
  shows "(\<forall>k\<le>160. errState (pump_all (take k es) s) = None \<and>
            retransmitTries (pump_all (take k es) s) = k \<and>
            sendQueue (pump_all (take k es) s) = sendQueue s) \<and>
    errState (pump_all es s) = Some MaxRetransmits \<and> sendQueue (pump_all es s) = sendQueue s"
proof (intro conjI allI impI)
  fix k :: nat
  assume k: "k \<le> 160"
  then have "length (take k es) = k" using assms(5) by simp
  with pump_all_trying [OF assms(1,2) spaced_take [OF assms(4)], of k] assms(3) k
  show "errState (pump_all (take k es) s) = None"
    "retransmitTries (pump_all (take k es) s) = k"
    "sendQueue (pump_all (take k es) s) = sendQueue s"
    by (simp_all add: retransmitMaxAttempts_def)
qed (use pump_all_blocked [OF assms(1,2,4)] assms(3,5) in \<open>simp_all add: retransmitMaxAttempts_def\<close>)

definition demo_tick :: "nat \<Rightarrow> env" where
  "demo_tick i = \<lparr>now = second * int i, rnd = (0, 0)\<rparr>"

definition demo_blocked :: Session where
  "demo_blocked = demo_session\<lparr>isRetransmit := True, retransmitIndex := 7,
     retransmitPkt := demo_packet 7, retransmitTimer := second\<rparr>"

lemma spaced_ticks: "spaced (now (demo_tick a)) (map demo_tick [Suc a..<b])"
proof (induction "b - a" arbitrary: a)
  case 0
  then show ?case by simp
next
  case (Suc k)
  have "retransmitCycleInterval < time_sub (now (demo_tick (Suc a))) (now (demo_tick a))"
    by (simp add: demo_tick_def time_sub_def maxDuration_def retransmitCycleInterval_def
        second_def millisecond_def algebra_simps)
  with Suc.hyps(1) [of "Suc a"] Suc.hyps(2) show ?case
    by (cases "Suc a < b") (simp_all add: upt_conv_Cons)
qed

lemma demo_blocked_facts:
  "blocked demo_blocked" "errState demo_blocked = None" "retransmitTries demo_blocked = 0"
  "retransmitTimer demo_blocked = now (demo_tick 1)" "sendQueue demo_blocked = []"
  by (simp_all add: blocked_def demo_blocked_def demo_session_def newSession_def demo_tick_def
      seqAtOrBefore_def seqDelta_def maxAckValue_def)

theorem dead_peer_detected_witness:
  "errState (pump_all (take 160 (map demo_tick [2..<163])) demo_blocked) = None \<and>
   errState (pump_all (map demo_tick [2..<163]) demo_blocked) = Some MaxRetransmits"
proof -
  have sp: "spaced (retransmitTimer demo_blocked) (map demo_tick [Suc 1..<163])"
    unfolding demo_blocked_facts by (rule spaced_ticks)
  have len: "length (map demo_tick [Suc 1..<163]) = 161" by simp
  show ?thesis
    using dead_peer_detected [OF demo_blocked_facts(1-3) sp len] unfolding Suc_1 by (metis order_refl)
qed

end
