(* ===== verification/Rudp_Findings.thy ===== *)
theory Rudp_Findings
  imports Rudp_Delivery
begin

section \<open>Corner cases of a session\<close>

text \<open>
  Three behaviours of internal/frpg/rudp/session.go that its own comments do not expect: a reset
  leaves the retransmit block behind, a session whose first number lies in the upper half of the
  sequence space drops its packets unacknowledged, and fragments marked partial are outside the
  sequencing.
\<close>

lemma Pump_sendQueue_blocked:
  assumes "isRetransmit s" "\<not> seqAtOrBefore (retransmitIndex s) (sequenceIndexAcked s)"
    and "sess_state s \<noteq> StateClosing" "sess_state s \<noteq> StateClosed"
  shows "sendQueue (snd (Pump e s)) = sendQueue s \<and> retransmitPkt (snd (Pump e s)) = retransmitPkt s"
proof -
  have "sendQueue (handleOutgoing e s') = sendQueue s' \<and>
      retransmitPkt (handleOutgoing e s') = retransmitPkt s'"
    if "isRetransmit s'" "\<not> seqAtOrBefore (retransmitIndex s') (sequenceIndexAcked s')" for s'
    using that by (simp add: handleOutgoing_def trimAcked_def retransmitStep_def Let_def)
  with assms show ?thesis
    by (simp add: Pump_def Let_def sendHBT_def sendSYN_def enqueue_unsequenced)
qed

lemma Feed_unsequenced:
  assumes "packet_ok p" "\<not> isSequenced (opcode p)" "pendingReceive s = []"
  shows "Feed e s (encode p) = processPacket e (s\<lparr>lastPacketReceived := now e\<rparr>) p"
proof -
  let ?s = "processPacket e (s\<lparr>lastPacketReceived := now e\<rparr>) p"
  have "pendingReceive ?s = []"
    using assms(3) processPacket_pending [of e "s\<lparr>lastPacketReceived := now e\<rparr>" p] by auto
  with assms show ?thesis by (simp add: Feed_encode handleIncomingPacket_def Let_def)
qed

lemma not_at_or_before_0: "0 < i \<Longrightarrow> i \<le> 2048 \<Longrightarrow> \<not> seqAtOrBefore i 0"
proof -
  assume "0 < i" "i \<le> 2048"
  then have "0 < uint i" "uint i \<le> 2048"
    by (simp_all add: word_less_def word_le_def)
  then have "(- uint i) mod 4096 = 4096 - uint i"
    by (simp add: zmod_zminus1_eq_if)
  with \<open>uint i \<le> 2048\<close> show "\<not> seqAtOrBefore i 0"
    by (simp add: seqAtOrBefore_uint)
qed

lemma at_or_before_0: "2048 < i \<Longrightarrow> i < 4096 \<Longrightarrow> seqAtOrBefore i 0"
proof -
  assume "2048 < i" "i < 4096"
  then have "2048 < uint i" "uint i < 4096"
    by (simp_all add: word_less_def)
  then have "(- uint i) mod 4096 = 4096 - uint i"
    by (simp add: zmod_zminus1_eq_if)
  with \<open>2048 < uint i\<close> show "seqAtOrBefore i 0"
    by (simp add: seqAtOrBefore_uint)
qed

text \<open>
  A reset (RST) received while a packet of the old connection is being retransmitted empties the
  queues but not the retransmit block. When that packet's number is between 1 and 2048, what is sent
  after the reset stays in the queue and the packet that will be retransmitted is the old one.
\<close>

theorem rst_keeps_stale_retransmit:
  fixes e1 e2 e3 :: env and b :: bytes
  assumes "sess_inv s" "isRetransmit s" "0 < retransmitIndex s" "retransmitIndex s \<le> 2048"
    and "packet_ok p" "opcode p = OpRST"
  defines "t \<equiv> SendData e2 (Feed e1 s (encode p)) b"
  shows "retransmitBuf t = [] \<and> length (sendQueue t) = 1 \<and>
    sendQueue (snd (Pump e3 t)) = sendQueue t \<and> retransmitPkt (snd (Pump e3 t)) = retransmitPkt s"
proof -
  have "Feed e1 s (encode p) = reset e1 (s\<lparr>lastPacketReceived := now e1, sess_state := StateListening\<rparr>)"
    using assms by (simp add: Feed_unsequenced sess_inv_def processPacket_cases)
  then have t: "retransmitBuf t = []" "length (sendQueue t) = 1" "isRetransmit t"
    "retransmitIndex t = retransmitIndex s" "sequenceIndexAcked t = 0" "sess_state t = StateListening"
    "retransmitPkt t = retransmitPkt s"
    using assms(2) by (simp_all add: t_def SendData_def enqueue_def reset_def)
  then have "\<not> seqAtOrBefore (retransmitIndex t) (sequenceIndexAcked t)"
    using assms(3,4) by (simp add: not_at_or_before_0)
  with t Pump_sendQueue_blocked [of t e3] show ?thesis by simp
qed

lemma demo_blocked_more:
  "sess_inv demo_blocked" "isRetransmit demo_blocked" "retransmitIndex demo_blocked = 7"
  "retransmitPkt demo_blocked = demo_packet 7"
  by (simp_all add: demo_blocked_def demo_packet_def sess_inv_def sess_wf_def demo_session_def
      newSession_def randSequence_def maxPacketsInFlight_def seq_ok_def maxAckValue_def)

theorem rst_keeps_stale_retransmit_witness:
  "retransmitPkt (snd (Pump demo_env
     (SendData demo_env (Feed demo_env demo_blocked (encode (mk_packet OpRST 0 0 []))) [1]))) =
   demo_packet 7"
  using rst_keeps_stale_retransmit [of demo_blocked "mk_packet OpRST 0 0 []" demo_env demo_env "[1]" demo_env]
  by (simp add: demo_blocked_more)

lemma flushQueue_idle: "sendQueue s = [] \<Longrightarrow> flushQueue e k s = s"
  by (cases k) simp_all

lemma flush_one:
  assumes "sendQueue s = [op]" "retransmitBuf s = []" "\<not> isRetransmit s"
  shows "flushQueue e maxPacketsPerPump s =
    sendRaw (s\<lparr>sendQueue := [], retransmitBuf := [op\<lparr>rawSendTime := now e\<rparr>]\<rparr>) (pkt op)"
proof -
  have "flushQueue e (Suc 7) s =
      sendRaw (s\<lparr>sendQueue := [], retransmitBuf := [op\<lparr>rawSendTime := now e\<rparr>]\<rparr>) (pkt op)"
    unfolding flushQueue.simps using assms by (simp add: maxPacketsInFlight_def flushQueue_idle)
  moreover have "maxPacketsPerPump = Suc 7"
    by (simp add: maxPacketsPerPump_def)
  ultimately show ?thesis by (simp only:)
qed

text \<open>
  A fresh session counts number 0 as acknowledged, so when its first number lies in the upper
  half of the space (2049 to 4095) its packets look acknowledged from the start: a packet is sent
  once and the next pump forgets it, with no acknowledgement from the peer and no error.
\<close>

theorem upper_half_sent_once:
  fixes e0 e1 e2 e3 :: env and b :: bytes
  assumes "2048 < n" "n < 4096" "\<forall>w. snd_fn w = None"
  defines "s0 \<equiv> WithInitialSequence n (NewServerSession e0 snd_fn)"
  defines "s1 \<equiv> snd (Pump e2 (SendData e1 s0 b))"
  shows "wire s1 = [(encode (mk_packet OpDAT n 0 b), False)] \<and> length (retransmitBuf s1) = 1 \<and>
    sequenceIndexAcked s1 = 0 \<and> retransmitBuf (snd (Pump e3 s1)) = [] \<and>
    sendQueue (snd (Pump e3 s1)) = [] \<and> wire (snd (Pump e3 s1)) = wire s1 \<and>
    fst (Pump e3 s1) = None"
proof -
  have n: "n mod maxAckValue = n"
    using assms(2) by (simp add: maxAckValue_def word_less_def word_uint_eq_iff uint_mod)
  let ?s = "SendData e1 s0 b" and ?p = "mk_packet OpDAT n 0 b"
  have s: "sendQueue ?s = [\<lparr>pkt = ?p, sendTime = now e1, rawSendTime = 0\<rparr>]" "retransmitBuf ?s = []"
    "\<not> isRetransmit ?s" "sess_state ?s = StateListening" "errState ?s = None" "wire ?s = []"
    "sequenceIndexAcked ?s = 0" "send ?s = snd_fn"
    by (simp_all add: s0_def SendData_def enqueue_def WithInitialSequence_def NewServerSession_def
        newSession_def mk_packet_def n OpUnset_def)
  have s1: "s1 = sendRaw (?s\<lparr>sendQueue := [],
      retransmitBuf := [\<lparr>pkt = ?p, sendTime = now e1, rawSendTime = now e2\<rparr>]\<rparr>) ?p"
    using s by (simp add: s1_def Pump_def Let_def handleOutgoing_def trimAcked_def retransmitStep_def flush_one)
  have f: "sendQueue s1 = []" "\<not> isRetransmit s1" "sess_state s1 = StateListening"
    "sequenceIndexAcked s1 = 0" "errState s1 = None" "wire s1 = [(encode ?p, False)]"
    "retransmitBuf s1 = [\<lparr>pkt = ?p, sendTime = now e1, rawSendTime = now e2\<rparr>]"
    using s assms(3) by (simp_all add: s1 sendRaw_ok wire_sendRaw)
  have "seqAtOrBefore n 0"
    using assms(1,2) by (rule at_or_before_0)
  then have "snd (Pump e3 s1) = s1\<lparr>retransmitBuf := []\<rparr>" "fst (Pump e3 s1) = None"
    using f flushQueue_idle [of "s1\<lparr>retransmitBuf := []\<rparr>"]
    by (simp_all add: Pump_def Let_def handleOutgoing_def trimAcked_def retransmitStep_def)
  with f show ?thesis by simp
qed

theorem upper_half_sent_once_witness:
  "retransmitBuf (snd (Pump demo_env (snd (Pump demo_env (SendData demo_env
     (WithInitialSequence 3000 (NewServerSession demo_env (\<lambda>_. None))) [1]))))) = []"
  using upper_half_sent_once [of 3000 "\<lambda>_. None" demo_env demo_env demo_env "[1]" demo_env] by simp

text \<open>
  A DAT packet marked partial (opcode 0x08) is not sequenced. It is delivered and acknowledged
  at once whatever its number, so the same datagram received twice is delivered twice, and the
  next expected number does not move.
\<close>

theorem partial_fragment_redelivered:
  assumes "sess_inv s" "packet_ok p" "opcode p = OpPTDATFRAG"
  shows "received (Feed e2 (Feed e1 s (encode p)) (encode p)) = received s @ [item_of p, item_of p] \<and>
    remoteSequenceIndex (Feed e2 (Feed e1 s (encode p)) (encode p)) = remoteSequenceIndex s"
  using assms
  by (simp add: Feed_unsequenced sess_inv_def processPacket_cases handleDAT_def item_of_def)

theorem partial_fragment_redelivered_witness:
  "received (Feed demo_env (Feed demo_env demo_session (encode (mk_packet OpPTDATFRAG 9 0 [7])))
     (encode (mk_packet OpPTDATFRAG 9 0 [7]))) =
   [\<lparr>item_data = [7], item_ackSeq = 9\<rparr>, \<lparr>item_data = [7], item_ackSeq = 9\<rparr>]"
  using partial_fragment_redelivered [OF demo_session_facts(1), of "mk_packet OpPTDATFRAG 9 0 [7]" demo_env demo_env]
  by (simp add: demo_session_facts item_of_def seq_ok_def maxAckValue_def)

end
