(* ===== verification/Rudp_Message.thy ===== *)
theory Rudp_Message
  imports Rudp_Delivery
begin

section \<open>Game messages over a session\<close>

text \<open>
  internal/frpg/rudp/message.go: the message header, the split of a message into fragments of at
  most 900 bytes and their reassembly, and the connection that sends and receives whole messages.
  The zlib decoder is the argument \<open>inflate\<close> of the receiving operations: it maps the compressed
  bytes to the error of \<open>zlib.NewReader\<close> or \<open>io.ReadAll\<close>, or to the decompressed bytes.
\<close>

definition MsgReply :: u32 where "MsgReply = 0x0000"
definition MsgPush :: u32 where "MsgPush = 0x0320"
definition PushIndex :: u32 where "PushIndex = 0xFFFFFFFF"

definition msgHeaderSize :: nat where "msgHeaderSize = 12"
definition msgRespHeaderSize :: nat where "msgRespHeaderSize = 16"
definition maxFragmentLength :: nat where "maxFragmentLength = 900"

record Message =
  Type :: u32
  Index :: u32
  IsReply :: bool
  Payload :: bytes
  ackSeq :: u32

datatype msg_error =
    ShortMessage nat
  | ShortReply nat
  | ShortFragment nat
  | MissingDecompressedLength
  | ShortFragmentBody nat nat
  | ZlibFailed string
  | DecompressedLength nat nat

definition respHeader :: bytes where
  "respHeader = put_le32 0 @ put_le32 1 @ put_le32 0 @ put_le32 0"

definition encodeMessage :: "Message \<Rightarrow> bytes" where
  "encodeMessage m =
     put_be32 (word_of_nat msgHeaderSize) @ put_be32 (Type m) @ put_le32 (Index m) @
     (if IsReply m then respHeader else []) @ Payload m"

definition decodeMessage :: "bytes \<Rightarrow> u32 \<Rightarrow> msg_error + Message" where
  "decodeMessage b ack =
     (if length b < msgHeaderSize then Inl (ShortMessage (length b))
      else
        let msgType = get_be32 (slice 4 8 b);
            index = get_le32 (slice 8 12 b);
            isReply = (msgType = MsgReply)
        in if isReply \<and> length b < msgHeaderSize + msgRespHeaderSize
           then Inl (ShortReply (length b))
           else Inr \<lparr>Type = msgType, Index = index, IsReply = isReply,
                     Payload = drop (if isReply then msgHeaderSize + msgRespHeaderSize
                                     else msgHeaderSize) b,
                     ackSeq = ack\<rparr>)"


subsection \<open>Fragments\<close>

definition fragmentHeader :: "u16 \<Rightarrow> nat \<Rightarrow> nat \<Rightarrow> nat \<Rightarrow> bytes" where
  "fragmentHeader counter tot i chunkLen =
     put_le16 counter @ [0, 0, 0, 0] @ put_be16 (word_of_nat tot) @ [0, word_of_nat i] @
     put_be16 (word_of_nat chunkLen)"

definition fragment :: "bytes \<Rightarrow> u16 \<Rightarrow> nat \<Rightarrow> bytes" where
  "fragment p counter i =
     (let start = i * maxFragmentLength;
          fin = min (start + maxFragmentLength) (length p);
          chunk = slice start fin p
      in fragmentHeader counter (length p) i (length chunk) @ chunk)"

definition fragmentCount :: "bytes \<Rightarrow> nat" where
  "fragmentCount p =
     (let count = (length p + maxFragmentLength - 1) div maxFragmentLength
      in if count = 0 then 1 else count)"

definition encodeFragments :: "bytes \<Rightarrow> u16 \<Rightarrow> bytes list" where
  "encodeFragments p counter = map (fragment p counter) [0..<fragmentCount p]"

record reassembler =
  rbuf :: bytes
  rreceived :: nat
  rtotal :: nat
  rcompress :: bool
  rdecompLen :: u32
  ractive :: bool

definition reassembler0 :: reassembler where
  "reassembler0 = \<lparr>rbuf = [], rreceived = 0, rtotal = 0, rcompress = False, rdecompLen = 0,
                   ractive = False\<rparr>"

type_synonym inflater = "bytes \<Rightarrow> string + bytes"

definition zlibInflate :: "inflater \<Rightarrow> bytes \<Rightarrow> nat \<Rightarrow> msg_error + bytes" where
  "zlibInflate inflate d expected =
     (case inflate d of
        Inl err \<Rightarrow> Inl (ZlibFailed err)
      | Inr out \<Rightarrow>
          if 0 < expected \<and> length out \<noteq> expected
          then Inl (DecompressedLength (length out) expected) else Inr out)"

text \<open>The part of \<open>push\<close> after the fragment is parsed: append the body and complete.\<close>

definition pushBody ::
  "inflater \<Rightarrow> reassembler \<Rightarrow> nat \<Rightarrow> bool \<Rightarrow> bytes \<Rightarrow> (msg_error + bytes option) \<times> reassembler" where
  "pushBody inflate r tot compressFlag body =
     (let r1 = (if ractive r then r
                else r\<lparr>ractive := True, rtotal := tot, rcompress := compressFlag, rbuf := [],
                       rreceived := 0\<rparr>);
          r2 = r1\<lparr>rbuf := rbuf r1 @ body, rreceived := rreceived r1 + length body\<rparr>
      in if rreceived r2 < rtotal r2 then (Inr None, r2)
         else if rcompress r2 then
           (case zlibInflate inflate (rbuf r2) (unat (rdecompLen r2)) of
              Inl err \<Rightarrow> (Inl err, reassembler0)
            | Inr out \<Rightarrow> (Inr (Some out), reassembler0))
         else (Inr (Some (rbuf r2)), reassembler0))"

definition push ::
  "inflater \<Rightarrow> reassembler \<Rightarrow> bytes \<Rightarrow> (msg_error + bytes option) \<times> reassembler" where
  "push inflate r frag =
     (if length frag < 12 then (Inl (ShortFragment (length frag)), r)
      else
        let compressFlag = (frag ! 2 \<noteq> 0);
            tot = unat (get_be16 (slice 6 8 frag));
            fragIndex = frag ! 9;
            fragLen = unat (get_be16 (slice 10 12 frag));
            hasLen = (compressFlag \<and> fragIndex = 0)
        in if hasLen \<and> length frag < 16 then (Inl MissingDecompressedLength, r)
           else
             let r' = (if hasLen then r\<lparr>rdecompLen := get_be32 (slice 12 16 frag)\<rparr> else r);
                 body = drop (if hasLen then 16 else 12) frag
             in if length body < fragLen
                then (Inl (ShortFragmentBody (length body) fragLen), r')
                else pushBody inflate r' tot compressFlag (take fragLen body))"


subsection \<open>The connection\<close>

record MessageConn =
  sess :: Session
  reasm :: reassembler
  counter :: u16
  nextIdx :: u32

definition NewMessageConn :: "Session \<Rightarrow> MessageConn" where
  "NewMessageConn s = \<lparr>sess = s, reasm = reassembler0, counter = 0, nextIdx = 0\<rparr>"

fun sendFragments :: "env \<Rightarrow> Session \<Rightarrow> bytes list \<Rightarrow> Session" where
  "sendFragments e s [] = s"
| "sendFragments e s (f # fs) = sendFragments e (SendData e s f) fs"

definition send_message :: "env \<Rightarrow> MessageConn \<Rightarrow> Message \<Rightarrow> bool \<Rightarrow> u32 \<Rightarrow> MessageConn" where
  "send_message e mc m reply ack =
     (let frags = encodeFragments (encodeMessage m) (counter mc);
          s' = (case frags of
                  [] \<Rightarrow> sess mc
                | f # fs \<Rightarrow>
                    sendFragments e (if reply then SendDataAck e (sess mc) f ack
                                     else SendData e (sess mc) f) fs)
      in mc\<lparr>sess := s', counter := counter mc + 1\<rparr>)"

definition SendRequest :: "env \<Rightarrow> MessageConn \<Rightarrow> u32 \<Rightarrow> bytes \<Rightarrow> MessageConn" where
  "SendRequest e mc msgType p =
     (let mc' = mc\<lparr>nextIdx := nextIdx mc + 1\<rparr>
      in send_message e mc'
           \<lparr>Type = msgType, Index = nextIdx mc', IsReply = False, Payload = p, ackSeq = 0\<rparr> False 0)"

definition SendReply :: "env \<Rightarrow> MessageConn \<Rightarrow> Message \<Rightarrow> bytes \<Rightarrow> MessageConn" where
  "SendReply e mc inReplyTo p =
     send_message e mc
       \<lparr>Type = MsgReply, Index = Index inReplyTo, IsReply = True, Payload = p, ackSeq = 0\<rparr>
       True (ackSeq inReplyTo)"

definition SendPush :: "env \<Rightarrow> MessageConn \<Rightarrow> bytes \<Rightarrow> MessageConn" where
  "SendPush e mc p =
     send_message e mc
       \<lparr>Type = MsgPush, Index = PushIndex, IsReply = False, Payload = p, ackSeq = 0\<rparr> False 0"

lemma Receive_SomeD: "Receive s = (Some it, s') \<Longrightarrow> received s = it # received s'"
  by (auto simp: Receive_def split: list.splits)

function Recv :: "inflater \<Rightarrow> MessageConn \<Rightarrow> (msg_error + Message option) \<times> MessageConn" where
  "Recv inflate mc =
     (case Receive (sess mc) of
        (None, s') \<Rightarrow> (Inr None, mc\<lparr>sess := s'\<rparr>)
      | (Some it, s') \<Rightarrow>
          case push inflate (reasm mc) (item_data it) of
            (Inl err, r') \<Rightarrow> (Inl err, mc\<lparr>sess := s', reasm := r'\<rparr>)
          | (Inr None, r') \<Rightarrow> Recv inflate (mc\<lparr>sess := s', reasm := r'\<rparr>)
          | (Inr (Some p), r') \<Rightarrow>
              (case decodeMessage p (item_ackSeq it) of
                 Inl err \<Rightarrow> (Inl err, mc\<lparr>sess := s', reasm := r'\<rparr>)
               | Inr m \<Rightarrow> (Inr (Some m), mc\<lparr>sess := s', reasm := r'\<rparr>)))"
  by pat_completeness auto
termination
  by (relation "measure (\<lambda>(i, mc). length (received (sess mc)))")
    (auto dest: Receive_SomeD Receive_SomeD [OF sym])

declare Recv.simps [simp del]


subsection \<open>Round trips\<close>

definition msg_ok :: "Message \<Rightarrow> bool" where
  "msg_ok m \<longleftrightarrow> (IsReply m \<longleftrightarrow> Type m = MsgReply)"

lemma length_respHeader [simp]: "length respHeader = 16"
  by (simp add: respHeader_def)

lemma length_encodeMessage:
  "length (encodeMessage m) = 12 + (if IsReply m then 16 else 0) + length (Payload m)"
  by (simp add: encodeMessage_def)

lemma decode_encodeMessage:
  assumes "msg_ok m"
  shows "decodeMessage (encodeMessage m) a = Inr (m\<lparr>ackSeq := a\<rparr>)"
proof -
  have "slice 4 8 (encodeMessage m) = put_be32 (Type m)"
    and "slice 8 12 (encodeMessage m) = put_le32 (Index m)"
    by (simp_all add: encodeMessage_def wire_simps)
  with assms show ?thesis
    by (auto simp: decodeMessage_def length_encodeMessage msgHeaderSize_def msgRespHeaderSize_def
        msg_ok_def Let_def encodeMessage_def intro!: Message.equality)
qed

interpretation msg_codec: wire_codec encodeMessage "\<lambda>b. decodeMessage b a"
  "\<lambda>m. msg_ok m \<and> ackSeq m = a" for a
proof unfold_locales
  fix m assume "msg_ok m \<and> ackSeq m = a"
  then show "decodeMessage (encodeMessage m) a = Inr m"
    using decode_encodeMessage [of m a] by auto
qed

lemma length_fragmentHeader [simp]: "length (fragmentHeader c tot i n) = 12"
  by (simp add: fragmentHeader_def)

lemma fragmentHeader_fields:
  "(fragmentHeader c tot i n @ b) ! 2 = 0"
  "slice 6 8 (fragmentHeader c tot i n @ b) = put_be16 (word_of_nat tot)"
  "slice 10 12 (fragmentHeader c tot i n @ b) = put_be16 (word_of_nat n)"
proof -
  show "(fragmentHeader c tot i n @ b) ! 2 = 0"
    by (simp add: fragmentHeader_def nth_append)
  show "slice 6 8 (fragmentHeader c tot i n @ b) = put_be16 (word_of_nat tot)"
    "slice 10 12 (fragmentHeader c tot i n @ b) = put_be16 (word_of_nat n)"
    unfolding fragmentHeader_def by (simp_all add: wire_simps slice_def put_le16_def put_be16_def)
qed

lemma length_chunk:
  "length (slice (i * 900) (min (i * 900 + 900) (length p)) p) \<le> 900"
  by (simp add: length_slice)

lemma push_fragment:
  "push inflate r (fragment p c i) =
     pushBody inflate r (length p mod 65536) False
       (slice (i * 900) (min (i * 900 + 900) (length p)) p)"
proof -
  let ?ch = "slice (i * 900) (min (i * 900 + 900) (length p)) p"
  have "unat (word_of_nat (length ?ch) :: u16) = length ?ch"
    using length_chunk [of i p] by (simp add: unat_of_nat)
  then show ?thesis
    by (simp add: push_def fragment_def fragmentHeader_fields Let_def maxFragmentLength_def
        unat_of_nat)
qed

text \<open>The reassembler after \<open>i\<close> fragments of a message.\<close>

definition mid_reassembly :: "bytes \<Rightarrow> nat \<Rightarrow> reassembler \<Rightarrow> bool" where
  "mid_reassembly p i r \<longleftrightarrow>
     (if i = 0 then \<not> ractive r
      else ractive r \<and> rtotal r = length p \<and> \<not> rcompress r \<and> rbuf r = take (i * 900) p \<and>
           rreceived r = i * 900)"

lemma take_slice:
  "i * 900 \<le> length p \<Longrightarrow>
     take (i * 900) p @ slice (i * 900) (min (i * 900 + 900) (length p)) p = take (Suc i * 900) p"
  by (simp add: slice_def take_add [symmetric] min_def add.commute)

lemma push_mid:
  assumes "mid_reassembly p i r" "length p < 65536" "i * 900 < length p"
  shows "if Suc i * 900 < length p
    then \<exists>r'. push inflate r (fragment p c i) = (Inr None, r') \<and> mid_reassembly p (Suc i) r'
    else push inflate r (fragment p c i) = (Inr (Some p), reassembler0)"
proof -
  define ch where "ch = slice (i * 900) (min (i * 900 + 900) (length p)) p"
  have len: "length ch = min 900 (length p - i * 900)"
    by (simp add: ch_def length_slice min_def) linarith
  have buf: "take (i * 900) p @ ch = take (Suc i * 900) p"
    unfolding ch_def using assms(3) by (intro take_slice) simp
  have "push inflate r (fragment p c i) = pushBody inflate r (length p) False ch"
    using assms(2) by (simp add: push_fragment ch_def)
  with assms(1,3) len buf show ?thesis
    by (cases "i = 0") (auto simp: pushBody_def Let_def mid_reassembly_def)
qed

lemma fragmentCount_eq: "p \<noteq> [] \<Longrightarrow> fragmentCount p = Suc ((length p - 1) div 900)"
proof -
  assume "p \<noteq> []"
  then obtain n where "length p = Suc n" by (cases p) simp_all
  moreover from this have "length p + 900 - 1 = n + 900" by simp
  ultimately show ?thesis
    by (simp only: fragmentCount_def maxFragmentLength_def Let_def div_add_self2) simp
qed

lemma last_fragment: "p \<noteq> [] \<Longrightarrow> Suc i < fragmentCount p \<longleftrightarrow> Suc i * 900 < length p"
  by (cases p) (auto simp: fragmentCount_eq less_eq_div_iff_mult_less_eq Suc_le_eq)


lemma Recv_fragments:
  assumes "received (sess mc) = items @ rest"
    and "map item_data items = map (fragment p c) [i..<fragmentCount p]"
    and "mid_reassembly p i (reasm mc)" "i < fragmentCount p" "p \<noteq> []" "length p < 65536"
    and "decodeMessage p (item_ackSeq (last items)) = Inr m"
  shows "\<exists>mc'. Recv inflate mc = (Inr (Some m), mc') \<and> received (sess mc') = rest \<and>
    reasm mc' = reassembler0"
  using assms
proof (induction "fragmentCount p - i" arbitrary: i mc items)
  case 0
  then show ?case by simp
next
  case (Suc k)
  then obtain it its where items: "items = it # its" "item_data it = fragment p c i"
    "map item_data its = map (fragment p c) [Suc i..<fragmentCount p]"
    by (auto simp: upt_conv_Cons)
  have rec: "Receive (sess mc) = (Some it, sess mc\<lparr>received := its @ rest\<rparr>)"
    using Suc.prems(1) items by (simp add: Receive_def)
  have below: "i * 900 < length p"
    using Suc.prems last_fragment [of p "i - 1"] by (cases i) simp_all
  show ?case
  proof (cases "Suc i < fragmentCount p")
    case True
    then have "Suc i * 900 < length p"
      using Suc.prems last_fragment by blast
    then obtain r' where r': "push inflate (reasm mc) (fragment p c i) = (Inr None, r')"
      "mid_reassembly p (Suc i) r'"
      using push_mid [OF Suc.prems(3) Suc.prems(6) below, of inflate c] by auto
    let ?mc = "mc\<lparr>sess := sess mc\<lparr>received := its @ rest\<rparr>, reasm := r'\<rparr>"
    have "Recv inflate mc = Recv inflate ?mc"
      using rec r'(1) items(2) by (subst Recv.simps) simp
    moreover have "its \<noteq> []"
      using items(3) True by (auto simp: upt_conv_Cons)
    ultimately show ?thesis
      using Suc.hyps(1) [of "Suc i" ?mc its] Suc.hyps(2) Suc.prems items True r'(2) by simp
  next
    case False
    then have "\<not> Suc i * 900 < length p"
      using Suc.prems last_fragment by blast
    then have "push inflate (reasm mc) (fragment p c i) = (Inr (Some p), reassembler0)"
      using push_mid [OF Suc.prems(3) Suc.prems(6) below, of inflate c] by auto
    moreover have "its = []"
      using items(3) False by simp
    ultimately show ?thesis
      using rec items Suc.prems(7) by (subst Recv.simps) simp
  qed
qed


subsection \<open>What a sent message puts into the queue\<close>

fun dat_stream :: "u32 \<Rightarrow> bytes list \<Rightarrow> packet list" where
  "dat_stream n [] = []"
| "dat_stream n (f # fs) = mk_packet OpDAT n 0 f # dat_stream (seqNext n) fs"

definition message_stream :: "u32 \<Rightarrow> bool \<Rightarrow> u32 \<Rightarrow> bytes list \<Rightarrow> packet list" where
  "message_stream n reply ack fs =
     (case fs of
        [] \<Rightarrow> []
      | f # fs' \<Rightarrow>
          (if reply \<and> 0 < ack then mk_packet OpDATACK n ack f else mk_packet OpDAT n 0 f)
            # dat_stream (seqNext n) fs')"

lemma SendDataAck_queue:
  assumes "sess_state s \<noteq> StateClosing"
  shows "map pkt (sendQueue (SendDataAck e s f ack)) = map pkt (sendQueue s) @
      [if 0 < ack then mk_packet OpDATACK (sequenceIndex s) ack f
       else mk_packet OpDAT (sequenceIndex s) 0 f]"
    and "sequenceIndex (SendDataAck e s f ack) = seqNext (sequenceIndex s)"
    and "sess_state (SendDataAck e s f ack) = sess_state s"
  using assms
  by (simp_all add: SendDataAck_def enqueue_def mk_packet_def seqNext_def word_gt_0)

lemma SendData_as_ack: "SendData e s f = SendDataAck e s f 0"
  by (simp add: SendData_def SendDataAck_def)

lemma sendFragments_queue:
  "sess_state s \<noteq> StateClosing \<Longrightarrow>
     map pkt (sendQueue (sendFragments e s fs)) =
       map pkt (sendQueue s) @ dat_stream (sequenceIndex s) fs"
proof (induction fs arbitrary: s)
  case Nil
  then show ?case by simp
next
  case (Cons f fs)
  then have "sess_state (SendData e s f) \<noteq> StateClosing"
    by (simp add: SendData_as_ack SendDataAck_queue)
  with Cons show ?case
    by (simp add: SendData_as_ack SendDataAck_queue)
qed

lemma send_message_queue:
  assumes "sess_state (sess mc) \<noteq> StateClosing"
  shows "map pkt (sendQueue (sess (send_message e mc m reply ack))) =
    map pkt (sendQueue (sess mc)) @ message_stream (sequenceIndex (sess mc)) reply ack
      (encodeFragments (encodeMessage m) (counter mc))"
  using assms
  by (simp add: send_message_def message_stream_def Let_def sendFragments_queue SendDataAck_queue
      SendData_as_ack split: list.split)

lemma dat_stream_numbered: "seqNext n = k \<Longrightarrow> numbered n (dat_stream k fs)"
  by (induction fs arbitrary: n k) auto

lemma payload_dat_stream: "map payload (dat_stream n fs) = fs"
  by (induction fs arbitrary: n) auto

lemma is_data_dat_stream: "seq_ok n \<Longrightarrow> list_all is_data (dat_stream n fs)"
  by (induction fs arbitrary: n) (auto simp: is_data_def)

lemma message_stream_facts:
  assumes "seq_ok k" "reply \<longrightarrow> seq_ok ack" "seqNext n = k"
  shows "numbered n (message_stream k reply ack fs)"
    and "map payload (message_stream k reply ack fs) = fs"
    and "list_all is_data (message_stream k reply ack fs)"
  using assms is_data_dat_stream [of "seqNext k"]
  by (auto simp: message_stream_def dat_stream_numbered payload_dat_stream is_data_def
      split: list.split)

text \<open>
  C2: end to end. A message handed to one side of a connection and split into fragments, whose packets
  then cross a network that may lose, repeat and reorder them as long as each is received at least
  once after the ones before it, comes out of the other side's \<open>Recv\<close> whole and unchanged, ready to be
  acknowledged by the number of its last packet. The message with its header is shorter than 65536
  bytes, the largest length the fragment header can carry.
\<close>

theorem message_end_to_end:
  fixes e :: env
  assumes "msg_ok m" "length (encodeMessage m) < 65536" "reply \<longrightarrow> seq_ok ack"
    and "sess_inv (sess a)" "sess_state (sess a) \<noteq> StateClosing"
    and "sess_inv (sess b)" "sess_state (sess b) = StateEstablished"
    and "received (sess b) = []" "reasm b = reassembler0"
    and "nextRemoteSequence (sess b) = sequenceIndex (sess a)"
  defines "pkts \<equiv> drop (length (sendQueue (sess a)))
    (map pkt (sendQueue (sess (send_message e a m reply ack))))"
  assumes "snd ` set evs \<subseteq> set pkts" "subseq pkts (map snd evs)"
  shows "\<exists>b'. Recv inflate (b\<lparr>sess := feed_all evs (sess b)\<rparr>) =
    (Inr (Some (m\<lparr>ackSeq := local_seq (last pkts)\<rparr>)), b') \<and>
    received (sess b') = [] \<and> reasm b' = reassembler0"
proof -
  let ?p = "encodeMessage m"
  let ?fs = "encodeFragments ?p (counter a)"
  have pkts: "pkts = message_stream (sequenceIndex (sess a)) reply ack ?fs"
    unfolding pkts_def send_message_queue [OF assms(5)] by simp
  have k: "seq_ok (sequenceIndex (sess a))" and n: "seq_ok (remoteSequenceIndex (sess b))"
    and pend: "pendingReceive (sess b) = []"
    using assms(4,6) by (auto simp: sess_inv_def sess_wf_def)
  have "seqNext (remoteSequenceIndex (sess b)) = sequenceIndex (sess a)"
    using assms(10) by (simp add: nextRemote_seqNext)
  note facts = message_stream_facts [OF k assms(3) this, of ?fs, folded pkts]
  have ne: "?p \<noteq> []"
    using length_encodeMessage [of m] by auto
  have "length pkts = length (map payload pkts)"
    by simp
  also have "\<dots> = fragmentCount ?p"
    unfolding facts(2) by (simp add: encodeFragments_def)
  also have "\<dots> < 4096"
    using assms(2) ne by (simp add: fragmentCount_eq div_less_iff_less_mult)
  finally have short: "length pkts < 4096" .
  have "list_all (\<lambda>(e, p). is_data p) evs"
    using facts(3) assms(12) by (auto simp: list_all_iff)
  moreover have "accepted (remoteSequenceIndex (sess b)) (map snd evs) = pkts"
    using n facts(1) short assms(12,13) by (intro accepted_complete) auto
  ultimately have got: "received (feed_all evs (sess b)) = map item_of pkts"
    using feed_all_refines [of evs "sess b"] assms(7,8) pend by simp
  have nonempty: "0 < fragmentCount ?p"
    using ne by (simp add: fragmentCount_eq)
  then have "pkts \<noteq> []"
    using \<open>length pkts = length (map payload pkts)\<close> facts(2) by (auto simp: encodeFragments_def)
  then have dec: "decodeMessage ?p (item_ackSeq (last (map item_of pkts))) =
      Inr (m\<lparr>ackSeq := local_seq (last pkts)\<rparr>)"
    using decode_encodeMessage [OF assms(1)] by (simp add: last_map item_of_def)
  have "map item_data (map item_of pkts) = map (fragment ?p (counter a)) [0..<fragmentCount ?p]"
    using facts(2) by (simp add: item_of_def comp_def encodeFragments_def)
  then show ?thesis
    using got ne nonempty assms(2,9) dec
    by (intro Recv_fragments [where rest = "[]" and i = 0])
      (auto simp: mid_reassembly_def reassembler0_def)
qed


definition demo_message :: Message where
  "demo_message = \<lparr>Type = 0x03EA, Index = 1, IsReply = False, Payload = [8, 1], ackSeq = 0\<rparr>"

definition demo_sender :: MessageConn where
  "demo_sender = NewMessageConn (demo_session\<lparr>sequenceIndex := 0\<rparr>)"

definition demo_fragment :: packet where
  "demo_fragment = mk_packet OpDAT 0 0 (fragment (encodeMessage demo_message) 0 0)"

lemma demo_sender_facts:
  "sess_inv (sess demo_sender)" "sess_state (sess demo_sender) \<noteq> StateClosing"
  "sequenceIndex (sess demo_sender) = 0" "counter demo_sender = 0" "sendQueue (sess demo_sender) = []"
  using demo_session_facts
  by (simp_all add: demo_sender_def NewMessageConn_def sess_inv_def sess_wf_def demo_session_def
      newSession_def)

lemma demo_pkts:
  "map pkt (sendQueue (sess (send_message e demo_sender demo_message False 0))) = [demo_fragment]"
proof -
  have "length (encodeMessage demo_message) = 14"
    by (simp add: length_encodeMessage demo_message_def)
  then have "fragmentCount (encodeMessage demo_message) = 1"
    by (simp add: fragmentCount_def maxFragmentLength_def)
  then show ?thesis
    by (simp add: send_message_queue demo_sender_facts encodeFragments_def message_stream_def
        demo_fragment_def)
qed

theorem message_end_to_end_witness:
  "\<exists>b'. Recv Inr ((NewMessageConn demo_session)
       \<lparr>sess := feed_all [(demo_env, demo_fragment), (demo_env, demo_fragment)] demo_session\<rparr>) =
     (Inr (Some (demo_message\<lparr>ackSeq := 0\<rparr>)), b')"
proof -
  have "msg_ok demo_message" "length (encodeMessage demo_message) < 65536"
    by (simp_all add: msg_ok_def demo_message_def MsgReply_def length_encodeMessage)
  moreover have "nextRemoteSequence demo_session = sequenceIndex (sess demo_sender)"
    by (simp add: demo_session_facts demo_sender_facts nextRemoteSequence_def maxAckValue_def)
  moreover have "subseq [demo_fragment] [demo_fragment, demo_fragment]"
    by simp
  ultimately show ?thesis
    using message_end_to_end [of demo_message False 0 demo_sender "NewMessageConn demo_session"
        "[(demo_env, demo_fragment), (demo_env, demo_fragment)]" demo_env Inr]
    by (auto simp: demo_pkts demo_sender_facts demo_session_facts NewMessageConn_def
        demo_fragment_def)
qed

end
