(* ===== verification/Cwc.thy ===== *)
theory Cwc
  imports Prelude
begin

section \<open>AES-CWC authenticated encryption\<close>

text \<open>
  internal/crypto/cwc/cwc.go and hash.go: counter mode and the Carter-Wegman hash with the lazy
  reduction of the reference implementation. AES of the package crypto/aes is the argument \<open>aes\<close>:
  a key and a block give a block. What the proofs need of it is its documented block size, the
  predicate \<open>aes_block_size\<close>. The key-independent part works for any block function.
\<close>

definition ablkLen :: nat where "ablkLen = 12"
definition cblkLen :: nat where "cblkLen = 16"


subsection \<open>The hash\<close>

definition mask128 :: "nat \<Rightarrow> nat" where
  "mask128 x = take_bit 128 x"

fun swapWords :: "bytes \<Rightarrow> bytes" where
  "swapWords (a # b # c # d # rest) = d # c # b # a # swapWords rest"
| "swapWords rest = replicate (length rest) 0"

record polyHash =
  hashZ :: nat
  hashH :: nat

definition newPolyHash :: "nat \<Rightarrow> polyHash" where
  "newPolyHash z = \<lparr>hashZ = z, hashH = 0\<rparr>"

definition fold127 :: "nat \<Rightarrow> nat" where
  "fold127 x = (if bit x 127 then mask128 (unset_bit 127 x + 1) else x)"

definition update :: "polyHash \<Rightarrow> bytes \<Rightarrow> polyHash" where
  "update p buf =
     (let d = mask128 (be_nat (swapWords buf) + hashH p);
          prod = d * hashZ p;
          hi = drop_bit 128 prod;
          lo = mask128 prod;
          h1 = mask128 (push_bit 1 hi);
          (lo', h2) = (if bit lo 127 then (unset_bit 127 lo, mask128 (h1 + 1)) else (lo, h1));
          h3 = mask128 (h2 + lo')
      in p\<lparr>hashH := fold127 h3\<rparr>)"

definition finalize :: "polyHash \<Rightarrow> nat \<Rightarrow> nat \<Rightarrow> bytes" where
  "finalize p hdrLen dataLen =
     (let lenBlk = push_bit 64 (take_bit 64 hdrLen) OR take_bit 64 dataLen
      in be_bytes 16 (fold127 (mask128 (hashH p + lenBlk))))"


subsection \<open>The cipher\<close>

record Context =
  block :: "bytes \<Rightarrow> bytes"
  ctxZ :: nat

datatype cwc_error = InvalidKeyLength nat

definition NewContext :: "(bytes \<Rightarrow> bytes \<Rightarrow> bytes) \<Rightarrow> bytes \<Rightarrow> cwc_error + Context" where
  "NewContext aes key =
     (if length key \<notin> {16, 24, 32} then Inl (InvalidKeyLength (length key))
      else
        let zv = aes key (0xC0 # replicate 15 0);
            zv' = zv[0 := zv ! 0 AND 0x7f]
        in Inr \<lparr>block = aes key, ctxZ = be_nat zv'\<rparr>)"

text \<open>The field \<open>mbuf\<close> is the filled part \<open>s.buf[:s.bufLen]\<close> of the block buffer.\<close>

record msgState =
  mhash :: polyHash
  ctr :: bytes
  mbuf :: bytes

definition initMessage :: "Context \<Rightarrow> bytes \<Rightarrow> msgState" where
  "initMessage c iv =
     \<lparr>mhash = newPolyHash (ctxZ c), ctr = 0x80 # take 11 iv @ replicate 4 0, mbuf = []\<rparr>"

function beIncFrom :: "bytes \<Rightarrow> nat \<Rightarrow> bytes" where
  "beIncFrom b i =
     (if i < 12 then b
      else let b' = b[i := b ! i + 1] in if b' ! i \<noteq> 0 then b' else beIncFrom b' (i - 1))"
  by pat_completeness auto
termination by (relation "measure snd") auto

declare beIncFrom.simps [simp del]

definition beIncCtr :: "bytes \<Rightarrow> bytes" where
  "beIncCtr b = beIncFrom b 15"

function absorb :: "msgState \<Rightarrow> bytes \<Rightarrow> msgState" where
  "absorb s d =
     (if d = [] \<or> ablkLen \<le> length (mbuf s) then s
      else
        let n = min (ablkLen - length (mbuf s)) (length d);
            s1 = s\<lparr>mbuf := mbuf s @ take n d\<rparr>
        in absorb (if length (mbuf s1) = ablkLen
                   then s1\<lparr>mhash := update (mhash s1) (mbuf s1), mbuf := []\<rparr> else s1)
             (drop n d))"
  by pat_completeness auto
termination by (relation "measure (\<lambda>(s, d). length d)") auto

declare absorb.simps [simp del]

definition flush :: "msgState \<Rightarrow> msgState" where
  "flush s =
     (if mbuf s = [] then s
      else s\<lparr>mhash := update (mhash s) (mbuf s @ replicate (ablkLen - length (mbuf s)) 0),
             mbuf := []\<rparr>)"

function crypt :: "Context \<Rightarrow> bytes \<Rightarrow> bytes \<Rightarrow> bytes \<times> bytes" where
  "crypt c cb d =
     (if d = [] then ([], cb)
      else
        let cb' = beIncCtr cb;
            ks = block c cb';
            here = map2 (XOR) (take cblkLen d) ks;
            (rest, cb2) = crypt c cb' (drop cblkLen d)
        in (here @ rest, cb2))"
  by pat_completeness auto
termination by (relation "measure (\<lambda>(c, cb, d). length d)") (auto simp: cblkLen_def)

declare crypt.simps [simp del]

definition computeTag :: "Context \<Rightarrow> msgState \<Rightarrow> nat \<Rightarrow> nat \<Rightarrow> nat \<Rightarrow> bytes" where
  "computeTag c s hdrLen dataLen tagLen =
     (let hb = block c (finalize (mhash s) hdrLen dataLen);
          sblk = block c (take 12 (ctr s) @ replicate 4 0)
      in map (\<lambda>i. hb ! i XOR sblk ! i) [0..<tagLen])"

definition EncryptMessage :: "Context \<Rightarrow> bytes \<Rightarrow> bytes \<Rightarrow> bytes \<Rightarrow> nat \<Rightarrow> bytes \<times> bytes" where
  "EncryptMessage c iv hdr msg tagLen =
     (let s1 = flush (absorb (initMessage c iv) hdr);
          (ct, cb) = crypt c (ctr s1) msg;
          s2 = flush (absorb (s1\<lparr>ctr := cb\<rparr>) ct)
      in (ct, computeTag c s2 (length hdr) (length ct) tagLen))"

definition DecryptMessage :: "Context \<Rightarrow> bytes \<Rightarrow> bytes \<Rightarrow> bytes \<Rightarrow> bytes \<Rightarrow> bytes option" where
  "DecryptMessage c iv hdr ct tag =
     (let s1 = flush (absorb (initMessage c iv) hdr);
          s2 = flush (absorb s1 ct);
          want = computeTag c s2 (length hdr) (length ct) (length tag)
      in if want \<noteq> tag then None else Some (fst (crypt c (ctr s2) ct)))"

definition aes_block_size :: "(bytes \<Rightarrow> bytes) \<Rightarrow> bool" where
  "aes_block_size f \<longleftrightarrow> (\<forall>b. length (f b) = 16)"



subsection \<open>Decryption inverts encryption\<close>

lemma take_beIncFrom [simp]: "take 12 (beIncFrom b i) = take 12 b"
proof (induction b i rule: beIncFrom.induct)
  case (1 b i)
  have "i \<ge> 12 \<Longrightarrow> take 12 (b[i := b ! i + 1]) = take 12 b"
    by simp
  with 1 show ?case
    by (subst beIncFrom.simps) (auto simp: Let_def)
qed

lemma crypt_Nil [simp]: "crypt c cb [] = ([], cb)"
  by (simp add: crypt.simps)

lemma crypt_step:
  "d \<noteq> [] \<Longrightarrow> crypt c cb d =
     (map2 (XOR) (take 16 d) (block c (beIncCtr cb)) @ fst (crypt c (beIncCtr cb) (drop 16 d)),
      snd (crypt c (beIncCtr cb) (drop 16 d)))"
  by (subst crypt.simps) (simp add: Let_def cblkLen_def split: prod.split)

lemma crypt_ctr_prefix: "take 12 (snd (crypt c cb d)) = take 12 cb"
proof (induction c cb d rule: crypt.induct)
  case (1 c cb d)
  then show ?case
    by (cases "d = []") (auto simp: crypt_step beIncCtr_def cblkLen_def)
qed

lemma map2_xor_twice:
  "length xs \<le> length ks \<Longrightarrow> map2 (XOR) (map2 (XOR) xs ks) ks = (xs :: bytes)"
proof (induction xs arbitrary: ks)
  case Nil
  then show ?case by simp
next
  case (Cons x xs)
  then show ?case
    by (cases ks) (auto simp: xor.assoc)
qed

lemma crypt_involution:
  assumes "aes_block_size (block c)"
  shows "length (fst (crypt c cb d)) = length d \<and> fst (crypt c cb (fst (crypt c cb d))) = d"
proof (induction "length d" arbitrary: cb d rule: less_induct)
  case less
  show ?case
  proof (cases "d = []")
    case False
    let ?cb = "beIncCtr cb" and ?here = "map2 (XOR) (take 16 d) (block c (beIncCtr cb))"
    let ?rest = "fst (crypt c ?cb (drop 16 d))"
    have ks: "length (block c ?cb) = 16"
      using assms by (simp add: aes_block_size_def)
    have rest: "length ?rest = length d - 16" "fst (crypt c ?cb ?rest) = drop 16 d"
      using less [of "drop 16 d" ?cb] False by simp_all
    have ct: "fst (crypt c cb d) = ?here @ ?rest"
      using False by (simp add: crypt_step)
    have len: "length ?here = min 16 (length d)"
      using ks by (simp add: min.commute)
    have cut: "take 16 (?here @ ?rest) = ?here" "drop 16 (?here @ ?rest) = ?rest"
      using len rest(1) by (simp_all add: min_def)
    have "length (?here @ ?rest) \<noteq> 0"
      using len False by simp
    then have ne: "?here @ ?rest \<noteq> []"
      by (metis list.size(3))
    have "fst (crypt c cb (?here @ ?rest)) =
        map2 (XOR) ?here (block c ?cb) @ fst (crypt c ?cb ?rest)"
      using crypt_step [OF ne, of c cb, unfolded cut] by (simp only: fst_conv)
    also have "\<dots> = d"
      using ks rest(2) by (simp add: map2_xor_twice)
    finally show ?thesis
      using ct len rest(1) by (simp add: min_def)
  qed simp
qed

text \<open>What streaming absorbs: the full blocks of the data, then the padded rest.\<close>

function full_blocks :: "bytes \<Rightarrow> bytes list" where
  "full_blocks b = (if length b < 12 then [] else take 12 b # full_blocks (drop 12 b))"
  by pat_completeness auto
termination by (relation "measure length") auto

declare full_blocks.simps [simp del]

definition leftover :: "bytes \<Rightarrow> bytes" where
  "leftover b = drop (length b div 12 * 12) b"

definition padded_blocks :: "bytes \<Rightarrow> bytes list" where
  "padded_blocks b = full_blocks b @
     (if leftover b = [] then [] else [leftover b @ replicate (12 - length (leftover b)) 0])"

lemma leftover_short: "length b < 12 \<Longrightarrow> leftover b = b"
  by (simp add: leftover_def)

lemma leftover_drop: "12 \<le> length b \<Longrightarrow> leftover (drop 12 b) = leftover b"
proof -
  assume "12 \<le> length b"
  then obtain k where k: "length b = k + 12"
    by (metis add.commute le_Suc_ex)
  have "(k + 12) div 12 = k div 12 + 1"
    by (rule div_add_self2) simp
  then have "length b div 12 * 12 = k div 12 * 12 + 12"
    using k by simp
  with k show ?thesis by (simp add: leftover_def)
qed

lemma absorb_spec:
  "length (mbuf s) < 12 \<Longrightarrow>
     absorb s d = s\<lparr>mhash := foldl update (mhash s) (full_blocks (mbuf s @ d)),
                    mbuf := leftover (mbuf s @ d)\<rparr>"
proof (induction "length d" arbitrary: s d rule: less_induct)
  case less
  show ?case
  proof (cases "length (mbuf s) + length d < 12")
    case True
    with less.prems show ?thesis
      by (simp add: absorb.simps [of s] absorb.simps [of "s\<lparr>mbuf := mbuf s @ d\<rparr>" "[]"] ablkLen_def
          full_blocks.simps [of "mbuf s @ d"] leftover_short min_def)
  next
    case False
    let ?n = "12 - length (mbuf s)"
    let ?b = "mbuf s @ take ?n d"
    let ?s = "s\<lparr>mhash := update (mhash s) ?b, mbuf := []\<rparr>"
    have b: "?b = take 12 (mbuf s @ d)" "drop ?n d = drop 12 (mbuf s @ d)" "length ?b = 12"
      using False less.prems by simp_all
    have "absorb s d = absorb ?s (drop ?n d)"
      using False less.prems b(3) by (subst absorb.simps) (auto simp: Let_def ablkLen_def min_def)
    also have "\<dots> = ?s\<lparr>mhash := foldl update (mhash ?s) (full_blocks (drop ?n d)),
        mbuf := leftover (drop ?n d)\<rparr>"
      using less.hyps [of "drop ?n d" ?s] False less.prems by simp
    also have "full_blocks (drop ?n d) = tl (full_blocks (mbuf s @ d))"
      unfolding b(2) using False by (subst full_blocks.simps [of "mbuf s @ d"]) simp
    also have "leftover (drop ?n d) = leftover (mbuf s @ d)"
      unfolding b(2) using False by (intro leftover_drop) simp
    finally show ?thesis
      using False less.prems by (simp add: full_blocks.simps [of "mbuf s @ d"])
  qed
qed

lemma length_leftover: "length (leftover b) < 12"
  by (simp add: leftover_def mod_less_divisor minus_div_mult_eq_mod)

lemma hashed_spec:
  "mbuf s = [] \<Longrightarrow>
     flush (absorb s d) = s\<lparr>mhash := foldl update (mhash s) (padded_blocks d), mbuf := []\<rparr>"
  by (simp add: absorb_spec flush_def padded_blocks_def ablkLen_def)

lemma computeTag_ctr:
  "take 12 cb = take 12 (ctr s) \<Longrightarrow> computeTag c (s\<lparr>ctr := cb\<rparr>) n k l = computeTag c s n k l"
  by (simp add: computeTag_def)

lemma length_computeTag [simp]: "length (computeTag c s n k l) = l"
  by (simp add: computeTag_def Let_def)

lemma mbuf_init [simp]: "mbuf (initMessage c iv) = []"
  by (simp add: initMessage_def)

lemma decrypt_encrypt:
  assumes "aes_block_size (block c)" "EncryptMessage c iv hdr msg tagLen = (ct, tag)"
  shows "DecryptMessage c iv hdr ct tag = Some msg" "length ct = length msg" "length tag = tagLen"
proof -
  let ?s1 = "(initMessage c iv)
    \<lparr>mhash := foldl update (mhash (initMessage c iv)) (padded_blocks hdr), mbuf := []\<rparr>"
  let ?s2 = "?s1\<lparr>mhash := foldl update (mhash ?s1) (padded_blocks ct), mbuf := []\<rparr>"
  let ?cb = "ctr (initMessage c iv)"
  have ct: "ct = fst (crypt c ?cb msg)"
    using assms(2) by (auto simp: EncryptMessage_def Let_def hashed_spec split: prod.splits)
  have "tag = computeTag c (?s2\<lparr>ctr := snd (crypt c ?cb msg)\<rparr>) (length hdr) (length ct) tagLen"
    using assms(2)
    by (auto simp: EncryptMessage_def Let_def hashed_spec computeTag_def split: prod.splits)
  also have "\<dots> = computeTag c ?s2 (length hdr) (length ct) tagLen"
    by (intro computeTag_ctr) (simp add: crypt_ctr_prefix)
  finally have tag: "tag = \<dots>" .
  then show "length tag = tagLen" by simp
  show "length ct = length msg"
    using crypt_involution [OF assms(1)] ct by simp
  show "DecryptMessage c iv hdr ct tag = Some msg"
    using crypt_involution [OF assms(1), of ?cb msg] ct tag
    by (simp add: DecryptMessage_def Let_def hashed_spec)
qed

text \<open>A shorter tag is a prefix of a longer one, and decryption compares at the length of the tag it is given.\<close>

lemma take_computeTag: "k \<le> n \<Longrightarrow> take k (computeTag c s a b n) = computeTag c s a b k"
  by (simp add: computeTag_def Let_def take_map)

lemma decrypt_prefix:
  assumes "aes_block_size (block c)" "EncryptMessage c iv hdr msg tagLen = (ct, tag)"
    and "length t \<le> tagLen"
  shows "DecryptMessage c iv hdr ct t = (if t = take (length t) tag then Some msg else None)"
proof -
  let ?s2 = "flush (absorb (flush (absorb (initMessage c iv) hdr)) ct)"
  note dec = decrypt_encrypt [OF assms(1,2)]
  have tag: "computeTag c ?s2 (length hdr) (length ct) tagLen = tag" "fst (crypt c (ctr ?s2) ct) = msg"
    using dec by (auto simp: DecryptMessage_def Let_def split: if_splits)
  have "computeTag c ?s2 (length hdr) (length ct) (length t) = take (length t) tag"
    using take_computeTag [OF assms(3)] tag(1) by metis
  then show ?thesis
    using tag(2) by (simp add: DecryptMessage_def Let_def eq_commute)
qed



subsection \<open>The lazy reduction\<close>

text \<open>
  The prime of the hash is \<open>2 ^ 127 - 1\<close>. One update computes the quotient and the remainder of the
  product by \<open>2 ^ 127\<close>, adds them in a 128-bit register and folds bit 127 once.
\<close>

lemma unset_bit_minus: "bit a n \<Longrightarrow> unset_bit n a = a - 2 ^ n" for a :: nat
proof -
  assume a: "bit a n"
  have "int (unset_bit n a) = int a - 2 ^ n"
    using a by (simp add: of_nat_unset_bit_eq unset_bit_eq bit_of_nat_iff_bit)
  then have "int (unset_bit n a + 2 ^ n) = int a" by simp
  then have "unset_bit n a + 2 ^ n = a" by (simp only: of_nat_eq_iff)
  then show ?thesis by simp
qed

lemma fold127_eq:
  "x < 2 ^ 128 \<Longrightarrow> fold127 x = (if x < 2 ^ 127 then x else x - 2 ^ 127 + 1)"
proof -
  assume x: "x < 2 ^ 128"
  then have "x div 2 ^ 127 < 2"
    by (simp add: div_less_iff_less_mult)
  then have "bit x 127 \<longleftrightarrow> \<not> x < 2 ^ 127"
    by (auto simp: bit_iff_odd div_eq_0_iff elim!: oddE dest: gr0_implies_Suc)
  moreover have "x - 2 ^ 127 + 1 < 2 ^ 128"
    using x by simp
  ultimately show ?thesis
    by (simp add: fold127_def mask128_def unset_bit_minus take_bit_nat_eq_self)
qed

lemma fold127_le: "x < 2 ^ 128 \<Longrightarrow> fold127 x \<le> 2 ^ 127"
  by (simp add: fold127_eq) linarith

lemma fold127_mod: "x < 2 ^ 128 \<Longrightarrow> fold127 x mod (2 ^ 127 - 1) = x mod (2 ^ 127 - 1)"
proof (cases "x < 2 ^ 127")
  case False
  assume x: "x < 2 ^ 128"
  have "x - 2 ^ 127 + 1 = x - (2 ^ 127 - 1)"
    using False by simp
  with x False show ?thesis
    by (simp add: fold127_eq le_mod_geq)
qed (simp add: fold127_eq)

definition prod_sum :: "nat \<Rightarrow> nat" where
  "prod_sum v = v div 2 ^ 127 + v mod 2 ^ 127"

lemma prod_sum_mod: "prod_sum v mod (2 ^ 127 - 1) = v mod (2 ^ 127 - 1)"
proof -
  define P :: nat where "P = 2 ^ 127 - 1"
  then have N: "(2::nat) ^ 127 = P + 1" by simp
  have "v = v div (P + 1) * P + (v div (P + 1) + v mod (P + 1))"
    using div_mult_mod_eq [of v "P + 1"] by (simp add: algebra_simps)
  then have "v mod P = (v div (P + 1) + v mod (P + 1)) mod P"
    by (metis mod_mult_self3)
  then show ?thesis
    by (simp only: prod_sum_def N) (simp add: N [symmetric])
qed

lemma register_sum:
  assumes "v < 2 ^ 255"
  defines "lo \<equiv> mask128 v"
  defines "h1 \<equiv> mask128 (push_bit 1 (drop_bit 128 v))"
  shows "(if bit lo 127 then mask128 (h1 + 1) + unset_bit 127 lo else h1 + lo) = prod_sum v"
proof -
  define q r where "q = v div 2 ^ 127" and "r = v mod 2 ^ 127"
  have q: "q < 2 ^ 128"
    using assms(1) by (simp add: q_def div_less_iff_less_mult)
  have lo: "lo = 2 ^ 127 * (q mod 2) + r"
    using mod_mult2_eq [of v "2 ^ 127" 2]
    by (simp add: lo_def mask128_def take_bit_eq_mod q_def r_def)
  have hi: "drop_bit 128 v = q div 2"
    by (simp add: drop_bit_eq_div q_def div_mult2_eq [symmetric])
  have h1: "h1 = 2 * (q div 2)"
    using q by (simp add: h1_def hi mask128_def push_bit_eq_mult take_bit_nat_eq_self)
  have r: "r < 2 ^ 127"
    by (simp add: r_def)
  have "lo div 2 ^ 127 = q mod 2"
    using r by (simp add: lo)
  then have bit: "bit lo 127 \<longleftrightarrow> odd q"
    by (simp add: bit_iff_odd odd_iff_mod_2_eq_one)
  have sum: "prod_sum v = q + r"
    by (simp add: prod_sum_def q_def r_def)
  show ?thesis
  proof (cases "odd q")
    case True
    then have "q mod 2 = 1" "2 * (q div 2) + 1 = q"
      by (simp_all add: odd_iff_mod_2_eq_one odd_two_times_div_two_succ)
    with True bit lo h1 q sum show ?thesis
      by (simp add: unset_bit_minus mask128_def take_bit_nat_eq_self)
  next
    case False
    then have "q mod 2 = 0" "2 * (q div 2) = q"
      by (simp_all add: even_iff_mod_2_eq_zero)
    with False bit lo h1 sum show ?thesis by simp
  qed
qed


lemma length_swapWords [simp]: "length (swapWords b) = length b"
  by (induction b rule: swapWords.induct) auto

lemma block_value: "length buf = 12 \<Longrightarrow> be_nat (swapWords buf) < 2 ^ 96"
  using be_nat_less [of "swapWords buf"] by simp

lemma update_eq:
  assumes "hashZ p < 2 ^ 127" "hashH p \<le> 2 ^ 127" "length buf = 12"
  defines "v \<equiv> (hashH p + be_nat (swapWords buf)) * hashZ p"
  shows "update p buf = p\<lparr>hashH := fold127 (prod_sum v mod 2 ^ 128)\<rparr>"
proof -
  let ?m = "be_nat (swapWords buf)"
  have d: "hashH p + ?m < 2 ^ 128"
    using assms(2) block_value [OF assms(3)] by simp
  then have "v < 2 ^ 128 * 2 ^ 127"
    unfolding v_def using assms(1) by (intro mult_strict_mono) auto
  then have v: "v < 2 ^ 255" by simp
  have "mask128 (?m + hashH p) * hashZ p = v"
    using d by (simp add: mask128_def take_bit_nat_eq_self v_def add.commute)
  then show ?thesis
    using register_sum [OF v]
    by (auto simp: update_def Let_def mask128_def take_bit_eq_mod)
qed

text \<open>
  The carry out of the 128-bit register is lost. It can only be set when the accumulator and the
  block together reach \<open>2 ^ 127\<close>.
\<close>

lemma prod_sum_less:
  assumes "a < 2 ^ 127" "z < 2 ^ 127"
  shows "prod_sum (a * z) < 2 ^ 128"
proof -
  have "a * z \<le> a * 2 ^ 127"
    using assms(2) by (intro mult_le_mono2) simp
  then have "a * z div 2 ^ 127 \<le> a"
    by (simp add: div_le_mono [of "a * z" "a * 2 ^ 127" "2 ^ 127", simplified])
  moreover have "a * z mod 2 ^ 127 < 2 ^ 127" by simp
  ultimately show ?thesis
    using assms(1) unfolding prod_sum_def by simp
qed

lemma update_bound:
  "hashZ p < 2 ^ 127 \<Longrightarrow> hashH p \<le> 2 ^ 127 \<Longrightarrow> length buf = 12 \<Longrightarrow>
     hashZ (update p buf) = hashZ p \<and> hashH (update p buf) \<le> 2 ^ 127"
  using fold127_le
    [of "prod_sum ((hashH p + be_nat (swapWords buf)) * hashZ p) mod 2 ^ 128"]
  by (simp add: update_eq)

lemma update_mod:
  assumes "hashZ p < 2 ^ 127" "hashH p \<le> 2 ^ 127" "length buf = 12"
    and "hashH p + be_nat (swapWords buf) < 2 ^ 127"
  shows "hashH (update p buf) mod (2 ^ 127 - 1) =
    ((hashH p + be_nat (swapWords buf)) * hashZ p) mod (2 ^ 127 - 1)"
proof -
  have "prod_sum ((hashH p + be_nat (swapWords buf)) * hashZ p) < 2 ^ 128"
    using assms(4,1) by (rule prod_sum_less)
  then have "hashH (update p buf) =
      fold127 (prod_sum ((hashH p + be_nat (swapWords buf)) * hashZ p))"
    by (simp add: update_eq [OF assms(1-3)])
  with \<open>prod_sum _ < 2 ^ 128\<close> show ?thesis
    by (simp only: fold127_mod prod_sum_mod)
qed

text \<open>The polynomial the hash is meant to evaluate, and messages that never set the carry.\<close>

definition block_poly :: "nat \<Rightarrow> bytes list \<Rightarrow> nat" where
  "block_poly z bs = foldl (\<lambda>a b. (a + be_nat (swapWords b)) * z) 0 bs"

fun carry_free :: "polyHash \<Rightarrow> bytes list \<Rightarrow> bool" where
  "carry_free p [] = True"
| "carry_free p (b # bs) =
     (hashH p + be_nat (swapWords b) < 2 ^ 127 \<and> carry_free (update p b) bs)"

lemma hash_poly_aux:
  assumes "hashZ p < 2 ^ 127" "hashH p \<le> 2 ^ 127" "list_all (\<lambda>b. length b = 12) bs"
    and "carry_free p bs" "hashH p mod (2 ^ 127 - 1) = a mod (2 ^ 127 - 1)"
  shows "hashH (foldl update p bs) mod (2 ^ 127 - 1) =
    foldl (\<lambda>a b. (a + be_nat (swapWords b)) * hashZ p) a bs mod (2 ^ 127 - 1)"
  using assms
proof (induction bs arbitrary: p a)
  case Nil
  then show ?case by simp
next
  case (Cons b bs)
  let ?P = "2 ^ 127 - 1 :: nat" and ?m = "be_nat (swapWords b)"
  have z: "hashZ (update p b) = hashZ p" and h: "hashH (update p b) \<le> 2 ^ 127"
    using update_bound [of p b] Cons.prems by simp_all
  have "hashH (update p b) mod ?P = ((hashH p + ?m) * hashZ p) mod ?P"
    using Cons.prems by (intro update_mod) simp_all
  also have "\<dots> = ((a + ?m) * hashZ p) mod ?P"
    using Cons.prems(5) by (intro mod_mult_cong mod_add_cong refl)
  finally show ?case
    using Cons.IH [of "update p b" "(a + ?m) * hashZ p"] Cons.prems z h by simp
qed

lemma hash_bound:
  assumes "hashZ p < 2 ^ 127" "hashH p \<le> 2 ^ 127" "list_all (\<lambda>b. length b = 12) bs"
  shows "hashH (foldl update p bs) \<le> 2 ^ 127"
  using assms
proof (induction bs arbitrary: p)
  case Nil
  then show ?case by simp
next
  case (Cons b bs)
  then show ?case
    using update_bound [of p b] by simp
qed


lemma length_padded_blocks: "list_all (\<lambda>b. length b = 12) (padded_blocks d)"
proof -
  have "list_all (\<lambda>b. length b = 12) (full_blocks d)"
  proof (induction d rule: full_blocks.induct)
    case (1 b)
    then show ?case by (subst full_blocks.simps) simp
  qed
  then show ?thesis
    using length_leftover [of d] by (simp add: padded_blocks_def)
qed

text \<open>The hash key of every context is below \<open>2 ^ 127\<close>: its top bit is cleared.\<close>

lemma NewContext_key:
  assumes "NewContext aes key = Inr c" "aes_block_size (aes key)"
  shows "ctxZ c < 2 ^ 127" "aes_block_size (block c)"
proof -
  let ?zv = "aes key (0xC0 # replicate 15 0)"
  have c: "block c = aes key" "ctxZ c = be_nat (?zv[0 := ?zv ! 0 AND 0x7f])"
    using assms(1) by (auto simp: NewContext_def Let_def split: if_splits)
  with assms(2) show "aes_block_size (block c)" by simp
  have len: "length ?zv = 16"
    using assms(2) by (simp add: aes_block_size_def)
  then obtain a zs where zv: "?zv = a # zs" "length zs = 15"
    by (cases ?zv) auto
  have "unat (a AND 0x7f) < 128"
  proof -
    have "a AND 0x7f = take_bit 7 a"
      by (simp add: take_bit_eq_mask mask_eq_exp_minus_1)
    then show ?thesis
      using take_bit_nat_less_exp [of 7 "unat a"] by (simp add: unsigned_take_bit_eq)
  qed
  then have "unat (a AND 0x7f) * 2 ^ 120 + 2 ^ 120 \<le> 2 ^ 127"
    by simp
  moreover have "be_nat zs < 2 ^ 120"
    using be_nat_less [of zs] zv(2) by simp
  ultimately show "ctxZ c < 2 ^ 127"
    using c(2) zv by (simp add: be_nat_Cons)
qed


text \<open>
  C18: what AES-CWC encrypts it decrypts again. For every key, initialisation vector, header and message,
  and a tag of at most the 16 bytes of a block, decrypting the ciphertext with the tag and the same header
  gives the message, and the ciphertext is as long as the message. The tag is compared at the length the
  caller gives it: of the tags up to that length exactly the prefixes of the true one are accepted, all of
  them with the same message, and every other one is refused (so a caller who wants the whole tag
  checked has to hand over the whole tag).
\<close>

theorem cwc_roundtrip:
  assumes "NewContext aes key = Inr c" "aes_block_size (aes key)" "tagLen \<le> 16"
    and "EncryptMessage c iv hdr msg tagLen = (ct, tag)"
  shows "DecryptMessage c iv hdr ct tag = Some msg \<and> length ct = length msg \<and> length tag = tagLen \<and>
    (\<forall>t. length t \<le> tagLen \<longrightarrow>
       DecryptMessage c iv hdr ct t = (if t = take (length t) tag then Some msg else None))"
  using decrypt_encrypt [OF NewContext_key(2) [OF assms(1,2)] assms(4)]
    decrypt_prefix [OF NewContext_key(2) [OF assms(1,2)] assms(4)]
  by blast

text \<open>A toy block function, to run the code on.\<close>

definition demo_aes :: "bytes \<Rightarrow> bytes \<Rightarrow> bytes" where
  "demo_aes k b = map2 (XOR) (take 16 k) (copy_into 16 (rev b))"

definition demo_key :: bytes where
  "demo_key = map word_of_nat [3..<19]"

lemma demo_aes_block: "aes_block_size (demo_aes demo_key)"
  by (simp add: aes_block_size_def demo_aes_def demo_key_def)

theorem cwc_roundtrip_witness:
  "\<exists>c ct tag. NewContext demo_aes demo_key = Inr c \<and>
     EncryptMessage c (replicate 11 7) [1, 2] [10, 20, 30] 16 = (ct, tag) \<and>
     DecryptMessage c (replicate 11 7) [1, 2] ct tag = Some [10, 20, 30] \<and>
     DecryptMessage c (replicate 11 7) [1, 2] ct [] = Some [10, 20, 30]"
proof -
  have "length demo_key = 16" by (simp add: demo_key_def)
  then obtain c where c: "NewContext demo_aes demo_key = Inr c"
    by (simp add: NewContext_def Let_def)
  obtain ct tag where "EncryptMessage c (replicate 11 7) [1, 2] [10, 20, 30] 16 = (ct, tag)"
    by (cases "EncryptMessage c (replicate 11 7) [1, 2] [10, 20, 30] 16")
  with cwc_roundtrip [OF c demo_aes_block _ this] c show ?thesis by fastforce
qed

text \<open>
  C31: the lazy reduction. Absorbing any data with a hash key below \<open>2 ^ 127\<close> keeps the accumulator at most
  \<open>2 ^ 127\<close>, and as long as no addition of a block reaches \<open>2 ^ 127\<close> the accumulator is, modulo
  \<open>2 ^ 127 - 1\<close>, the Carter-Wegman polynomial of the zero-padded blocks of the data.
\<close>

theorem cwc_lazy_reduction:
  fixes iv d :: bytes
  assumes "NewContext aes key = Inr c" "aes_block_size (aes key)"
  defines "h \<equiv> hashH (mhash (flush (absorb (initMessage c iv) d)))"
  shows "h \<le> 2 ^ 127 \<and>
    (carry_free (newPolyHash (ctxZ c)) (padded_blocks d) \<longrightarrow>
      h mod (2 ^ 127 - 1) = block_poly (ctxZ c) (padded_blocks d) mod (2 ^ 127 - 1))"
proof
  let ?p = "newPolyHash (ctxZ c)"
  have p: "hashZ ?p = ctxZ c" "hashH ?p = 0"
    by (simp_all add: newPolyHash_def)
  have z: "ctxZ c < 2 ^ 127"
    by (rule NewContext_key [OF assms(1,2)])
  have h: "h = hashH (foldl update ?p (padded_blocks d))"
    by (simp add: h_def hashed_spec) (simp add: initMessage_def)
  show "h \<le> 2 ^ 127"
    unfolding h by (rule hash_bound) (simp_all only: p z length_padded_blocks zero_le)
  show "carry_free ?p (padded_blocks d) \<longrightarrow>
      h mod (2 ^ 127 - 1) = block_poly (ctxZ c) (padded_blocks d) mod (2 ^ 127 - 1)"
  proof
    assume cf: "carry_free ?p (padded_blocks d)"
    have "h mod (2 ^ 127 - 1) =
        foldl (\<lambda>a b. (a + be_nat (swapWords b)) * hashZ ?p) 0 (padded_blocks d) mod (2 ^ 127 - 1)"
      unfolding h using cf by (rule hash_poly_aux [rotated 3])
        (simp_all only: p z length_padded_blocks zero_le)
    then show "h mod (2 ^ 127 - 1) = block_poly (ctxZ c) (padded_blocks d) mod (2 ^ 127 - 1)"
      by (simp only: p block_poly_def)
  qed
qed

theorem cwc_lazy_reduction_witness:
  "\<exists>c. NewContext demo_aes demo_key = Inr c \<and>
     hashH (mhash (flush (absorb (initMessage c (replicate 11 7)) [1, 2, 3]))) mod (2 ^ 127 - 1) =
       block_poly (ctxZ c) (padded_blocks [1, 2, 3]) mod (2 ^ 127 - 1)"
proof -
  have "length demo_key = 16" by (simp add: demo_key_def)
  then obtain c where c: "NewContext demo_aes demo_key = Inr c"
    by (simp add: NewContext_def Let_def)
  have "padded_blocks [1, 2, 3] = [[1, 2, 3] @ replicate 9 0]"
    by (simp add: padded_blocks_def full_blocks.simps leftover_def)
  moreover have "be_nat (swapWords ([1, 2, 3] @ replicate 9 0)) < 2 ^ 96"
    by (rule block_value) simp
  ultimately have "carry_free (newPolyHash (ctxZ c)) (padded_blocks [1, 2, 3])"
    by (simp add: newPolyHash_def)
  with cwc_lazy_reduction [OF c demo_aes_block, of "replicate 11 7" "[1, 2, 3]"] c
  show ?thesis by blast
qed

text \<open>
  The carry that the 128-bit register drops is not harmless. In this state the update loses it, and
  the accumulator leaves the residue class of the polynomial: it is two less.
\<close>

theorem cwc_lost_carry:
  "let p = \<lparr>hashZ = 2 ^ 127 - 2 ^ 32, hashH = 2 ^ 127 - 1\<rparr>;
       b = [0, 0, 0, 0x80, 0, 0, 0, 0, 2, 0, 0, 0]
   in (hashH (update p b) + 2) mod (2 ^ 127 - 1) =
        ((hashH p + be_nat (swapWords b)) * hashZ p) mod (2 ^ 127 - 1) \<and>
      hashH (update p b) mod (2 ^ 127 - 1) \<noteq>
        ((hashH p + be_nat (swapWords b)) * hashZ p) mod (2 ^ 127 - 1)"
proof -
  define p where "p = \<lparr>hashZ = 2 ^ 127 - 2 ^ 32, hashH = 2 ^ 127 - 1 :: nat\<rparr>"
  define b where "b = [0, 0, 0, 0x80, 0, 0, 0, 0, 2, 0, 0, 0 :: byte]"
  have m: "be_nat (swapWords b) = 2 ^ 95 + 2"
    by (simp add: b_def be_nat_def)
  have "update p b = p\<lparr>hashH := fold127 (prod_sum ((hashH p + be_nat (swapWords b)) * hashZ p) mod 2 ^ 128)\<rparr>"
    by (rule update_eq) (simp_all add: p_def b_def)
  then have u: "hashH (update p b) =
      fold127 (prod_sum ((2 ^ 127 - 1 + (2 ^ 95 + 2)) * (2 ^ 127 - 2 ^ 32)) mod 2 ^ 128)"
    by (simp add: m p_def)
  have "hashH (update p b) = 39614081257132168788182040575"
    unfolding u prod_sum_def by (simp add: fold127_eq)
  then show ?thesis
    unfolding Let_def p_def [symmetric] b_def [symmetric] m by (simp add: p_def)
qed

end
