(* ===== verification/X931.thy ===== *)
theory X931
  imports Prelude
begin

section \<open>X9.31 padding over raw RSA\<close>

text \<open>
  internal/crypto/x931/x931.go: the padding and the two raw operations with the rule that the smaller
  of \<open>s\<close> and \<open>n - s\<close> is sent. A key is its modulus and exponents; \<open>big.Int.Exp(m, d, n)\<close> is
  \<open>m ^ d mod n\<close>.
\<close>

datatype x931_error = ErrTooLong | ErrBadPad

definition pad :: "bytes \<Rightarrow> nat \<Rightarrow> x931_error + bytes" where
  "pad msg k =
     (if k < length msg + 2 then Inl ErrTooLong
      else
        let j = k - length msg - 2
        in Inr ((if j = 0 then [0x6A] else 0x6B # replicate (j - 1) 0xBB @ [0xBA]) @ msg @ [0xCC]))"

function skipBB :: "bytes \<Rightarrow> nat \<Rightarrow> nat" where
  "skipBB em i = (if i < length em \<and> em ! i = 0xBB then skipBB em (i + 1) else i)"
  by pat_completeness auto
termination by (relation "measure (\<lambda>(em, i). length em - i)") auto

declare skipBB.simps [simp del]

definition unpad :: "bytes \<Rightarrow> x931_error + bytes" where
  "unpad em =
     (let n = length em
      in if n < 3 \<or> em ! (n - 1) \<noteq> 0xCC then Inl ErrBadPad
         else
           let start =
             (if em ! 0 = 0x6A then Some 1
              else if em ! 0 = 0x6B then
                (let i = skipBB em 1
                 in if n \<le> i \<or> em ! i \<noteq> 0xBA then None else Some (i + 1))
              else None)
           in case start of
                None \<Rightarrow> Inl ErrBadPad
              | Some i \<Rightarrow> if n - 1 < i then Inl ErrBadPad else Inr (slice i (n - 1) em))"

fun bitLen :: "nat \<Rightarrow> nat" where
  "bitLen n = (if n = 0 then 0 else Suc (bitLen (n div 2)))"

declare bitLen.simps [simp del]

text \<open>The size of a key: the length of its modulus in bytes.\<close>

definition rsaSize :: "nat \<Rightarrow> nat" where
  "rsaSize n = (bitLen n + 7) div 8"

definition PrivateEncrypt :: "nat \<Rightarrow> nat \<Rightarrow> bytes \<Rightarrow> x931_error + bytes" where
  "PrivateEncrypt n d msg =
     (let k = rsaSize n
      in bind_err (pad msg k) (\<lambda>em.
           let m = be_nat em
           in if n \<le> m then Inl ErrTooLong
              else
                let s = m ^ d mod n;
                    diff = n - s
                in Inr (be_bytes k (if diff < s then diff else s))))"

definition PublicDecrypt :: "nat \<Rightarrow> nat \<Rightarrow> bytes \<Rightarrow> x931_error + bytes" where
  "PublicDecrypt n e sig =
     (let k = rsaSize n
      in if length sig \<noteq> k then Inl ErrBadPad
         else
           let s = be_nat sig
           in if n \<le> s then Inl ErrBadPad
              else
                let m = s ^ e mod n;
                    m' = (if m mod 16 \<noteq> 12 then n - m else m)
                in unpad (be_bytes k m'))"


subsection \<open>Padding round trip\<close>

lemma skipBB_run:
  "skipBB (xs @ replicate j 0xBB @ b # ys) (length xs) = length xs + j" if "b \<noteq> 0xBB"
  using that
proof (induction j arbitrary: xs)
  case 0
  then show ?case by (simp add: skipBB.simps)
next
  case (Suc j)
  have "skipBB (xs @ replicate (Suc j) 0xBB @ b # ys) (length xs) =
      skipBB ((xs @ [0xBB]) @ replicate j 0xBB @ b # ys) (length (xs @ [0xBB]))"
    by (subst skipBB.simps) (simp add: nth_append)
  also have "\<dots> = length (xs @ [0xBB :: byte]) + j"
    by (rule Suc.IH [OF Suc.prems])
  finally show ?case by simp
qed

lemma unpad_j0: "msg \<noteq> [] \<Longrightarrow> unpad (0x6A # msg @ [0xCC]) = Inr msg"
  by (cases msg) (auto simp: unpad_def Let_def nth_append slice_def)

lemma unpad_j:
  "unpad (0x6B # replicate j 0xBB @ 0xBA # msg @ [0xCC]) = Inr msg" (is "unpad ?em = _")
proof -
  have skip: "skipBB ?em (Suc 0) = Suc j"
    using skipBB_run [of "0xBA" "[0x6B]" j "msg @ [0xCC]"] by simp
  have "?em ! (1 + j) = 0xBA"
    by (simp add: nth_append)
  moreover have "slice (j + 2) (length ?em - 1) ?em = msg"
    by (simp add: slice_def)
  moreover have "?em ! (length ?em - 1) = 0xCC"
    by (simp add: nth_append)
  ultimately show ?thesis
    by (simp add: unpad_def Let_def skip)
qed

lemma pad_unpad:
  assumes "pad msg k = Inr em" "3 \<le> k"
  shows "unpad em = Inr msg" "length em = k" "\<exists>ys. em = ys @ [0xCC]"
proof -
  let ?j = "k - length msg - 2"
  have em: "length msg + 2 \<le> k"
    "em = (if ?j = 0 then [0x6A] else 0x6B # replicate (?j - 1) 0xBB @ [0xBA]) @ msg @ [0xCC]"
    using assms(1) by (auto simp: pad_def Let_def split: if_splits)
  show "length em = k"
    using em by auto
  show "\<exists>ys. em = ys @ [0xCC]"
    using em(2) by (metis append.assoc)
  show "unpad em = Inr msg"
  proof (cases "?j = 0")
    case True
    then have "msg \<noteq> []" using em(1) assms(2) by auto
    with em True show ?thesis by (simp add: unpad_j0)
  next
    case False
    with em unpad_j [of "?j - 1" msg] show ?thesis by simp
  qed
qed


subsection \<open>The RSA operations\<close>

lemma bitLen_bound: "n < 2 ^ bitLen n"
proof (induction n rule: bitLen.induct)
  case (1 n)
  then show ?case by (subst bitLen.simps) auto
qed

lemma rsaSize_bound: "n < 256 ^ rsaSize n"
proof -
  have "n < 2 ^ bitLen n" by (rule bitLen_bound)
  also have "(2::nat) ^ bitLen n \<le> 2 ^ (8 * rsaSize n)"
    by (intro power_increasing) (auto simp: rsaSize_def)
  finally show ?thesis by (simp add: power_mult)
qed

definition rsa_key :: "nat \<Rightarrow> nat \<Rightarrow> nat \<Rightarrow> bool" where
  "rsa_key n e d \<longleftrightarrow> odd n \<and> odd e \<and> (\<forall>m<n. (m ^ d mod n) ^ e mod n = m)"

lemma power_complement:
  fixes n s e :: nat
  assumes "odd e" "s \<le> n" "s ^ e mod n = m" "0 < m" "0 < n"
  shows "(n - s) ^ e mod n = n - m"
proof -
  have n: "0 < n" "m < n"
    using assms(3,5) by auto
  have "int ((n - s) ^ e) mod int n = (int n - int s) ^ e mod int n"
    using assms(2) by (simp add: of_nat_diff)
  also have "\<dots> = (- int s) ^ e mod int n"
    by (metis add.commute diff_add_cancel minus_mod_self1 power_mod uminus_add_conv_diff
        mod_add_self1)
  also have "\<dots> = (- (int s ^ e mod int n)) mod int n"
    using assms(1) by (simp add: mod_minus_eq)
  also have "int s ^ e mod int n = int m"
    using assms(3) by (metis of_nat_mod of_nat_power)
  also have "(- int m) mod int n = int (n - m)"
    using n assms(4) by (simp add: zmod_zminus1_eq_if of_nat_diff)
  finally have "int ((n - s) ^ e mod n) = int (n - m)"
    by (simp only: of_nat_mod)
  then show ?thesis by (simp only: of_nat_eq_iff)
qed


lemma low_nibble: "be_nat (ys @ [0xCC]) mod 16 = 12"
proof -
  have "be_nat (ys @ [0xCC]) = 16 * (be_nat ys * 16 + 12) + 12"
    by (simp add: be_nat_snoc)
  then show ?thesis by (simp only: mod_mult_self4) simp
qed

lemma x931_inverts:
  assumes "rsa_key n e d" "3 \<le> rsaSize n" "PrivateEncrypt n d msg = Inr sig"
  shows "PublicDecrypt n e sig = Inr msg"
proof -
  let ?k = "rsaSize n"
  obtain em where em: "pad msg ?k = Inr em" "be_nat em < n"
    and sig: "sig = be_bytes ?k (if n - be_nat em ^ d mod n < be_nat em ^ d mod n
       then n - be_nat em ^ d mod n else be_nat em ^ d mod n)"
    using assms(3) by (auto simp: PrivateEncrypt_def Let_def bind_err_Inr_iff split: if_splits)
  note p = pad_unpad [OF em(1) assms(2)]
  obtain ys where ys: "em = ys @ [0xCC]" using p(3) by blast
  define m s where "m = be_nat em" and "s = m ^ d mod n"
  define t where "t = (if n - s < s then n - s else s)"
  have m: "m < n" "m mod 16 = 12" "0 < m"
    using em(2) low_nibble [of ys] ys by (auto simp: m_def intro: Nat.gr0I)
  have s: "s < n" "s ^ e mod n = m" and odd: "odd n" "odd e"
    using assms(1) m(1) by (auto simp: rsa_key_def s_def)
  have t: "t < n" "sig = be_bytes ?k t"
    using s(1) sig by (auto simp: t_def s_def m_def)
  have "t < 256 ^ ?k"
    using t(1) rsaSize_bound [of n] by simp
  then have st: "be_nat sig = t" "length sig = ?k"
    using t(2) by (simp_all add: be_nat_bytes)
  have even: "x mod 16 = 12 \<Longrightarrow> even x" for x :: nat
    by presburger
  have "odd (n - m)"
    using odd(1) m(1) even [OF m(2)] by simp
  then have "(n - m) mod 16 \<noteq> 12"
    using even by blast
  moreover have "(n - s) ^ e mod n = n - m"
    using s m odd by (intro power_complement) auto
  ultimately have "(if (t ^ e mod n) mod 16 \<noteq> 12 then n - t ^ e mod n else t ^ e mod n) = m"
    using s m by (simp add: t_def)
  then have "PublicDecrypt n e sig = unpad (be_bytes ?k m)"
    using st t(1) by (simp add: PublicDecrypt_def Let_def)
  also have "be_bytes ?k m = em"
    using p(2) by (simp add: m_def be_bytes_nat)
  finally show ?thesis by (simp add: p(1))
qed


text \<open>
  What the server encrypts with its private key, the client's public key decrypts to the same
  message, whether the server sent \<open>s\<close> or the smaller \<open>n - s\<close>, for every message that the padding
  and the modulus can hold.
\<close>

theorem x931_roundtrip:
  assumes "rsa_key n e d" "3 \<le> rsaSize n" "PrivateEncrypt n d msg = Inr sig"
  shows "length sig = rsaSize n \<and> PublicDecrypt n e sig = Inr msg"
proof
  show "length sig = rsaSize n"
    using assms(3) by (auto simp: PrivateEncrypt_def Let_def bind_err_Inr_iff split: if_splits)
  show "PublicDecrypt n e sig = Inr msg"
    by (rule x931_inverts [OF assms])
qed

text \<open>
  A key small enough to compute with: the modulus \<open>5 * 7 * 11 * 13 * 31 * 61\<close> with both exponents 11.
\<close>

lemma small_residues:
  "list_all (\<lambda>p. list_all (\<lambda>r. (r ^ 11 mod p) ^ 11 mod p = r) [2..<p]) [5, 7, 11, 13, 31, 61 :: nat]"
  by simp

lemma residue_power:
  assumes "p \<in> {5, 7, 11, 13, 31, 61 :: nat}" "r < p"
  shows "(r ^ 11 mod p) ^ 11 mod p = r"
proof (cases "r < 2")
  case True
  then have "r = 0 \<or> r = 1" by auto
  with assms show ?thesis by auto
next
  case False
  with assms small_residues show ?thesis by (auto simp only: list_all_iff set_upt) auto
qed

lemma small_coprime:
  "coprime (5 :: int) 7" "coprime 35 (11 :: int)" "coprime 385 (13 :: int)"
  "coprime 5005 (31 :: int)" "coprime 155155 (61 :: int)"
  by (simp_all add: coprime_iff_gcd_eq_1 gcd_non_0_int)

lemma residue_fixed:
  assumes "p \<in> {5, 7, 11, 13, 31, 61 :: nat}"
  shows "int p dvd int ((m ^ 11 mod 9464455) ^ 11 mod 9464455) - int m"
proof -
  have p: "p dvd 9464455" "0 < p"
    using assms by auto
  have "((m ^ 11 mod 9464455) ^ 11 mod 9464455) mod p = ((m ^ 11 mod 9464455) mod p) ^ 11 mod p"
    using p by (simp add: mod_mod_cancel power_mod)
  also have "\<dots> = ((m mod p) ^ 11 mod p) ^ 11 mod p"
    using p by (simp add: mod_mod_cancel power_mod)
  also have "\<dots> = m mod p"
    using residue_power [OF assms, of "m mod p"] p(2) by simp
  finally show ?thesis
    by (metis mod_eq_dvd_iff of_nat_mod)
qed

lemma nat_mod_eq_dvd: "int n dvd int x - int m \<Longrightarrow> x mod n = m mod n"
  by (metis mod_eq_dvd_iff of_nat_eq_iff of_nat_mod)

lemma small_rsa_key: "rsa_key 9464455 11 11"
proof -
  have "(m ^ 11 mod 9464455) ^ 11 mod 9464455 = m" if "m < 9464455" for m :: nat
  proof -
    let ?x = "(m ^ 11 mod 9464455) ^ 11 mod 9464455"
    let ?d = "int ?x - int m"
    have "(5 * 7 * 11 * 13 * 31 * 61 :: int) dvd ?d"
      using residue_fixed [of 5 m] residue_fixed [of 7 m] residue_fixed [of 11 m]
        residue_fixed [of 13 m] residue_fixed [of 31 m] residue_fixed [of 61 m]
      by (intro divides_mult) (simp_all add: small_coprime)
    then have "int 9464455 dvd ?d" by simp
    then have "?x mod 9464455 = m mod 9464455"
      by (rule nat_mod_eq_dvd)
    with that show ?thesis by simp
  qed
  then show ?thesis by (simp add: rsa_key_def)
qed

lemma small_rsaSize: "rsaSize 9464455 = 3"
  by (simp add: rsaSize_def bitLen.simps)

theorem x931_roundtrip_witness:
  "\<exists>sig. PrivateEncrypt 9464455 11 [7] = Inr sig \<and> PublicDecrypt 9464455 11 sig = Inr [7]"
proof -
  have "be_nat [0x6A, 7, 0xCC] < 9464455"
    by (simp add: be_nat_def)
  then obtain sig where sig: "PrivateEncrypt 9464455 11 [7] = Inr sig"
    by (simp add: PrivateEncrypt_def pad_def small_rsaSize Let_def)
  with x931_roundtrip [OF small_rsa_key _ sig] show ?thesis
    by (simp add: small_rsaSize)
qed

end
