(* ===== verification/Frpg_Cipher.thy ===== *)
theory Frpg_Cipher
  imports Cwc X931
begin

section \<open>The ciphers of the message streams and datagrams\<close>

text \<open>
  internal/crypto/frpgcipher: the AES-CWC framings of the auth stream and of the game datagrams and
  the RSA pairing of the handshake. What \<open>rand.Read\<close> gives is the argument \<open>rd\<close>: an error or the
  random bytes. RSA-OAEP of the package crypto/rsa is a pair of arguments.
\<close>

datatype cipher_error =
    TooShort nat
  | TagMismatch
  | RandFailed string
  | RsaFailed x931_error
  | OaepFailed string

type_synonym rand = "string + bytes"

text \<open>
  The interface every layer above relies on: what one side encrypts the other side decrypts, and a
  ciphertext is never empty. The predicates say which draws of randomness and which plaintexts.
\<close>

locale cipher =
  fixes encrypt :: "rand \<Rightarrow> 'p \<Rightarrow> cipher_error + bytes"
    and decrypt :: "bytes \<Rightarrow> cipher_error + 'p"
    and rnd_ok :: "rand \<Rightarrow> bool"
    and plain_ok :: "'p \<Rightarrow> bool"
  assumes encrypts: "rnd_ok r \<Longrightarrow> plain_ok p \<Longrightarrow> \<exists>ct. encrypt r p = Inr ct \<and> ct \<noteq> []"
    and inverts: "rnd_ok r \<Longrightarrow> plain_ok p \<Longrightarrow> encrypt r p = Inr ct \<Longrightarrow> decrypt ct = Inr p"
begin

lemma encrypt_inj:
  "rnd_ok r \<Longrightarrow> rnd_ok r' \<Longrightarrow> plain_ok p \<Longrightarrow> plain_ok p' \<Longrightarrow> encrypt r p = Inr ct \<Longrightarrow>
     encrypt r' p' = Inr ct \<Longrightarrow> p = p'"
  by (metis inverts sum.inject(2))

lemma transport: "rnd_ok r \<Longrightarrow> plain_ok p \<Longrightarrow> bind_err (encrypt r p) decrypt = Inr p"
  using encrypts inverts by (metis bind_err_simps(2))

end


subsection \<open>The auth stream: IV, tag, ciphertext\<close>

definition tcpIVLen :: nat where "tcpIVLen = 11"
definition tcpTagLen :: nat where "tcpTagLen = 16"

definition cwcTCP_Encrypt :: "Context \<Rightarrow> rand \<Rightarrow> bytes \<Rightarrow> cipher_error + bytes" where
  "cwcTCP_Encrypt ctx rd pt =
     (case rd of
        Inl err \<Rightarrow> Inl (RandFailed err)
      | Inr iv \<Rightarrow> let (ct, tag) = EncryptMessage ctx iv iv pt tcpTagLen in Inr (iv @ tag @ ct))"

definition cwcTCP_Decrypt :: "Context \<Rightarrow> bytes \<Rightarrow> cipher_error + bytes" where
  "cwcTCP_Decrypt ctx inp =
     (if length inp < tcpIVLen + tcpTagLen + 1 then Inl (TooShort (length inp))
      else
        let iv = take tcpIVLen inp;
            tag = slice tcpIVLen (tcpIVLen + tcpTagLen) inp;
            ct = drop (tcpIVLen + tcpTagLen) inp
        in case DecryptMessage ctx iv iv ct tag of
             None \<Rightarrow> Inl TagMismatch
           | Some pt \<Rightarrow> Inr pt)"


subsection \<open>The game datagrams\<close>

definition udpIVLen :: nat where "udpIVLen = 11"
definition udpTagLen :: nat where "udpTagLen = 16"
definition udpTokenLen :: nat where "udpTokenLen = 8"

definition sealServerToClient :: "Context \<Rightarrow> rand \<Rightarrow> bytes \<Rightarrow> cipher_error + bytes" where
  "sealServerToClient ctx rd pt =
     (case rd of
        Inl err \<Rightarrow> Inl (RandFailed err)
      | Inr iv \<Rightarrow> let (ct, tag) = EncryptMessage ctx iv iv pt udpTagLen in Inr (iv @ tag @ ct))"

definition openServerToClient :: "Context \<Rightarrow> bytes \<Rightarrow> cipher_error + bytes \<times> bool" where
  "openServerToClient ctx inp =
     (if length inp < udpIVLen + udpTagLen + 1 then Inl (TooShort (length inp))
      else
        let iv = take udpIVLen inp;
            tag = slice udpIVLen (udpIVLen + udpTagLen) inp;
            ct = drop (udpIVLen + udpTagLen) inp
        in case DecryptMessage ctx iv iv ct tag of
             None \<Rightarrow> Inl TagMismatch
           | Some pt \<Rightarrow> Inr (pt, False))"

definition clientSeal :: "Context \<Rightarrow> bytes \<Rightarrow> rand \<Rightarrow> bytes \<times> bool \<Rightarrow> cipher_error + bytes" where
  "clientSeal ctx token rd p =
     (case rd of
        Inl err \<Rightarrow> Inl (RandFailed err)
      | Inr iv \<Rightarrow>
          let ptype = (if snd p then 1 else 0);
              aad = iv @ token @ [ptype];
              (ct, tag) = EncryptMessage ctx iv aad (fst p) udpTagLen
          in Inr (token @ iv @ tag @ [ptype] @ ct))"

definition openClientToServer :: "Context \<Rightarrow> bytes \<Rightarrow> cipher_error + bytes \<times> bool" where
  "openClientToServer ctx inp =
     (if length inp < udpTokenLen + udpIVLen + udpTagLen + 1 + 1 then Inl (TooShort (length inp))
      else
        let token = take udpTokenLen inp;
            iv = slice udpTokenLen (udpTokenLen + udpIVLen) inp;
            tag = slice (udpTokenLen + udpIVLen) (udpTokenLen + udpIVLen + udpTagLen) inp;
            ptype = inp ! (udpTokenLen + udpIVLen + udpTagLen);
            ct = drop (udpTokenLen + udpIVLen + udpTagLen + 1) inp;
            aad = iv @ token @ [ptype]
        in case DecryptMessage ctx iv aad ct tag of
             None \<Rightarrow> Inl TagMismatch
           | Some pt \<Rightarrow> Inr (pt, ptype \<noteq> 0))"

definition TokenFromDatagram :: "bytes \<Rightarrow> bytes option" where
  "TokenFromDatagram inp =
     (if length inp < udpTokenLen then None else Some (take udpTokenLen inp))"

lemmas frame_lens = tcpIVLen_def tcpTagLen_def udpIVLen_def udpTagLen_def udpTokenLen_def


subsection \<open>RSA on the handshake\<close>

definition rsaServer_Encrypt :: "nat \<Rightarrow> nat \<Rightarrow> bytes \<Rightarrow> cipher_error + bytes" where
  "rsaServer_Encrypt n d pt =
     (case PrivateEncrypt n d pt of Inl err \<Rightarrow> Inl (RsaFailed err) | Inr ct \<Rightarrow> Inr ct)"

definition rsaServer_Decrypt :: "(bytes \<Rightarrow> string + bytes) \<Rightarrow> bytes \<Rightarrow> cipher_error + bytes" where
  "rsaServer_Decrypt decryptOAEP ct =
     (case decryptOAEP ct of Inl err \<Rightarrow> Inl (OaepFailed err) | Inr pt \<Rightarrow> Inr pt)"

definition rsaClient_Encrypt ::
  "(rand \<Rightarrow> bytes \<Rightarrow> string + bytes) \<Rightarrow> rand \<Rightarrow> bytes \<Rightarrow> cipher_error + bytes" where
  "rsaClient_Encrypt encryptOAEP rd pt =
     (case encryptOAEP rd pt of Inl err \<Rightarrow> Inl (OaepFailed err) | Inr ct \<Rightarrow> Inr ct)"

definition rsaClient_Decrypt :: "nat \<Rightarrow> nat \<Rightarrow> bytes \<Rightarrow> cipher_error + bytes" where
  "rsaClient_Decrypt n e ct =
     (case PublicDecrypt n e ct of Inl err \<Rightarrow> Inl (RsaFailed err) | Inr pt \<Rightarrow> Inr pt)"


subsection \<open>The interface holds\<close>

definition iv_ok :: "rand \<Rightarrow> bool" where
  "iv_ok rd \<longleftrightarrow> (\<exists>iv. rd = Inr iv \<and> length iv = 11)"

lemma framed_pieces:
  assumes "length iv = 11" "length tag = 16"
  shows "take 11 (iv @ tag @ ct) = iv" "slice 11 27 (iv @ tag @ ct) = tag"
    and "drop 27 (iv @ tag @ ct) = ct"
  using assms by (simp_all add: slice_def)

interpretation tcp_cipher: cipher "cwcTCP_Encrypt ctx" "cwcTCP_Decrypt ctx" iv_ok
  "\<lambda>pt. aes_block_size (block ctx) \<and> pt \<noteq> []" for ctx
proof unfold_locales
  fix r and pt :: bytes
  assume "iv_ok r" and pt: "aes_block_size (block ctx) \<and> pt \<noteq> []"
  then obtain iv where r: "r = Inr iv" and iv: "length iv = 11" by (auto simp: iv_ok_def)
  obtain ct tag where e: "EncryptMessage ctx iv iv pt 16 = (ct, tag)" by fastforce
  note d = decrypt_encrypt [OF conjunct1 [OF pt] e]
  have enc: "cwcTCP_Encrypt ctx r pt = Inr (iv @ tag @ ct)"
    by (simp add: cwcTCP_Encrypt_def r e frame_lens)
  with iv show "\<exists>ct. cwcTCP_Encrypt ctx r pt = Inr ct \<and> ct \<noteq> []" by auto
  fix c assume "cwcTCP_Encrypt ctx r pt = Inr c"
  with enc have "c = iv @ tag @ ct" by simp
  with iv pt d show "cwcTCP_Decrypt ctx c = Inr pt"
    by (simp add: cwcTCP_Decrypt_def frame_lens framed_pieces Let_def Suc_le_eq)
qed

interpretation server_udp: cipher "\<lambda>rd p. sealServerToClient ctx rd (fst p)" "openServerToClient ctx"
  iv_ok "\<lambda>p. aes_block_size (block ctx) \<and> fst p \<noteq> [] \<and> \<not> snd p" for ctx
proof unfold_locales
  fix r and p :: "bytes \<times> bool"
  assume "iv_ok r" and p: "aes_block_size (block ctx) \<and> fst p \<noteq> [] \<and> \<not> snd p"
  then obtain iv where r: "r = Inr iv" and iv: "length iv = 11" by (auto simp: iv_ok_def)
  obtain ct tag where e: "EncryptMessage ctx iv iv (fst p) 16 = (ct, tag)" by fastforce
  note d = decrypt_encrypt [OF conjunct1 [OF p] e]
  have enc: "sealServerToClient ctx r (fst p) = Inr (iv @ tag @ ct)"
    by (simp add: sealServerToClient_def r e frame_lens)
  with iv show "\<exists>ct. sealServerToClient ctx r (fst p) = Inr ct \<and> ct \<noteq> []" by auto
  fix c assume "sealServerToClient ctx r (fst p) = Inr c"
  with enc have "c = iv @ tag @ ct" by simp
  with iv p d show "openServerToClient ctx c = Inr p"
    by (cases p) (simp add: openServerToClient_def frame_lens framed_pieces Let_def Suc_le_eq)
qed

lemma client_pieces:
  assumes "length token = 8" "length iv = 11" "length tag = 16"
  shows "take 8 (token @ iv @ tag @ [t] @ ct) = token"
    and "slice 8 19 (token @ iv @ tag @ [t] @ ct) = iv"
    and "slice 19 35 (token @ iv @ tag @ [t] @ ct) = tag"
    and "(token @ iv @ tag @ [t] @ ct) ! 35 = t" "drop 36 (token @ iv @ tag @ [t] @ ct) = ct"
  using assms by (simp_all add: slice_def nth_append)

interpretation client_udp: cipher "clientSeal ctx token" "openClientToServer ctx"
  iv_ok "\<lambda>p. aes_block_size (block ctx) \<and> length token = 8 \<and> fst p \<noteq> []" for ctx token
proof unfold_locales
  fix r and p :: "bytes \<times> bool"
  assume "iv_ok r" and p: "aes_block_size (block ctx) \<and> length token = 8 \<and> fst p \<noteq> []"
  then obtain iv where r: "r = Inr iv" and iv: "length iv = 11" by (auto simp: iv_ok_def)
  let ?t = "if snd p then 1 else 0 :: byte"
  obtain ct tag where e: "EncryptMessage ctx iv (iv @ token @ [?t]) (fst p) 16 = (ct, tag)"
    by fastforce
  note d = decrypt_encrypt [OF conjunct1 [OF p] e]
  have enc: "clientSeal ctx token r p = Inr (token @ iv @ tag @ [?t] @ ct)"
    using e by (simp add: clientSeal_def r frame_lens Let_def)
  then show "\<exists>ct. clientSeal ctx token r p = Inr ct \<and> ct \<noteq> []" by auto
  fix c assume "clientSeal ctx token r p = Inr c"
  with enc have c: "c = token @ iv @ tag @ [?t] @ ct" by simp
  have len: "length token = 8" "length tag = 16" "ct \<noteq> []"
    using p d by auto
  note pieces = client_pieces [OF len(1) iv len(2), of ?t ct, folded c]
  have "37 \<le> length c"
    using len iv by (simp add: c Suc_le_eq)
  with d(1) show "openClientToServer ctx c = Inr p"
    by (cases p) (auto simp: openClientToServer_def frame_lens pieces Let_def)
qed

interpretation rsa_reply: cipher "\<lambda>rd. rsaServer_Encrypt n d" "rsaClient_Decrypt n e" "\<lambda>_. True"
  "\<lambda>pt. rsa_key n e d \<and> 3 \<le> rsaSize n \<and> length pt + 2 \<le> rsaSize n \<and>
     (\<forall>em. pad pt (rsaSize n) = Inr em \<longrightarrow> be_nat em < n)" for n d e
proof unfold_locales
  fix pt :: bytes
  assume pt: "rsa_key n e d \<and> 3 \<le> rsaSize n \<and> length pt + 2 \<le> rsaSize n \<and>
     (\<forall>em. pad pt (rsaSize n) = Inr em \<longrightarrow> be_nat em < n)"
  obtain em where em: "pad pt (rsaSize n) = Inr em"
    using pt by (simp add: pad_def Let_def)
  with pt have "be_nat em < n" by blast
  with em obtain sig where sig: "PrivateEncrypt n d pt = Inr sig" "length sig = rsaSize n"
    by (auto simp: PrivateEncrypt_def Let_def)
  with pt have "sig \<noteq> []" by auto
  with sig show "\<exists>ct. rsaServer_Encrypt n d pt = Inr ct \<and> ct \<noteq> []"
    by (auto simp: rsaServer_Encrypt_def)
  fix ct assume "rsaServer_Encrypt n d pt = Inr ct"
  with sig pt show "rsaClient_Decrypt n e ct = Inr pt"
    by (auto simp: rsaServer_Encrypt_def rsaClient_Decrypt_def x931_inverts)
qed


lemma clientSeal_token:
  "length token = 8 \<Longrightarrow> clientSeal ctx token rd p = Inr dg \<Longrightarrow> TokenFromDatagram dg = Some token"
  by (auto simp: clientSeal_def TokenFromDatagram_def frame_lens Let_def split: sum.splits prod.splits)

text \<open>
  C19: game datagrams survive the trip in both directions. A nonempty datagram sealed by a client opens
  on the server to the same bytes and the same connection-prefix flag, and the server finds the
  client's token on it before knowing the key; a nonempty datagram sealed by the server opens on the
  client to the same bytes, with no prefix flag.
\<close>

theorem datagram_roundtrip:
  assumes "NewContext aes key = Inr ctx" "aes_block_size (aes key)"
    and "length token = 8" "length iv = 11" "pt \<noteq> []"
  shows "(\<exists>dg. clientSeal ctx token (Inr iv) (pt, prefix) = Inr dg \<and>
        TokenFromDatagram dg = Some token \<and> openClientToServer ctx dg = Inr (pt, prefix)) \<and>
    (\<exists>dg. sealServerToClient ctx (Inr iv) pt = Inr dg \<and>
        openServerToClient ctx dg = Inr (pt, False))"
proof -
  have b: "aes_block_size (block ctx)" "iv_ok (Inr iv)"
    using NewContext_key(2) [OF assms(1,2)] assms(4) by (simp_all add: iv_ok_def)
  with client_udp.encrypts [of "Inr iv" ctx token "(pt, prefix)"]
    client_udp.inverts [of "Inr iv" ctx token "(pt, prefix)"] assms
  have "\<exists>dg. clientSeal ctx token (Inr iv) (pt, prefix) = Inr dg \<and>
      TokenFromDatagram dg = Some token \<and> openClientToServer ctx dg = Inr (pt, prefix)"
    using clientSeal_token by fastforce
  moreover have "\<exists>dg. sealServerToClient ctx (Inr iv) pt = Inr dg \<and>
      openServerToClient ctx dg = Inr (pt, False)"
    using server_udp.encrypts [of "Inr iv" ctx "(pt, False)"]
      server_udp.inverts [of "Inr iv" ctx "(pt, False)"] b assms(5) by auto
  ultimately show ?thesis by blast
qed

lemma demo_context: "\<exists>ctx. NewContext demo_aes demo_key = Inr ctx"
  by (simp add: NewContext_def Let_def demo_key_def)

theorem datagram_roundtrip_witness:
  "\<exists>ctx dg. NewContext demo_aes demo_key = Inr ctx \<and>
     clientSeal ctx (replicate 8 9) (Inr (replicate 11 7)) ([1, 2, 3], True) = Inr dg \<and>
     openClientToServer ctx dg = Inr ([1, 2, 3], True)"
proof -
  obtain ctx where "NewContext demo_aes demo_key = Inr ctx"
    using demo_context by blast
  with datagram_roundtrip [OF this demo_aes_block, of "replicate 8 9" "replicate 11 7" "[1, 2, 3]" True]
  show ?thesis by auto
qed

text \<open>
  An empty body is encrypted but not decrypted. The auth stream's cipher turns an empty plaintext
  into a frame of 27 bytes, and its own Decrypt refuses that frame as too short.
\<close>

theorem empty_body_refused:
  assumes "length iv = 11"
  shows "\<exists>frame. cwcTCP_Encrypt ctx (Inr iv) [] = Inr frame \<and>
    cwcTCP_Decrypt ctx frame = Inl (TooShort 27)"
proof -
  obtain ct tag where e: "EncryptMessage ctx iv iv [] 16 = (ct, tag)" by fastforce
  then have "length tag = 16" "ct = []"
    by (auto simp: EncryptMessage_def Let_def)
  with e assms show ?thesis
    by (simp add: cwcTCP_Encrypt_def cwcTCP_Decrypt_def frame_lens)
qed

theorem empty_body_refused_witness:
  "\<exists>ctx frame. cwcTCP_Encrypt ctx (Inr (replicate 11 0)) [] = Inr frame \<and>
     cwcTCP_Decrypt ctx frame = Inl (TooShort 27)"
  using empty_body_refused [of "replicate 11 0"] by auto

end
