(* ===== verification/Auth_Token.thy ===== *)
theory Auth_Token
  imports Prelude
begin

section \<open>Auth tokens\<close>

text \<open>
  internal/server/authtoken/authtoken.go: the registry through which the auth service hands the game
  key of a client to the game service. Each operation takes the reading of the clock. The mutex makes
  each of them atomic, so a run of the two services and the janitor is a sequence of operations.
\<close>

definition TTL :: duration where "TTL = 30 * second"

type_synonym Token = bytes

record entry =
  ekey :: bytes
  expires :: time

record Registry =
  regm :: "Token \<rightharpoonup> entry"
  ttl :: duration

definition NewRegistry :: Registry where
  "NewRegistry = \<lparr>regm = Map.empty, ttl = TTL\<rparr>"

definition Add :: "time \<Rightarrow> Registry \<Rightarrow> Token \<Rightarrow> bytes \<Rightarrow> Registry" where
  "Add t r tok key = r\<lparr>regm := (regm r)(tok \<mapsto> \<lparr>ekey = key, expires = t + ttl r\<rparr>)\<rparr>"

definition Lookup :: "time \<Rightarrow> Registry \<Rightarrow> Token \<Rightarrow> bytes option \<times> Registry" where
  "Lookup t r tok =
     (case regm r tok of
        None \<Rightarrow> (None, r)
      | Some e \<Rightarrow>
          if expires e < t then (None, r\<lparr>regm := (regm r)(tok := None)\<rparr>)
          else (Some (ekey e), r\<lparr>regm := (regm r)(tok \<mapsto> e\<lparr>expires := t + ttl r\<rparr>)\<rparr>))"

definition prune :: "time \<Rightarrow> Registry \<Rightarrow> Registry" where
  "prune t r = r\<lparr>regm := (\<lambda>tok. case regm r tok of
       None \<Rightarrow> None | Some e \<Rightarrow> if expires e < t then None else Some e)\<rparr>"


subsection \<open>The contract\<close>

text \<open>Points in time, each at most \<open>d\<close> after the one before.\<close>

fun within :: "duration \<Rightarrow> time \<Rightarrow> time list \<Rightarrow> bool" where
  "within d t [] = True"
| "within d t (t' # ts) = (t' \<le> t + d \<and> within d t' ts)"

text \<open>
  What the two services rely on. \<open>live t r tok\<close> is the key a lookup at time \<open>t\<close> would return.
\<close>

locale token_store =
  fixes add :: "time \<Rightarrow> 'r \<Rightarrow> Token \<Rightarrow> bytes \<Rightarrow> 'r"
    and lookup :: "time \<Rightarrow> 'r \<Rightarrow> Token \<Rightarrow> bytes option \<times> 'r"
    and sweep :: "time \<Rightarrow> 'r \<Rightarrow> 'r"
    and live :: "time \<Rightarrow> 'r \<Rightarrow> Token \<Rightarrow> bytes option"
    and valid_for :: "'r \<Rightarrow> duration"
  assumes lookup_live: "fst (lookup t r tok) = live t r tok"
    and add_other: "tok' \<noteq> tok \<Longrightarrow> live t' (add t r tok key) tok' = live t' r tok'"
    and add_same: "live t' (add t r tok key) tok = (if t' \<le> t + valid_for r then Some key else None)"
    and lookup_other: "tok' \<noteq> tok \<Longrightarrow> live t' (snd (lookup t r tok)) tok' = live t' r tok'"
    and lookup_same: "live t r tok = Some key \<Longrightarrow>
      live t' (snd (lookup t r tok)) tok = (if t' \<le> t + valid_for r then Some key else None)"
    and lookup_dead: "live t r tok = None \<Longrightarrow> t \<le> t' \<Longrightarrow> live t' (snd (lookup t r tok)) tok = None"
    and sweep_live: "t \<le> t' \<Longrightarrow> live t' (sweep t r) tok = live t' r tok"
    and valid_kept: "valid_for (add t r tok key) = valid_for r"
      "valid_for (snd (lookup t r tok)) = valid_for r" "valid_for (sweep t r) = valid_for r"
begin

text \<open>A client that talks at least once per lifetime keeps its key; lookups all return it.\<close>

fun talk :: "'r \<Rightarrow> Token \<Rightarrow> time list \<Rightarrow> bytes option list" where
  "talk r tok [] = []"
| "talk r tok (t # ts) = fst (lookup t r tok) # talk (snd (lookup t r tok)) tok ts"

lemma talk_alive:
  assumes "\<And>t'. live t' r tok = (if t' \<le> t + valid_for r then Some key else None)"
    and "within (valid_for r) t ts"
  shows "talk r tok (ts @ [u]) = replicate (length ts) (Some key) @
    [if u \<le> last (t # ts) + valid_for r then Some key else None]"
  using assms
proof (induction ts arbitrary: t r)
  case Nil
  then show ?case by (simp add: lookup_live)
next
  case (Cons t' ts)
  have here: "live t' r tok = Some key"
    using Cons.prems by simp
  have "talk (snd (lookup t' r tok)) tok (ts @ [u]) = replicate (length ts) (Some key) @
      [if u \<le> last (t' # ts) + valid_for (snd (lookup t' r tok)) then Some key else None]"
    using Cons.prems(2) lookup_same [OF here] by (intro Cons.IH) (auto simp: valid_kept)
  with here show ?case by (simp add: lookup_live valid_kept)
qed

lemma talk_after_add:
  "within (valid_for r) t ts \<Longrightarrow>
     talk (add t r tok key) tok (ts @ [u]) = replicate (length ts) (Some key) @
       [if u \<le> last (t # ts) + valid_for r then Some key else None]"
  using talk_alive [of "add t r tok key" tok t key ts u] by (simp add: add_same valid_kept)

end

definition live_key :: "time \<Rightarrow> Registry \<Rightarrow> Token \<Rightarrow> bytes option" where
  "live_key t r tok =
     (case regm r tok of None \<Rightarrow> None | Some e \<Rightarrow> if expires e < t then None else Some (ekey e))"

interpretation tokens: token_store Add Lookup prune live_key ttl
proof unfold_locales
  fix t t' :: time and r :: Registry and tok :: Token
  assume "t \<le> t'"
  then show "live_key t' (prune t r) tok = live_key t' r tok"
    by (auto simp: live_key_def prune_def split: option.splits)
qed (auto simp: live_key_def Add_def Lookup_def prune_def split: option.splits if_splits)


subsection \<open>Runs of the services\<close>

datatype reg_op = OpAdd Token bytes | OpLookup Token | OpPrune

fun reg_step :: "time \<Rightarrow> reg_op \<Rightarrow> Registry \<Rightarrow> bytes option list \<times> Registry" where
  "reg_step t (OpAdd tok key) r = ([], Add t r tok key)"
| "reg_step t (OpLookup tok) r = (let (k, r') = Lookup t r tok in ([k], r'))"
| "reg_step t OpPrune r = ([], prune t r)"

fun reg_run :: "(time \<times> reg_op) list \<Rightarrow> Registry \<Rightarrow> bytes option list \<times> Registry" where
  "reg_run [] r = ([], r)"
| "reg_run ((t, x) # ops) r =
     (let (ks, r1) = reg_step t x r; (ks', r2) = reg_run ops r1 in (ks @ ks', r2))"

text \<open>Two registries that no lookup from time \<open>t\<close> on can tell apart.\<close>

definition same_from :: "time \<Rightarrow> Registry \<Rightarrow> Registry \<Rightarrow> bool" where
  "same_from t r r' \<longleftrightarrow> ttl r = ttl r' \<and> (\<forall>t'\<ge>t. \<forall>tok. live_key t' r tok = live_key t' r' tok)"

lemma same_from_step:
  assumes "same_from t r r'" "t \<le> t'"
  shows "same_from t' (snd (reg_step t' x r)) (snd (reg_step t' x r')) \<and>
    fst (reg_step t' x r) = fst (reg_step t' x r')"
proof (cases x)
  case (OpAdd tok key)
  have "live_key u (Add t' r tok key) tok' = live_key u (Add t' r' tok key) tok'" if "t' \<le> u" for u tok'
    using assms that by (cases "tok' = tok") (auto simp: tokens.add_same tokens.add_other same_from_def)
  with OpAdd assms(1) show ?thesis
    by (simp add: same_from_def tokens.valid_kept)
next
  case (OpLookup tok)
  have here: "live_key t' r tok = live_key t' r' tok"
    using assms by (simp add: same_from_def)
  have "live_key u (snd (Lookup t' r tok)) tok' = live_key u (snd (Lookup t' r' tok)) tok'"
    if "t' \<le> u" for u tok'
  proof (cases "tok' = tok")
    case True
    show ?thesis
    proof (cases "live_key t' r tok")
      case None
      with here that True show ?thesis by (simp add: tokens.lookup_dead)
    next
      case (Some key)
      moreover from this have "live_key t' r' tok = Some key" using here by simp
      ultimately show ?thesis
        using True assms(1)
          tokens.lookup_same [of t' r tok key u] tokens.lookup_same [of t' r' tok key u]
        by (simp add: same_from_def)
    qed
  next
    case False
    with assms that show ?thesis by (simp add: tokens.lookup_other same_from_def)
  qed
  moreover have "fst (Lookup t' r tok) = fst (Lookup t' r' tok)"
    using here by (simp add: tokens.lookup_live)
  ultimately show ?thesis
    using OpLookup assms(1)
    by (auto simp: same_from_def tokens.valid_kept split: prod.splits) (metis fst_conv snd_conv tokens.valid_kept(2))+
next
  case OpPrune
  with assms show ?thesis
    by (auto simp: same_from_def tokens.sweep_live tokens.valid_kept)
qed


lemma same_from_prune: "t \<le> t' \<Longrightarrow> same_from t r r' \<Longrightarrow> same_from t' (prune t' r) r'"
  by (simp add: same_from_def tokens.sweep_live tokens.valid_kept)

lemma janitor_aux:
  assumes "same_from t r r'" "sorted (t # map fst ops)"
  shows "fst (reg_run ops r) = fst (reg_run (filter (\<lambda>(_, x). x \<noteq> OpPrune) ops) r')"
  using assms
proof (induction ops arbitrary: t r r')
  case Nil
  then show ?case by simp
next
  case (Cons op ops)
  obtain t' x where op: "op = (t', x)" by (cases op)
  have t': "t \<le> t'" "sorted (t' # map fst ops)"
    using Cons.prems(2) op by auto
  show ?case
  proof (cases "x = OpPrune")
    case True
    then have "fst (reg_run ops (prune t' r)) = fst (reg_run (filter (\<lambda>(_, x). x \<noteq> OpPrune) ops) r')"
      using Cons.prems(1) t' by (intro Cons.IH [of t'] same_from_prune) auto
    with op True show ?thesis by (simp split: prod.splits)
  next
    case False
    then have "fst (reg_run ops (snd (reg_step t' x r))) =
        fst (reg_run (filter (\<lambda>(_, x). x \<noteq> OpPrune) ops) (snd (reg_step t' x r')))"
      using Cons.prems(1) t' same_from_step by (intro Cons.IH [of t']) auto
    moreover have "fst (reg_step t' x r) = fst (reg_step t' x r')"
      using same_from_step [OF Cons.prems(1) t'(1)] by blast
    ultimately show ?thesis
      using op False by (auto split: prod.splits)
  qed
qed

text \<open>
  The janitor is invisible. In every run of additions, lookups and prunings whose clock does not go
  back, the lookups return exactly what they return with the prunings left out.
\<close>

theorem janitor_unobservable:
  assumes "sorted (map fst ops)"
  shows "fst (reg_run ops r) = fst (reg_run (filter (\<lambda>(_, x). x \<noteq> OpPrune) ops) r)"
proof (cases ops)
  case Nil
  then show ?thesis by simp
next
  case (Cons op rest)
  have "same_from (fst op) r r" by (simp add: same_from_def)
  then show ?thesis
    using assms Cons by (intro janitor_aux [of "fst op"]) auto
qed

theorem janitor_unobservable_witness:
  "fst (reg_run [(0, OpAdd [1] [7]), (second, OpPrune), (2 * second, OpLookup [1])] NewRegistry) =
   fst (reg_run [(0, OpAdd [1] [7]), (2 * second, OpLookup [1])] NewRegistry)"
  using janitor_unobservable
    [of "[(0, OpAdd [1] [7]), (second, OpPrune), (2 * second, OpLookup [1])]" NewRegistry]
  by (simp add: second_def millisecond_def)

lemma reg_run_lookups: "fst (reg_run (map (\<lambda>t. (t, OpLookup tok)) ts) r) = tokens.talk r tok ts"
proof (induction ts arbitrary: r)
  case Nil
  then show ?case by simp
next
  case (Cons t ts)
  show ?case
    using Cons [of "snd (Lookup t r tok)"] by (auto split: prod.splits)
qed


text \<open>
  C25: the life of a token. Added at some time, a token is found by every lookup as long as each comes at
  most the time to live after the one before it, and every such lookup returns the key it was added
  with. A further lookup finds it exactly when it comes at most the time to live after the last one.
\<close>

theorem token_lifetime:
  assumes "within (ttl r) t ts"
  shows "fst (reg_run ((t, OpAdd tok key) # map (\<lambda>t. (t, OpLookup tok)) (ts @ [u])) r) =
    replicate (length ts) (Some key) @
      [if u \<le> last (t # ts) + ttl r then Some key else None]"
proof -
  have "fst (reg_run ((t, OpAdd tok key) # map (\<lambda>t. (t, OpLookup tok)) (ts @ [u])) r) =
      tokens.talk (Add t r tok key) tok (ts @ [u])"
    unfolding reg_run_lookups [symmetric] by (simp split: prod.splits)
  then show ?thesis
    using tokens.talk_after_add [OF assms] by simp
qed

theorem token_lifetime_witness:
  "fst (reg_run [(0, OpAdd [1] [7]), (20 * second, OpLookup [1]), (45 * second, OpLookup [1]),
     (80 * second, OpLookup [1])] NewRegistry) = [Some [7], Some [7], None]"
  using token_lifetime [of NewRegistry 0 "[20 * second, 45 * second]" "[1]" "[7]" "80 * second"]
  by (simp add: NewRegistry_def TTL_def second_def millisecond_def)

end
