(* ===== verification/Protobuf.thy ===== *)
theory Protobuf
  imports Prelude
begin

section \<open>Protobuf messages\<close>

text \<open>
  The messages of the game protocol as the handlers see them. The generated accessors under
  internal/proto and the google.golang.org/protobuf library are not modelled: a message is its name and
  the fields that are set, in the Go names of the generated structures, and decoding and encoding are
  parameters of the handlers. An accessor \<open>GetX\<close> returns the value of the field, or the default of its
  type when the field is not set, also on a nil message.
\<close>

datatype pbval =
    PU32 u32
  | PI64 "64 word"
  | PStr string
  | PBytes bytes
  | PEnum int
  | PMsg pbmsg
  | PRep "pbval list"
and pbmsg = Pb string "(string \<times> pbval) list"

fun pbName :: "pbmsg \<Rightarrow> string" where
  "pbName (Pb n fs) = n"

fun pbField :: "pbmsg \<Rightarrow> string \<Rightarrow> pbval option" where
  "pbField (Pb n fs) f = map_of fs f"

definition getU32 :: "pbmsg \<Rightarrow> string \<Rightarrow> u32" where
  "getU32 m f = (case pbField m f of Some (PU32 v) \<Rightarrow> v | _ \<Rightarrow> 0)"

definition getI64 :: "pbmsg \<Rightarrow> string \<Rightarrow> 64 word" where
  "getI64 m f = (case pbField m f of Some (PI64 v) \<Rightarrow> v | _ \<Rightarrow> 0)"

definition getStr :: "pbmsg \<Rightarrow> string \<Rightarrow> string" where
  "getStr m f = (case pbField m f of Some (PStr v) \<Rightarrow> v | _ \<Rightarrow> '''')"

definition getBytes :: "pbmsg \<Rightarrow> string \<Rightarrow> bytes" where
  "getBytes m f = (case pbField m f of Some (PBytes v) \<Rightarrow> v | _ \<Rightarrow> [])"

definition getEnum :: "int \<Rightarrow> pbmsg \<Rightarrow> string \<Rightarrow> int" where
  "getEnum d m f = (case pbField m f of Some (PEnum v) \<Rightarrow> v | _ \<Rightarrow> d)"

definition getMsg :: "pbmsg \<Rightarrow> string \<Rightarrow> pbmsg option" where
  "getMsg m f = (case pbField m f of Some (PMsg v) \<Rightarrow> Some v | _ \<Rightarrow> None)"

definition getRep :: "pbmsg \<Rightarrow> string \<Rightarrow> pbval list" where
  "getRep m f = (case pbField m f of Some (PRep vs) \<Rightarrow> vs | _ \<Rightarrow> [])"

definition getMsgs :: "pbmsg \<Rightarrow> string \<Rightarrow> pbmsg list" where
  "getMsgs m f = List.map_filter (\<lambda>v. case v of PMsg x \<Rightarrow> Some x | _ \<Rightarrow> None) (getRep m f)"

definition getU32s :: "pbmsg \<Rightarrow> string \<Rightarrow> u32 list" where
  "getU32s m f = List.map_filter (\<lambda>v. case v of PU32 x \<Rightarrow> Some x | _ \<Rightarrow> None) (getRep m f)"

text \<open>An accessor on a possibly nil message.\<close>

definition nilU32 :: "pbmsg option \<Rightarrow> string \<Rightarrow> u32" where
  "nilU32 m f = (case m of None \<Rightarrow> 0 | Some x \<Rightarrow> getU32 x f)"

text \<open>A message-valued field is set when the Go pointer is not nil.\<close>

definition optMsg :: "string \<Rightarrow> pbmsg option \<Rightarrow> (string \<times> pbval) list" where
  "optMsg f m = (case m of None \<Rightarrow> [] | Some x \<Rightarrow> [(f, PMsg x)])"

text \<open>
  A bytes field is set when the slice is not nil. A slice copied with \<open>append([]byte(nil), b...)\<close> is nil
  when it is empty.
\<close>

definition optBytes :: "string \<Rightarrow> bytes \<Rightarrow> (string \<times> pbval) list" where
  "optBytes f b = (if b = [] then [] else [(f, PBytes b)])"

text \<open>The Go slice of a bytes field: nil when the field is not set.\<close>

definition rawBytes :: "string \<Rightarrow> pbmsg \<Rightarrow> string \<Rightarrow> (string \<times> pbval) list" where
  "rawBytes f m g = (case pbField m g of Some (PBytes v) \<Rightarrow> [(f, PBytes v)] | _ \<Rightarrow> [])"

definition repMsgs :: "pbmsg list \<Rightarrow> pbval" where
  "repMsgs ms = PRep (map PMsg ms)"

lemmas pb_simps = getU32_def getI64_def getStr_def getBytes_def getEnum_def getMsg_def getRep_def
  getMsgs_def getU32s_def nilU32_def optMsg_def optBytes_def rawBytes_def repMsgs_def

lemma getMsgs_repMsgs [simp]: "pbField m f = Some (repMsgs ms) \<Longrightarrow> getMsgs m f = ms"
  by (simp add: getMsgs_def getRep_def repMsgs_def List.map_filter_def comp_def)

end
