(* ===== verification/Matchmaking.thy ===== *)
theory Matchmaking
  imports Protobuf
begin

section \<open>Matchmaking\<close>

text \<open>
  internal/server/game/matchmaking.go: the profile a session accumulates from status updates and the
  rules that decide who may be matched with whom. The protobuf decoder of the status blob is the
  argument \<open>unmarshal\<close>; a decoded message has an optional value per field the code reads. The two
  environment variables the code consults are arguments as well.
\<close>

record PlayerStatus =
  Archetype :: "u32 option"
  Covenant :: "u32 option"
  Unknown_4 :: "u32 option"
  Unknown_5 :: "u32 option"
  Unknown_6 :: "u32 option"
  SittingAtBonfire :: "u32 option"
  DisableCrossRegionPlay :: "u32 option"
  HumanEffigyBurnt :: "u32 option"
  Unknown_13 :: "u32 option"
  Unknown_14 :: "u32 option"
  SoulLevel :: "u32 option"
  SoulMemory :: "u32 option"
  Unknown_16 :: "u32 option"
  Unknown_17 :: "u32 option"
  Unknown_20 :: "u32 option"
  PhantomLeaveAt :: bool

record PlayerLocation =
  OnlineAreaId :: "u32 option"
  OnlineActivityAreaId :: "u32 option"
  CellId :: "u32 option"

record ItemUsingInfo =
  NamedRingGod :: "u32 option"
  UsingDriedFingers :: "u32 option"
  ItemUnknown_3 :: "u32 option"
  GuardiansSeal :: "u32 option"
  BellKeepersSeal :: "u32 option"
  CrestOfTheRat :: "u32 option"
  ItemUnknown_7 :: "u32 option"
  ItemUnknown_8 :: "u32 option"

record StatsInfo =
  SinnerPoints :: "u32 option"
  StatsUnknown_1 :: "u32 option"
  StatsUnknown_2 :: "u32 option"
  StatsUnknown_5 :: "u32 option"
  StatsUnknown_10 :: "u32 option"
  StatsUnknown_12 :: "u32 option"
  StatsUnknown_13 :: "u32 option"
  StatsUnknown_14 :: "u32 option"

record AllStatus =
  GetPlayerStatus :: "PlayerStatus option"
  GetPlayerLocation :: "PlayerLocation option"
  GetItemUsingInfo :: "ItemUsingInfo option"
  GetStatsInfo :: "StatsInfo option"

text \<open>A \<open>MatchingParameter\<close> message.\<close>

type_synonym MatchingParameter = pbmsg

record matchProfile =
  received :: bool
  soulMemory :: u32
  soulLevel :: u32
  covenant :: "u32 option"
  onlineActivityArea :: u32
  onlineArea :: u32
  sittingAtBonfire :: bool
  humanEffigyBurnt :: bool
  guardiansSeal :: bool
  bellKeepersSeal :: bool
  crestOfTheRat :: bool
  nameEngravedRing :: u32
  disableCrossRegion :: bool
  sinnerPoints :: u32
  statsSeen :: bool
  mpSoulMemory :: u32
  mpCovenant :: u32
  mpSeen :: bool
  statusFields :: "string \<rightharpoonup> u32"

definition emptyProfile :: matchProfile where
  "emptyProfile =
     \<lparr>received = False, soulMemory = 0, soulLevel = 0, covenant = None, onlineActivityArea = 0,
      onlineArea = 0, sittingAtBonfire = False, humanEffigyBurnt = False, guardiansSeal = False,
      bellKeepersSeal = False, crestOfTheRat = False, nameEngravedRing = 0,
      disableCrossRegion = False, sinnerPoints = 0, statsSeen = False, mpSoulMemory = 0,
      mpCovenant = 0, mpSeen = False, statusFields = Map.empty\<rparr>"

definition setField :: "string \<Rightarrow> u32 \<Rightarrow> matchProfile \<Rightarrow> matchProfile" where
  "setField name v p = p\<lparr>statusFields := (statusFields p)(name \<mapsto> v)\<rparr>"

text \<open>\<open>if x.v != nil { p.setField(x.name, *x.v) }\<close> over a table of fields.\<close>

definition setFields :: "(string \<times> u32 option) list \<Rightarrow> matchProfile \<Rightarrow> matchProfile" where
  "setFields fs p =
     foldl (\<lambda>q (name, v). case v of None \<Rightarrow> q | Some x \<Rightarrow> setField name x q) p fs"

definition keep :: "'a option \<Rightarrow> 'a \<Rightarrow> 'a" where
  "keep new old = (case new of None \<Rightarrow> old | Some v \<Rightarrow> v)"

definition keepFlag :: "u32 option \<Rightarrow> bool \<Rightarrow> bool" where
  "keepFlag new old = (case new of None \<Rightarrow> old | Some v \<Rightarrow> v \<noteq> 0)"

definition applyPlayerStatus :: "PlayerStatus \<Rightarrow> matchProfile \<Rightarrow> matchProfile" where
  "applyPlayerStatus st p =
     p\<lparr>soulMemory := keep (SoulMemory st) (soulMemory p),
       soulLevel := keep (SoulLevel st) (soulLevel p),
       covenant := (case Covenant st of None \<Rightarrow> covenant p | Some c \<Rightarrow> Some c),
       sittingAtBonfire := keepFlag (SittingAtBonfire st) (sittingAtBonfire p),
       humanEffigyBurnt := keepFlag (HumanEffigyBurnt st) (humanEffigyBurnt p),
       disableCrossRegion := keepFlag (DisableCrossRegionPlay st) (disableCrossRegion p)\<rparr>"

definition applyLocation :: "PlayerLocation \<Rightarrow> matchProfile \<Rightarrow> matchProfile" where
  "applyLocation loc p =
     p\<lparr>onlineActivityArea := keep (OnlineActivityAreaId loc) (onlineActivityArea p),
       onlineArea := keep (OnlineAreaId loc) (onlineArea p)\<rparr>"

definition applyStats :: "StatsInfo \<Rightarrow> matchProfile \<Rightarrow> matchProfile" where
  "applyStats st p =
     (case SinnerPoints st of
        None \<Rightarrow> p
      | Some v \<Rightarrow> p\<lparr>sinnerPoints := v, statsSeen := True\<rparr>)"

definition playerStatusFields :: "PlayerStatus \<Rightarrow> (string \<times> u32 option) list" where
  "playerStatusFields st =
     [(''ps.archetype'', Archetype st), (''ps.covenant'', Covenant st),
      (''ps.unknown_4'', Unknown_4 st), (''ps.unknown_5'', Unknown_5 st),
      (''ps.unknown_6'', Unknown_6 st), (''ps.sitting_at_bonfire'', SittingAtBonfire st),
      (''ps.disable_cross_region'', DisableCrossRegionPlay st),
      (''ps.human_effigy_burnt'', HumanEffigyBurnt st), (''ps.unknown_13'', Unknown_13 st),
      (''ps.unknown_14'', Unknown_14 st), (''ps.soul_level'', SoulLevel st),
      (''ps.unknown_16'', Unknown_16 st), (''ps.unknown_17'', Unknown_17 st),
      (''ps.unknown_20'', Unknown_20 st),
      (''ps.phantom_leave_at_present'', if PhantomLeaveAt st then Some 1 else None)]"

definition itemFields :: "ItemUsingInfo \<Rightarrow> (string \<times> u32 option) list" where
  "itemFields it =
     [(''item.named_ring_god'', NamedRingGod it), (''item.dried_fingers'', UsingDriedFingers it),
      (''item.unknown_3'', ItemUnknown_3 it), (''item.guardians_seal'', GuardiansSeal it),
      (''item.bell_keepers_seal'', BellKeepersSeal it), (''item.crest_of_the_rat'', CrestOfTheRat it),
      (''item.unknown_7'', ItemUnknown_7 it), (''item.unknown_8'', ItemUnknown_8 it)]"

definition statsFields :: "StatsInfo \<Rightarrow> (string \<times> u32 option) list" where
  "statsFields st =
     [(''stats.sinner_points'', SinnerPoints st), (''stats.unknown_1'', StatsUnknown_1 st),
      (''stats.unknown_2'', StatsUnknown_2 st), (''stats.unknown_5'', StatsUnknown_5 st),
      (''stats.unknown_10'', StatsUnknown_10 st), (''stats.unknown_12'', StatsUnknown_12 st),
      (''stats.unknown_13'', StatsUnknown_13 st), (''stats.unknown_14'', StatsUnknown_14 st)]"

definition locationFields :: "PlayerLocation \<Rightarrow> (string \<times> u32 option) list" where
  "locationFields loc =
     [(''loc.online_area'', OnlineAreaId loc), (''loc.activity_area'', OnlineActivityAreaId loc),
      (''loc.cell'', CellId loc)]"

definition applyItems :: "ItemUsingInfo \<Rightarrow> matchProfile \<Rightarrow> matchProfile" where
  "applyItems it p =
     p\<lparr>guardiansSeal := keepFlag (GuardiansSeal it) (guardiansSeal p),
       bellKeepersSeal := keepFlag (BellKeepersSeal it) (bellKeepersSeal p),
       crestOfTheRat := keepFlag (CrestOfTheRat it) (crestOfTheRat p),
       nameEngravedRing := keep (NamedRingGod it) (nameEngravedRing p)\<rparr>"

definition when_some :: "'a option \<Rightarrow> ('a \<Rightarrow> 'b \<Rightarrow> 'b) \<Rightarrow> 'b \<Rightarrow> 'b" where
  "when_some x f y = (case x of None \<Rightarrow> y | Some v \<Rightarrow> f v y)"

definition applyAll :: "AllStatus \<Rightarrow> matchProfile \<Rightarrow> matchProfile" where
  "applyAll all p0 =
     (let p1 = p0\<lparr>received := True\<rparr>;
          p2 = when_some (GetPlayerStatus all) applyPlayerStatus p1;
          p3 = when_some (GetPlayerLocation all) applyLocation p2;
          p4 = when_some (GetStatsInfo all) applyStats p3;
          p5 = when_some (GetPlayerStatus all) (\<lambda>st. setFields (playerStatusFields st)) p4;
          p6 = when_some (GetItemUsingInfo all) (\<lambda>it. setFields (itemFields it)) p5;
          p7 = when_some (GetStatsInfo all) (\<lambda>st. setFields (statsFields st)) p6;
          p8 = when_some (GetPlayerLocation all) (\<lambda>loc. setFields (locationFields loc)) p7
      in when_some (GetItemUsingInfo all) applyItems p8)"

definition applyStatus :: "(bytes \<Rightarrow> AllStatus option) \<Rightarrow> bytes \<Rightarrow> matchProfile \<Rightarrow> matchProfile" where
  "applyStatus unmarshal blob p = (case unmarshal blob of None \<Rightarrow> p | Some all \<Rightarrow> applyAll all p)"

definition applyMatchingParameter :: "MatchingParameter option \<Rightarrow> matchProfile \<Rightarrow> matchProfile" where
  "applyMatchingParameter mp p =
     (case mp of
        None \<Rightarrow> p
      | Some m \<Rightarrow> p\<lparr>received := True, mpSoulMemory := getU32 m ''SoulMemory'',
                    mpCovenant := getU32 m ''Covenant'', mpSeen := True\<rparr>)"

definition effectiveSoulMemory :: "matchProfile \<Rightarrow> u32" where
  "effectiveSoulMemory p = (if soulMemory p \<noteq> 0 then soulMemory p else mpSoulMemory p)"

definition effectiveCovenant :: "matchProfile \<Rightarrow> u32" where
  "effectiveCovenant p = (case covenant p of Some c \<Rightarrow> c | None \<Rightarrow> mpCovenant p)"

definition covenantBlueSentinels :: u32 where "covenantBlueSentinels = 2"
definition covenantRatKing :: u32 where "covenantRatKing = 5"
definition covenantBellKeepers :: u32 where "covenantBellKeepers = 6"

datatype VisitorType =
    VisitorType_None
  | VisitorType_BlueSentinels
  | VisitorType_BellKeepers
  | VisitorType_Rat
  | VisitorType_Other int

definition ratCells :: "u32 set" where
  "ratCells = {103410, 103320}"

definition visitorPoolFor :: "matchProfile \<Rightarrow> VisitorType" where
  "visitorPoolFor p =
     (if \<not> received p then VisitorType_None
      else if onlineActivityArea p = 0 then VisitorType_None
      else
        let cov = effectiveCovenant p
        in if guardiansSeal p \<and> cov = covenantBlueSentinels then VisitorType_BlueSentinels
           else if bellKeepersSeal p \<and> cov = covenantBellKeepers then VisitorType_BellKeepers
           else if cov \<noteq> covenantRatKing \<and> onlineActivityArea p \<in> ratCells then VisitorType_Rat
           else VisitorType_None)"

definition isInvadable :: "matchProfile \<Rightarrow> bool" where
  "isInvadable p \<longleftrightarrow>
     received p \<and> \<not> sittingAtBonfire p \<and> \<not> humanEffigyBurnt p \<and> onlineActivityArea p \<noteq> 0"

record tierWindow =
  below :: int
  above :: int

definition breakInTierWindow :: tierWindow where
  "breakInTierWindow = \<lparr>below = 0, above = 4\<rparr>"

definition soulMemoryTiers :: "u32 list" where
  "soulMemoryTiers =
     [9999, 19999, 29999, 39999, 49999, 69999, 89999, 109999,
      129999, 149999, 179999, 209999, 239999, 269999, 299999,
      349999, 399999, 449999, 499999, 599999, 699999, 799999,
      899999, 999999, 1099999, 1199999, 1299999, 1399999,
      1499999, 1749999, 1999999, 2249999, 2499999, 2749999,
      2999999, 4999999, 6999999, 8999999, 11999999, 14999999,
      19999999, 29999999, 44999999, 359999999, 999999999]"

fun tierFrom :: "u32 list \<Rightarrow> nat \<Rightarrow> u32 \<Rightarrow> nat option" where
  "tierFrom [] i sm = None"
| "tierFrom (e # es) i sm = (if sm \<le> e then Some i else tierFrom es (Suc i) sm)"

definition soulMemoryTier :: "u32 \<Rightarrow> nat" where
  "soulMemoryTier sm =
     (case tierFrom soulMemoryTiers 0 sm of Some i \<Rightarrow> i | None \<Rightarrow> length soulMemoryTiers - 1)"

definition visitorTierWindows :: "VisitorType \<Rightarrow> tierWindow option" where
  "visitorTierWindows t =
     (case t of
        VisitorType_Rat \<Rightarrow> Some \<lparr>below = 1, above = 3\<rparr>
      | VisitorType_BellKeepers \<Rightarrow> Some \<lparr>below = 1, above = 3\<rparr>
      | VisitorType_BlueSentinels \<Rightarrow> Some \<lparr>below = 5, above = 4\<rparr>
      | _ \<Rightarrow> None)"

definition soulMemoryMatches :: "u32 \<Rightarrow> u32 \<Rightarrow> tierWindow \<Rightarrow> bool" where
  "soulMemoryMatches itemUserSM candidateSM w \<longleftrightarrow>
     (let user = int (soulMemoryTier itemUserSM); cand = int (soulMemoryTier candidateSM)
      in user - below w \<le> cand \<and> cand \<le> user + above w)"

text \<open>\<open>strconv.ParseBool\<close> and the switch for the filters.\<close>

definition parseBool :: "string \<Rightarrow> bool option" where
  "parseBool v =
     (if v \<in> {''1'', ''t'', ''T'', ''TRUE'', ''true'', ''True''} then Some True
      else if v \<in> {''0'', ''f'', ''F'', ''FALSE'', ''false'', ''False''} then Some False
      else None)"

definition matchmakingEnabled :: "string \<Rightarrow> bool" where
  "matchmakingEnabled v = (v = '''' \<or> (case parseBool v of None \<Rightarrow> True | Some on \<Rightarrow> on))"


subsection \<open>Tiers\<close>

lemma tierFrom_count:
  "sorted es \<Longrightarrow> tierFrom es i sm =
     (if \<exists>e\<in>set es. sm \<le> e then Some (i + length (filter (\<lambda>e. e < sm) es)) else None)"
proof (induction es arbitrary: i)
  case Nil
  then show ?case by simp
next
  case (Cons e es)
  show ?case
  proof (cases "sm \<le> e")
    case True
    then have "filter (\<lambda>e'. e' < sm) (e # es) = []"
      using Cons.prems by (auto simp: filter_empty_conv not_less intro: order_trans)
    with True show ?thesis by simp
  next
    case False
    then have "e < sm" by simp
    with Cons.IH [of "Suc i"] Cons.prems False show ?thesis by simp
  qed
qed

lemma tiers_sorted: "sorted soulMemoryTiers"
  unfolding soulMemoryTiers_def by (simp only: sorted2 sorted1) simp

lemma length_tiers: "length soulMemoryTiers = 45"
  by (simp add: soulMemoryTiers_def)

text \<open>The band of a value is the number of band ends below it, and the last band has no end.\<close>

lemma soulMemoryTier_count:
  "soulMemoryTier sm = min 44 (length (filter (\<lambda>e. e < sm) soulMemoryTiers))"
proof (cases "\<exists>e\<in>set soulMemoryTiers. sm \<le> e")
  case True
  then have "length (filter (\<lambda>e. e < sm) soulMemoryTiers) < 45"
    using length_filter_less [of _ soulMemoryTiers "\<lambda>e. e < sm"] length_tiers
    by (metis not_less)
  with True show ?thesis
    by (simp add: soulMemoryTier_def tierFrom_count [OF tiers_sorted])
next
  case False
  then have "filter (\<lambda>e. e < sm) soulMemoryTiers = soulMemoryTiers"
    by (simp add: filter_id_conv not_le)
  with False show ?thesis
    by (simp add: soulMemoryTier_def tierFrom_count [OF tiers_sorted] length_tiers)
qed

lemma count_below_mono:
  "a \<le> b \<Longrightarrow> length (filter (\<lambda>e. e < a) es) \<le> length (filter (\<lambda>e. e < b) es)" for a b :: u32
  by (induction es) (auto dest: less_le_trans)

lemma soulMemoryTier_mono: "a \<le> b \<Longrightarrow> soulMemoryTier a \<le> soulMemoryTier b"
proof -
  assume "a \<le> b"
  then have "length (filter (\<lambda>e. e < a) soulMemoryTiers) \<le> length (filter (\<lambda>e. e < b) soulMemoryTiers)"
    by (rule count_below_mono)
  then show ?thesis by (simp add: soulMemoryTier_count min_le_iff_disj)
qed

text \<open>
  Matching by soul memory is convex. Between two players who may both be matched with the same
  item user every player in between may be matched too, for every window.
\<close>

theorem soul_memory_window_convex:
  assumes "soulMemoryMatches u a w" "soulMemoryMatches u c w" "a \<le> b" "b \<le> c"
  shows "soulMemoryMatches u b w"
proof -
  have "soulMemoryTier a \<le> soulMemoryTier b" "soulMemoryTier b \<le> soulMemoryTier c"
    using assms(3,4) by (simp_all add: soulMemoryTier_mono)
  with assms(1,2) show ?thesis
    by (simp add: soulMemoryMatches_def Let_def)
qed

theorem soul_memory_window_convex_witness:
  "soulMemoryMatches 10000 25000 breakInTierWindow"
proof -
  have "soulMemoryMatches 10000 10000 breakInTierWindow" "soulMemoryMatches 10000 30000 breakInTierWindow"
    by (simp_all add: soulMemoryMatches_def breakInTierWindow_def soulMemoryTier_def soulMemoryTiers_def)
  from soul_memory_window_convex [OF this, of 25000] show ?thesis by simp
qed


subsection \<open>Heartbeats merge\<close>

text \<open>The last of the values that were sent, and the default when none was.\<close>

definition last_known :: "'a \<Rightarrow> 'a option list \<Rightarrow> 'a" where
  "last_known d vs = last (d # List.map_filter id vs)"

text \<open>The values a sequence of messages carries for one field of one part, as numbers and as flags.\<close>

definition sent_values :: "('m \<Rightarrow> 'r option) \<Rightarrow> ('r \<Rightarrow> 'v option) \<Rightarrow> 'm list \<Rightarrow> 'v option list" where
  "sent_values part field ms = map (\<lambda>m. Option.bind (part m) field) ms"

definition as_flags :: "u32 option list \<Rightarrow> bool option list" where
  "as_flags vs = map (map_option (\<lambda>x. x \<noteq> 0)) vs"

text \<open>The named values one message carries, in the order they are recorded, and those under one name.\<close>

definition statusTable :: "AllStatus \<Rightarrow> (string \<times> u32 option) list" where
  "statusTable a =
     (case GetPlayerStatus a of None \<Rightarrow> [] | Some st \<Rightarrow> playerStatusFields st) @
     (case GetItemUsingInfo a of None \<Rightarrow> [] | Some it \<Rightarrow> itemFields it) @
     (case GetStatsInfo a of None \<Rightarrow> [] | Some st \<Rightarrow> statsFields st) @
     (case GetPlayerLocation a of None \<Rightarrow> [] | Some loc \<Rightarrow> locationFields loc)"

definition named_values :: "string \<Rightarrow> (string \<times> u32 option) list \<Rightarrow> u32 option option list" where
  "named_values name fs = map (\<lambda>(n, v). if n = name then map_option Some v else None) fs"

lemma last_known_Nil [simp]: "last_known d [] = d"
  by (simp add: last_known_def)

lemma last_known_append: "last_known d (xs @ ys) = last_known (last_known d xs) ys"
  by (simp add: last_known_def List.map_filter_def)

lemma last_known_Cons: "last_known d (v # vs) = last_known (keep v d) vs"
  by (simp add: last_known_def keep_def List.map_filter_simps split: option.split)

lemma last_known_snoc: "last_known d (vs @ [v]) = keep v (last_known d vs)"
  by (simp add: last_known_append last_known_Cons)

lemma keepFlag_keep: "keepFlag v b = keep (map_option (\<lambda>x. x \<noteq> 0) v) b"
  by (simp add: keepFlag_def keep_def split: option.split)

lemma sent_values_snoc: "sent_values part field (ms @ [m]) = sent_values part field ms @ [Option.bind (part m) field]"
  by (simp add: sent_values_def)

lemma as_flags_snoc: "as_flags (vs @ [v]) = as_flags vs @ [map_option (\<lambda>x. x \<noteq> 0) v]"
  by (simp add: as_flags_def)

lemmas merge_simps = last_known_snoc sent_values_snoc as_flags_snoc keepFlag_keep

lemma setFields_merge:
  "setFields fs p = p\<lparr>statusFields := (\<lambda>name. last_known (statusFields p name) (named_values name fs))\<rparr>"
proof (induction fs arbitrary: p)
  case Nil
  show ?case by (simp add: setFields_def named_values_def)
next
  case (Cons f fs)
  obtain n v where f: "f = (n, v)" by (cases f)
  have step: "setFields (f # fs) p = setFields fs (case v of None \<Rightarrow> p | Some x \<Rightarrow> setField n x p)"
    by (simp add: setFields_def f)
  show ?case
    unfolding step Cons
    by (cases v) (auto simp: f named_values_def last_known_Cons keep_def setField_def intro!: arg_cong [of _ _ "\<lambda>m. p\<lparr>statusFields := m\<rparr>"])
qed

text \<open>One message, as a whole: what it leaves out keeps its value.\<close>

lemma applyAll_merge:
  "applyAll a p =
     p\<lparr>received := True,
       soulMemory := keep (Option.bind (GetPlayerStatus a) SoulMemory) (soulMemory p),
       soulLevel := keep (Option.bind (GetPlayerStatus a) SoulLevel) (soulLevel p),
       covenant := keep (map_option Some (Option.bind (GetPlayerStatus a) Covenant)) (covenant p),
       onlineActivityArea := keep (Option.bind (GetPlayerLocation a) OnlineActivityAreaId) (onlineActivityArea p),
       onlineArea := keep (Option.bind (GetPlayerLocation a) OnlineAreaId) (onlineArea p),
       sittingAtBonfire := keepFlag (Option.bind (GetPlayerStatus a) SittingAtBonfire) (sittingAtBonfire p),
       humanEffigyBurnt := keepFlag (Option.bind (GetPlayerStatus a) HumanEffigyBurnt) (humanEffigyBurnt p),
       guardiansSeal := keepFlag (Option.bind (GetItemUsingInfo a) GuardiansSeal) (guardiansSeal p),
       bellKeepersSeal := keepFlag (Option.bind (GetItemUsingInfo a) BellKeepersSeal) (bellKeepersSeal p),
       crestOfTheRat := keepFlag (Option.bind (GetItemUsingInfo a) CrestOfTheRat) (crestOfTheRat p),
       nameEngravedRing := keep (Option.bind (GetItemUsingInfo a) NamedRingGod) (nameEngravedRing p),
       disableCrossRegion := keepFlag (Option.bind (GetPlayerStatus a) DisableCrossRegionPlay) (disableCrossRegion p),
       sinnerPoints := keep (Option.bind (GetStatsInfo a) SinnerPoints) (sinnerPoints p),
       statsSeen := (statsSeen p \<or> Option.bind (GetStatsInfo a) SinnerPoints \<noteq> None),
       statusFields := (\<lambda>name. last_known (statusFields p name) (named_values name (statusTable a)))\<rparr>"
proof -
  have u: "named_values name (xs @ ys) = named_values name xs @ named_values name ys" "named_values name [] = []" for name xs ys
    by (simp_all add: named_values_def)
  show ?thesis
    unfolding applyAll_def Let_def when_some_def statusTable_def setFields_merge
    by (cases "GetPlayerStatus a"; cases "GetPlayerLocation a"; cases "GetItemUsingInfo a"; cases "GetStatsInfo a")
      (simp_all add: u last_known_append applyItems_def applyStats_def applyLocation_def applyPlayerStatus_def
        keep_def keepFlag_def split: option.split)
qed

text \<open>
  C32: heartbeats carry changes, and the profile remembers. Over any sequence of status blobs, of which those
  that do not parse are ignored, the profile is its old self with every field at the last value any of the
  updates carried for it, whatever the other updates left out: soul memory and level, covenant, areas, the
  flags, the items, the sin points and the table of raw values, each name for itself. What comes with a
  matching parameter is not touched. Once an update has arrived, the player can be invaded exactly when the
  last known values say so.
\<close>

theorem heartbeats_merge:
  fixes unmarshal :: "bytes \<Rightarrow> AllStatus option" and blobs :: "bytes list" and p :: matchProfile
  defines "alls \<equiv> List.map_filter unmarshal blobs"
    and "q \<equiv> foldl (\<lambda>r blob. applyStatus unmarshal blob r) p blobs"
  shows "q = p\<lparr>received := (received p \<or> alls \<noteq> []),
       soulMemory := last_known (soulMemory p) (sent_values GetPlayerStatus SoulMemory alls),
       soulLevel := last_known (soulLevel p) (sent_values GetPlayerStatus SoulLevel alls),
       covenant := last_known (covenant p) (map (map_option Some) (sent_values GetPlayerStatus Covenant alls)),
       onlineActivityArea := last_known (onlineActivityArea p) (sent_values GetPlayerLocation OnlineActivityAreaId alls),
       onlineArea := last_known (onlineArea p) (sent_values GetPlayerLocation OnlineAreaId alls),
       sittingAtBonfire := last_known (sittingAtBonfire p) (as_flags (sent_values GetPlayerStatus SittingAtBonfire alls)),
       humanEffigyBurnt := last_known (humanEffigyBurnt p) (as_flags (sent_values GetPlayerStatus HumanEffigyBurnt alls)),
       guardiansSeal := last_known (guardiansSeal p) (as_flags (sent_values GetItemUsingInfo GuardiansSeal alls)),
       bellKeepersSeal := last_known (bellKeepersSeal p) (as_flags (sent_values GetItemUsingInfo BellKeepersSeal alls)),
       crestOfTheRat := last_known (crestOfTheRat p) (as_flags (sent_values GetItemUsingInfo CrestOfTheRat alls)),
       nameEngravedRing := last_known (nameEngravedRing p) (sent_values GetItemUsingInfo NamedRingGod alls),
       disableCrossRegion := last_known (disableCrossRegion p) (as_flags (sent_values GetPlayerStatus DisableCrossRegionPlay alls)),
       sinnerPoints := last_known (sinnerPoints p) (sent_values GetStatsInfo SinnerPoints alls),
       statsSeen := (statsSeen p \<or> (\<exists>v\<in>set (sent_values GetStatsInfo SinnerPoints alls). v \<noteq> None)),
       statusFields := (\<lambda>name. last_known (statusFields p name) (concat (map (\<lambda>a. named_values name (statusTable a)) alls)))\<rparr> \<and>
    (alls \<noteq> [] \<longrightarrow>
      (isInvadable q \<longleftrightarrow>
        \<not> last_known (sittingAtBonfire p) (as_flags (sent_values GetPlayerStatus SittingAtBonfire alls)) \<and>
        \<not> last_known (humanEffigyBurnt p) (as_flags (sent_values GetPlayerStatus HumanEffigyBurnt alls)) \<and>
        last_known (onlineActivityArea p) (sent_values GetPlayerLocation OnlineActivityAreaId alls) \<noteq> 0))"
    (is "q = ?q alls \<and> _")
proof -
  have "foldl (\<lambda>r blob. applyStatus unmarshal blob r) p bs = ?q (List.map_filter unmarshal bs)" for bs
  proof (induction bs rule: rev_induct)
    case Nil
    show ?case by (simp add: List.map_filter_def sent_values_def as_flags_def)
  next
    case (snoc b bs)
    show ?case
    proof (cases "unmarshal b")
      case None
      with snoc show ?thesis by (simp add: applyStatus_def List.map_filter_def)
    next
      case (Some a)
      then have "List.map_filter unmarshal (bs @ [b]) = List.map_filter unmarshal bs @ [a]"
        by (simp add: List.map_filter_def)
      moreover have "applyAll a (?q ms) = ?q (ms @ [a])" for ms
        by (simp add: applyAll_merge merge_simps last_known_append last_known_Cons disj_ac)
      ultimately show ?thesis
        by (simp only: foldl_append foldl.simps snoc) (simp only: applyStatus_def Some option.case)
    qed
  qed
  then have "q = ?q alls" by (simp add: q_def alls_def)
  then show ?thesis by (simp add: isInvadable_def)
qed

definition demo_playerStatus :: PlayerStatus where
  "demo_playerStatus = \<lparr>Archetype = None, Covenant = None, Unknown_4 = None, Unknown_5 = None, Unknown_6 = None,
     SittingAtBonfire = None, DisableCrossRegionPlay = None, HumanEffigyBurnt = None,
     Unknown_13 = None, Unknown_14 = None, SoulLevel = None, SoulMemory = None, Unknown_16 = None,
     Unknown_17 = None, Unknown_20 = None, PhantomLeaveAt = False\<rparr>"

text \<open>Two updates: the second gets up from the bonfire and says nothing about the soul memory.\<close>

definition demo_updates :: "bytes \<Rightarrow> AllStatus option" where
  "demo_updates blob =
     (if blob = [1]
      then Some \<lparr>GetPlayerStatus = Some (demo_playerStatus\<lparr>SittingAtBonfire := Some 1, SoulMemory := Some 40000\<rparr>),
        GetPlayerLocation = Some \<lparr>OnlineAreaId = None, OnlineActivityAreaId = Some 103410, CellId = None\<rparr>,
        GetItemUsingInfo = None, GetStatsInfo = None\<rparr>
      else if blob = [2]
      then Some \<lparr>GetPlayerStatus = Some (demo_playerStatus\<lparr>SittingAtBonfire := Some 0\<rparr>), GetPlayerLocation = None,
        GetItemUsingInfo = None, GetStatsInfo = None\<rparr>
      else None)"

theorem heartbeats_merge_witness:
  "let q = foldl (\<lambda>r blob. applyStatus demo_updates blob r) emptyProfile [[1], [9], [2]]
   in isInvadable q \<and> soulMemory q = 40000"
proof -
  have alls: "List.map_filter demo_updates [[1], [9], [2]] = [the (demo_updates [1]), the (demo_updates [2])]"
    by (simp add: List.map_filter_def demo_updates_def)
  note merged = heartbeats_merge [where unmarshal = demo_updates and blobs = "[[1], [9], [2]]", unfolded alls]
  show ?thesis
    unfolding Let_def
    by (subst (2) merged [THEN conjunct1], subst merged [THEN conjunct2, rule_format])
      (simp_all add: sent_values_def as_flags_def last_known_Cons keep_def demo_updates_def demo_playerStatus_def emptyProfile_def)
qed

text \<open>
  Who can be pulled where. A player nothing is known about, or outside every activity area, is in no
  pool. A Blue Sentinel or a Bell Keeper is in a pool only with the seal equipped, and a member of the
  Rat King's covenant is never prey for the rats.
\<close>

theorem visitor_pools:
  "(visitorPoolFor p \<noteq> VisitorType_None \<longrightarrow> received p \<and> onlineActivityArea p \<noteq> 0) \<and>
   (visitorPoolFor p = VisitorType_BlueSentinels \<longrightarrow>
      guardiansSeal p \<and> effectiveCovenant p = covenantBlueSentinels) \<and>
   (visitorPoolFor p = VisitorType_BellKeepers \<longrightarrow>
      bellKeepersSeal p \<and> effectiveCovenant p = covenantBellKeepers) \<and>
   (visitorPoolFor p = VisitorType_Rat \<longrightarrow>
      effectiveCovenant p \<noteq> covenantRatKing \<and> onlineActivityArea p \<in> ratCells)"
  by (simp add: visitorPoolFor_def Let_def)

theorem visitor_pools_witness:
  "let p = emptyProfile\<lparr>received := True, onlineActivityArea := 103410, covenant := Some 3\<rparr>
   in visitorPoolFor p = VisitorType_Rat \<and> effectiveCovenant p \<noteq> covenantRatKing"
proof -
  let ?p = "emptyProfile\<lparr>received := True, onlineActivityArea := 103410, covenant := Some 3\<rparr>"
  have "visitorPoolFor ?p = VisitorType_Rat"
    by (simp add: visitorPoolFor_def Let_def emptyProfile_def effectiveCovenant_def ratCells_def
        covenantBlueSentinels_def covenantRatKing_def covenantBellKeepers_def)
  with visitor_pools [of ?p] show ?thesis by (simp add: Let_def)
qed

end
