(* ===== verification/Game_Stores.thy ===== *)
theory Game_Stores
  imports Matchmaking
begin

section \<open>The memory stores of the game service\<close>

text \<open>
  The stores of sign.go, ghost.go, bloodstain.go and quickmatch.go under internal/server/game. Each
  store has its own mutex, held for the whole of every operation, so an operation is a function of the
  store. A pointer to a stored sign is modelled by its value: what the code does with the pointer after
  the call only reads fields that never change, or writes through the store again. Where the code ranges
  over a map the visiting order is an argument.
\<close>

subsection \<open>Collecting up to a limit\<close>

text \<open>
  The loop \<open>if skip { continue }; out = append(out, x); if limit > 0 && len(out) >= limit { break }\<close>.
\<close>

fun gather :: "int \<Rightarrow> ('a \<Rightarrow> bool) \<Rightarrow> 'a list \<Rightarrow> 'a list \<Rightarrow> 'a list" where
  "gather limit skip out [] = out"
| "gather limit skip out (x # xs) =
     (if skip x then gather limit skip out xs
      else
        let out' = out @ [x]
        in if 0 < limit \<and> limit \<le> int (length out') then out' else gather limit skip out' xs)"

lemma gather_eq:
  "0 < limit \<longrightarrow> int (length out) < limit \<Longrightarrow>
     gather limit skip out xs = out @
       (if 0 < limit then take (nat limit - length out) (filter (\<lambda>x. \<not> skip x) xs)
        else filter (\<lambda>x. \<not> skip x) xs)"
proof (induction xs arbitrary: out)
  case Nil
  show ?case by simp
next
  case (Cons x xs)
  show ?case
  proof (cases "skip x \<or> limit \<le> 0 \<or> int (length out) + 1 < limit")
    case True
    then show ?thesis using Cons by (auto simp: Let_def take_Cons' Suc_diff_Suc)
  next
    case False
    with Cons.prems have "nat limit - length out = 1" by linarith
    with False Cons.prems show ?thesis by (simp add: Let_def)
  qed
qed

lemma gather_Nil_eq:
  "gather limit skip [] xs =
     (if 0 < limit then take (nat limit) (filter (\<lambda>x. \<not> skip x) xs) else filter (\<lambda>x. \<not> skip x) xs)"
  by (subst gather_eq) simp_all

lemma set_gather: "set (gather limit skip [] xs) \<subseteq> {x \<in> set xs. \<not> skip x}"
  by (auto simp: gather_Nil_eq dest: in_set_takeD)

lemma length_gather: "0 < limit \<Longrightarrow> int (length (gather limit skip [] xs)) \<le> limit"
  by (simp add: gather_Nil_eq min_def) linarith


subsection \<open>Fresh identifiers\<close>

text \<open>
  What the handlers rely on when a store hands out an identifier: it comes from a counter that only
  grows, and an operation adds no other identifier to the store. \<open>step\<close> is any operation of the store,
  with the identifier it hands out, if it does.
\<close>

locale id_registry =
  fixes step :: "'op \<Rightarrow> 's \<Rightarrow> u32 option \<times> 's"
    and next_id :: "'s \<Rightarrow> u32"
    and ids :: "'s \<Rightarrow> u32 set"
  assumes hands_out: "fst (step a s) = Some i \<Longrightarrow> i = next_id s + 1"
    and counts: "next_id (snd (step a s)) = (case fst (step a s) of None \<Rightarrow> next_id s | Some i \<Rightarrow> i)"
    and no_other_id: "ids (snd (step a s)) \<subseteq> ids s \<union> set_option (fst (step a s))"
begin

fun run :: "'op list \<Rightarrow> 's \<Rightarrow> u32 list \<times> 's" where
  "run [] s = ([], s)"
| "run (a # as) s =
     (let (r, s1) = step a s; (is, s2) = run as s1
      in (case r of None \<Rightarrow> is | Some i \<Rightarrow> i # is, s2))"

definition bounded :: "'s \<Rightarrow> bool" where
  "bounded s \<longleftrightarrow> (\<forall>i\<in>ids s. i \<le> next_id s)"

lemma run_step:
  "step a s = (r, s1) \<Longrightarrow> run as s1 = (js, s2) \<Longrightarrow>
     run (a # as) s = (case r of None \<Rightarrow> js | Some i \<Rightarrow> i # js, s2)"
  by simp

lemma next_after:
  assumes "step a s = (r, s1)" "unat (next_id s) + 1 < 2 ^ 32"
  shows "(r = None \<and> next_id s1 = next_id s) \<or>
    (r = Some (next_id s1) \<and> unat (next_id s1) = Suc (unat (next_id s)))"
proof -
  have "unat (next_id s + 1) = Suc (unat (next_id s))"
    using assms(2) by (subst unat_plus_simple [THEN iffD1]) (auto simp: no_olen_add_nat)
  then show ?thesis
    using counts [of a s] hands_out [of a s] assms(1) by (cases r) auto
qed

lemma run_ids:
  "unat (next_id s) + length as < 2 ^ 32 \<Longrightarrow>
     map unat (fst (run as s)) =
       [Suc (unat (next_id s)) ..< Suc (unat (next_id s)) + length (fst (run as s))] \<and>
     length (fst (run as s)) \<le> length as \<and>
     unat (next_id (snd (run as s))) = unat (next_id s) + length (fst (run as s))"
proof (induction as arbitrary: s)
  case Nil
  then show ?case by simp
next
  case (Cons a as)
  obtain r s1 where st: "step a s = (r, s1)" by fastforce
  obtain js s2 where rn: "run as s1 = (js, s2)" by fastforce
  have run: "run (a # as) s = (case r of None \<Rightarrow> js | Some i \<Rightarrow> i # js, s2)"
    by (rule run_step [OF st rn])
  have "unat (next_id s) + 1 < 2 ^ 32" using Cons.prems by simp
  from next_after [OF st this] show ?case
  proof
    assume "r = None \<and> next_id s1 = next_id s"
    with Cons.IH [of s1] Cons.prems show ?thesis
      unfolding run by (simp add: rn del: upt_Suc)
  next
    assume "r = Some (next_id s1) \<and> unat (next_id s1) = Suc (unat (next_id s))"
    with Cons.IH [of s1] Cons.prems show ?thesis
      unfolding run by (simp add: rn upt_conv_Cons del: upt_Suc)
  qed
qed

lemma run_bounded:
  "bounded s \<Longrightarrow> unat (next_id s) + length as < 2 ^ 32 \<Longrightarrow> bounded (snd (run as s))"
proof (induction as arbitrary: s)
  case Nil
  then show ?case by simp
next
  case (Cons a as)
  obtain r s1 where st: "step a s = (r, s1)" by fastforce
  obtain js s2 where rn: "run as s1 = (js, s2)" by fastforce
  have "unat (next_id s) + 1 < 2 ^ 32" using Cons.prems by simp
  note after = next_after [OF st this]
  have sub: "ids s1 \<subseteq> ids s \<union> set_option r"
    using no_other_id [of a s] st by simp
  have mono: "next_id s \<le> next_id s1" and room: "unat (next_id s1) + length as < 2 ^ 32"
    using after Cons.prems(2) by (auto simp: word_le_nat_alt)
  have "i \<le> next_id s1" if "i \<in> ids s1" for i
    using that sub after mono Cons.prems(1) unfolding bounded_def by (auto intro: order_trans)
  then have "bounded s1" by (simp add: bounded_def)
  then show ?case
    using Cons.IH [of s1] room rn by (subst run_step [OF st rn]) simp
qed

text \<open>What every step keeps while there are identifiers left, a run keeps.\<close>

lemma run_keeps:
  assumes "\<And>a s. a \<in> set as \<Longrightarrow> I s \<Longrightarrow> unat (next_id s) + 1 < 2 ^ 32 \<Longrightarrow> I (snd (step a s))"
    and "I s" "unat (next_id s) + length as < 2 ^ 32"
  shows "I (snd (run as s))"
  using assms
proof (induction as arbitrary: s)
  case Nil
  then show ?case by simp
next
  case (Cons a as)
  obtain r s1 where st: "step a s = (r, s1)" by fastforce
  obtain js s2 where rn: "run as s1 = (js, s2)" by fastforce
  have room: "unat (next_id s) + 1 < 2 ^ 32" using Cons.prems(3) by simp
  have "I s1" using Cons.prems(1) [of a s] Cons.prems(2) room st by simp
  moreover have "unat (next_id s1) + length as < 2 ^ 32"
    using next_after [OF st room] Cons.prems(3) by auto
  ultimately have "I s2"
    using Cons.IH [of s1] Cons.prems(1) rn by simp
  then show ?case by (subst run_step [OF st rn]) simp
qed

end

subsection \<open>Summon signs\<close>

definition firstSignID :: u32 where "firstSignID = 100000"
definition firstMirrorKnightSignID :: u32 where "firstMirrorKnightSignID = 500000"

text \<open>\<open>sgOwner\<close> is the pointer to the session of the host, which the code stores and never reads.\<close>

record sign =
  sgID :: u32
  sgOwnerID :: u32
  sgOwner :: nat
  sgAreaID :: u32
  sgCellID :: u32
  sgSignType :: u32
  sgMatching :: "MatchingParameter option"
  sgPlayer :: bytes
  sgPsnID :: string
  sgSummonedBy :: u32
  sgAwareOf :: "u32 set"

record signStore =
  ssNextID :: u32
  ssByID :: "u32 \<rightharpoonup> sign"

definition newSignStoreFrom :: "u32 \<Rightarrow> signStore" where
  "newSignStoreFrom firstID = \<lparr>ssNextID = firstID - 1, ssByID = Map.empty\<rparr>"

definition newSignStore :: signStore where
  "newSignStore = newSignStoreFrom firstSignID"

definition sign_all :: "u32 list \<Rightarrow> signStore \<Rightarrow> u32 \<Rightarrow> int \<Rightarrow> sign list" where
  "sign_all ord s excludePlayer limit =
     gather limit (\<lambda>sg. sgOwnerID sg = excludePlayer) [] (range_vals (ssByID s) ord)"

definition sign_add :: "signStore \<Rightarrow> sign \<Rightarrow> u32 \<times> signStore" where
  "sign_add s sg0 =
     (let nid = ssNextID s + 1; sg = sg0\<lparr>sgID := nid, sgAwareOf := {}\<rparr>
      in (nid, s\<lparr>ssNextID := nid, ssByID := (ssByID s)(nid \<mapsto> sg)\<rparr>))"

definition sign_get :: "signStore \<Rightarrow> u32 \<Rightarrow> sign option" where
  "sign_get s sid = ssByID s sid"

definition sign_remove :: "signStore \<Rightarrow> u32 \<Rightarrow> sign option \<times> signStore" where
  "sign_remove s sid =
     (case ssByID s sid of
        None \<Rightarrow> (None, s)
      | Some sg \<Rightarrow> (Some sg, s\<lparr>ssByID := (ssByID s)(sid := None)\<rparr>))"

definition owned_by :: "u32 \<Rightarrow> signStore \<Rightarrow> u32 \<Rightarrow> bool" where
  "owned_by p s sid = (case ssByID s sid of None \<Rightarrow> False | Some sg \<Rightarrow> sgOwnerID sg = p)"

definition removeOwnedBy :: "u32 list \<Rightarrow> signStore \<Rightarrow> u32 \<Rightarrow> sign list \<times> signStore" where
  "removeOwnedBy ord s p =
     (let gone = filter (owned_by p s) ord
      in (range_vals (ssByID s) gone,
          s\<lparr>ssByID := (\<lambda>sid. if sid \<in> set gone then None else ssByID s sid)\<rparr>))"

definition sign_inCells :: "u32 list \<Rightarrow> signStore \<Rightarrow> u32 \<Rightarrow> u32 set \<Rightarrow> u32 \<Rightarrow> int \<Rightarrow> sign list" where
  "sign_inCells ord s areaID cells excludePlayer limit =
     gather limit
       (\<lambda>sg. sgAreaID sg \<noteq> areaID \<or> sgOwnerID sg = excludePlayer \<or>
             (cells \<noteq> {} \<and> sgCellID sg \<notin> cells))
       [] (range_vals (ssByID s) ord)"

definition markAware :: "signStore \<Rightarrow> u32 \<Rightarrow> u32 \<Rightarrow> signStore" where
  "markAware s sid playerID =
     (case ssByID s sid of
        None \<Rightarrow> s
      | Some sg \<Rightarrow>
          s\<lparr>ssByID := (ssByID s)(sid \<mapsto> sg\<lparr>sgAwareOf := insert playerID (sgAwareOf sg)\<rparr>)\<rparr>)"

definition claim :: "signStore \<Rightarrow> u32 \<Rightarrow> u32 \<Rightarrow> (sign option \<times> bool) \<times> signStore" where
  "claim s sid byPlayer =
     (case ssByID s sid of
        None \<Rightarrow> ((None, False), s)
      | Some sg \<Rightarrow>
          if sgSummonedBy sg \<noteq> 0 \<and> sgSummonedBy sg \<noteq> byPlayer then ((Some sg, False), s)
          else
            let sg' = sg\<lparr>sgSummonedBy := byPlayer\<rparr>
            in ((Some sg', True), s\<lparr>ssByID := (ssByID s)(sid \<mapsto> sg')\<rparr>))"

definition release :: "signStore \<Rightarrow> u32 \<Rightarrow> signStore" where
  "release s sid =
     (case ssByID s sid of
        None \<Rightarrow> s
      | Some sg \<Rightarrow> s\<lparr>ssByID := (ssByID s)(sid \<mapsto> sg\<lparr>sgSummonedBy := 0\<rparr>)\<rparr>)"

text \<open>Every operation that changes a store, as one step.\<close>

datatype sign_op =
    OpAdd sign
  | OpRemove u32
  | OpRemoveOwnedBy u32 "u32 list"
  | OpMarkAware u32 u32
  | OpClaim u32 u32
  | OpRelease u32

fun sign_step :: "sign_op \<Rightarrow> signStore \<Rightarrow> u32 option \<times> signStore" where
  "sign_step (OpAdd sg) s = (let (sid, s') = sign_add s sg in (Some sid, s'))"
| "sign_step (OpRemove sid) s = (None, snd (sign_remove s sid))"
| "sign_step (OpRemoveOwnedBy p ord) s = (None, snd (removeOwnedBy ord s p))"
| "sign_step (OpMarkAware sid p) s = (None, markAware s sid p)"
| "sign_step (OpClaim sid p) s = (None, snd (claim s sid p))"
| "sign_step (OpRelease sid) s = (None, release s sid)"

lemmas sign_defs = sign_add_def sign_remove_def removeOwnedBy_def markAware_def claim_def release_def

interpretation signs: id_registry sign_step ssNextID "\<lambda>s. dom (ssByID s)"
proof unfold_locales
  fix a s i
  show "fst (sign_step a s) = Some i \<Longrightarrow> i = ssNextID s + 1"
    by (cases a) (auto simp: sign_add_def Let_def)
  show "ssNextID (snd (sign_step a s)) =
      (case fst (sign_step a s) of None \<Rightarrow> ssNextID s | Some i \<Rightarrow> i)"
    by (cases a) (auto simp: sign_defs Let_def split: option.split)
  show "dom (ssByID (snd (sign_step a s))) \<subseteq> dom (ssByID s) \<union> set_option (fst (sign_step a s))"
    by (cases a) (auto simp: sign_defs Let_def split: option.split if_splits)
qed


subsection \<open>Ghosts\<close>

definition firstGhostID :: u32 where "firstGhostID = 100000"
definition maxGhostsPerArea :: nat where "maxGhostsPerArea = 64"

record ghost =
  ghID :: u32
  ghOwnerID :: u32
  ghAreaID :: u32
  ghCellID :: u32
  ghData :: bytes
  ghSeq :: u64

record ghostStore =
  gsNextID :: u32
  gsSeq :: u64
  gsByID :: "u32 \<rightharpoonup> ghost"

definition newGhostStore :: ghostStore where
  "newGhostStore = \<lparr>gsNextID = firstGhostID - 1, gsSeq = 0, gsByID = Map.empty\<rparr>"

text \<open>
  \<open>sort.Slice\<close> is not stable; on a store whose recordings have distinct numbers, which is the case
  until the 64-bit counter wraps, there is only one sorted order.
\<close>

definition evictLocked :: "u32 list \<Rightarrow> u32 \<Rightarrow> ghostStore \<Rightarrow> ghostStore" where
  "evictLocked ord areaID s =
     (let inArea = filter (\<lambda>g. ghAreaID g = areaID) (range_vals (gsByID s) ord)
      in if length inArea \<le> maxGhostsPerArea then s
         else
           let old = take (length inArea - maxGhostsPerArea) (sort_key ghSeq inArea)
           in s\<lparr>gsByID := (\<lambda>sid. if sid \<in> ghID ` set old then None else gsByID s sid)\<rparr>)"

definition ghost_add :: "u32 list \<Rightarrow> ghostStore \<Rightarrow> ghost \<Rightarrow> u32 \<times> ghostStore" where
  "ghost_add ord s g0 =
     (let nid = gsNextID s + 1; sq = gsSeq s + 1; g = g0\<lparr>ghID := nid, ghSeq := sq\<rparr>;
          s1 = s\<lparr>gsNextID := nid, gsSeq := sq, gsByID := (gsByID s)(nid \<mapsto> g)\<rparr>
      in (nid, evictLocked ord (ghAreaID g) s1))"

text \<open>The map from cells to caps, as the list of its entries, the latest first.\<close>

type_synonym cellCaps = "(u32 \<times> int) list"

text \<open>The second loop: at most \<open>cap\<close> per cell where the client gave a positive cap, \<open>limit\<close> overall.\<close>

definition full :: "cellCaps \<Rightarrow> (u32 \<Rightarrow> int) \<Rightarrow> u32 \<Rightarrow> bool" where
  "full cells perCell c = (case map_of cells c of None \<Rightarrow> False | Some k \<Rightarrow> k > 0 \<and> perCell c \<ge> k)"

definition bump :: "(u32 \<Rightarrow> int) \<Rightarrow> u32 \<Rightarrow> u32 \<Rightarrow> int" where
  "bump perCell c = perCell(c := perCell c + 1)"

fun capPerCell :: "int \<Rightarrow> cellCaps \<Rightarrow> (u32 \<Rightarrow> int) \<Rightarrow> ghost list \<Rightarrow> ghost list \<Rightarrow> ghost list" where
  "capPerCell limit cells perCell kept [] = kept"
| "capPerCell limit cells perCell kept (g # gs) =
     (if full cells perCell (ghCellID g) then capPerCell limit cells perCell kept gs
      else
        if 0 < limit \<and> limit \<le> int (length (kept @ [g])) then kept @ [g]
        else capPerCell limit cells (bump perCell (ghCellID g)) (kept @ [g]) gs)"

definition ghost_inCells :: "u32 list \<Rightarrow> ghostStore \<Rightarrow> u32 \<Rightarrow> cellCaps \<Rightarrow> u32 \<Rightarrow> int \<Rightarrow> ghost list" where
  "ghost_inCells ord s areaID cells excludePlayer limit =
     (let out = filter (\<lambda>g. ghAreaID g = areaID \<and> ghOwnerID g \<noteq> excludePlayer \<and>
                            (cells = [] \<or> map_of cells (ghCellID g) \<noteq> None))
                  (range_vals (gsByID s) ord)
      in capPerCell limit cells (\<lambda>_. 0) [] (rev (sort_key ghSeq out)))"

interpretation ghosts: id_registry
  "\<lambda>(ord, g) s. (let (sid, s') = ghost_add ord s g in (Some sid, s'))" gsNextID "\<lambda>s. dom (gsByID s)"
proof unfold_locales
  fix a :: "u32 list \<times> ghost" and s :: ghostStore and i
  let ?st = "(\<lambda>(ord, g) s. (let (sid, s') = ghost_add ord s g in (Some sid, s'))) a s"
  show "fst ?st = Some i \<Longrightarrow> i = gsNextID s + 1"
    by (cases a) (simp add: ghost_add_def Let_def)
  show "gsNextID (snd ?st) = (case fst ?st of None \<Rightarrow> gsNextID s | Some i \<Rightarrow> i)"
    by (cases a) (simp add: ghost_add_def evictLocked_def Let_def)
  show "dom (gsByID (snd ?st)) \<subseteq> dom (gsByID s) \<union> set_option (fst ?st)"
    by (cases a) (auto simp: ghost_add_def evictLocked_def Let_def split: if_splits)
qed


subsection \<open>Bloodstains\<close>

definition firstBloodstainID :: u32 where "firstBloodstainID = 100000"

record bloodstain =
  bsID :: u32
  bsOwnerID :: u32
  bsAreaID :: u32
  bsCellID :: u32
  bsData :: bytes
  bsGhostData :: bytes

record bloodstainStore =
  bsNextID :: u32
  bsByID :: "u32 \<rightharpoonup> bloodstain"

definition newBloodstainStore :: bloodstainStore where
  "newBloodstainStore = \<lparr>bsNextID = firstBloodstainID - 1, bsByID = Map.empty\<rparr>"

definition bloodstain_add :: "bloodstainStore \<Rightarrow> bloodstain \<Rightarrow> u32 \<times> bloodstainStore" where
  "bloodstain_add s b0 =
     (let nid = bsNextID s + 1
      in (nid, s\<lparr>bsNextID := nid, bsByID := (bsByID s)(nid \<mapsto> b0\<lparr>bsID := nid\<rparr>)\<rparr>))"

definition bloodstain_get :: "bloodstainStore \<Rightarrow> u32 \<Rightarrow> bloodstain option" where
  "bloodstain_get s sid = bsByID s sid"

fun stainLoop ::
  "int \<Rightarrow> u32 \<Rightarrow> u32 \<Rightarrow> cellCaps \<Rightarrow> (u32 \<Rightarrow> int) \<Rightarrow> bloodstain list \<Rightarrow> bloodstain list \<Rightarrow> bloodstain list"
where
  "stainLoop limit areaID excludePlayer cells perCell out [] = out"
| "stainLoop limit areaID excludePlayer cells perCell out (b # bs) =
     (if bsAreaID b \<noteq> areaID then stainLoop limit areaID excludePlayer cells perCell out bs
      else if excludePlayer \<noteq> 0 \<and> bsOwnerID b = excludePlayer
      then stainLoop limit areaID excludePlayer cells perCell out bs
      else if cells \<noteq> [] \<and>
              (case map_of cells (bsCellID b) of None \<Rightarrow> True | Some c \<Rightarrow> c > 0 \<and> perCell (bsCellID b) \<ge> c)
      then stainLoop limit areaID excludePlayer cells perCell out bs
      else
        let perCell' = perCell(bsCellID b := perCell (bsCellID b) + 1); out' = out @ [b]
        in if 0 < limit \<and> limit \<le> int (length out') then out'
           else stainLoop limit areaID excludePlayer cells perCell' out' bs)"

definition bloodstain_inCells ::
  "u32 list \<Rightarrow> bloodstainStore \<Rightarrow> u32 \<Rightarrow> cellCaps \<Rightarrow> u32 \<Rightarrow> int \<Rightarrow> bloodstain list" where
  "bloodstain_inCells ord s areaID cells excludePlayer limit =
     stainLoop limit areaID excludePlayer cells (\<lambda>_. 0) [] (range_vals (bsByID s) ord)"

interpretation stains: id_registry
  "\<lambda>b s. (let (sid, s') = bloodstain_add s b in (Some sid, s'))" bsNextID "\<lambda>s. dom (bsByID s)"
  by unfold_locales (auto simp: bloodstain_add_def Let_def)

subsection \<open>Identifiers and claims over the life of a store\<close>

lemma newSignStore_bounded: "signs.bounded (newSignStoreFrom first)"
  by (simp add: signs.bounded_def newSignStoreFrom_def)

lemma unat_first: "unat (ssNextID newSignStore) = 99999"
    "unat (ssNextID (newSignStoreFrom firstMirrorKnightSignID)) = 499999"
  by (simp_all add: newSignStore_def newSignStoreFrom_def firstSignID_def firstMirrorKnightSignID_def)

text \<open>Every sign is stored under its own identifier.\<close>

definition own_ids :: "signStore \<Rightarrow> bool" where
  "own_ids s \<longleftrightarrow> (\<forall>i sg. ssByID s i = Some sg \<longrightarrow> sgID sg = i)"

lemma own_ids_step: "own_ids s \<Longrightarrow> own_ids (snd (sign_step a s))"
  by (cases a) (auto simp: own_ids_def sign_defs Let_def split: option.splits if_splits)

lemma own_ids_new: "own_ids (newSignStoreFrom first)"
  by (simp add: own_ids_def newSignStoreFrom_def)

lemma own_ids_run: "own_ids s \<Longrightarrow> own_ids (snd (signs.run as s))"
proof (induction as arbitrary: s)
  case Nil
  then show ?case by simp
next
  case (Cons a as)
  obtain r s1 where st: "sign_step a s = (r, s1)" by fastforce
  obtain js s2 where rn: "signs.run as s1 = (js, s2)" by fastforce
  have "own_ids s1" using own_ids_step [OF Cons.prems, of a] st by simp
  with Cons.IH [of s1] rn show ?case by (subst signs.run_step [OF st rn]) simp
qed

text \<open>
  Sign identifiers are handed out in order from 100000, whatever other operations come in between,
  and none is handed out twice, for as long as fewer than \<open>2\<^sup>3\<^sup>2 - 99999\<close> operations have run. The
  identifiers of the Mirror Knight store start at 500000, so the two kinds of sign share no identifier
  before the first store has handed out 400000.
\<close>

theorem sign_ids_fresh:
  assumes "length as < 2 ^ 32 - 99999" and "length bs < 2 ^ 32 - 499999"
  shows "let xs = fst (signs.run as newSignStore);
             ys = fst (signs.run bs (newSignStoreFrom firstMirrorKnightSignID))
    in map unat xs = [100000 ..< 100000 + length xs] \<and> distinct xs \<and>
       map unat ys = [500000 ..< 500000 + length ys] \<and> distinct ys \<and>
       (length xs \<le> 400000 \<longrightarrow> set xs \<inter> set ys = {})"
proof -
  define xs where "xs = fst (signs.run as newSignStore)"
  define ys where "ys = fst (signs.run bs (newSignStoreFrom firstMirrorKnightSignID))"
  have "unat (ssNextID newSignStore) + length as < 2 ^ 32"
    using assms(1) by (simp add: unat_first)
  then have xs: "map unat xs = [100000 ..< 100000 + length xs]"
    unfolding xs_def by (drule_tac signs.run_ids) (simp add: unat_first del: upt_Suc)
  have "unat (ssNextID (newSignStoreFrom firstMirrorKnightSignID)) + length bs < 2 ^ 32"
    using assms(2) by (simp add: unat_first)
  then have ys: "map unat ys = [500000 ..< 500000 + length ys]"
    unfolding ys_def by (drule_tac signs.run_ids) (simp add: unat_first del: upt_Suc)
  have "distinct xs" "distinct ys"
    using xs ys by (metis distinct_map distinct_upt)+
  moreover have "set xs \<inter> set ys = {}" if "length xs \<le> 400000"
  proof (rule equals0I)
    fix x
    assume "x \<in> set xs \<inter> set ys"
    then have "unat x \<in> set (map unat xs)" "unat x \<in> set (map unat ys)" by auto
    with xs ys that show False by simp
  qed
  ultimately show ?thesis using xs ys unfolding xs_def ys_def by (simp add: Let_def)
qed

definition blank_sign :: sign where
  "blank_sign = \<lparr>sgID = 0, sgOwnerID = 7, sgOwner = 0, sgAreaID = 1, sgCellID = 2, sgSignType = 0,
     sgMatching = None, sgPlayer = [], sgPsnID = ''host'', sgSummonedBy = 0, sgAwareOf = {}\<rparr>"

theorem sign_ids_fresh_witness:
  "let xs = fst (signs.run [OpAdd blank_sign, OpRemove 100000, OpAdd blank_sign] newSignStore)
   in map unat xs = [100000, 100001]"
proof -
  define xs where "xs = fst (signs.run [OpAdd blank_sign, OpRemove 100000, OpAdd blank_sign] newSignStore)"
  have "length xs = 2"
    unfolding xs_def by (simp add: sign_defs Let_def split: option.split)
  moreover have "length [OpAdd blank_sign, OpRemove 100000, OpAdd blank_sign] < 2 ^ 32 - 99999"
    "length ([] :: sign_op list) < 2 ^ 32 - 499999" by simp_all
  from sign_ids_fresh [OF this] have "map unat xs = [100000 ..< 100000 + length xs]"
    unfolding xs_def Let_def by (rule conjunct1)
  ultimately show ?thesis unfolding xs_def [symmetric] Let_def by (simp add: upt_conv_Cons)
qed

text \<open>A sign that is gone or held by \<open>p\<close>, whose identifier cannot be handed out again.\<close>

definition held_by :: "u32 \<Rightarrow> u32 \<Rightarrow> signStore \<Rightarrow> bool" where
  "held_by p sid s \<longleftrightarrow> sid \<le> ssNextID s \<and>
     (case ssByID s sid of None \<Rightarrow> True | Some sg \<Rightarrow> sgSummonedBy sg = p)"

lemma held_step:
  assumes "held_by p sid s" "a \<noteq> OpRelease sid" "p \<noteq> 0" "unat (ssNextID s) + 1 < 2 ^ 32"
  shows "held_by p sid (snd (sign_step a s))"
proof (cases a)
  case (OpAdd sg)
  have up: "unat (ssNextID s + 1) = Suc (unat (ssNextID s))"
    using assms(4) by (subst unat_plus_simple [THEN iffD1]) (auto simp: no_olen_add_nat)
  then have "sid \<noteq> ssNextID s + 1" "sid \<le> ssNextID s + 1"
    using assms(1) by (auto simp: held_by_def word_le_nat_alt)
  with OpAdd assms(1) show ?thesis by (simp add: held_by_def sign_add_def Let_def)
qed (use assms in \<open>auto simp: held_by_def sign_defs Let_def split: option.splits if_splits\<close>)

lemma held_run:
  assumes "held_by p sid s" "OpRelease sid \<notin> set as" "p \<noteq> 0" "unat (ssNextID s) + length as < 2 ^ 32"
  shows "held_by p sid (snd (signs.run as s))"
proof (rule signs.run_keeps [where I = "held_by p sid"])
  fix a s assume "a \<in> set as" "held_by p sid s" "unat (ssNextID s) + 1 < 2 ^ 32"
  with assms(2,3) show "held_by p sid (snd (sign_step a s))" by (intro held_step) auto
qed (use assms in auto)

text \<open>
  A sign that is gone, or still there with everybody who knew of it: whatever the operations, only who has
  claimed it and who knows of it change, and nobody is forgotten.
\<close>

definition still_known :: "sign \<Rightarrow> signStore \<Rightarrow> bool" where
  "still_known sg s \<longleftrightarrow> sgID sg \<le> ssNextID s \<and>
     (\<forall>sg'. ssByID s (sgID sg) = Some sg' \<longrightarrow>
        sg'\<lparr>sgAwareOf := sgAwareOf sg, sgSummonedBy := sgSummonedBy sg\<rparr> = sg \<and> sgAwareOf sg \<subseteq> sgAwareOf sg')"

lemma still_known_step:
  assumes "still_known sg s" "unat (ssNextID s) + 1 < 2 ^ 32"
  shows "still_known sg (snd (sign_step a s))"
proof (cases a)
  case (OpAdd sg0)
  have up: "unat (ssNextID s + 1) = Suc (unat (ssNextID s))"
    using assms(2) by (subst unat_plus_simple [THEN iffD1]) (auto simp: no_olen_add_nat)
  then have "sgID sg \<noteq> ssNextID s + 1" "sgID sg \<le> ssNextID s + 1"
    using assms(1) by (auto simp: still_known_def word_le_nat_alt)
  with OpAdd assms(1) show ?thesis by (simp add: still_known_def sign_add_def Let_def)
qed (use assms(1) in \<open>auto simp: still_known_def sign_defs Let_def split: option.splits if_splits\<close>)

lemma still_known_run:
  "still_known sg s \<Longrightarrow> unat (ssNextID s) + length as < 2 ^ 32 \<Longrightarrow> still_known sg (snd (signs.run as s))"
  by (rule signs.run_keeps [where I = "still_known sg"]) (use still_known_step in auto)

text \<open>
  C11: a sign is summoned through by one player at a time. Once a logged-in player has claimed a sign,
  nobody else can claim it, whatever other operations run on the store, until the claim is released.
\<close>

theorem claim_exclusive:
  assumes s: "s = snd (signs.run before newSignStore)"
    and c: "claim s sid p = ((Some sg, True), s1)"
    and "p \<noteq> 0" "q \<noteq> p" "OpRelease sid \<notin> set after"
    and room: "length before + length after < 2 ^ 32 - 99999"
  shows "\<not> snd (fst (claim (snd (signs.run after s1)) sid q))"
proof -
  have r0: "unat (ssNextID newSignStore) + length before < 2 ^ 32"
    using room by (simp add: unat_first)
  have "signs.bounded s"
    unfolding s by (rule signs.run_bounded [OF _ r0]) (simp add: newSignStore_def newSignStore_bounded)
  then have "held_by p sid s1"
    using c by (auto simp: held_by_def signs.bounded_def claim_def Let_def split: option.splits if_splits)
  moreover have "ssNextID s1 = ssNextID s"
    using c by (auto simp: claim_def Let_def split: option.splits if_splits)
  moreover have "unat (ssNextID s) + length after < 2 ^ 32"
    using signs.run_ids [OF r0] room s by (simp add: unat_first)
  ultimately have "held_by p sid (snd (signs.run after s1))"
    using assms held_run [of p sid s1 after] by simp
  with assms show ?thesis
    by (auto simp: held_by_def claim_def Let_def split: option.splits)
qed

theorem claim_exclusive_witness:
  "let s = snd (signs.run [OpAdd blank_sign] newSignStore);
       s1 = snd (claim s 100000 5)
   in snd (fst (claim s 100000 5)) \<and>
      \<not> snd (fst (claim (snd (signs.run [OpMarkAware 100000 6, OpAdd blank_sign] s1)) 100000 6))"
proof -
  let ?s = "snd (signs.run [OpAdd blank_sign] newSignStore)"
  obtain sg where c: "claim ?s 100000 5 = ((Some sg, True), snd (claim ?s 100000 5))"
    by (simp add: claim_def sign_add_def newSignStore_def newSignStoreFrom_def firstSignID_def
        blank_sign_def Let_def)
  have "\<not> snd (fst (claim (snd (signs.run [OpMarkAware 100000 6, OpAdd blank_sign]
      (snd (claim ?s 100000 5)))) 100000 6))"
    by (rule claim_exclusive [OF refl c]) simp_all
  with c show ?thesis unfolding Let_def by (metis fst_conv snd_conv)
qed

subsection \<open>The window of recordings\<close>

text \<open>
  What the ghost store promises: per area it holds the last 64 recordings. The specification is the list
  of everything ever recorded, oldest first.
\<close>

definition lastn :: "nat \<Rightarrow> 'a list \<Rightarrow> 'a list" where
  "lastn n xs = drop (length xs - n) xs"

definition in_area :: "u32 \<Rightarrow> ghost list \<Rightarrow> ghost list" where
  "in_area a gs = filter (\<lambda>g. ghAreaID g = a) gs"

definition number_ghost :: "nat \<Rightarrow> ghost \<Rightarrow> ghost" where
  "number_ghost n g = g\<lparr>ghID := 100000 + of_nat n, ghSeq := 1 + of_nat n\<rparr>"

definition numbered :: "ghost list \<Rightarrow> ghost list" where
  "numbered gs = map (\<lambda>(n, g). number_ghost n g) (enumerate 0 gs)"

definition window :: "ghost list \<Rightarrow> ghost set" where
  "window rs = {g \<in> set rs. g \<in> set (lastn maxGhostsPerArea (in_area (ghAreaID g) rs))}"

fun record_all :: "(u32 list \<times> ghost) list \<Rightarrow> ghostStore \<Rightarrow> ghostStore" where
  "record_all [] s = s"
| "record_all ((ord, g) # rs) s = record_all rs (snd (ghost_add ord s g))"

fun orders_ok :: "(u32 list \<times> ghost) list \<Rightarrow> ghostStore \<Rightarrow> bool" where
  "orders_ok [] s = True"
| "orders_ok ((ord, g) # rs) s =
     (distinct ord \<and> set ord = insert (gsNextID s + 1) (dom (gsByID s)) \<and>
      orders_ok rs (snd (ghost_add ord s g)))"

lemma set_lastn: "set (lastn n xs) \<subseteq> set xs"
  by (auto simp: lastn_def dest: in_set_dropD)

lemma lastn_snoc: "lastn n (xs @ [x]) = (if n = 0 then [] else lastn (n - 1) xs @ [x])"
  by (cases n) (auto simp: lastn_def Suc_diff_le)

lemma lastn_Suc: "n < length xs \<Longrightarrow> lastn (Suc n) xs = xs ! (length xs - Suc n) # lastn n xs"
  by (simp add: lastn_def Cons_nth_drop_Suc [symmetric] Suc_diff_Suc)

lemma lastn_all: "length xs \<le> n \<Longrightarrow> lastn n xs = xs"
  by (simp add: lastn_def)

lemma length_lastn: "length (lastn n xs) = min n (length xs)"
  by (simp add: lastn_def)

text \<open>
  Evicting from the recordings of one area, in whatever order they are found: exactly the newest 64
  stay.
\<close>

lemma evict_keeps_newest:
  assumes "distinct xs" "set xs = set ys" "sorted (map ghSeq ys)" "distinct (map ghSeq ys)"
  shows "take (length xs - 64) (sort_key ghSeq xs) = take (length ys - 64) ys"
    and "length xs = length ys"
proof -
  have d: "distinct ys" using assms(4) by (simp add: distinct_map)
  then show len: "length xs = length ys"
    using assms(1,2) by (metis distinct_card)
  have inj: "inj_on ghSeq (set ys)" using assms(4) by (simp add: distinct_map)
  have "sort_key ghSeq xs = ys"
    by (rule map_sorted_distinct_set_unique [of ghSeq])
      (use assms inj in \<open>auto simp: distinct_map inj_on_def\<close>)
  with len show "take (length xs - 64) (sort_key ghSeq xs) = take (length ys - 64) ys" by simp
qed

lemma lastn_lastn: "m \<le> n \<Longrightarrow> lastn m (lastn n xs) = lastn m xs"
  by (cases "n \<le> length xs") (auto simp: lastn_def)

lemma lastn_lastn_snoc: "0 < n \<Longrightarrow> lastn n (lastn n xs @ [x]) = lastn n (xs @ [x])"
  by (simp add: lastn_snoc lastn_lastn)

lemma set_lastn_compl: "distinct xs \<Longrightarrow> set xs - set (take (length xs - n) xs) = set (lastn n xs)"
proof -
  assume "distinct xs"
  then have "distinct (take (length xs - n) xs @ drop (length xs - n) xs)" by simp
  then have "set (take (length xs - n) xs) \<inter> set (drop (length xs - n) xs) = {}"
    by (simp only: distinct_append)
  moreover have "set xs = set (take (length xs - n) xs) \<union> set (drop (length xs - n) xs)"
    by (metis append_take_drop_id set_append)
  ultimately show ?thesis by (auto simp: lastn_def)
qed

lemma window_iff: "g \<in> window rs \<longleftrightarrow> g \<in> set (lastn 64 (in_area (ghAreaID g) rs))"
  using set_lastn [of 64 "in_area (ghAreaID g) rs"]
  by (auto simp: window_def maxGhostsPerArea_def in_area_def)

lemma map_range_vals:
  assumes "\<And>k v. m k = Some v \<Longrightarrow> f v = k"
  shows "map f (range_vals m ord) = filter (\<lambda>k. m k \<noteq> None) ord"
  by (induction ord) (auto simp: range_vals_Cons assms split: option.split)

lemma distinct_range_vals:
  assumes "distinct ord" "\<And>k v. m k = Some v \<Longrightarrow> f v = k"
  shows "distinct (range_vals m ord)"
proof -
  have "distinct (map f (range_vals m ord))"
    using assms(1) by (simp add: map_range_vals [OF assms(2)])
  then show ?thesis by (simp add: distinct_map)
qed

lemma numbered_snoc: "numbered (gs @ [g]) = numbered gs @ [number_ghost (length gs) g]"
  by (simp add: numbered_def enumerate_append_eq)

lemma length_numbered [simp]: "length (numbered gs) = length gs"
  by (simp add: numbered_def)

lemma in_numbered: "x \<in> set (numbered gs) \<Longrightarrow> \<exists>n < length gs. x = number_ghost n (gs ! n)"
  by (auto simp: numbered_def in_set_enumerate_eq)

lemma word_of_nat_strict:
  "a < b \<Longrightarrow> b < 2 ^ LENGTH('a) \<Longrightarrow> (of_nat a :: 'a::len word) < of_nat b"
  by (simp add: word_less_nat_alt unat_of_nat)

lemma number_ghost_seq: "ghSeq (number_ghost n g) = of_nat (Suc n)"
  and number_ghost_id: "ghID (number_ghost n g) = of_nat (100000 + n)"
  and number_ghost_area: "ghAreaID (number_ghost n g) = ghAreaID g"
  by (simp_all add: number_ghost_def)

lemma numbered_before:
  assumes "x \<in> set (numbered gs)" "length gs < 2 ^ 32 - 100000"
  shows "ghSeq x < ghSeq (number_ghost (length gs) g)" "ghID x < ghID (number_ghost (length gs) g)"
proof -
  obtain n where n: "n < length gs" "x = number_ghost n (gs ! n)"
    using in_numbered [OF assms(1)] by auto
  show "ghSeq x < ghSeq (number_ghost (length gs) g)"
    unfolding n(2) number_ghost_seq by (rule word_of_nat_strict) (use n assms(2) in auto)
  show "ghID x < ghID (number_ghost (length gs) g)"
    unfolding n(2) number_ghost_id by (rule word_of_nat_strict) (use n assms(2) in auto)
qed

lemma numbered_sorted:
  "length gs \<le> 2 ^ 32 - 100000 \<Longrightarrow>
     sorted (map ghSeq (numbered gs)) \<and> distinct (map ghSeq (numbered gs)) \<and>
     distinct (map ghID (numbered gs))"
proof (induction gs rule: rev_induct)
  case Nil
  then show ?case by (simp add: numbered_def)
next
  case (snoc g gs)
  have "length gs < 2 ^ 32 - 100000" using snoc.prems by simp
  note before = numbered_before [OF _ this, of _ g]
  from snoc before show ?case
    by (force simp: numbered_snoc sorted_append dest: less_imp_le)
qed

definition ghost_repr :: "ghost list \<Rightarrow> ghostStore \<Rightarrow> bool" where
  "ghost_repr rs s \<longleftrightarrow>
     gsNextID s = of_nat (99999 + length rs) \<and> gsSeq s = of_nat (length rs) \<and>
     (\<forall>sid g. gsByID s sid = Some g \<longleftrightarrow> g \<in> window rs \<and> ghID g = sid)"

lemma ghost_repr_new: "ghost_repr [] newGhostStore"
  by (simp add: ghost_repr_def newGhostStore_def firstGhostID_def window_def)

lemma in_area_snoc: "in_area a (rs @ [g]) = in_area a rs @ (if ghAreaID g = a then [g] else [])"
  by (simp add: in_area_def)

lemma set_in_area: "set (in_area a rs) = {g \<in> set rs. ghAreaID g = a}"
  by (auto simp: in_area_def)

text \<open>The recordings of the new one's area before eviction, oldest first.\<close>

lemma area_before_evict:
  fixes g :: ghost
  assumes r: "ghost_repr (numbered gs) s" and len: "length gs < 2 ^ 32 - 100000"
    and ord: "distinct ord" "set ord = insert (gsNextID s + 1) (dom (gsByID s))"
  defines "g' \<equiv> number_ghost (length gs) g"
  defines "m \<equiv> (gsByID s)(gsNextID s + 1 \<mapsto> g')"
  defines "xs \<equiv> filter (\<lambda>h. ghAreaID h = ghAreaID g) (range_vals m ord)"
    and "ys \<equiv> lastn 64 (in_area (ghAreaID g) (numbered gs)) @ [g']"
  shows "\<And>k h. m k = Some h \<longleftrightarrow> (h \<in> window (numbered gs) \<or> h = g') \<and> ghID h = k"
    and "take (length xs - 64) (sort_key ghSeq xs) = take (length ys - 64) ys"
    and "length xs = length ys" and "distinct ys"
proof -
  have nid: "gsNextID s + 1 = ghID g'"
    using r by (simp add: ghost_repr_def g'_def number_ghost_id ac_simps)
  have new: "ghID h \<noteq> ghID g'" if "h \<in> window (numbered gs)" for h
    using numbered_before(2) [of h gs g] len that by (auto simp: window_def g'_def)
  have stored: "gsByID s k = Some h \<longleftrightarrow> h \<in> window (numbered gs) \<and> ghID h = k" for k h
    using r by (simp add: ghost_repr_def)
  show m: "m k = Some h \<longleftrightarrow> (h \<in> window (numbered gs) \<or> h = g') \<and> ghID h = k" for k h
    unfolding m_def nid using stored new [of h] by auto
  have "range_order m ord"
    using ord by (auto simp: range_order_def m_def)
  then have "set (range_vals m ord) = {h. \<exists>k. m k = Some h}"
    by (auto simp: set_range_vals_order ran_def)
  then have "set (range_vals m ord) = insert g' (window (numbered gs))"
    using m by auto
  then have set: "set xs = set ys"
    using set_lastn [of 64 "in_area (ghAreaID g) (numbered gs)"]
    by (auto simp: xs_def ys_def window_iff g'_def number_ghost_area set_in_area)
  have "distinct (range_vals m ord)"
    by (rule distinct_range_vals [of _ _ ghID]) (use ord m in auto)
  then have dx: "distinct xs" by (simp add: xs_def)
  have all: "sorted (map ghSeq (numbered (gs @ [g]))) \<and> distinct (map ghSeq (numbered (gs @ [g])))"
    using numbered_sorted [of "gs @ [g]"] len by auto
  have "sorted (map ghSeq (in_area (ghAreaID g) (numbered (gs @ [g]))))"
    "distinct (map ghSeq (in_area (ghAreaID g) (numbered (gs @ [g]))))"
    using all by (simp_all add: in_area_def sorted_filter distinct_map_filter)
  moreover have "ys = drop (length (in_area (ghAreaID g) (numbered gs)) - 64)
      (in_area (ghAreaID g) (numbered (gs @ [g])))"
    by (simp add: ys_def numbered_snoc in_area_snoc g'_def number_ghost_area lastn_def)
  ultimately have srt: "sorted (map ghSeq ys)" "distinct (map ghSeq ys)"
    by (simp_all add: drop_map [symmetric] sorted_wrt_drop distinct_drop)
  show "take (length xs - 64) (sort_key ghSeq xs) = take (length ys - 64) ys" "length xs = length ys"
    using evict_keeps_newest [OF dx set srt] by simp_all
  show "distinct ys" using srt(2) by (simp add: distinct_map)
qed

text \<open>What eviction keeps, on the specification side.\<close>

lemma window_snoc:
  fixes rs :: "ghost list" and g :: ghost
  defines "ys \<equiv> lastn 64 (in_area (ghAreaID g) rs) @ [g]"
  assumes dy: "distinct ys"
  shows "(h \<in> window rs \<or> h = g) \<and> h \<notin> set (take (length ys - 64) ys) \<longleftrightarrow> h \<in> window (rs @ [g])"
proof (cases "ghAreaID h = ghAreaID g")
  case True
  then have "h \<in> window rs \<or> h = g \<longleftrightarrow> h \<in> set ys"
    by (auto simp: window_iff ys_def)
  then have "(h \<in> window rs \<or> h = g) \<and> h \<notin> set (take (length ys - 64) ys) \<longleftrightarrow> h \<in> set (lastn 64 ys)"
    using set_lastn_compl [OF dy, of 64] by auto
  with True show ?thesis
    by (simp add: ys_def lastn_lastn_snoc window_iff in_area_snoc)
next
  case False
  have "set (take (length ys - 64) ys) \<subseteq> {h. ghAreaID h = ghAreaID g}"
    using set_take_subset [of "length ys - 64" ys] set_lastn [of 64 "in_area (ghAreaID g) rs"]
    by (auto simp: ys_def set_in_area)
  with False show ?thesis
    by (auto simp: window_iff in_area_snoc)
qed

lemma ghost_add_repr:
  assumes r: "ghost_repr (numbered gs) s" and len: "length gs < 2 ^ 32 - 100000"
    and ord: "distinct ord" "set ord = insert (gsNextID s + 1) (dom (gsByID s))"
  shows "ghost_repr (numbered (gs @ [g])) (snd (ghost_add ord s g))"
proof -
  define g' where "g' = number_ghost (length gs) g"
  define m where "m = (gsByID s)(gsNextID s + 1 \<mapsto> g')"
  define xs where "xs = filter (\<lambda>h. ghAreaID h = ghAreaID g) (range_vals m ord)"
  define ys where "ys = lastn 64 (in_area (ghAreaID g) (numbered gs)) @ [g']"
  define old where "old = take (length ys - 64) ys"
  note facts = area_before_evict [OF r len ord, of g, folded g'_def, folded m_def, folded xs_def ys_def]
  note m = facts(1) and sorted = facts(2) and len_eq = facts(3) and dy = facts(4)
  have nums: "gsNextID s + 1 = of_nat (99999 + length (numbered (gs @ [g])))"
    "gsSeq s + 1 = of_nat (length (numbered (gs @ [g])))"
    using r by (simp_all add: ghost_repr_def)
  have g': "g\<lparr>ghID := gsNextID s + 1, ghSeq := gsSeq s + 1\<rparr> = g'"
    using r by (simp add: ghost_repr_def g'_def number_ghost_def ac_simps)
  define s1 where "s1 = s\<lparr>gsNextID := gsNextID s + 1, gsSeq := gsSeq s + 1, gsByID := m\<rparr>"
  have area: "ghAreaID g' = ghAreaID g" by (simp add: g'_def number_ghost_area)
  have "snd (ghost_add ord s g) = evictLocked ord (ghAreaID g) s1"
    unfolding ghost_add_def Let_def g' s1_def by (simp add: m_def area)
  moreover have "evictLocked ord (ghAreaID g) s1 =
      s1\<lparr>gsByID := (\<lambda>sid. if sid \<in> ghID ` set old then None else m sid)\<rparr>"
  proof -
    have by1: "gsByID s1 = m" by (simp add: s1_def)
    show ?thesis
      using sorted len_eq unfolding evictLocked_def Let_def maxGhostsPerArea_def by1
        xs_def [symmetric]
      by (simp add: old_def) (simp add: s1_def)
  qed
  moreover have "(if sid \<in> ghID ` set old then None else m sid) = Some h \<longleftrightarrow>
      h \<in> window (numbered (gs @ [g])) \<and> ghID h = sid" for sid h
  proof -
    have "h' \<in> set (numbered (gs @ [g]))" if "h' \<in> set old \<or> h' \<in> window (numbered gs) \<or> h' = g'" for h'
      using that set_take_subset [of "length ys - 64" ys] set_lastn [of 64 "in_area (ghAreaID g) (numbered gs)"]
      by (auto simp: old_def ys_def set_in_area numbered_snoc g'_def window_def)
    moreover have "inj_on ghID (set (numbered (gs @ [g])))"
      using numbered_sorted [of "gs @ [g]"] len by (auto simp: distinct_map)
    ultimately have "(if sid \<in> ghID ` set old then None else m sid) = Some h \<longleftrightarrow>
        (h \<in> window (numbered gs) \<or> h = g') \<and> h \<notin> set old \<and> ghID h = sid"
      using m [of sid h] by (auto simp: inj_on_def)
    moreover have "(h \<in> window (numbered gs) \<or> h = g') \<and> h \<notin> set old \<longleftrightarrow>
        h \<in> window (numbered (gs @ [g]))"
      using window_snoc [where rs = "numbered gs" and g = g' and h = h] dy
      by (simp add: number_ghost_area old_def ys_def numbered_snoc g'_def)
    ultimately show ?thesis by blast
  qed
  ultimately show ?thesis using nums by (simp add: ghost_repr_def s1_def)
qed

text \<open>
  C26: the ghost store refines its specification. After any sequence of recordings, whatever order the
  map is visited in, the store holds for every area exactly the 64 most recent recordings of that area
  (all of them if there are fewer), each under its own identifier; the identifiers are 100000, 100001,
  and so on. This holds for the first \<open>2\<^sup>3\<^sup>2 - 100000\<close> recordings, after which the counter wraps.
\<close>

theorem ghost_store_keeps_newest:
  assumes "orders_ok rs newGhostStore" and "length rs \<le> 2 ^ 32 - 100000"
  shows "gsByID (record_all rs newGhostStore) sid = Some g \<longleftrightarrow>
    g \<in> window (numbered (map snd rs)) \<and> ghID g = sid"
proof -
  have "ghost_repr (numbered (gs @ map snd rs)) (record_all rs s)"
    if "ghost_repr (numbered gs) s" "orders_ok rs s" "length gs + length rs \<le> 2 ^ 32 - 100000" for gs s
    using that
  proof (induction rs arbitrary: gs s)
    case Nil
    then show ?case by simp
  next
    case (Cons r rs)
    obtain ord h where r: "r = (ord, h)" by fastforce
    have "ghost_repr (numbered (gs @ [h])) (snd (ghost_add ord s h))"
      by (rule ghost_add_repr) (use Cons.prems r in auto)
    with Cons.IH [of "gs @ [h]"] Cons.prems r show ?case by simp
  qed
  from this [of "[]" newGhostStore] assms ghost_repr_new show ?thesis
    by (simp add: ghost_repr_def numbered_def)
qed

theorem ghost_store_keeps_newest_witness:
  "let g = \<lparr>ghID = 0, ghOwnerID = 7, ghAreaID = 1, ghCellID = 2, ghData = [], ghSeq = 0\<rparr>;
       rs = [([100000], g), ([100001, 100000], g)]
   in gsByID (record_all rs newGhostStore) 100001 = Some (number_ghost 1 g)"
proof -
  let ?g = "\<lparr>ghID = 0, ghOwnerID = 7, ghAreaID = 1, ghCellID = 2, ghData = [], ghSeq = 0\<rparr>"
  let ?rs = "[([100000], ?g), ([100001, 100000], ?g)]"
  have "orders_ok ?rs newGhostStore"
    by (auto simp: newGhostStore_def firstGhostID_def ghost_add_def evictLocked_def Let_def
        maxGhostsPerArea_def range_vals_def List.map_filter_def)
  moreover have "number_ghost 1 ?g \<in> window (numbered (map snd ?rs))"
    by (simp add: numbered_def enumerate_eq_zip number_ghost_def window_def in_area_def lastn_def
        maxGhostsPerArea_def)
  ultimately show ?thesis
    using ghost_store_keeps_newest [of ?rs 100001 "number_ghost 1 ?g"]
    by (simp add: Let_def number_ghost_def)
qed

subsection \<open>Listing recordings\<close>

lemma cap_prefix: "\<exists>zs. capPerCell limit cells pc kept gs = kept @ zs \<and> set zs \<subseteq> set gs"
proof (induction gs arbitrary: pc kept)
  case Nil
  show ?case by simp
next
  case (Cons g gs)
  obtain zs where "capPerCell limit cells pc kept gs = kept @ zs" "set zs \<subseteq> set gs"
    using Cons by blast
  moreover obtain zs' where "capPerCell limit cells (bump pc (ghCellID g)) (kept @ [g]) gs = kept @ g # zs'"
    "set zs' \<subseteq> set gs"
    using Cons [of "bump pc (ghCellID g)" "kept @ [g]"] by auto
  ultimately show ?case by auto
qed

lemma cap_limit:
  "0 < limit \<Longrightarrow> int (length kept) < limit \<Longrightarrow> int (length (capPerCell limit cells pc kept gs)) \<le> limit"
  by (induction gs arbitrary: pc kept) auto

lemma cap_sorted:
  "sorted_wrt R (kept @ gs) \<Longrightarrow> sorted_wrt R (capPerCell limit cells pc kept gs)"
  by (induction gs arbitrary: pc kept) (auto simp: sorted_wrt_append)

definition in_cell :: "u32 \<Rightarrow> ghost list \<Rightarrow> int" where
  "in_cell c gs = int (length (filter (\<lambda>g. ghCellID g = c) gs))"

lemma bump_in_cell: "pc = (\<lambda>c. in_cell c kept) \<Longrightarrow> bump pc (ghCellID g) = (\<lambda>c. in_cell c (kept @ [g]))"
  by (auto simp: bump_def in_cell_def)

lemma cap_per_cell:
  assumes "map_of cells c = Some k" "0 < k" "in_cell c kept \<le> k"
  shows "in_cell c (capPerCell limit cells (\<lambda>c. in_cell c kept) kept gs) \<le> k"
  using assms(3)
proof (induction gs arbitrary: kept)
  case Nil
  then show ?case by simp
next
  case (Cons g gs)
  have "in_cell c (kept @ [g]) \<le> k" if "\<not> full cells (\<lambda>c. in_cell c kept) (ghCellID g)"
    using that assms Cons.prems by (auto simp: full_def in_cell_def)
  with Cons show ?case by (simp add: bump_in_cell)
qed

lemma full_bump: "full cells pc c \<Longrightarrow> full cells (bump pc c') c"
  by (auto simp: full_def bump_def split: option.splits)

lemma cap_blocked:
  "full cells pc (ghCellID g) \<Longrightarrow> g \<in> set (capPerCell limit cells pc kept gs) \<Longrightarrow> g \<in> set kept"
proof (induction gs arbitrary: pc kept)
  case Nil
  then show ?case by simp
next
  case (Cons x xs)
  from Cons.prems(1) Cons.IH [of "bump pc (ghCellID x)" "kept @ [x]"] Cons.IH [of pc kept]
  have "g \<in> set kept \<or> g = x" using Cons.prems(2) by (auto simp: full_bump split: if_splits)
  with Cons.prems Cons.IH [of pc kept] show ?case by auto
qed

text \<open>A recording that is passed over is older than everything listed from its cell.\<close>

lemma cap_newest:
  assumes "sorted_wrt (\<lambda>a b. ghSeq b \<le> ghSeq a) gs"
    and "g \<in> set (capPerCell limit cells pc kept gs)" "g \<notin> set kept"
    and "h \<in> set gs" "ghCellID h = ghCellID g" "ghSeq g < ghSeq h"
  shows "h \<in> set (capPerCell limit cells pc kept gs)"
  using assms
proof (induction gs arbitrary: pc kept)
  case Nil
  then show ?case by simp
next
  case (Cons x xs)
  have older: "\<not> ghSeq x < ghSeq y" if "y \<in> set (x # xs)" for y
    using Cons.prems(1) that by auto
  consider (skip) "full cells pc (ghCellID x)"
    | (stop) "\<not> full cells pc (ghCellID x)" "0 < limit \<and> limit \<le> int (length (kept @ [x]))"
    | (go) "\<not> full cells pc (ghCellID x)" "\<not> (0 < limit \<and> limit \<le> int (length (kept @ [x])))"
    by blast
  then show ?case
  proof cases
    case skip
    then have "h \<noteq> x" using cap_blocked [of cells pc g limit kept xs] Cons.prems by auto
    with skip Cons show ?thesis by auto
  next
    case stop
    with Cons.prems older show ?thesis by auto
  next
    case go
    let ?rest = "capPerCell limit cells (bump pc (ghCellID x)) (kept @ [x]) xs"
    have run: "capPerCell limit cells pc kept (x # xs) = ?rest" using go by auto
    have "x \<in> set ?rest" using cap_prefix [of limit cells "bump pc (ghCellID x)" "kept @ [x]" xs] by auto
    moreover have "h \<in> set ?rest" if "h \<noteq> x"
      using that Cons.prems older Cons.IH [of "bump pc (ghCellID x)" "kept @ [x]"] unfolding run by auto
    ultimately show ?thesis unfolding run by blast
  qed
qed

text \<open>The recordings of an area another player may be shown, given the cells asked about.\<close>

definition showable :: "ghostStore \<Rightarrow> u32 \<Rightarrow> cellCaps \<Rightarrow> u32 \<Rightarrow> ghost \<Rightarrow> bool" where
  "showable s area cells viewer g \<longleftrightarrow>
     g \<in> ran (gsByID s) \<and> ghAreaID g = area \<and> ghOwnerID g \<noteq> viewer \<and>
     (cells = [] \<or> map_of cells (ghCellID g) \<noteq> None)"

text \<open>
  What a player is shown of the recordings of an area. Every listed recording is in the store, from
  the area and the cells asked about, and not the player's own; the list is newest first, no longer than
  the overall limit, and within the cap of every cell that has one; and a recording is left out in favour
  of an older one of the same cell never.
\<close>

theorem ghost_listing:
  assumes "range_order (gsByID s) ord"
  shows "let out = ghost_inCells ord s area cells viewer limit
    in (\<forall>g\<in>set out. showable s area cells viewer g) \<and>
       sorted_wrt (\<lambda>a b. ghSeq b \<le> ghSeq a) out \<and>
       (0 < limit \<longrightarrow> int (length out) \<le> limit) \<and>
       (\<forall>c k. map_of cells c = Some k \<longrightarrow> 0 < k \<longrightarrow> in_cell c out \<le> k) \<and>
       (\<forall>g\<in>set out. \<forall>h. showable s area cells viewer h \<longrightarrow> ghCellID h = ghCellID g \<longrightarrow>
          ghSeq g < ghSeq h \<longrightarrow> h \<in> set out)"
proof -
  define xs where "xs = rev (sort_key ghSeq (filter (\<lambda>g. ghAreaID g = area \<and> ghOwnerID g \<noteq> viewer \<and>
      (cells = [] \<or> map_of cells (ghCellID g) \<noteq> None)) (range_vals (gsByID s) ord)))"
  have out: "ghost_inCells ord s area cells viewer limit = capPerCell limit cells (\<lambda>_. 0) [] xs"
    by (simp add: ghost_inCells_def xs_def Let_def)
  have set: "set xs = {g. showable s area cells viewer g}"
    using set_range_vals_order [OF assms] by (auto simp: xs_def showable_def)
  have "sorted (map ghSeq (sort_key ghSeq ys))" for ys by simp
  then have srt: "sorted_wrt (\<lambda>a b. ghSeq b \<le> ghSeq a) xs"
    unfolding xs_def sorted_wrt_rev sorted_map .
  have "set (capPerCell limit cells (\<lambda>_. 0) [] xs) \<subseteq> set xs"
    using cap_prefix [of limit cells "\<lambda>_. 0" "[]" xs] by auto
  moreover have "sorted_wrt (\<lambda>a b. ghSeq b \<le> ghSeq a) (capPerCell limit cells (\<lambda>_. 0) [] xs)"
    using srt by (intro cap_sorted) simp
  ultimately show ?thesis
    using cap_limit [of limit "[]" cells "\<lambda>_. 0" xs] cap_per_cell [of cells _ _ "[]" limit xs]
      cap_newest [OF srt, of _ limit cells "\<lambda>_. 0" "[]"] set
    unfolding out Let_def by (auto simp: in_cell_def)
qed

theorem ghost_listing_witness:
  "let g = (\<lambda>i n. \<lparr>ghID = i, ghOwnerID = 7, ghAreaID = 1, ghCellID = 2, ghData = [], ghSeq = n\<rparr>);
       s = \<lparr>gsNextID = 2, gsSeq = 2, gsByID = [1 \<mapsto> g 1 1, 2 \<mapsto> g 2 2]\<rparr>;
       out = ghost_inCells [1, 2] s 1 [(2, 1)] 9 0
   in (g 1 1 \<in> set out \<longrightarrow> g 2 2 \<in> set out) \<and> in_cell 2 out \<le> 1"
proof -
  define g :: "u32 \<Rightarrow> u64 \<Rightarrow> ghost" where
    "g i n = \<lparr>ghID = i, ghOwnerID = 7, ghAreaID = 1, ghCellID = 2, ghData = [], ghSeq = n\<rparr>" for i n
  define s where "s = \<lparr>gsNextID = 2, gsSeq = 2, gsByID = [1 \<mapsto> g 1 1, 2 \<mapsto> g 2 2]\<rparr>"
  let ?out = "ghost_inCells [1, 2] s 1 [(2, 1)] 9 0"
  have "range_order (gsByID s) [1, 2]" by (auto simp: range_order_def s_def)
  note listing = ghost_listing [OF this, of 1 "[(2, 1)]" 9 0, unfolded Let_def]
  have "g 2 2 \<in> ran (gsByID s)" by (rule ranI [of _ 2]) (simp add: s_def)
  then have show2: "showable s 1 [(2, 1)] 9 (g 2 2)" by (simp add: showable_def g_def)
  have cell: "ghCellID (g 2 2) = ghCellID (g 1 1)" and newer: "ghSeq (g 1 1) < ghSeq (g 2 2)"
    by (simp_all add: g_def)
  have capped: "map_of [(2, 1)] 2 = Some (1 :: int)" "(0 :: int) < 1" by simp_all
  have "\<forall>c k. map_of [(2, 1)] c = Some k \<longrightarrow> 0 < k \<longrightarrow> in_cell c ?out \<le> k"
    using listing by (elim conjE)
  from this [rule_format, OF capped] have "in_cell 2 ?out \<le> 1" .
  moreover have "\<forall>g\<in>set ?out. \<forall>h. showable s 1 [(2, 1)] 9 h \<longrightarrow> ghCellID h = ghCellID g \<longrightarrow>
      ghSeq g < ghSeq h \<longrightarrow> h \<in> set ?out"
    using listing by (elim conjE)
  from this [rule_format, OF _ show2 cell newer] have "g 1 1 \<in> set ?out \<longrightarrow> g 2 2 \<in> set ?out" by simp
  ultimately show ?thesis unfolding Let_def g_def s_def by blast
qed

subsection \<open>Arena registrations\<close>

record quickMatch =
  qmPlayerID :: u32
  qmPsnID :: string
  qmAreaID :: "64 word"
  qmCellID :: "64 word"
  qmMode :: int
  qmMatching :: "MatchingParameter option"
  qmAwareOf :: "u32 set"

type_synonym quickMatchStore = "u32 \<rightharpoonup> quickMatch"

definition newQuickMatchStore :: quickMatchStore where
  "newQuickMatchStore = Map.empty"

definition qm_put :: "quickMatchStore \<Rightarrow> quickMatch \<Rightarrow> quickMatchStore" where
  "qm_put q m =
     (let aware = (case q (qmPlayerID m) of Some existing \<Rightarrow> qmAwareOf existing | None \<Rightarrow> {})
      in q(qmPlayerID m \<mapsto> m\<lparr>qmAwareOf := aware\<rparr>))"

definition qm_get :: "quickMatchStore \<Rightarrow> u32 \<Rightarrow> quickMatch option" where
  "qm_get q playerID = q playerID"

definition qm_remove :: "quickMatchStore \<Rightarrow> u32 \<Rightarrow> quickMatch option \<times> quickMatchStore" where
  "qm_remove q playerID =
     (case q playerID of None \<Rightarrow> (None, q) | Some m \<Rightarrow> (Some m, q(playerID := None)))"

definition qm_search ::
  "u32 list \<Rightarrow> quickMatchStore \<Rightarrow> 64 word \<Rightarrow> 64 word \<Rightarrow> int \<Rightarrow> u32 \<Rightarrow> int \<Rightarrow> quickMatch list" where
  "qm_search ord q areaID cellID mode exclude limit =
     (let found = filter (\<lambda>m. qmPlayerID m \<noteq> exclude \<and> qmAreaID m = areaID \<and> qmMode m = mode) (range_vals q ord);
          sameCell = filter (\<lambda>m. qmCellID m = cellID) found;
          otherCell = filter (\<lambda>m. qmCellID m \<noteq> cellID) found;
          out = sameCell @ otherCell
      in if 0 < limit \<and> limit < int (length out) then take (nat limit) out else out)"

definition qm_markAware :: "quickMatchStore \<Rightarrow> u32 \<Rightarrow> u32 \<Rightarrow> quickMatchStore" where
  "qm_markAware q playerID viewerID =
     (case q playerID of
        None \<Rightarrow> q
      | Some m \<Rightarrow> q(playerID \<mapsto> m\<lparr>qmAwareOf := insert viewerID (qmAwareOf m)\<rparr>))"

end
