(* ===== verification/Sqlite_Store.thy ===== *)
theory Sqlite_Store
  imports Prelude "HOL-Library.Product_Lexorder"
begin

section \<open>The persistent store\<close>

text \<open>
  internal/server/store/store.go: the tables of the database and what each SQL statement of the file does
  to them. A table is the list of its rows. The engine itself is not modelled. What it is free to do is
  a script in the state, one entry per statement: whether the statement fails, leaving the tables as they
  are, and how many identifiers an \<open>AUTOINCREMENT\<close> insert skips (SQLite promises an identifier above
  every one used before, not the next one). With no script left statements succeed and skip nothing.
  Columns are unbounded integers, where those of SQLite hold 64 bits (no property depends on the difference);
  timestamps, which nothing reads, are left out.
\<close>

record BloodMessage =
  bmID :: nat
  bmPlayerID :: u32
  bmCharacterID :: u32
  bmAccountID :: string
  bmAreaID :: u32
  bmCellID :: u32
  bmData :: bytes
  bmRating :: int

record Character =
  chData :: bytes
  chStatus :: bytes

record Store =
  blood_messages :: "BloodMessage list"
  msgSeq :: "nat option"
  players :: "(string \<times> nat) list"
  playerSeq :: "nat option"
  counters :: "(string \<times> int) list"
  characters :: "((u32 \<times> u32) \<times> Character) list"
  rankings :: "((u32 \<times> u32) \<times> int \<times> bytes) list"
  dbScript :: "(bool \<times> nat) list"

type_synonym 'a db = "Store \<Rightarrow> (string + 'a) \<times> Store"

definition statement :: "string \<Rightarrow> (nat \<Rightarrow> Store \<Rightarrow> 'a \<times> Store) \<Rightarrow> 'a db" where
  "statement what f s =
     (case dbScript s of
        [] \<Rightarrow> (let (x, s') = f 0 s in (Inr x, s'))
      | (failed, skip) # rest \<Rightarrow>
          let s1 = s\<lparr>dbScript := rest\<rparr>
          in if failed then (Inl what, s1) else (let (x, s') = f skip s1 in (Inr x, s')))"

definition db_bind :: "'a db \<Rightarrow> ('a \<Rightarrow> 'b db) \<Rightarrow> 'b db" where
  "db_bind m k s = (case m s of (Inl e, s') \<Rightarrow> (Inl e, s') | (Inr x, s') \<Rightarrow> k x s')"

definition db_return :: "'a \<Rightarrow> 'a db" where
  "db_return x s = (Inr x, s)"

definition firstMessageID :: nat where "firstMessageID = 100000"
definition firstPlayerID :: nat where "firstPlayerID = 100000"

definition seedSeq :: "nat \<Rightarrow> nat option \<Rightarrow> nat" where
  "seedSeq first sq = (case sq of None \<Rightarrow> first | Some n \<Rightarrow> if n < first then first else n)"

text \<open>
  What the statements that seed and raise the two counters come to, all of them together. If one of them
  fails Open fails and no server starts on the database.
\<close>

definition migrate :: "Store \<Rightarrow> Store" where
  "migrate s = s\<lparr>msgSeq := Some (seedSeq (firstMessageID - 1) (msgSeq s)),
                 playerSeq := Some (seedSeq (firstPlayerID - 1) (playerSeq s))\<rparr>"

definition nextRow :: "nat option \<Rightarrow> nat \<Rightarrow> nat" where
  "nextRow sq skip = (case sq of None \<Rightarrow> 0 | Some n \<Rightarrow> n) + 1 + skip"


subsection \<open>Blood messages\<close>

definition AddBloodMessage :: "BloodMessage \<Rightarrow> u32 db" where
  "AddBloodMessage m =
     statement ''insert blood message'' (\<lambda>skip s.
       let rid = nextRow (msgSeq s) skip
       in (of_nat rid, s\<lparr>blood_messages := blood_messages s @ [m\<lparr>bmID := rid\<rparr>], msgSeq := Some rid\<rparr>))"

definition RemoveBloodMessage :: "u32 \<Rightarrow> unit db" where
  "RemoveBloodMessage mid =
     statement ''delete blood message'' (\<lambda>_ s.
       ((), s\<lparr>blood_messages := filter (\<lambda>m. bmID m \<noteq> unat mid) (blood_messages s)\<rparr>))"

definition messageRow :: "Store \<Rightarrow> u32 \<Rightarrow> BloodMessage option" where
  "messageRow s mid = List.find (\<lambda>m. bmID m = unat mid) (blood_messages s)"

definition GetBloodMessage :: "u32 \<Rightarrow> BloodMessage option db" where
  "GetBloodMessage mid = statement ''get blood message'' (\<lambda>_ s. (messageRow s mid, s))"

definition EvaluateBloodMessage :: "u32 \<Rightarrow> (int \<times> bool) db" where
  "EvaluateBloodMessage mid =
     db_bind
       (statement ''evaluate blood message'' (\<lambda>_ s.
          (messageRow s mid \<noteq> None,
           s\<lparr>blood_messages :=
               map (\<lambda>m. if bmID m = unat mid then m\<lparr>bmRating := bmRating m + 1\<rparr> else m)
                 (blood_messages s)\<rparr>)))
       (\<lambda>affected.
          if \<not> affected then db_return (0, False)
          else
            db_bind (statement ''read rating'' (\<lambda>_ s. (messageRow s mid, s)))
              (\<lambda>row s. case row of None \<Rightarrow> (Inl ''read rating'', s) | Some m \<Rightarrow> (Inr (bmRating m, True), s)))"

definition scanMessages :: "BloodMessage list \<Rightarrow> BloodMessage list db" where
  "scanMessages rows s =
     (if list_all (\<lambda>m. bmID m < 2 ^ 32) rows then (Inr rows, s) else (Inl ''scan blood message'', s))"

definition BloodMessagesInCells :: "u32 \<Rightarrow> u32 list \<Rightarrow> int \<Rightarrow> BloodMessage list db" where
  "BloodMessagesInCells areaID cells limit =
     db_bind
       (statement ''list blood messages'' (\<lambda>_ s.
          let found = filter (\<lambda>m. bmAreaID m = areaID \<and> (cells = [] \<or> bmCellID m \<in> set cells)) (blood_messages s);
              newest = rev (sort_key bmID found)
          in (if 0 < limit then take (nat limit) newest else newest, s)))
       scanMessages"


subsection \<open>Counters\<close>

definition upsert :: "'k \<Rightarrow> ('v option \<Rightarrow> 'v) \<Rightarrow> ('k \<times> 'v) list \<Rightarrow> ('k \<times> 'v) list" where
  "upsert k f rows =
     (case map_of rows k of
        None \<Rightarrow> rows @ [(k, f None)]
      | Some v \<Rightarrow> map (\<lambda>(k', v'). if k' = k then (k', f (Some v)) else (k', v')) rows)"

definition AddCounter :: "string \<Rightarrow> int \<Rightarrow> int db" where
  "AddCounter name delta =
     statement ''add counter'' (\<lambda>_ s.
       let v = (case map_of (counters s) name of None \<Rightarrow> delta | Some x \<Rightarrow> x + delta)
       in (v, s\<lparr>counters := upsert name (\<lambda>_. v) (counters s)\<rparr>))"

definition Counter :: "string \<Rightarrow> int db" where
  "Counter name =
     statement ''read counter'' (\<lambda>_ s.
       (case map_of (counters s) name of None \<Rightarrow> 0 | Some v \<Rightarrow> v, s))"


subsection \<open>The leaderboard\<close>

record PowerStoneRanking =
  psCharacterID :: u32
  psPlayerID :: u32
  psScore :: int
  psData :: bytes
  psSerialRank :: nat
  psRank :: nat

definition AddPowerStoneScore :: "u32 \<Rightarrow> u32 \<Rightarrow> int \<Rightarrow> bytes \<Rightarrow> int db" where
  "AddPowerStoneScore playerID characterID increment d =
     statement ''add power stone score'' (\<lambda>_ s.
       let k = (playerID, characterID);
           v = (case map_of (rankings s) k of None \<Rightarrow> increment | Some (sc, _) \<Rightarrow> sc + increment)
       in (v, s\<lparr>rankings := upsert k (\<lambda>_. (v, d)) (rankings s)\<rparr>))"

text \<open>
  \<open>rankingSelect\<close>: \<open>ROW_NUMBER() OVER (ORDER BY score DESC, player_id ASC, character_id ASC)\<close> and
  \<open>RANK() OVER (ORDER BY score DESC)\<close>, which is one more than the number of better scores.
\<close>

definition boardOrder :: "(u32 \<times> u32) \<times> int \<times> bytes \<Rightarrow> int \<times> u32 \<times> u32" where
  "boardOrder r = (case r of ((p, c), (sc, d)) \<Rightarrow> (- sc, p, c))"

definition rankingRow ::
  "((u32 \<times> u32) \<times> int \<times> bytes) list \<Rightarrow> nat \<times> (u32 \<times> u32) \<times> int \<times> bytes \<Rightarrow> PowerStoneRanking" where
  "rankingRow rows x =
     (case x of (i, ((p, c), (sc, d))) \<Rightarrow>
        \<lparr>psCharacterID = c, psPlayerID = p, psScore = sc, psData = d, psSerialRank = i,
         psRank = 1 + length (filter (\<lambda>r. fst (snd r) > sc) rows)\<rparr>)"

definition rankingSelect :: "Store \<Rightarrow> PowerStoneRanking list" where
  "rankingSelect s =
     map (rankingRow (rankings s)) (enumerate 1 (sort_key boardOrder (rankings s)))"

definition PowerStoneRankings :: "u32 \<Rightarrow> u32 \<Rightarrow> PowerStoneRanking list db" where
  "PowerStoneRankings offset0 cnt =
     statement ''list power stone rankings'' (\<lambda>_ s.
       let offset = (if offset0 > 0 then offset0 - 1 else offset0)
       in (take (unat cnt) (drop (unat offset) (rankingSelect s)), s))"

definition PowerStoneRankingFor :: "u32 \<Rightarrow> u32 \<Rightarrow> PowerStoneRanking option db" where
  "PowerStoneRankingFor playerID characterID =
     statement ''get power stone ranking'' (\<lambda>_ s.
       (List.find (\<lambda>r. psPlayerID r = playerID \<and> psCharacterID r = characterID) (rankingSelect s), s))"

definition PowerStoneRankingCount :: "u32 db" where
  "PowerStoneRankingCount =
     statement ''count power stone rankings'' (\<lambda>_ s. (of_nat (length (rankings s)), s))"


subsection \<open>Players and characters\<close>

definition PlayerID :: "string \<Rightarrow> u32 db" where
  "PlayerID accountID s =
     (if accountID = '''' then (Inl ''player id for empty account'', s)
      else
        db_bind
          (statement ''player id'' (\<lambda>skip s.
             case map_of (players s) accountID of
               Some rid \<Rightarrow> (rid, s)
             | None \<Rightarrow>
                 let rid = nextRow (playerSeq s) skip
                 in (rid, s\<lparr>players := players s @ [(accountID, rid)], playerSeq := Some rid\<rparr>)))
          (\<lambda>rid s. if rid < 2 ^ 32 then (Inr (of_nat rid), s) else (Inl ''player id'', s))
          s)"

definition SaveCharacterData :: "u32 \<Rightarrow> u32 \<Rightarrow> bytes \<Rightarrow> unit db" where
  "SaveCharacterData playerID characterID d =
     statement ''save character'' (\<lambda>_ s.
       ((), s\<lparr>characters := upsert (playerID, characterID)
               (\<lambda>old. case old of None \<Rightarrow> \<lparr>chData = d, chStatus = []\<rparr> | Some c \<Rightarrow> c\<lparr>chData := d\<rparr>)
               (characters s)\<rparr>))"

definition SaveCharacterStatus :: "u32 \<Rightarrow> u32 \<Rightarrow> bytes \<Rightarrow> unit db" where
  "SaveCharacterStatus playerID characterID st =
     statement ''save status'' (\<lambda>_ s.
       ((), s\<lparr>characters := upsert (playerID, characterID)
               (\<lambda>old. case old of None \<Rightarrow> \<lparr>chData = [], chStatus = st\<rparr> | Some c \<Rightarrow> c\<lparr>chStatus := st\<rparr>)
               (characters s)\<rparr>))"

definition GetCharacter :: "u32 \<Rightarrow> u32 \<Rightarrow> Character option db" where
  "GetCharacter playerID characterID =
     statement ''get character'' (\<lambda>_ s. (map_of (characters s) (playerID, characterID), s))"

definition CharacterIDs :: "u32 \<Rightarrow> u32 list db" where
  "CharacterIDs playerID =
     statement ''list characters'' (\<lambda>_ s.
       (sort (map (\<lambda>((p, c), _). c) (filter (\<lambda>((p, c), _). p = playerID) (characters s))), s))"

subsection \<open>Ranks\<close>

lemma filter_descending:
  assumes "\<And>j. j < i \<Longrightarrow> P (xs ! j)" "\<And>j. i \<le> j \<Longrightarrow> j < length xs \<Longrightarrow> \<not> P (xs ! j)" "i \<le> length xs"
  shows "length (filter P xs) = i"
proof -
  have "filter P (take i xs) = take i xs"
    using assms(1,3) by (auto simp: filter_id_conv in_set_conv_nth)
  moreover have "filter P (drop i xs) = []"
    using assms(2,3) by (auto simp: filter_empty_conv in_set_conv_nth)
  ultimately have "filter P (take i xs @ drop i xs) = take i xs" by (simp only: filter_append) simp
  then show ?thesis using assms(3) by simp
qed

lemma length_filter_sort: "length (filter P (sort_key f xs)) = length (filter P xs)"
  by (metis mset_filter mset_sort size_mset)

lemma board_descending:
  "i \<le> j \<Longrightarrow> j < length rows \<Longrightarrow>
     fst (snd (sort_key boardOrder rows ! j)) \<le> fst (snd (sort_key boardOrder rows ! i))"
proof -
  assume ij: "i \<le> j" "j < length rows"
  have "sorted (map boardOrder (sort_key boardOrder rows))" by simp
  from sorted_nth_mono [OF this ij(1)] ij
  have "boardOrder (sort_key boardOrder rows ! i) \<le> boardOrder (sort_key boardOrder rows ! j)" by simp
  then show ?thesis
    by (auto simp: boardOrder_def less_eq_prod_def split: prod.splits)
qed

lemma rankingSelect_nth:
  assumes "i < length (rankings s)"
  shows "rankingSelect s ! i = rankingRow (rankings s) (Suc i, sort_key boardOrder (rankings s) ! i)"
  using assms by (simp add: rankingSelect_def nth_enumerate_eq)

lemma rankingRow_row:
  "((psPlayerID (rankingRow rows x), psCharacterID (rankingRow rows x)), psScore (rankingRow rows x),
    psData (rankingRow rows x)) = snd x"
  by (simp add: rankingRow_def split: prod.splits)

lemma length_rankingSelect [simp]: "length (rankingSelect s) = length (rankings s)"
  by (simp add: rankingSelect_def)

text \<open>
  The ranks on the leaderboard. The serial rank of a row is its position on the board; the rank is
  the competition rank: the first row with a score has its serial rank as rank, every other row with the
  same score has the same rank, and scores only fall from row to row. The board has exactly the stored
  rows.
\<close>

theorem leaderboard_ranks:
  "let b = rankingSelect s in
     mset (map (\<lambda>r. ((psPlayerID r, psCharacterID r), psScore r, psData r)) b) = mset (rankings s) \<and>
     (\<forall>i < length b. psSerialRank (b ! i) = i + 1 \<and>
        ((\<forall>j < i. psScore (b ! j) \<noteq> psScore (b ! i)) \<longrightarrow> psRank (b ! i) = i + 1)) \<and>
     (\<forall>i j. i \<le> j \<and> j < length b \<longrightarrow> psScore (b ! j) \<le> psScore (b ! i) \<and>
        (psScore (b ! j) = psScore (b ! i) \<longrightarrow> psRank (b ! j) = psRank (b ! i)))"
proof -
  let ?b = "rankingSelect s" and ?xs = "sort_key boardOrder (rankings s)"
  let ?sc = "\<lambda>i. fst (snd (?xs ! i))"
  have score: "psScore (?b ! i) = ?sc i" "psSerialRank (?b ! i) = i + 1"
    "psRank (?b ! i) = 1 + length (filter (\<lambda>r. fst (snd r) > ?sc i) (rankings s))"
    if "i < length (rankings s)" for i
    using that by (auto simp: rankingSelect_nth rankingRow_def split: prod.splits)
  have "map (\<lambda>r. ((psPlayerID r, psCharacterID r), psScore r, psData r)) ?b = map snd (enumerate 1 ?xs)"
    unfolding rankingSelect_def by (simp add: comp_def rankingRow_row del: map_snd_enumerate)
  then have rows: "mset (map (\<lambda>r. ((psPlayerID r, psCharacterID r), psScore r, psData r)) ?b) = mset (rankings s)"
    by simp
  have first: "psRank (?b ! i) = i + 1"
    if i: "i < length (rankings s)" and "\<forall>j < i. psScore (?b ! j) \<noteq> psScore (?b ! i)" for i
  proof -
    have "?sc i < ?sc j" if "j < i" for j
      using board_descending [of j i "rankings s"] that \<open>\<forall>j < i. _ j\<close> i by (force simp: score)
    then have "length (filter (\<lambda>r. fst (snd r) > ?sc i) ?xs) = i"
      using i board_descending [of i _ "rankings s"]
      by (intro filter_descending) (auto simp: not_less)
    then show ?thesis using i by (simp add: score length_filter_sort)
  qed
  show ?thesis
    unfolding Let_def using rows first board_descending [of _ _ "rankings s"] by (simp add: score)
qed

theorem leaderboard_ranks_witness:
  "let s = \<lparr>blood_messages = [], msgSeq = None, players = [], playerSeq = None, counters = [],
            characters = [], rankings = [((7, 1), 5, []), ((8, 1), 9, []), ((6, 1), 5, [])], dbScript = []\<rparr>
   in psRank (rankingSelect s ! 1) = 2 \<and> psRank (rankingSelect s ! 2) = 2"
proof -
  define s where "s = \<lparr>blood_messages = [], msgSeq = None, players = [], playerSeq = None, counters = [],
    characters = [], rankings = [((7, 1), 5, []), ((8, 1), 9, []), ((6, 1), 5, [])], dbScript = []\<rparr>"
  let ?b = "rankingSelect s"
  have b: "map psScore ?b = [9, 5, 5]"
    by (simp add: s_def rankingSelect_def rankingRow_def boardOrder_def enumerate_eq_zip
        sort_key_def insort_key.simps less_eq_prod_def)
  then have len: "length ?b = 3" and sc: "psScore (?b ! 0) = 9" "psScore (?b ! 1) = 5" "psScore (?b ! 2) = 5"
    by (simp_all flip: nth_map add: s_def) 
  have "psRank (?b ! 1) = 1 + 1"
    using leaderboard_ranks [of s, unfolded Let_def, THEN conjunct2, THEN conjunct1, rule_format, of 1] len sc
    by simp
  moreover have "psRank (?b ! 2) = psRank (?b ! 1)"
    using leaderboard_ranks [of s, unfolded Let_def, THEN conjunct2, THEN conjunct2, rule_format, of 1 2] len sc
    by simp
  ultimately show ?thesis unfolding s_def [symmetric] Let_def by simp
qed

subsection \<open>Identities over the life of the database\<close>

text \<open>
  Every operation that writes, and the migration at every start of the server. A run collects the player
  ids handed out, with their accounts, and the row numbers of the messages written.
\<close>

datatype db_op =
    DoMigrate
  | DoPlayerID string
  | DoAddMessage BloodMessage
  | DoRemoveMessage u32
  | DoEvaluate u32
  | DoAddCounter string int
  | DoAddScore u32 u32 int bytes
  | DoSaveData u32 u32 bytes
  | DoSaveStatus u32 u32 bytes

fun db_step :: "db_op \<Rightarrow> Store \<Rightarrow> (string \<times> u32) option \<times> Store" where
  "db_step DoMigrate s = (None, migrate s)"
| "db_step (DoPlayerID a) s =
     (case PlayerID a s of (Inl e, s') \<Rightarrow> (None, s') | (Inr p, s') \<Rightarrow> (Some (a, p), s'))"
| "db_step (DoAddMessage m) s = (None, snd (AddBloodMessage m s))"
| "db_step (DoRemoveMessage i) s = (None, snd (RemoveBloodMessage i s))"
| "db_step (DoEvaluate i) s = (None, snd (EvaluateBloodMessage i s))"
| "db_step (DoAddCounter n d) s = (None, snd (AddCounter n d s))"
| "db_step (DoAddScore p c n d) s = (None, snd (AddPowerStoneScore p c n d s))"
| "db_step (DoSaveData p c d) s = (None, snd (SaveCharacterData p c d s))"
| "db_step (DoSaveStatus p c d) s = (None, snd (SaveCharacterStatus p c d s))"

fun db_run :: "db_op list \<Rightarrow> Store \<Rightarrow> (string \<times> u32) list \<times> Store" where
  "db_run [] s = ([], s)"
| "db_run (a # as) s =
     (let (r, s1) = db_step a s; (rs, s2) = db_run as s1
      in (case r of None \<Rightarrow> rs | Some x \<Rightarrow> x # rs, s2))"

definition players_ok :: "Store \<Rightarrow> bool" where
  "players_ok s \<longleftrightarrow>
     distinct (map fst (players s)) \<and> distinct (map snd (players s)) \<and>
     (case playerSeq s of
        None \<Rightarrow> players s = []
      | Some n \<Rightarrow> firstPlayerID - 1 \<le> n \<and> (\<forall>r\<in>snd ` set (players s). firstPlayerID \<le> r \<and> r \<le> n))"

definition seeded :: "Store \<Rightarrow> bool" where
  "seeded s \<longleftrightarrow> playerSeq s \<noteq> None"

lemmas db_defs = statement_def db_bind_def db_return_def AddBloodMessage_def RemoveBloodMessage_def
  EvaluateBloodMessage_def AddCounter_def AddPowerStoneScore_def SaveCharacterData_def
  SaveCharacterStatus_def migrate_def

text \<open>Only logins write the players table.\<close>

lemma db_step_players:
  assumes "\<And>a. x \<noteq> DoPlayerID a" "x \<noteq> DoMigrate"
  shows "fst (db_step x s) = None" "players (snd (db_step x s)) = players s"
    "playerSeq (snd (db_step x s)) = playerSeq s"
  using assms by (cases x; auto simp: db_defs Let_def split: list.split prod.split option.split if_splits)+

lemma PlayerID_cases:
  assumes "PlayerID a s = (r, s')"
  shows "(players s' = players s \<and> playerSeq s' = playerSeq s \<and>
      (\<forall>p. r = Inr p \<longrightarrow> map_of (players s) a = Some (unat p))) \<or>
    (\<exists>rid. (\<forall>n. playerSeq s = Some n \<longrightarrow> n < rid) \<and>
      map_of (players s) a = None \<and> players s' = players s @ [(a, rid)] \<and> playerSeq s' = Some rid \<and>
      (\<forall>p. r = Inr p \<longrightarrow> rid = unat p))"
proof -
  have small: "unat (of_nat n :: u32) = n" if "n < 2 ^ 32" for n
    using that by (subst unat_of_nat) simp
  have above: "n < nextRow (Some n) skip" for n skip by (simp add: nextRow_def)
  show ?thesis
    using assms
    by (auto simp: PlayerID_def statement_def db_bind_def Let_def small above
        split: if_splits list.splits prod.splits option.splits)
qed

lemma players_ok_append:
  assumes "players_ok s" "seeded s" "map_of (players s) a = None" "\<And>n. playerSeq s = Some n \<Longrightarrow> n < rid"
    and "players s' = players s @ [(a, rid)]" "playerSeq s' = Some rid"
  shows "players_ok s'"
proof -
  obtain n where n: "playerSeq s = Some n" "n < rid" using assms(2,4) by (auto simp: seeded_def)
  with assms(1) have "\<forall>r\<in>snd ` set (players s). firstPlayerID \<le> r \<and> r < rid" "firstPlayerID - 1 \<le> n"
    by (auto simp: players_ok_def dest: le_less_trans)
  with n assms show ?thesis
    by (fastforce simp: players_ok_def map_of_eq_None_iff firstPlayerID_def)
qed

lemma migrate_ok:
  assumes "players_ok s"
  shows "players_ok (migrate s)" "seeded (migrate s)" "players (migrate s) = players s"
  using assms
  by (cases "playerSeq s"; force simp: migrate_def players_ok_def seeded_def seedSeq_def firstPlayerID_def)+

lemma db_step_ok:
  assumes "players_ok s" "seeded s" "db_step x s = (r, s')"
  shows "players_ok s' \<and> seeded s' \<and> map_of (players s) \<subseteq>\<^sub>m map_of (players s') \<and>
    (\<forall>a p. r = Some (a, p) \<longrightarrow> map_of (players s') a = Some (unat p))"
proof -
  consider (migrate) "x = DoMigrate" | (login) a where "x = DoPlayerID a"
    | (other) "\<And>a. x \<noteq> DoPlayerID a" "x \<noteq> DoMigrate" by blast
  then show ?thesis
  proof cases
    case migrate
    with assms migrate_ok [OF assms(1)] show ?thesis by auto
  next
    case login
    obtain q s1 where run: "PlayerID a s = (q, s1)" by fastforce
    then have s': "s' = s1" "r = (case q of Inl e \<Rightarrow> None | Inr p \<Rightarrow> Some (a, p))"
      using assms(3) login by (auto split: sum.splits)
    from PlayerID_cases [OF run] show ?thesis
    proof
      assume same: "players s1 = players s \<and> playerSeq s1 = playerSeq s \<and>
        (\<forall>p. q = Inr p \<longrightarrow> map_of (players s) a = Some (unat p))"
      with assms s' show ?thesis by (auto simp: players_ok_def seeded_def split: sum.splits)
    next
      assume "\<exists>rid. (\<forall>n. playerSeq s = Some n \<longrightarrow> n < rid) \<and>
        map_of (players s) a = None \<and> players s1 = players s @ [(a, rid)] \<and> playerSeq s1 = Some rid \<and>
        (\<forall>p. q = Inr p \<longrightarrow> rid = unat p)"
      then obtain rid where new: "\<And>n. playerSeq s = Some n \<Longrightarrow> n < rid" "map_of (players s) a = None"
        "players s1 = players s @ [(a, rid)]" "playerSeq s1 = Some rid" "\<And>p. q = Inr p \<Longrightarrow> rid = unat p"
        by blast
      have "players_ok s1" using players_ok_append [OF assms(1,2) new(2,1,3,4)] .
      moreover have "map_of (players s1) = (map_of (players s))(a \<mapsto> rid)"
        using new(2,3) by (auto simp: map_add_def fun_eq_iff split: option.splits)
      ultimately show ?thesis
        using new s' by (auto simp: seeded_def map_le_def dom_def split: sum.splits)
    qed
  next
    case other
    with db_step_players [of x s] assms show ?thesis by (auto simp: players_ok_def seeded_def)
  qed
qed

lemma db_run_ok:
  assumes "players_ok s" "seeded s" "db_run xs s = (rs, s')"
  shows "players_ok s' \<and> map_of (players s) \<subseteq>\<^sub>m map_of (players s') \<and>
    (\<forall>(a, p) \<in> set rs. map_of (players s') a = Some (unat p))"
  using assms
proof (induction xs arbitrary: s rs)
  case Nil
  then show ?case by simp
next
  case (Cons x xs)
  obtain r s1 where st: "db_step x s = (r, s1)" by fastforce
  obtain rs1 where rn: "db_run xs s1 = (rs1, s')" and rs: "rs = (case r of None \<Rightarrow> rs1 | Some y \<Rightarrow> y # rs1)"
    using Cons.prems(3) st by (auto split: prod.splits)
  note ok = db_step_ok [OF Cons.prems(1,2) st]
  with Cons.IH [of s1 rs1] rn have rest: "players_ok s' \<and> map_of (players s1) \<subseteq>\<^sub>m map_of (players s') \<and>
    (\<forall>(a, p) \<in> set rs1. map_of (players s') a = Some (unat p))" by blast
  then have "map_of (players s') a = Some (unat p)" if "r = Some (a, p)" for a p
    using ok that by (auto simp: map_le_def dom_def)
  with ok rest rs show ?case
    by (cases r) (auto intro: map_le_trans)
qed

lemma map_of_inj:
  "distinct (map snd xs) \<Longrightarrow> map_of xs a = Some v \<Longrightarrow> map_of xs b = Some v \<Longrightarrow> a = b"
  by (metis eq_key_imp_eq_value map_of_SomeD map_of_eq_Some_iff distinct_map inj_onD prod.inject snd_conv)

text \<open>
  C27: player identities are stable and never shared. Over the whole life of a database, through restarts,
  failing statements and skipped row numbers, an account that logs in twice gets the same player id both
  times, two accounts never get the same one, and no id is below 100000; in particular none is 0, the id
  of a session that has not logged in.
\<close>

theorem player_ids_stable:
  assumes "players_ok s"
    and "(a, p) \<in> set (fst (db_run (DoMigrate # ops) s))" "(b, q) \<in> set (fst (db_run (DoMigrate # ops) s))"
  shows "(p = q \<longleftrightarrow> a = b) \<and> 100000 \<le> p"
proof -
  let ?s = "migrate s"
  obtain rs s' where rn: "db_run ops ?s = (rs, s')" by fastforce
  have ok: "players_ok ?s" "seeded ?s"
    using migrate_ok [OF assms(1)] by simp_all
  note end_ok = db_run_ok [OF ok rn]
  have in_rs: "(a, p) \<in> set rs" "(b, q) \<in> set rs" using assms(2,3) rn by (simp_all add: Let_def)
  then have ids: "map_of (players s') a = Some (unat p)" "map_of (players s') b = Some (unat q)"
    using end_ok by auto
  then have "unat p = unat q \<longleftrightarrow> a = b"
    using map_of_inj [of "players s'" a "unat p" b] end_ok unfolding players_ok_def
    by (metis option.inject)
  moreover have "firstPlayerID \<le> unat p"
    using end_ok map_of_SomeD [OF ids(1)] by (force simp: players_ok_def split: option.splits)
  ultimately show ?thesis
    by (simp add: firstPlayerID_def word_le_nat_alt word_unat_eq_iff)
qed

definition emptyStore :: Store where
  "emptyStore = \<lparr>blood_messages = [], msgSeq = None, players = [], playerSeq = None, counters = [],
     characters = [], rankings = [], dbScript = []\<rparr>"

theorem player_ids_stable_witness:
  "let s = emptyStore\<lparr>dbScript := [(False, 0), (True, 0), (False, 3)]\<rparr>;
       rs = fst (db_run [DoMigrate, DoPlayerID ''a'', DoPlayerID ''b'', DoPlayerID ''b'', DoPlayerID ''a''] s)
   in rs = [(''a'', 100000), (''b'', 100004), (''a'', 100000)] \<and> (100000 :: u32) \<noteq> 100004"
proof -
  let ?s = "emptyStore\<lparr>dbScript := [(False, 0), (True, 0), (False, 3)]\<rparr>"
  let ?ops = "[DoPlayerID ''a'', DoPlayerID ''b'', DoPlayerID ''b'', DoPlayerID ''a'']"
  have rs: "fst (db_run (DoMigrate # ?ops) ?s) = [(''a'', 100000), (''b'', 100004), (''a'', 100000)]"
    by (simp add: emptyStore_def migrate_def seedSeq_def firstPlayerID_def firstMessageID_def PlayerID_def
        statement_def db_bind_def nextRow_def)
  have "players_ok ?s" by (simp add: players_ok_def emptyStore_def)
  from player_ids_stable [OF this, of "''a''" 100000 ?ops "''b''" 100004] rs show ?thesis
    by (simp add: Let_def)
qed

end
