(* ===== verification/Go_Strings.thy ===== *)
theory Go_Strings
  imports Prelude
begin

section \<open>Strings as the code uses them\<close>

text \<open>
  The functions of Go's strings, strconv, unicode/utf8 and unicode/utf16 packages that the settings, the
  bell regions and the resource pushes use. A Go string is the list of its bytes. Text from the
  environment is split and trimmed as ASCII: the space characters are the six of ASCII.
\<close>

subsection \<open>Numbers\<close>

definition digit :: "nat \<Rightarrow> char" where
  "digit d = char_of (48 + d)"

definition digitVal :: "char \<Rightarrow> nat option" where
  "digitVal c = (let n = of_char c in if 48 \<le> n \<and> n \<le> (57 :: nat) then Some (n - 48) else None)"

text \<open>\<open>fmt.Sprintf("%d", n)\<close>.\<close>

fun decimal :: "nat \<Rightarrow> string" where
  "decimal n = (if n < 10 then [digit n] else decimal (n div 10) @ [digit (n mod 10)])"

declare decimal.simps [simp del]

fun digitsVal :: "nat \<Rightarrow> string \<Rightarrow> nat option" where
  "digitsVal acc [] = Some acc"
| "digitsVal acc (c # cs) =
     (case digitVal c of None \<Rightarrow> None | Some d \<Rightarrow> digitsVal (10 * acc + d) cs)"

text \<open>\<open>strconv.ParseUint(v, 10, bits)\<close>: only digits, at least one, and in range.\<close>

definition parseUint :: "nat \<Rightarrow> string \<Rightarrow> nat option" where
  "parseUint bits v =
     (if v = [] then None
      else case digitsVal 0 v of None \<Rightarrow> None | Some n \<Rightarrow> if n < 2 ^ bits then Some n else None)"

text \<open>\<open>strconv.Atoi\<close>: an optional sign, digits, and in the range of a 64-bit int.\<close>

definition atoi :: "string \<Rightarrow> int option" where
  "atoi v =
     (let (neg, rest) = (case v of c # cs \<Rightarrow> if c = CHR ''-'' then (True, cs) else if c = CHR ''+'' then (False, cs)
                                             else (False, v)
                                 | [] \<Rightarrow> (False, []))
      in if rest = [] then None
         else case digitsVal 0 rest of
                None \<Rightarrow> None
              | Some n \<Rightarrow>
                  let i = (if neg then - int n else int n)
                  in if - (2 ^ 63) \<le> i \<and> i < 2 ^ 63 then Some i else None)"


subsection \<open>Lists\<close>

text \<open>\<open>strings.Split(v, sep)\<close> for a separator of one character, and \<open>strings.TrimSpace\<close>.\<close>

fun splitOn :: "char \<Rightarrow> string \<Rightarrow> string list" where
  "splitOn sep [] = [[]]"
| "splitOn sep (c # cs) =
     (if c = sep then [] # splitOn sep cs
      else case splitOn sep cs of [] \<Rightarrow> [[c]] | x # xs \<Rightarrow> (c # x) # xs)"

definition isSpace :: "char \<Rightarrow> bool" where
  "isSpace c \<longleftrightarrow> (let n = of_char c in n = (32 :: nat) \<or> 9 \<le> n \<and> n \<le> 13)"

definition trimSpace :: "string \<Rightarrow> string" where
  "trimSpace v = rev (dropWhile isSpace (rev (dropWhile isSpace v)))"

text \<open>\<open>strings.ToLower\<close> and \<open>strings.EqualFold\<close> on ASCII text.\<close>

definition lowerChar :: "char \<Rightarrow> char" where
  "lowerChar c = (let n = of_char c :: nat in if 65 \<le> n \<and> n \<le> 90 then char_of (n + 32) else c)"

definition toLower :: "string \<Rightarrow> string" where
  "toLower v = map lowerChar v"

definition equalFold :: "string \<Rightarrow> string \<Rightarrow> bool" where
  "equalFold a b \<longleftrightarrow> toLower a = toLower b"

text \<open>The numbers of a comma-separated list; what does not parse is passed over.\<close>

definition numberList :: "string \<Rightarrow> u32 list" where
  "numberList v =
     List.map_filter (\<lambda>f. map_option of_nat (parseUint 32 (trimSpace f))) (splitOn (CHR '','') v)"

text \<open>\<open>strings.ReplaceAll(v, `\n`, "\n")\<close>: a backslash and an n become a line feed.\<close>

fun unescapeNewlines :: "string \<Rightarrow> string" where
  "unescapeNewlines (a # b # cs) =
     (if a = CHR 0x5C \<and> b = CHR ''n'' then CHR 0x0A # unescapeNewlines cs
      else a # unescapeNewlines (b # cs))"
| "unescapeNewlines cs = cs"


subsection \<open>Characters\<close>

text \<open>
  \<open>[]rune(v)\<close>: UTF-8 is decoded, and a byte that starts no valid sequence becomes U+FFFD and is passed
  over alone.
\<close>

definition cont :: "nat \<Rightarrow> bool" where
  "cont b \<longleftrightarrow> 0x80 \<le> b \<and> b \<le> 0xBF"

definition rune :: "nat list \<Rightarrow> nat \<times> nat" where
  "rune bs =
     (case bs of
        b0 # b1 # rest \<Rightarrow>
          if b0 < 0x80 then (b0, 1)
          else if 0xC2 \<le> b0 \<and> b0 \<le> 0xDF \<and> cont b1 then ((b0 - 0xC0) * 64 + (b1 - 0x80), 2)
          else
            (case rest of
               b2 # rest2 \<Rightarrow>
                 if 0xE0 \<le> b0 \<and> b0 \<le> 0xEF \<and> cont b1 \<and> cont b2 \<and> (b0 = 0xE0 \<longrightarrow> 0xA0 \<le> b1) \<and>
                    (b0 = 0xED \<longrightarrow> b1 \<le> 0x9F)
                 then ((b0 - 0xE0) * 4096 + (b1 - 0x80) * 64 + (b2 - 0x80), 3)
                 else
                   (case rest2 of
                      b3 # _ \<Rightarrow>
                        if 0xF0 \<le> b0 \<and> b0 \<le> 0xF4 \<and> cont b1 \<and> cont b2 \<and> cont b3 \<and>
                           (b0 = 0xF0 \<longrightarrow> 0x90 \<le> b1) \<and> (b0 = 0xF4 \<longrightarrow> b1 \<le> 0x8F)
                        then ((b0 - 0xF0) * 262144 + (b1 - 0x80) * 4096 + (b2 - 0x80) * 64 + (b3 - 0x80), 4)
                        else (0xFFFD, 1)
                    | [] \<Rightarrow> (0xFFFD, 1))
             | [] \<Rightarrow> (0xFFFD, 1))
      | [b0] \<Rightarrow> (if b0 < 0x80 then b0 else 0xFFFD, 1)
      | [] \<Rightarrow> (0, 1))"

lemma rune_width: "1 \<le> snd (rune bs)"
  by (simp add: rune_def split: list.split)

function runesOf :: "nat list \<Rightarrow> nat list" where
  "runesOf bs = (if bs = [] then [] else fst (rune bs) # runesOf (drop (snd (rune bs)) bs))"
  by auto
termination
proof (relation "measure length")
  fix bs :: "nat list" assume "bs \<noteq> []"
  then show "(drop (snd (rune bs)) bs, bs) \<in> measure length"
    using rune_width [of bs] by (cases bs) auto
qed simp

declare runesOf.simps [simp del]

definition runes :: "string \<Rightarrow> nat list" where
  "runes v = runesOf (map of_char v)"

text \<open>\<open>utf16.Encode\<close>: a rune above U+FFFF takes two units; a surrogate becomes U+FFFD.\<close>

definition utf16Units :: "nat \<Rightarrow> u16 list" where
  "utf16Units r =
     (if r < 0xD800 \<or> 0xE000 \<le> r \<and> r < 0x10000 then [of_nat r]
      else if 0x10000 \<le> r \<and> r \<le> 0x10FFFF
      then [of_nat (0xD800 + (r - 0x10000) div 1024), of_nat (0xDC00 + (r - 0x10000) mod 1024)]
      else [0xFFFD])"

definition utf16Encode :: "nat list \<Rightarrow> u16 list" where
  "utf16Encode rs = concat (map utf16Units rs)"


subsection \<open>Laws\<close>

lemma toLower_idem [simp]: "toLower (toLower v) = toLower v"
  by (simp add: toLower_def lowerChar_def Let_def)

lemma digitVal_digit [simp]: "d < 10 \<Longrightarrow> digitVal (digit d) = Some d"
  by (simp add: digitVal_def digit_def)

lemma digitsVal_append:
  "digitsVal acc (xs @ ys) = (case digitsVal acc xs of None \<Rightarrow> None | Some n \<Rightarrow> digitsVal n ys)"
  by (induction xs arbitrary: acc) (auto split: option.split)

lemma digitsVal_decimal: "digitsVal 0 (decimal n) = Some n"
proof (induction n rule: decimal.induct)
  case (1 n)
  show ?case
  proof (cases "n < 10")
    case True
    then show ?thesis by (subst decimal.simps) simp
  next
    case False
    with 1 show ?thesis by (subst decimal.simps) (simp add: digitsVal_append)
  qed
qed

lemma decimal_not_Nil [simp]: "decimal n \<noteq> []"
  by (subst decimal.simps) simp

text \<open>Writing a number and reading it back.\<close>

lemma parseUint_decimal: "n < 2 ^ bits \<Longrightarrow> parseUint bits (decimal n) = Some n"
  by (simp add: parseUint_def digitsVal_decimal)

lemma splitOn_not_Nil [simp]: "splitOn sep v \<noteq> []"
  by (cases v) (auto split: list.split)

lemma length_splitOn: "length (splitOn sep v) = Suc (length (filter (\<lambda>c. c = sep) v))"
  by (induction v) (auto split: list.split)

lemma length_utf16Units: "length (utf16Units r) \<le> 2" "utf16Units r \<noteq> []"
  by (simp_all add: utf16Units_def)

end
