(* ===== verification/Resource_Push.thy ===== *)
theory Resource_Push
  imports Go_Strings Protobuf
begin

section \<open>Resource files pushed to clients\<close>

text \<open>
  internal/server/game/obelisk.go, eventchest.go and the building of the diff list in regulationpush.go:
  what is sent to a client to replace one of its resource files. Reading a file and the two parsers of
  Go's time package that the event chest uses are arguments. Errors are values; the code only logs them.
\<close>

record ResourceConfig =
  RegulationPushFile :: string
  RegulationPushPath :: string
  RegulationPushVersionRequired :: u64
  RegulationPushVersionNew :: u64
  RegulationPushVersionSweep :: string
  RegulationPushDelaySeconds :: u64
  RegulationPushGapSeconds :: u64
  ObeliskText :: string
  EventChestRotation :: "u64 list"
  EventChestPeriod :: string
  EventChestEpoch :: string
  EventChestThresholdBase :: u64
  EventChestLotParamFile :: string
  EventChestOnlineEventFile :: string

record resourcePush =
  rpFeature :: string
  rpPath :: string
  rpData :: bytes

text \<open>What the file system, the clock and the parsers of package time answer.\<close>

record ResourceEnv =
  readFile :: "string \<Rightarrow> bytes option"
  wallClock :: time
  parseDuration :: "string \<Rightarrow> duration option"
  parseRFC3339 :: "string \<Rightarrow> time option"


subsection \<open>The obelisk\<close>

definition obeliskResourceName :: string where "obeliskResourceName = ''regulation.fmg''"
definition obeliskStringID :: u32 where "obeliskStringID = 100"
definition obeliskHeaderLen :: nat where "obeliskHeaderLen = 0x2C"
definition obeliskMaxBytes :: nat where "obeliskMaxBytes = 1024"

definition obeliskHeader :: bytes where
  "obeliskHeader =
     [0x00, 0x01, 0x00, 0x00, 0x00, 0x00, 0x00, 0x80, 0x01, 0xff, 0x00, 0x00, 0x00, 0x00, 0x00, 0x01,
      0x00, 0x00, 0x00, 0x01, 0x00, 0x00, 0x00, 0x28, 0x00, 0x00, 0x00, 0x00, 0x00, 0x00, 0x00, 0x00,
      0x00, 0x00, 0x00, 0x64, 0x00, 0x00, 0x00, 0x64, 0x00, 0x00, 0x00, 0x2c]"

text \<open>\<open>copy(b[i:], src)\<close> and the \<open>Put\<close> functions on a buffer that is long enough.\<close>

definition overwrite :: "nat \<Rightarrow> bytes \<Rightarrow> bytes \<Rightarrow> bytes" where
  "overwrite i src b = take i b @ src @ drop (i + length src) b"

fun putUnits :: "nat \<Rightarrow> u16 list \<Rightarrow> bytes \<Rightarrow> bytes" where
  "putUnits i [] b = b"
| "putUnits i (u # us) b = putUnits (i + 2) us (overwrite i (put_be16 u) b)"

definition obeliskSize :: "u16 list \<Rightarrow> nat" where
  "obeliskSize units =
     (let size = obeliskHeaderLen + (length units + 1) * 2; rem = size mod 16
      in if rem \<noteq> 0 then size + (16 - rem) else size)"

definition buildObeliskFMG :: "string \<Rightarrow> nat + bytes" where
  "buildObeliskFMG txt =
     (let units = utf16Encode (runes (unescapeNewlines txt)); size = obeliskSize units
      in if obeliskMaxBytes < size then Inl size
         else
           let b0 = overwrite 0 obeliskHeader (replicate size 0);
               b1 = overwrite 0x04 (put_be32 (of_nat size)) b0;
               b2 = overwrite 0x20 (put_be32 obeliskStringID) b1;
               b3 = overwrite 0x24 (put_be32 obeliskStringID) b2
           in Inr (putUnits obeliskHeaderLen units b3))"

definition obeliskPush :: "'a ResourceConfig_scheme \<Rightarrow> resourcePush list" where
  "obeliskPush cfg =
     (if ObeliskText cfg = [] then []
      else
        case buildObeliskFMG (ObeliskText cfg) of
          Inl _ \<Rightarrow> []
        | Inr d \<Rightarrow> [\<lparr>rpFeature = [], rpPath = obeliskResourceName, rpData = d\<rparr>])"


subsection \<open>The event chest\<close>

definition eventChestLotRow :: u32 where "eventChestLotRow = 10045500"
definition eventChestItemOffset :: nat where "eventChestItemOffset = 0x2C"
definition eventChestThresholdOffset :: nat where "eventChestThresholdOffset = 2"

datatype param_error = TooShort nat | IndexPastEnd | RowNotFound u32 | FieldPastEnd u32 nat

fun findRow :: "nat \<Rightarrow> nat \<Rightarrow> bytes \<Rightarrow> u32 \<Rightarrow> param_error + nat" where
  "findRow 0 i d rowID = Inl (RowNotFound rowID)"
| "findRow (Suc n) i d rowID =
     (let e = 0x40 + i * 12
      in if length d < e + 12 then Inl IndexPastEnd
         else if get_be32 (slice e (e + 4) d) = rowID then Inr (unat (get_be32 (slice (e + 4) (e + 8) d)))
         else findRow n (Suc i) d rowID)"

definition paramRowOffset :: "bytes \<Rightarrow> u32 \<Rightarrow> param_error + nat" where
  "paramRowOffset d rowID =
     (if length d < 0x40 then Inl (TooShort (length d))
      else findRow (unat (get_be16 (slice 0x0A 0x0C d))) 0 d rowID)"

definition setParamRow :: "bytes \<Rightarrow> u32 \<Rightarrow> nat \<Rightarrow> bytes \<Rightarrow> param_error + bytes" where
  "setParamRow d rowID offset v =
     bind_err (paramRowOffset d rowID) (\<lambda>row.
       if length d < row + offset + length v then Inl (FieldPastEnd rowID offset)
       else Inr (overwrite (row + offset) v d))"

definition setParamRowU32 :: "bytes \<Rightarrow> u32 \<Rightarrow> nat \<Rightarrow> u32 \<Rightarrow> param_error + bytes" where
  "setParamRowU32 d rowID offset v = setParamRow d rowID offset (put_be32 v)"

definition setParamRowU16 :: "bytes \<Rightarrow> u32 \<Rightarrow> nat \<Rightarrow> u16 \<Rightarrow> param_error + bytes" where
  "setParamRowU16 d rowID offset v = setParamRow d rowID offset (put_be16 v)"

text \<open>One week, and 2026-08-06T00:00:00Z counted from the zero time, in nanoseconds.\<close>

definition eventChestPeriod :: "'a ResourceConfig_scheme \<Rightarrow> ResourceEnv \<Rightarrow> duration" where
  "eventChestPeriod cfg e =
     (case parseDuration e (EventChestPeriod cfg) of
        Some d \<Rightarrow> if d \<le> 0 then 168 * 3600 * 1000000000 else d
      | None \<Rightarrow> 168 * 3600 * 1000000000)"

definition eventChestEpoch :: "'a ResourceConfig_scheme \<Rightarrow> ResourceEnv \<Rightarrow> time" where
  "eventChestEpoch cfg e =
     (case parseRFC3339 e (EventChestEpoch cfg) of Some t \<Rightarrow> t | None \<Rightarrow> 63921571200 * 1000000000)"

definition eventChestIndex :: "'a ResourceConfig_scheme \<Rightarrow> ResourceEnv \<Rightarrow> nat" where
  "eventChestIndex cfg e =
     (let period = eventChestPeriod cfg e; elapsed = time_sub (wallClock e) (eventChestEpoch cfg e)
      in if 0 < period \<and> 0 < elapsed then nat (elapsed div period) else 0)"

definition eventChestPushes :: "'a ResourceConfig_scheme \<Rightarrow> ResourceEnv \<Rightarrow> resourcePush list" where
  "eventChestPushes cfg e =
     (if EventChestRotation cfg = [] then []
      else
        let index = eventChestIndex cfg e;
            item = EventChestRotation cfg ! (index mod length (EventChestRotation cfg));
            threshold = EventChestThresholdBase cfg + of_nat index
        in if 0xFFFF < threshold then []
           else
             case readFile e (EventChestLotParamFile cfg) of
               None \<Rightarrow> []
             | Some lot0 \<Rightarrow>
                 case setParamRowU32 lot0 eventChestLotRow eventChestItemOffset (ucast item) of
                   Inl _ \<Rightarrow> []
                 | Inr lot \<Rightarrow>
                     case readFile e (EventChestOnlineEventFile cfg) of
                       None \<Rightarrow> []
                     | Some online0 \<Rightarrow>
                         case setParamRowU16 online0 0 eventChestThresholdOffset (ucast threshold) of
                           Inl _ \<Rightarrow> []
                         | Inr onl \<Rightarrow>
                             [\<lparr>rpFeature = [], rpPath = ''ItemLotParam2_SvrEvent.param'', rpData = lot\<rparr>,
                              \<lparr>rpFeature = [], rpPath = ''OnlineEventParam.param'', rpData = onl\<rparr>])"


subsection \<open>The diff list\<close>

definition parsePushPaths :: "string \<Rightarrow> string list" where
  "parsePushPaths spec = filter (\<lambda>f. f \<noteq> []) (map trimSpace (splitOn (CHR '','') spec))"

text \<open>\<open>filepath.Base\<close>.\<close>

definition pathBase :: "string \<Rightarrow> string" where
  "pathBase p =
     (if p = [] then ''.''
      else
        let q = rev (dropWhile (\<lambda>c. c = CHR ''/'') (rev p));
            b = rev (takeWhile (\<lambda>c. c \<noteq> CHR ''/'') (rev q))
        in if q = [] then ''/'' else b)"

definition regulationFilePushes :: "'a ResourceConfig_scheme \<Rightarrow> ResourceEnv \<Rightarrow> resourcePush list" where
  "regulationFilePushes cfg e =
     (if RegulationPushFile cfg = [] then []
      else
        case readFile e (RegulationPushFile cfg) of
          None \<Rightarrow> []
        | Some d \<Rightarrow>
            let paths = parsePushPaths (RegulationPushPath cfg);
                paths' = (if paths = [] then [pathBase (RegulationPushFile cfg)] else paths)
            in map (\<lambda>p. \<lparr>rpFeature = [], rpPath = p, rpData = d\<rparr>) paths')"

definition loginResourcePushes :: "'a ResourceConfig_scheme \<Rightarrow> ResourceEnv \<Rightarrow> resourcePush list" where
  "loginResourcePushes cfg e =
     map (\<lambda>p. p\<lparr>rpFeature := ''regulation_file''\<rparr>) (regulationFilePushes cfg e) @
     map (\<lambda>p. p\<lparr>rpFeature := ''obelisk''\<rparr>) (obeliskPush cfg) @
     map (\<lambda>p. p\<lparr>rpFeature := ''event_chest''\<rparr>) (eventChestPushes cfg e)"

definition regulationPushByteBudget :: nat where "regulationPushByteBudget = 16384"

definition parseVersionSweep :: "string \<Rightarrow> u32 list" where
  "parseVersionSweep spec =
     List.map_filter (\<lambda>f. let t = trimSpace f in if t = [] then None else map_option of_nat (parseUint 32 t))
       (splitOn (CHR '','') spec)"

definition labelFMG :: "bytes \<Rightarrow> string \<Rightarrow> bytes option" where
  "labelFMG d lbl =
     (if length d \<noteq> 128 then None
      else
        let rs = take 40 (runes lbl); rs' = rs @ replicate (40 - length rs) 32
        in Some (putUnits 0x2C (map of_nat rs') d))"

definition dateTime :: "u32 \<Rightarrow> pbmsg" where
  "dateTime year =
     Pb ''DateTime'' [(''Year'', PU32 year), (''Month'', PU32 1), (''Day'', PU32 1), (''Hours'', PU32 0),
       (''Minutes'', PU32 0), (''Seconds'', PU32 0), (''Tzdiff'', PU32 0)]"

definition regulationDiffEntry :: "string \<Rightarrow> bytes \<Rightarrow> u32 \<Rightarrow> u32 \<Rightarrow> pbmsg" where
  "regulationDiffEntry path d required new =
     Pb ''RegulationFileDiffData'' [(''VersionNew'', PU32 new), (''VersionRequired'', PU32 required),
       (''Path'', PStr path), (''DiffData'', PBytes d), (''StartAt'', PMsg (dateTime 2000)),
       (''EndAt'', PMsg (dateTime 2100))]"

text \<open>The versions that are sent and the payload of each.\<close>

definition sweptVersions :: "string \<Rightarrow> bytes \<Rightarrow> u32 list" where
  "sweptVersions spec d =
     (let cands = parseVersionSweep spec; room = max 1 (regulationPushByteBudget div length d)
      in if d \<noteq> [] \<and> room < length cands then take room cands else cands)"

definition sweptPayload :: "bytes \<Rightarrow> u32 \<Rightarrow> bytes" where
  "sweptPayload d v =
     (case labelFMG d (''0x038B APPLIED. VERSION MATCHED = '' @ decimal (unat v)) of Some l \<Rightarrow> l | None \<Rightarrow> d)"

definition regulationPushEntries :: "'a ResourceConfig_scheme \<Rightarrow> string \<Rightarrow> bytes \<Rightarrow> pbmsg list" where
  "regulationPushEntries cfg path d =
     (let req = RegulationPushVersionRequired cfg; new = RegulationPushVersionNew cfg
      in if parseVersionSweep (RegulationPushVersionSweep cfg) = []
         then [regulationDiffEntry path d (ucast req) (ucast (if new = 0 then req else new))]
         else map (\<lambda>v. regulationDiffEntry path (sweptPayload d v) v v)
                (sweptVersions (RegulationPushVersionSweep cfg) d))"

definition resourceMsg :: "'a ResourceConfig_scheme \<Rightarrow> resourcePush \<Rightarrow> pbmsg" where
  "resourceMsg cfg p =
     Pb ''RegulationFileUpdatePushMessage''
       [(''PushMessageId'', PEnum 0x38B),
        (''UpdateMsg'', PMsg (Pb ''RegulationFileUpdateMessage''
           [(''DiffDataList'', repMsgs (regulationPushEntries cfg (rpPath p) (rpData p)))]))]"

subsection \<open>Edits in place\<close>

lemma length_overwrite [simp]: "i + length src \<le> length b \<Longrightarrow> length (overwrite i src b) = length b"
  by (simp add: overwrite_def)

lemma slice_overwrite:
  "i + length src \<le> length b \<Longrightarrow> slice i (i + length src) (overwrite i src b) = src"
  by (simp add: overwrite_def slice_def)

lemma slice_overwrite_before:
  "j \<le> i \<Longrightarrow> i + length src \<le> length b \<Longrightarrow> slice k j (overwrite i src b) = slice k j b"
  by (auto simp: overwrite_def slice_def drop_take min_def)

lemma slice_overwrite_after:
  assumes "i + length src \<le> k" "i + length src \<le> length b"
  shows "slice k j (overwrite i src b) = slice k j b"
proof -
  have "drop k (take i b @ src @ drop (i + length src) b) = drop k b"
    using assms by (simp add: add.commute)
  then show ?thesis by (simp add: overwrite_def slice_def)
qed

lemma slice_replicate_two: "k + 2 \<le> n \<Longrightarrow> slice k (k + 2) (replicate n x) = [x, x]"
  by (simp add: slice_def eval_nat_numeral Suc_diff_le)

lemma length_putUnits [simp]: "i + 2 * length us \<le> length b \<Longrightarrow> length (putUnits i us b) = length b"
  by (induction us arbitrary: i b) auto

lemma slice_putUnits_before: "j \<le> i \<Longrightarrow> i + 2 * length us \<le> length b \<Longrightarrow> slice k j (putUnits i us b) = slice k j b"
  by (induction us arbitrary: i b) (simp_all add: slice_overwrite_before)

lemma slice_putUnits_after:
  "i + 2 * length us \<le> k \<Longrightarrow> i + 2 * length us \<le> length b \<Longrightarrow> slice k j (putUnits i us b) = slice k j b"
  by (induction us arbitrary: i b) (simp_all add: slice_overwrite_after)

lemma slice_putUnits:
  "n < length us \<Longrightarrow> i + 2 * length us \<le> length b \<Longrightarrow>
     get_be16 (slice (i + 2 * n) (i + 2 * n + 2) (putUnits i us b)) = us ! n"
proof (induction us arbitrary: i b n)
  case Nil
  then show ?case by simp
next
  case (Cons u us)
  show ?case
  proof (cases n)
    case 0
    then have "slice (i + 2 * n) (i + 2 * n + 2) (putUnits i (u # us) b) =
        slice i (i + length (put_be16 u)) (overwrite i (put_be16 u) b)"
      using Cons.prems by (simp add: slice_putUnits_before)
    also have "\<dots> = put_be16 u" using Cons.prems by (intro slice_overwrite) simp
    finally show ?thesis using 0 by simp
  next
    case (Suc m)
    then show ?thesis using Cons.IH [of m "i + 2" "overwrite i (put_be16 u) b"] Cons.prems by simp
  qed
qed

lemma obeliskSize_facts:
  "obeliskSize us mod 16 = 0" "46 + 2 * length us \<le> obeliskSize us"
  "obeliskSize us \<le> 1024 \<longleftrightarrow> length us \<le> 489"
proof -
  define n where "n = obeliskHeaderLen + (length us + 1) * 2"
  define r where "r = n mod 16"
  have n: "n = 46 + 2 * length us" by (simp add: n_def obeliskHeaderLen_def)
  have size: "obeliskSize us = (if r \<noteq> 0 then n + (16 - r) else n)"
    by (simp add: obeliskSize_def Let_def n_def r_def)
  obtain q where q: "n = 16 * q + r" "r < 16"
    by (metis r_def mod_less_divisor mult_div_mod_eq zero_less_numeral)
  then show "obeliskSize us mod 16 = 0" unfolding size by auto
  show "46 + 2 * length us \<le> obeliskSize us" unfolding size using n by simp
  show "obeliskSize us \<le> 1024 \<longleftrightarrow> length us \<le> 489"
  proof (cases "r = 0")
    case True
    then show ?thesis unfolding size using n q by simp
  next
    case False
    then have "obeliskSize us = 16 * (q + 1)" unfolding size using q by simp
    then show ?thesis using n q False by presburger
  qed
qed

text \<open>
  The obelisk file stays inside the client's buffer. A text is accepted exactly when it has at most
  489 UTF-16 units. The file then has at most 1024 bytes, a multiple of 16, states its own length and the
  identifier of its only string twice, and holds the units of the text in order followed by a zero unit.
\<close>

theorem obelisk_file:
  "let us = utf16Encode (runes (unescapeNewlines txt)) in
   case buildObeliskFMG txt of
     Inl nbytes \<Rightarrow> 489 < length us \<and> 1024 < nbytes
   | Inr out \<Rightarrow>
       length us \<le> 489 \<and> length out \<le> 1024 \<and> length out mod 16 = 0 \<and>
       get_be32 (slice 4 8 out) = of_nat (length out) \<and>
       get_be32 (slice 0x20 0x24 out) = 100 \<and> get_be32 (slice 0x24 0x28 out) = 100 \<and>
       (\<forall>n < length us. get_be16 (slice (0x2C + 2 * n) (0x2C + 2 * n + 2) out) = us ! n) \<and>
       slice (0x2C + 2 * length us) (0x2C + 2 * length us + 2) out = [0, 0]"
proof -
  define us where "us = utf16Encode (runes (unescapeNewlines txt))"
  define nbytes where "nbytes = obeliskSize us"
  note sz = obeliskSize_facts [of us, folded nbytes_def]
  define b0 where "b0 = overwrite 0 obeliskHeader (replicate nbytes 0)"
  define b1 where "b1 = overwrite 0x04 (put_be32 (of_nat nbytes)) b0"
  define b2 where "b2 = overwrite 0x20 (put_be32 100) b1"
  define b3 where "b3 = overwrite 0x24 (put_be32 100) b2"
  define out where "out = putUnits 0x2C us b3"
  have built: "buildObeliskFMG txt = (if 1024 < nbytes then Inl nbytes else Inr out)"
    by (simp add: buildObeliskFMG_def Let_def us_def nbytes_def b0_def b1_def b2_def b3_def out_def
        obeliskMaxBytes_def obeliskStringID_def obeliskHeaderLen_def)
  have lh: "length obeliskHeader = 44" by (simp add: obeliskHeader_def)
  have len: "length b0 = nbytes" "length b1 = nbytes" "length b2 = nbytes" "length b3 = nbytes" "length out = nbytes"
    using sz(2) lh by (simp_all add: b0_def b1_def b2_def b3_def out_def)
  have "slice 4 8 out = put_be32 (of_nat nbytes)"
  proof -
    have "slice 4 8 out = slice 4 8 b1"
      using sz(2) len by (simp add: out_def b3_def b2_def slice_putUnits_before slice_overwrite_before)
    with slice_overwrite [of 4 "put_be32 (of_nat nbytes)" b0] show ?thesis using sz(2) len by (simp add: b1_def)
  qed
  moreover have "slice 0x20 0x24 out = put_be32 100"
  proof -
    have "slice 0x20 0x24 out = slice 0x20 0x24 b2"
      using sz(2) len by (simp add: out_def b3_def slice_putUnits_before slice_overwrite_before)
    with slice_overwrite [of 32 "put_be32 100" b1] show ?thesis using sz(2) len by (simp add: b2_def)
  qed
  moreover have "slice 0x24 0x28 out = put_be32 100"
  proof -
    have "slice 0x24 0x28 out = slice 0x24 0x28 b3"
      using sz(2) len by (simp add: out_def slice_putUnits_before)
    with slice_overwrite [of 36 "put_be32 100" b2] show ?thesis using sz(2) len by (simp add: b3_def)
  qed
  moreover have "get_be16 (slice (0x2C + 2 * n) (0x2C + 2 * n + 2) out) = us ! n" if "n < length us" for n
    unfolding out_def using that sz(2) len by (intro slice_putUnits) auto
  moreover have "slice (0x2C + 2 * length us) (0x2C + 2 * length us + 2) out = [0, 0]"
  proof -
    have "slice (0x2C + 2 * length us) (0x2C + 2 * length us + 2) out =
        slice (0x2C + 2 * length us) (0x2C + 2 * length us + 2) (replicate nbytes 0)"
      using sz(2) len lh
      by (simp add: out_def b3_def b2_def b1_def b0_def slice_putUnits_after slice_overwrite_after)
    then show ?thesis using sz(2) slice_replicate_two [of "0x2C + 2 * length us" nbytes 0] by simp
  qed
  ultimately show ?thesis
    unfolding Let_def us_def [symmetric] built using sz len by (auto simp: not_less)
qed

theorem obelisk_file_witness:
  "case buildObeliskFMG ''A'' of Inl _ \<Rightarrow> False | Inr out \<Rightarrow> get_be16 (slice 0x2C 0x2E out) = 0x41"
proof -
  have "runes (unescapeNewlines ''A'') = [0x41]"
    by (simp add: runes_def runesOf.simps rune_def)
  then have us: "utf16Encode (runes (unescapeNewlines ''A'')) = [0x41]"
    by (simp add: utf16Encode_def utf16Units_def)
  show ?thesis
    using obelisk_file [of "''A''", unfolded us Let_def] by (simp split: sum.splits)
qed

text \<open>
  Editing a field of a parameter file in place. When the edit succeeds the file keeps its length,
  which the client insists on, the field reads back the new value and every other byte is as before.
\<close>

theorem param_edit:
  assumes "setParamRowU32 d rowID offset v = Inr d'"
  shows "\<exists>row. paramRowOffset d rowID = Inr row \<and> length d' = length d \<and>
    get_be32 (slice (row + offset) (row + offset + 4) d') = v \<and>
    take (row + offset) d' = take (row + offset) d \<and> drop (row + offset + 4) d' = drop (row + offset + 4) d"
proof -
  obtain row where row: "paramRowOffset d rowID = Inr row" "row + offset + 4 \<le> length d"
    "d' = overwrite (row + offset) (put_be32 v) d"
    using assms by (auto simp: setParamRowU32_def setParamRow_def bind_err_Inr_iff split: if_splits)
  have "slice (row + offset) (row + offset + 4) d' = put_be32 v"
    using slice_overwrite [of "row + offset" "put_be32 v" d] row by simp
  moreover have "take (row + offset) d' = take (row + offset) d"
    "drop (row + offset + 4) d' = drop (row + offset + 4) d"
    using row(2) by (simp_all add: row(3) overwrite_def)
  ultimately show ?thesis using row by simp
qed

text \<open>A file with one row of four bytes.\<close>

definition demo_param :: bytes where
  "demo_param = overwrite 0x40 (put_be32 7 @ put_be32 76 @ put_be32 0) (overwrite 0x0A (put_be16 1) (replicate 80 0))"

theorem param_edit_witness:
  "case setParamRowU32 demo_param 7 0 258 of
     Inl _ \<Rightarrow> False | Inr d \<Rightarrow> length d = 80 \<and> get_be32 (slice 76 80 d) = 258"
proof -
  have row: "paramRowOffset demo_param 7 = Inr 76"
    by code_simp
  have len: "length demo_param = 80"
    by (simp add: demo_param_def)
  then have "\<exists>d'. setParamRowU32 demo_param 7 0 258 = Inr d'"
    by (simp add: setParamRowU32_def setParamRow_def row)
  then obtain d' where d': "setParamRowU32 demo_param 7 0 258 = Inr d'" ..
  from param_edit [OF d'] row len d' show ?thesis by auto
qed


subsection \<open>The size of a push\<close>

lemma length_labelFMG: "labelFMG d lbl = Some l \<Longrightarrow> length l = length d"
  by (auto simp: labelFMG_def Let_def split: if_splits)

lemma length_sweptPayload [simp]: "length (sweptPayload d v) = length d"
  by (auto simp: sweptPayload_def dest: length_labelFMG split: option.split)

lemma sweptVersions_room:
  "length (sweptVersions spec d) * length d \<le> max regulationPushByteBudget (length d)"
proof (cases "length (sweptVersions spec d) \<le> 1")
  case True
  then have "length (sweptVersions spec d) * length d \<le> 1 * length d" by (rule mult_le_mono1)
  then have "length (sweptVersions spec d) * length d \<le> length d" by (simp only: mult_1)
  then show ?thesis by (rule max.coboundedI2)
next
  case False
  have "length (sweptVersions spec d) \<le> max 1 (regulationPushByteBudget div length d) \<or> d = []"
    by (auto simp: sweptVersions_def Let_def)
  with False have "length (sweptVersions spec d) \<le> regulationPushByteBudget div length d \<or> d = []" by linarith
  then have "length (sweptVersions spec d) * length d \<le> regulationPushByteBudget"
  proof
    assume "length (sweptVersions spec d) \<le> regulationPushByteBudget div length d"
    then have "length (sweptVersions spec d) * length d \<le> regulationPushByteBudget div length d * length d"
      by (rule mult_le_mono1)
    also have "\<dots> \<le> regulationPushByteBudget" by (rule div_times_less_eq_dividend)
    finally show ?thesis .
  qed simp
  then show ?thesis by (rule max.coboundedI1)
qed

lemma regulation_push_bounded:
  "regulationPushEntries cfg path d \<noteq> [] \<and>
   sum_list (map (\<lambda>m. length (getBytes m ''DiffData'')) (regulationPushEntries cfg path d)) \<le> max 16384 (length d)"
proof -
  have entry: "getBytes (regulationDiffEntry path x a b) ''DiffData'' = x" for x a b
    by (simp add: regulationDiffEntry_def getBytes_def)
  have "sweptVersions spec d \<noteq> []" if "parseVersionSweep spec \<noteq> []" for spec
    using that by (simp add: sweptVersions_def Let_def)
  moreover have "sum_list (map (\<lambda>v. length (sweptPayload d v)) vs) = length vs * length d" for vs
    by (simp add: sum_list_triv)
  ultimately show ?thesis
    using sweptVersions_room [of "RegulationPushVersionSweep cfg" d]
    by (simp add: regulationPushEntries_def Let_def entry comp_def regulationPushByteBudget_def)
qed

end
