(* ===== verification/Game_State.thy ===== *)
theory Game_State
  imports Rudp_Message Frpg_Cipher Auth_Token Game_Stores Sqlite_Store Resource_Push
begin

section \<open>The state of the game service\<close>

text \<open>
  The data of internal/server/game/game.go and what the handlers share. Sessions are objects: handlers
  hold pointers to them, sessions stay alive for a handler that runs while they are dropped, and pushes
  go to the session of another client. They live on a heap, a map from addresses to objects; the service
  maps peer addresses to pointers.
\<close>

record clientSession =
  token :: Token
  cipher :: Context
  conn :: MessageConn
  lastSeen :: time
  lastState :: State
  accountID :: string
  playerID :: u32
  characterID :: u32
  status :: bytes
  profile :: matchProfile
  areaID :: u32
  breakInType :: int
  closed :: bool

type_synonym ptr = nat

text \<open>
  A goroutine of \<open>sendResourcePushes\<close>: the session it sends to, what is left to send, and when it wakes,
  if it sleeps before the next push.
\<close>

record pushRun =
  runTo :: ptr
  runRest :: "resourcePush list"
  runWake :: "time option"

record Service =
  heap :: "ptr \<Rightarrow> clientSession"
  nextPtr :: ptr
  sessions :: "string \<rightharpoonup> ptr"
  tokens :: Registry
  store :: Store
  ghosts :: ghostStore
  bloodstains :: bloodstainStore
  signs :: signStore
  mirrorKnight :: signStore
  quickMatchs :: quickMatchStore
  lastTestBell :: time
  pushRuns :: "pushRun list"

text \<open>The settings the game service reads.\<close>

record GameConfig = ResourceConfig +
  DebugForceBreakInReject :: bool
  BreakInRejectPushID :: u64
  ManagementText :: string
  ManagementTextLanguage :: u64
  QuickMatchAutoPair :: bool

text \<open>
  Everything a handler depends on besides the state. The clock is read once per message. \<open>getenv\<close> is the
  environment of the process. Each search of \<open>s.sessions\<close> for a player visits the map in an order of its
  own, \<open>sessOrd i p\<close> for the \<open>i\<close>-th search for player \<open>p\<close>; \<open>allOrd\<close> is the order of a loop over all
  sessions, \<open>storeOrd\<close> of a loop over a memory store and \<open>awareOrd x\<close> of the loop over the players aware of
  the object numbered \<open>x\<close>.
\<close>

record World =
  clock :: env
  unmarshal :: "string \<Rightarrow> bytes \<Rightarrow> pbmsg option"
  marshal :: "pbmsg \<Rightarrow> bytes option"
  unmarshalStatus :: "bytes \<Rightarrow> AllStatus option"
  gameConfig :: GameConfig
  resourceEnv :: ResourceEnv
  getenv :: "string \<Rightarrow> string"
  sessOrd :: "nat \<Rightarrow> u32 \<Rightarrow> string list"
  allOrd :: "string list"
  storeOrd :: "u32 list"
  awareOrd :: "u32 \<Rightarrow> u32 list"

type_synonym result = "string + bytes option"
type_synonym handler = "World \<Rightarrow> ptr \<Rightarrow> bytes \<Rightarrow> Service \<Rightarrow> result \<times> Service"

definition parse :: "World \<Rightarrow> string \<Rightarrow> bytes \<Rightarrow> Service \<Rightarrow> (pbmsg \<Rightarrow> result \<times> Service) \<Rightarrow> result \<times> Service" where
  "parse w name pay s k =
     (case unmarshal w name pay of None \<Rightarrow> (Inl (''parse '' @ name), s) | Some req \<Rightarrow> k req)"

definition reply :: "World \<Rightarrow> pbmsg \<Rightarrow> result" where
  "reply w m = (case marshal w m of None \<Rightarrow> Inl ''marshal'' | Some b \<Rightarrow> Inr (Some b))"

definition noReply :: result where
  "noReply = Inr None"

definition modify :: "(clientSession \<Rightarrow> clientSession) \<Rightarrow> ptr \<Rightarrow> Service \<Rightarrow> Service" where
  "modify f cs s = s\<lparr>heap := (heap s)(cs := f (heap s cs))\<rparr>"

text \<open>\<open>target.conn.SendPush(body)\<close>.\<close>

definition sendPush :: "World \<Rightarrow> ptr \<Rightarrow> bytes \<Rightarrow> Service \<Rightarrow> Service" where
  "sendPush w cs body s = modify (\<lambda>c. c\<lparr>conn := SendPush (clock w) (conn c) body\<rparr>) cs s"

text \<open>A push that is only logged when it cannot be built.\<close>

definition pushMsg :: "World \<Rightarrow> ptr \<Rightarrow> pbmsg \<Rightarrow> Service \<Rightarrow> Service" where
  "pushMsg w cs m s = (case marshal w m of None \<Rightarrow> s | Some body \<Rightarrow> sendPush w cs body s)"

text \<open>\<open>sessionForPlayerLocked\<close> of bloodmessage.go: the first session found that has the player.\<close>

definition sessionForPlayerLocked :: "string list \<Rightarrow> u32 \<Rightarrow> Service \<Rightarrow> ptr option" where
  "sessionForPlayerLocked ord p s =
     List.find (\<lambda>cs. playerID (heap s cs) = p) (range_vals (sessions s) ord)"

definition lookupPlayer :: "World \<Rightarrow> nat \<Rightarrow> u32 \<Rightarrow> Service \<Rightarrow> ptr option" where
  "lookupPlayer w i p s = sessionForPlayerLocked (sessOrd w i p) p s"


subsection \<open>Orders and lookups\<close>

definition orders_valid :: "World \<Rightarrow> Service \<Rightarrow> bool" where
  "orders_valid w s \<longleftrightarrow>
     (\<forall>i p. range_order (sessions s) (sessOrd w i p)) \<and> range_order (sessions s) (allOrd w)"

definition online :: "Service \<Rightarrow> ptr \<Rightarrow> bool" where
  "online s cs \<longleftrightarrow> cs \<in> ran (sessions s)"

definition player_online :: "Service \<Rightarrow> u32 \<Rightarrow> bool" where
  "player_online s p \<longleftrightarrow> (\<exists>cs. online s cs \<and> playerID (heap s cs) = p)"

lemma session_found:
  assumes "range_order (sessions s) ord" "sessionForPlayerLocked ord p s = Some cs"
  shows "online s cs \<and> playerID (heap s cs) = p"
proof -
  obtain i where "i < length (range_vals (sessions s) ord)" "cs = range_vals (sessions s) ord ! i"
    "playerID (heap s cs) = p"
    using assms(2) by (auto simp: sessionForPlayerLocked_def find_Some_iff)
  then show ?thesis
    using set_range_vals_order [OF assms(1)] nth_mem by (metis online_def)
qed

lemma session_missing:
  assumes "range_order (sessions s) ord"
  shows "sessionForPlayerLocked ord p s = None \<longleftrightarrow> \<not> player_online s p"
  using set_range_vals_order [OF assms]
  by (auto simp: sessionForPlayerLocked_def player_online_def online_def find_None_iff)

lemma lookup_found:
  "orders_valid w s \<Longrightarrow> lookupPlayer w i p s = Some cs \<Longrightarrow> online s cs \<and> playerID (heap s cs) = p"
  unfolding orders_valid_def lookupPlayer_def by (blast dest: session_found)

lemma lookup_missing:
  "orders_valid w s \<Longrightarrow> lookupPlayer w i p s = None \<longleftrightarrow> \<not> player_online s p"
  by (simp add: orders_valid_def lookupPlayer_def session_missing)


subsection \<open>What a push leaves alone\<close>

lemma modify_simps [simp]:
  "sessions (modify f cs s) = sessions s" "nextPtr (modify f cs s) = nextPtr s"
  "tokens (modify f cs s) = tokens s" "store (modify f cs s) = store s"
  "ghosts (modify f cs s) = ghosts s" "bloodstains (modify f cs s) = bloodstains s"
  "signs (modify f cs s) = signs s" "mirrorKnight (modify f cs s) = mirrorKnight s"
  "quickMatchs (modify f cs s) = quickMatchs s" "lastTestBell (modify f cs s) = lastTestBell s"
  "pushRuns (modify f cs s) = pushRuns s"
  "heap (modify f cs s) c = (if c = cs then f (heap s cs) else heap s c)"
  by (simp_all add: modify_def)

text \<open>A state that differs at most in the outgoing queues of some sessions.\<close>

definition pushes_only :: "ptr set \<Rightarrow> Service \<Rightarrow> Service \<Rightarrow> bool" where
  "pushes_only cs s s' \<longleftrightarrow>
     s' = s\<lparr>heap := heap s'\<rparr> \<and>
     (\<forall>c. heap s' c = (heap s c)\<lparr>conn := conn (heap s' c)\<rparr> \<and> (c \<notin> cs \<longrightarrow> heap s' c = heap s c))"

lemma pushes_only_refl [simp]: "pushes_only cs s s"
  by (simp add: pushes_only_def)

lemma pushes_only_trans:
  assumes "pushes_only a s s'" "pushes_only b s' s''"
  shows "pushes_only (a \<union> b) s s''"
proof -
  have "s'' = s\<lparr>heap := heap s''\<rparr>"
    using assms unfolding pushes_only_def by (metis Service.surjective Service.update_convs(1))
  moreover have "heap s'' c = (heap s c)\<lparr>conn := conn (heap s'' c)\<rparr>" for c
    using assms unfolding pushes_only_def
    by (metis clientSession.surjective clientSession.update_convs(3))
  ultimately show ?thesis
    using assms unfolding pushes_only_def by auto
qed

lemma pushes_only_mono: "pushes_only a s s' \<Longrightarrow> a \<subseteq> b \<Longrightarrow> pushes_only b s s'"
  by (auto simp: pushes_only_def)

lemma sendPush_only: "pushes_only {cs} s (sendPush w cs body s)"
  by (simp add: pushes_only_def sendPush_def modify_def)

lemma pushMsg_only: "pushes_only {cs} s (pushMsg w cs m s)"
  by (simp add: pushMsg_def sendPush_only split: option.split)

lemma pushes_only_player:
  assumes "pushes_only cs s s'"
  shows "playerID (heap s' c) = playerID (heap s c)" "accountID (heap s' c) = accountID (heap s c)"
    "profile (heap s' c) = profile (heap s c)" "sessions s' = sessions s" "signs s' = signs s"
    "mirrorKnight s' = mirrorKnight s" "quickMatchs s' = quickMatchs s" "store s' = store s"
    "tokens s' = tokens s" "ghosts s' = ghosts s" "bloodstains s' = bloodstains s"
proof -
  have h: "heap s' c = (heap s c)\<lparr>conn := conn (heap s' c)\<rparr>" and e: "s' = s\<lparr>heap := heap s'\<rparr>"
    using assms by (simp_all add: pushes_only_def)
  show "playerID (heap s' c) = playerID (heap s c)" "accountID (heap s' c) = accountID (heap s c)"
    "profile (heap s' c) = profile (heap s c)"
    by (subst h, simp)+
  show "sessions s' = sessions s" "signs s' = signs s"
    "mirrorKnight s' = mirrorKnight s" "quickMatchs s' = quickMatchs s" "store s' = store s"
    "tokens s' = tokens s" "ghosts s' = ghosts s" "bloodstains s' = bloodstains s"
    by (subst e, simp)+
qed

lemma pushes_only_orders: "pushes_only cs s s' \<Longrightarrow> orders_valid w s' = orders_valid w s"
  by (simp add: orders_valid_def pushes_only_player)

lemma pushes_only_online: "pushes_only cs s s' \<Longrightarrow> player_online s' p = player_online s p"
  by (simp add: player_online_def online_def pushes_only_player)


subsection \<open>What a handler leaves alone\<close>

text \<open>What a client has sent and the service has not read yet. Sending leaves it alone.\<close>

definition incoming :: "MessageConn \<Rightarrow> recvItem list \<times> reassembler" where
  "incoming mc = (Session.received (sess mc), reasm mc)"

lemma enqueue_received [simp]: "Session.received (enqueue e s p) = Session.received s"
  by (simp add: enqueue_def Let_def)

lemma sendFragments_received [simp]: "Session.received (sendFragments e s fs) = Session.received s"
  by (induction fs arbitrary: s) (simp_all add: SendData_def)

lemma incoming_send_message: "incoming (send_message e mc m r a) = incoming mc"
  by (simp add: incoming_def send_message_def Let_def SendData_def SendDataAck_def split: list.split)

lemma incoming_sends [simp]:
  "incoming (SendPush e mc b) = incoming mc" "incoming (SendReply e mc m b) = incoming mc"
  by (simp_all add: SendPush_def SendReply_def incoming_send_message)

text \<open>
  What a push does to the connection it goes to: data packets are appended to the queue of outgoing
  packets, each with the next sequence number, and the message counter moves. Nothing else changes.
\<close>

definition queued :: "Session \<Rightarrow> Session \<Rightarrow> bool" where
  "queued s s' \<longleftrightarrow> (\<exists>q. (\<forall>p\<in>set q. opcode (pkt p) = OpDAT) \<and>
     s' = s\<lparr>sequenceIndex := ((\<lambda>i. (i + 1) mod maxAckValue) ^^ length q) (sequenceIndex s),
            sendQueue := sendQueue s @ q\<rparr>)"

definition only_queued :: "MessageConn \<Rightarrow> MessageConn \<Rightarrow> bool" where
  "only_queued mc mc' \<longleftrightarrow> queued (sess mc) (sess mc') \<and> mc' = mc\<lparr>sess := sess mc', counter := counter mc'\<rparr>"

lemma queued_refl: "queued s s"
  unfolding queued_def by (rule exI [of _ "[]"]) simp

lemma queued_trans:
  assumes "queued s s'" "queued s' s''"
  shows "queued s s''"
proof -
  obtain q q' where q: "\<forall>p\<in>set q. opcode (pkt p) = OpDAT" "\<forall>p\<in>set q'. opcode (pkt p) = OpDAT"
    "s' = s\<lparr>sequenceIndex := ((\<lambda>i. (i + 1) mod maxAckValue) ^^ length q) (sequenceIndex s), sendQueue := sendQueue s @ q\<rparr>"
    "s'' = s'\<lparr>sequenceIndex := ((\<lambda>i. (i + 1) mod maxAckValue) ^^ length q') (sequenceIndex s'), sendQueue := sendQueue s' @ q'\<rparr>"
    using assms unfolding queued_def by blast
  then show ?thesis
    unfolding queued_def by (intro exI [of _ "q @ q'"]) (auto simp: funpow_add add.commute [of "length q"])
qed

lemma queued_SendData: "queued s (SendData e s b)"
proof (cases "sess_state s = StateClosing")
  case True
  then show ?thesis by (simp add: SendData_def enqueue_def queued_refl)
next
  case False
  let ?q = "[\<lparr>pkt = (mk_packet OpUnset 0 0 b)\<lparr>local_seq := sequenceIndex s, opcode := OpDAT\<rparr>, sendTime = now e, rawSendTime = 0\<rparr>]"
  from False show ?thesis
    unfolding queued_def SendData_def enqueue_def by (intro exI [of _ ?q]) (simp add: mk_packet_def)
qed

lemma queued_sendFragments: "queued s (sendFragments e s fs)"
  by (induction fs arbitrary: s) (auto intro: queued_refl queued_trans queued_SendData)

lemma only_queued_refl [simp]: "only_queued mc mc"
  by (simp add: only_queued_def queued_refl)

lemma only_queued_trans:
  assumes "only_queued a b" "only_queued b c"
  shows "only_queued a c"
proof -
  have "queued (sess a) (sess c)"
    using assms by (auto simp: only_queued_def intro: queued_trans)
  moreover have "reasm c = reasm a" "nextIdx c = nextIdx a"
    using assms by (metis MessageConn.select_convs MessageConn.surjective MessageConn.update_convs(1,3) only_queued_def)+
  ultimately show ?thesis by (simp add: only_queued_def)
qed

lemma only_queued_SendPush [simp]: "only_queued mc (SendPush e mc b)"
  unfolding only_queued_def SendPush_def send_message_def Let_def
  by (auto intro: queued_refl queued_trans [OF queued_SendData queued_sendFragments] split: list.split)

lemma only_queued_incoming:
  assumes "only_queued mc mc'"
  shows "incoming mc' = incoming mc"
proof -
  have "Session.received (sess mc') = Session.received (sess mc)"
    using assms by (auto simp: only_queued_def queued_def)
  moreover have "reasm mc' = reasm (mc\<lparr>sess := sess mc', counter := counter mc'\<rparr>)"
    using assms by (simp add: only_queued_def)
  ultimately show ?thesis by (simp add: incoming_def)
qed

text \<open>
  The contract of the handlers: a message of one client leaves the session table, the token registry and
  what the clients have sent alone, does no more to another session than queue pushes for it, and changes of
  its own session neither the token nor the key.
\<close>

definition frame :: "ptr \<Rightarrow> Service \<Rightarrow> Service \<Rightarrow> bool" where
  "frame cs s s' \<longleftrightarrow>
     sessions s' = sessions s \<and> tokens s' = tokens s \<and> nextPtr s' = nextPtr s \<and>
     incoming (conn (heap s' cs)) = incoming (conn (heap s cs)) \<and>
     (\<forall>c. c \<noteq> cs \<longrightarrow> heap s' c = (heap s c)\<lparr>conn := conn (heap s' c)\<rparr> \<and>
                    only_queued (conn (heap s c)) (conn (heap s' c))) \<and>
     token (heap s' cs) = token (heap s cs) \<and> cipher (heap s' cs) = cipher (heap s cs) \<and>
     lastSeen (heap s' cs) = lastSeen (heap s cs) \<and> closed (heap s' cs) = closed (heap s cs)"

named_theorems frame_intros \<open>states reached by a handler stay within its frame\<close>

lemma frame_refl [simp, frame_intros]: "frame cs s s"
  by (simp add: frame_def)

lemma frame_stores [frame_intros]:
  assumes "frame cs s s'"
  shows "frame cs s (s'\<lparr>signs := a\<rparr>)" "frame cs s (s'\<lparr>mirrorKnight := a\<rparr>)"
    "frame cs s (s'\<lparr>quickMatchs := b\<rparr>)" "frame cs s (s'\<lparr>ghosts := c\<rparr>)"
    "frame cs s (s'\<lparr>bloodstains := d\<rparr>)" "frame cs s (s'\<lparr>store := e\<rparr>)"
    "frame cs s (s'\<lparr>pushRuns := r\<rparr>)"
  using assms by (simp_all add: frame_def)

lemma frame_modify_conn:
  assumes "frame cs s s'" "\<And>c. f c = c\<lparr>conn := conn (f c)\<rparr>"
    and "\<And>c. incoming (conn (f c)) = incoming (conn c)"
    and "t = cs \<or> (\<forall>c. only_queued (conn c) (conn (f c)))"
  shows "frame cs s (modify f t s')"
proof -
  have eq: "f x = x\<lparr>conn := conn (f x)\<rparr>" for x by (rule assms(2))
  have keep: "token (f x) = token x" "cipher (f x) = cipher x" "lastSeen (f x) = lastSeen x"
    "closed (f x) = closed x" for x
    by (subst eq, simp)+
  have other: "heap s' c = (heap s c)\<lparr>conn := conn (heap s' c)\<rparr>"
    "only_queued (conn (heap s c)) (conn (heap s' c))" if "c \<noteq> cs" for c
    using assms(1) that by (simp_all add: frame_def)
  have "f (heap s' c) = (heap s c)\<lparr>conn := conn (f (heap s' c))\<rparr>" if "c \<noteq> cs" for c
    by (subst eq, subst other(1) [OF that]) simp
  moreover have "only_queued (conn (heap s t)) (conn (f (heap s' t)))" if "t \<noteq> cs"
    using that assms(4) other(2) [OF that] by (blast intro: only_queued_trans)
  ultimately show ?thesis using assms(1,3) keep unfolding frame_def by auto
qed

lemma frame_sendPush [frame_intros]: "frame cs s s' \<Longrightarrow> frame cs s (sendPush w t body s')"
  unfolding sendPush_def by (rule frame_modify_conn) simp_all

lemma frame_pushMsg [frame_intros]: "frame cs s s' \<Longrightarrow> frame cs s (pushMsg w t m s')"
  by (simp add: pushMsg_def frame_sendPush split: option.split)

lemma frame_modify_own [frame_intros]:
  assumes "frame cs s s'"
    and "\<And>c. token (f c) = token c" "\<And>c. cipher (f c) = cipher c" "\<And>c. conn (f c) = conn c"
    and "\<And>c. lastSeen (f c) = lastSeen c" "\<And>c. closed (f c) = closed c"
  shows "frame cs s (modify f cs s')"
  using assms by (simp add: frame_def)

lemma frame_parse [frame_intros]:
  "(\<And>req. frame cs s (snd (k req))) \<Longrightarrow> frame cs s (snd (parse w n pay s k))"
  by (simp add: parse_def split: option.split)

lemma frame_trans: "frame cs s s' \<Longrightarrow> frame cs s' s'' \<Longrightarrow> frame cs s s''"
proof -
  assume a: "frame cs s s'" and b: "frame cs s' s''"
  have "heap s'' c = (heap s c)\<lparr>conn := conn (heap s'' c)\<rparr>" if "c \<noteq> cs" for c
  proof -
    have "heap s'' c = (heap s' c)\<lparr>conn := conn (heap s'' c)\<rparr>" "heap s' c = (heap s c)\<lparr>conn := conn (heap s' c)\<rparr>"
      using a b that by (simp_all add: frame_def)
    then show ?thesis by (metis clientSession.surjective clientSession.update_convs(3))
  qed
  moreover have "only_queued (conn (heap s c)) (conn (heap s'' c))" if "c \<noteq> cs" for c
    using a b that unfolding frame_def by (blast intro: only_queued_trans)
  ultimately show ?thesis using a b by (simp add: frame_def)
qed

text \<open>Pushes leave lookups alone, so who is notified can be said before the first push.\<close>

lemma lookup_sendPush [simp]: "lookupPlayer w i p (sendPush w' t body s) = lookupPlayer w i p s"
proof -
  have "playerID (heap (sendPush w' t body s) c) = playerID (heap s c)" for c
    by (simp add: sendPush_def)
  then show ?thesis
    by (simp add: lookupPlayer_def sessionForPlayerLocked_def sendPush_def)
qed

definition sendAll :: "World \<Rightarrow> (ptr \<times> bytes) list \<Rightarrow> Service \<Rightarrow> Service" where
  "sendAll w ns s = foldl (\<lambda>s (t, body). sendPush w t body s) s ns"

lemma sendAll_simps [simp]:
  "sendAll w [] s = s" "sendAll w ((t, body) # ns) s = sendAll w ns (sendPush w t body s)"
  "sendAll w (xs @ ys) s = sendAll w ys (sendAll w xs s)"
  by (simp_all add: sendAll_def)

lemma lookup_sendAll [simp]: "lookupPlayer w i p (sendAll w' ns s) = lookupPlayer w i p s"
  by (induction ns arbitrary: s) auto

lemma sendAll_only: "pushes_only (fst ` set ns) s (sendAll w ns s)"
proof (induction ns arbitrary: s)
  case Nil
  show ?case by simp
next
  case (Cons n ns)
  obtain t body where n: "n = (t, body)" by fastforce
  have "pushes_only ({t} \<union> fst ` set ns) s (sendAll w ns (sendPush w t body s))"
    by (rule pushes_only_trans [OF sendPush_only Cons])
  then show ?case by (simp add: n)
qed

subsection \<open>A small service\<close>

text \<open>Two clients, players 7 and 8, and a library that answers every call: the setting of the examples.\<close>

definition demo_client :: "u32 \<Rightarrow> clientSession" where
  "demo_client p =
     \<lparr>token = [], cipher = \<lparr>block = (\<lambda>b. b), ctxZ = 0\<rparr>,
      conn = NewMessageConn (NewServerSession \<lparr>now = 0, rnd = (0, 0)\<rparr> (\<lambda>_. None)), lastSeen = 0,
      lastState = StateEstablished, accountID = ''psn'', playerID = p, characterID = 0, status = [],
      profile = emptyProfile, areaID = 0, breakInType = 0, closed = False\<rparr>"

definition demo_service :: Service where
  "demo_service =
     \<lparr>heap = (\<lambda>c. if c = 0 then demo_client 7 else demo_client 8), nextPtr = 2,
      sessions = [''a'' \<mapsto> 0, ''b'' \<mapsto> 1], tokens = NewRegistry, store = emptyStore,
      ghosts = newGhostStore, bloodstains = newBloodstainStore, signs = newSignStore,
      mirrorKnight = newSignStoreFrom firstMirrorKnightSignID, quickMatchs = newQuickMatchStore,
      lastTestBell = 0, pushRuns = []\<rparr>"

definition demo_world :: "pbmsg \<Rightarrow> World" where
  "demo_world req =
     \<lparr>clock = \<lparr>now = 0, rnd = (0, 0)\<rparr>, unmarshal = (\<lambda>n pay. Some req), marshal = (\<lambda>m. Some [1]),
      unmarshalStatus = (\<lambda>pay. None),
      gameConfig = \<lparr>RegulationPushFile = [], RegulationPushPath = [], RegulationPushVersionRequired = 0,
        RegulationPushVersionNew = 0, RegulationPushVersionSweep = [], RegulationPushDelaySeconds = 0,
        RegulationPushGapSeconds = 0, ObeliskText = [], EventChestRotation = [], EventChestPeriod = [],
        EventChestEpoch = [], EventChestThresholdBase = 0, EventChestLotParamFile = [],
        EventChestOnlineEventFile = [], DebugForceBreakInReject = False, BreakInRejectPushID = 0, ManagementText = '''',
        ManagementTextLanguage = 0, QuickMatchAutoPair = False\<rparr>,
      resourceEnv = \<lparr>readFile = (\<lambda>f. None), wallClock = 0, parseDuration = (\<lambda>v. None),
        parseRFC3339 = (\<lambda>v. None)\<rparr>,
      getenv = (\<lambda>v. ''''), sessOrd = (\<lambda>i p. [''a'', ''b'']), allOrd = [''b'', ''a''], storeOrd = [],
      awareOrd = (\<lambda>x. [7, 8])\<rparr>"

lemma demo_orders: "sessions s = sessions demo_service \<Longrightarrow> orders_valid (demo_world req) s"
proof -
  assume "sessions s = sessions demo_service"
  moreover have "sessions demo_service = [''a'' \<mapsto> 0, ''b'' \<mapsto> 1]" by (simp add: demo_service_def)
  moreover have "range_order [''a'' \<mapsto> 0, ''b'' \<mapsto> (1 :: ptr)] [''a'', ''b'']"
    "range_order [''a'' \<mapsto> 0, ''b'' \<mapsto> (1 :: ptr)] [''b'', ''a'']"
    by (simp_all add: range_order_def insert_commute)
  ultimately show ?thesis by (simp add: orders_valid_def demo_world_def)
qed

lemma demo_online: "online demo_service 0" "online demo_service 1"
proof -
  have "sessions demo_service ''a'' = Some 0" "sessions demo_service ''b'' = Some 1"
    by (simp_all add: demo_service_def)
  then show "online demo_service 0" "online demo_service 1" by (auto simp: online_def intro: ranI)
qed

end
