(* ===== verification/Content_Service.thy ===== *)
theory Content_Service
  imports Game_State
begin

section \<open>Ghosts, bloodstains, blood messages and the relay\<close>

text \<open>
  The handlers of internal/server/game/ghost.go, bloodstain.go, bloodmessage.go and relay.go. A blob
  copied with \<open>append([]byte(nil), b...)\<close> is nil when it is empty, and a nil blob is an unset field of
  the reply (\<open>optBytes\<close>); a blob column of the database is read as a set field.
\<close>

definition runStore :: "'a db \<Rightarrow> Service \<Rightarrow> (string + 'a) \<times> Service" where
  "runStore m s = (case m (store s) of (r, st) \<Rightarrow> (r, s\<lparr>store := st\<rparr>))"

text \<open>\<open>x, err := s.store.Op(...)\<close> with \<open>if err != nil { return nil, err }\<close>.\<close>

definition storing :: "'a db \<Rightarrow> Service \<Rightarrow> ('a \<Rightarrow> Service \<Rightarrow> result \<times> Service) \<Rightarrow> result \<times> Service" where
  "storing m s k = (case runStore m s of (Inl err, s') \<Rightarrow> (Inl err, s') | (Inr x, s') \<Rightarrow> k x s')"

text \<open>The cell limits of a request: a later entry for a cell replaces an earlier one.\<close>

definition requestCaps :: "pbmsg \<Rightarrow> (u32 \<times> int) list" where
  "requestCaps req =
     map (\<lambda>a. (getU32 a ''CellId'', uint (getU32 a ''MaxItems''))) (rev (getMsgs req ''SearchAreas''))"


subsection \<open>Ghosts\<close>

definition handleCreateGhostData :: handler where
  "handleCreateGhostData w cs pay s =
     parse w ''RequestCreateGhostData'' pay s (\<lambda>req.
       let g = \<lparr>ghID = 0, ghOwnerID = playerID (heap s cs), ghAreaID = getU32 req ''OnlineAreaId'',
                ghCellID = getU32 req ''CellId'', ghData = getBytes req ''Data'', ghSeq = 0\<rparr>;
           (gid, st) = ghost_add (storeOrd w) (ghosts s) g
       in (reply w (Pb ''RequestCreateGhostDataResponse'' []), s\<lparr>ghosts := st\<rparr>))"

definition ghostProto :: "ghost \<Rightarrow> pbmsg" where
  "ghostProto g =
     Pb ''GhostData'' ([(''CellId'', PU32 (ghCellID g)), (''GhostId'', PU32 (ghID g))] @
       optBytes ''Data'' (ghData g))"

definition handleGetGhostDataList :: handler where
  "handleGetGhostDataList w cs pay s =
     parse w ''RequestGetGhostDataList'' pay s (\<lambda>req.
       let area = getU32 req ''OnlineAreaId'';
           found = ghost_inCells (storeOrd w) (ghosts s) area (requestCaps req) (playerID (heap s cs))
                     (uint (getU32 req ''MaxGhosts''))
       in (reply w (Pb ''RequestGetGhostDataListResponse''
             [(''OnlineAreaId'', PU32 area), (''Ghosts'', repMsgs (map ghostProto found))]), s))"


subsection \<open>Bloodstains\<close>

definition handleCreateBloodstain :: handler where
  "handleCreateBloodstain w cs pay s =
     parse w ''RequestCreateBloodstain'' pay s (\<lambda>req.
       let b = \<lparr>bsID = 0, bsOwnerID = playerID (heap s cs), bsAreaID = getU32 req ''OnlineAreaId'',
                bsCellID = getU32 req ''CellId'', bsData = getBytes req ''Data'',
                bsGhostData = getBytes req ''GhostData''\<rparr>;
           (bid, st) = bloodstain_add (bloodstains s) b
       in (noReply, s\<lparr>bloodstains := st\<rparr>))"

definition stainProto :: "bloodstain \<Rightarrow> pbmsg" where
  "stainProto b =
     Pb ''BloodstainInfo''
       ([(''OnlineAreaId'', PU32 (bsAreaID b)), (''CellId'', PU32 (bsCellID b)),
         (''BloodstainId'', PU32 (bsID b))] @ optBytes ''Data'' (bsData b))"

definition handleGetBloodstainList :: handler where
  "handleGetBloodstainList w cs pay s =
     parse w ''RequestGetBloodstainList'' pay s (\<lambda>req.
       let found = bloodstain_inCells (storeOrd w) (bloodstains s) (getU32 req ''OnlineAreaId'')
                     (requestCaps req) (playerID (heap s cs)) (uint (getU32 req ''MaxStains''))
       in (reply w (Pb ''RequestGetBloodstainListResponse''
             [(''Bloodstains'', repMsgs (map stainProto found))]), s))"

definition deadingGhostReply :: "pbmsg \<Rightarrow> bytes \<Rightarrow> pbmsg" where
  "deadingGhostReply req d =
     Pb ''RequestGetDeadingGhostResponse''
       ([(''OnlineAreaId'', PU32 (getU32 req ''OnlineAreaId'')), (''CellId'', PU32 (getU32 req ''CellId'')),
         (''BloodstainId'', PU32 (getU32 req ''BloodstainId''))] @ optBytes ''Data'' d)"

definition handleGetDeadingGhost :: handler where
  "handleGetDeadingGhost w cs pay s =
     parse w ''RequestGetDeadingGhost'' pay s (\<lambda>req.
       let d = (case bloodstain_get (bloodstains s) (getU32 req ''BloodstainId'') of
                  None \<Rightarrow> [] | Some b \<Rightarrow> bsGhostData b)
       in (reply w (deadingGhostReply req d), s))"


subsection \<open>Blood messages\<close>

text \<open>\<open>max64(m.Rating, 0)\<close> cut to 32 bits.\<close>

definition bloodMessageToProto :: "BloodMessage \<Rightarrow> pbmsg" where
  "bloodMessageToProto m =
     Pb ''BloodMessageData''
       [(''PlayerId'', PU32 (bmPlayerID m)), (''CharacterId'', PU32 (bmCharacterID m)),
        (''MessageId'', PU32 (of_nat (bmID m))), (''Good'', PU32 (word_of_int (max (bmRating m) 0))),
        (''MessageData'', PBytes (bmData m)), (''PlayerPsnId'', PStr (bmAccountID m)),
        (''CellId'', PU32 (bmCellID m))]"

definition handleCreateBloodMessage :: handler where
  "handleCreateBloodMessage w cs pay s =
     parse w ''RequestCreateBloodMessage'' pay s (\<lambda>req.
       let m = \<lparr>bmID = 0, bmPlayerID = playerID (heap s cs), bmCharacterID = getU32 req ''CharacterId'',
                bmAccountID = accountID (heap s cs), bmAreaID = getU32 req ''OnlineAreaId'',
                bmCellID = getU32 req ''CellId'', bmData = getBytes req ''MessageData'', bmRating = 0\<rparr>
       in storing (AddBloodMessage m) s (\<lambda>mid s'.
            (reply w (Pb ''RequestCreateBloodMessageResponse'' [(''MessageId'', PU32 mid)]), s')))"

definition handleGetBloodMessageList :: handler where
  "handleGetBloodMessageList w cs pay s =
     parse w ''RequestGetBloodMessageList'' pay s (\<lambda>req.
       let area = getU32 req ''OnlineAreaId'';
           s1 = modify (\<lambda>c. c\<lparr>areaID := area\<rparr>) cs s;
           cells = map (\<lambda>a. getU32 a ''CellId'') (getMsgs req ''SearchAreas'')
       in storing (BloodMessagesInCells area cells (uint (getU32 req ''MaxMessages''))) s1 (\<lambda>found s'.
            (reply w (Pb ''RequestGetBloodMessageListResponse''
               [(''OnlineAreaId'', PU32 area), (''Messages'', repMsgs (map bloodMessageToProto found))]), s')))"

definition handleReentryBloodMessage :: handler where
  "handleReentryBloodMessage w cs pay s =
     parse w ''RequestReentryBloodMessage'' pay s (\<lambda>req.
       storing (GetBloodMessage (getU32 req ''MessageId'')) s (\<lambda>m s'.
         (reply w (Pb ''RequestReentryBloodMessageResponse'' []), s')))"

definition handleRemoveBloodMessage :: handler where
  "handleRemoveBloodMessage w cs pay s =
     parse w ''RequestRemoveBloodMessage'' pay s (\<lambda>req.
       storing (RemoveBloodMessage (getU32 req ''MessageId'')) s (\<lambda>_ s'.
         (reply w (Pb ''RequestRemoveBloodMessageResponse'' []), s')))"

definition evaluationMsg :: "clientSession \<Rightarrow> u32 \<Rightarrow> pbmsg" where
  "evaluationMsg rater mid =
     Pb ''PushRequestEvaluateBloodMessage''
       [(''PushMessageId'', PEnum 938), (''PlayerId'', PU32 (playerID rater)), (''MessageId'', PU32 mid),
        (''PlayerPsnId'', PStr (accountID rater))]"

definition pushEvaluationToAuthor :: "World \<Rightarrow> ptr \<Rightarrow> u32 \<Rightarrow> Service \<Rightarrow> Service" where
  "pushEvaluationToAuthor w rater mid s =
     (case runStore (GetBloodMessage mid) s of
        (Inr (Some m), s1) \<Rightarrow>
          (case lookupPlayer w 0 (bmPlayerID m) s1 of
             None \<Rightarrow> s1
           | Some author \<Rightarrow>
               if author = rater then s1 else pushMsg w author (evaluationMsg (heap s1 rater) mid) s1)
      | (_, s1) \<Rightarrow> s1)"

definition handleEvaluateBloodMessage :: handler where
  "handleEvaluateBloodMessage w cs pay s =
     parse w ''RequestEvaluateBloodMessage'' pay s (\<lambda>req.
       let mid = getU32 req ''MessageId'';
           ok = reply w (Pb ''RequestEvaluateBloodMessageResponse'' [])
       in storing (GetBloodMessage mid) s (\<lambda>m s1.
            if (case m of None \<Rightarrow> False | Some m \<Rightarrow> bmPlayerID m = playerID (heap s1 cs)) then (ok, s1)
            else
              storing (EvaluateBloodMessage mid) s1 (\<lambda>(rating, known) s2.
                (ok, if known then pushEvaluationToAuthor w cs mid s2 else s2))))"

definition handleGetBloodMessageEvaluation :: handler where
  "handleGetBloodMessageEvaluation w cs pay s =
     parse w ''RequestGetBloodMessageEvaluation'' pay s (\<lambda>req.
       let mid = getU32 req ''MessageId'';
           (r, s1) = runStore (GetBloodMessage mid) s;
           rating = (case r of Inr (Some m) \<Rightarrow> bmRating m | _ \<Rightarrow> 0)
       in (reply w (Pb ''RequestGetBloodMessageEvaluationResponse''
             [(''MessageId'', PI64 (ucast mid)), (''Rating'', PI64 (word_of_int rating))]), s1))"


subsection \<open>The relay\<close>

definition maxRelayRecipients :: nat where "maxRelayRecipients = 6"

fun relayTo :: "World \<Rightarrow> nat \<Rightarrow> ptr \<Rightarrow> bytes \<Rightarrow> u32 list \<Rightarrow> Service \<Rightarrow> Service" where
  "relayTo w i cs body [] s = s"
| "relayTo w i cs body (p # ps) s =
     (if p = playerID (heap s cs) then relayTo w (Suc i) cs body ps s
      else
        case lookupPlayer w i p s of
          None \<Rightarrow> relayTo w (Suc i) cs body ps s
        | Some target \<Rightarrow> relayTo w (Suc i) cs body ps (sendPush w target body s))"

definition handleSendMessageToPlayers :: handler where
  "handleSendMessageToPlayers w cs pay s =
     parse w ''RequestSendMessageToPlayers'' pay s (\<lambda>req.
       let ids0 = getU32s req ''PlayerIds'';
           ids = (if length ids0 > maxRelayRecipients then take maxRelayRecipients ids0 else ids0)
       in (reply w (Pb ''RequestSendMessageToPlayersResponse'' []),
           relayTo w 0 cs (getBytes req ''Message'') ids s))"

subsection \<open>What these handlers leave alone\<close>

lemma runStore_simps [simp]:
  "heap (snd (runStore m s)) = heap s" "sessions (snd (runStore m s)) = sessions s"
  "quickMatchs (snd (runStore m s)) = quickMatchs s" "signs (snd (runStore m s)) = signs s"
  by (simp_all add: runStore_def split: prod.split)

lemma frame_runStore [frame_intros]: "frame cs s s' \<Longrightarrow> frame cs s (snd (runStore m s'))"
  by (simp add: runStore_def frame_stores split: prod.split)

lemma frame_runStore_pair: "runStore m s = (r, x) \<Longrightarrow> frame cs s x"
  using frame_runStore [of cs s s m] by simp

lemma frame_storing [frame_intros]:
  assumes "frame cs s s'" "\<And>x s''. frame cs s s'' \<Longrightarrow> frame cs s (snd (k x s''))"
  shows "frame cs s (snd (storing m s' k))"
  using assms frame_runStore [OF assms(1), of m]
  by (auto simp: storing_def split: prod.split sum.split)

lemma frame_evaluation [frame_intros]:
  "frame cs s s' \<Longrightarrow> frame cs s (pushEvaluationToAuthor w rater mid s')"
  using frame_runStore [of cs s s' "GetBloodMessage mid"]
  by (auto simp: pushEvaluationToAuthor_def frame_pushMsg split: prod.split sum.split option.split)

lemma frame_relayTo [frame_intros]: "frame cs s s' \<Longrightarrow> frame cs s (relayTo w i c body ps s')"
  by (induction w i c body ps s' rule: relayTo.induct) (auto simp: frame_sendPush split: option.split)

lemma content_frames:
  "frame cs s (snd (handleCreateGhostData w cs pay s))"
  "frame cs s (snd (handleGetGhostDataList w cs pay s))"
  "frame cs s (snd (handleCreateBloodstain w cs pay s))"
  "frame cs s (snd (handleGetBloodstainList w cs pay s))"
  "frame cs s (snd (handleGetDeadingGhost w cs pay s))"
  "frame cs s (snd (handleCreateBloodMessage w cs pay s))"
  "frame cs s (snd (handleGetBloodMessageList w cs pay s))"
  "frame cs s (snd (handleReentryBloodMessage w cs pay s))"
  "frame cs s (snd (handleRemoveBloodMessage w cs pay s))"
  "frame cs s (snd (handleSendMessageToPlayers w cs pay s))"
  unfolding handleCreateGhostData_def handleGetGhostDataList_def handleCreateBloodstain_def
    handleGetBloodstainList_def handleGetDeadingGhost_def handleCreateBloodMessage_def
    handleGetBloodMessageList_def handleReentryBloodMessage_def handleRemoveBloodMessage_def
    handleSendMessageToPlayers_def Let_def
  by (auto intro!: frame_intros split: prod.split)

lemma evaluation_frames:
  "frame cs s (snd (handleEvaluateBloodMessage w cs pay s))"
  "frame cs s (snd (handleGetBloodMessageEvaluation w cs pay s))"
  unfolding handleEvaluateBloodMessage_def handleGetBloodMessageEvaluation_def Let_def
  by (auto intro!: frame_intros dest: frame_runStore_pair split: prod.split)


subsection \<open>Whom the relay reaches\<close>

lemma relayTo_sendAll:
  assumes "orders_valid w s"
  shows "\<exists>ns. relayTo w i cs body ps s = sendAll w ns s \<and> length ns \<le> length ps \<and>
    (\<forall>(t, b) \<in> set ns. b = body \<and> online s t \<and> playerID (heap s t) \<in> set ps \<and>
       playerID (heap s t) \<noteq> playerID (heap s cs))"
  using assms
proof (induction ps arbitrary: i s)
  case Nil
  show ?case by (auto intro: exI [of _ "[]"])
next
  case (Cons p ps)
  consider (skip) "p = playerID (heap s cs) \<or> lookupPlayer w i p s = None"
    | (push) t where "p \<noteq> playerID (heap s cs)" "lookupPlayer w i p s = Some t" by fastforce
  then show ?case
  proof cases
    case skip
    then have "relayTo w i cs body (p # ps) s = relayTo w (Suc i) cs body ps s" by auto
    moreover obtain ns where "relayTo w (Suc i) cs body ps s = sendAll w ns s" "length ns \<le> length ps"
      "\<forall>(t, b) \<in> set ns. b = body \<and> online s t \<and> playerID (heap s t) \<in> set ps \<and>
         playerID (heap s t) \<noteq> playerID (heap s cs)"
      using Cons.IH [OF Cons.prems, of "Suc i"] by blast
    ultimately show ?thesis by (intro exI [of _ ns]) auto
  next
    case (push t)
    let ?s = "sendPush w t body s"
    have same: "playerID (heap ?s c) = playerID (heap s c)" "online ?s c = online s c" for c
      by (simp_all add: sendPush_def online_def)
    have "orders_valid w ?s"
      using Cons.prems pushes_only_orders [OF sendPush_only] by blast
    from Cons.IH [OF this, of "Suc i"] obtain ns where
      ns: "relayTo w (Suc i) cs body ps ?s = sendAll w ns ?s" "length ns \<le> length ps"
        "\<forall>(t, b) \<in> set ns. b = body \<and> online s t \<and> playerID (heap s t) \<in> set ps \<and>
           playerID (heap s t) \<noteq> playerID (heap s cs)"
      unfolding same by blast
    have "online s t" "playerID (heap s t) = p"
      using lookup_found [OF Cons.prems push(2)] by simp_all
    with ns push show ?thesis by (intro exI [of _ "(t, body) # ns"]) auto
  qed
qed

text \<open>
  C15: the relay cannot broadcast. Whatever list of recipients a client sends, the only effect is that at
  most six pushes are queued, each with the client's own bytes unchanged, each on a live session of a
  player the client named, and none on a session of the sending player.
\<close>

theorem relay_bounded:
  assumes "orders_valid w s" "unmarshal w ''RequestSendMessageToPlayers'' pay = Some req"
  shows "\<exists>ns. snd (handleSendMessageToPlayers w cs pay s) = sendAll w ns s \<and> length ns \<le> 6 \<and>
    (\<forall>(t, b) \<in> set ns. b = getBytes req ''Message'' \<and> online s t \<and>
       playerID (heap s t) \<in> set (getU32s req ''PlayerIds'') \<and>
       playerID (heap s t) \<noteq> playerID (heap s cs))"
proof -
  define ids where "ids = take maxRelayRecipients (getU32s req ''PlayerIds'')"
  have "snd (handleSendMessageToPlayers w cs pay s) = relayTo w 0 cs (getBytes req ''Message'') ids s"
    using assms(2) by (simp add: handleSendMessageToPlayers_def parse_def Let_def ids_def)
  moreover have "length ids \<le> 6" by (simp add: ids_def maxRelayRecipients_def)
  moreover have "set ids \<subseteq> set (getU32s req ''PlayerIds'')" by (simp add: ids_def set_take_subset)
  ultimately show ?thesis
    using relayTo_sendAll [OF assms(1), of 0 cs "getBytes req ''Message''" ids] by fastforce
qed

theorem relay_bounded_witness:
  "let w = demo_world (Pb ''RequestSendMessageToPlayers''
       [(''PlayerIds'', PRep (map PU32 [8, 9, 9, 9, 9, 9, 9, 9])), (''Message'', PBytes [1, 2])])
   in \<exists>ns. snd (handleSendMessageToPlayers w 0 [] demo_service) = sendAll w ns demo_service \<and> length ns \<le> 6"
proof -
  define req where "req = Pb ''RequestSendMessageToPlayers''
    [(''PlayerIds'', PRep (map PU32 [8, 9, 9, 9, 9, 9, 9, 9])), (''Message'', PBytes [1, 2])]"
  have "orders_valid (demo_world req) demo_service" by (rule demo_orders) simp
  moreover have "unmarshal (demo_world req) ''RequestSendMessageToPlayers'' [] = Some req"
    by (simp add: demo_world_def)
  ultimately show ?thesis
    using relay_bounded [of "demo_world req" demo_service "[]" req 0] unfolding Let_def req_def by blast
qed

subsection \<open>Praise\<close>

definition praised :: "u32 \<Rightarrow> BloodMessage list \<Rightarrow> BloodMessage list" where
  "praised mid ms = map (\<lambda>m. if bmID m = unat mid then m\<lparr>bmRating := bmRating m + 1\<rparr> else m) ms"

lemma find_praised:
  "List.find (\<lambda>m. bmID m = unat mid) (praised mid ms) =
     map_option (\<lambda>m. m\<lparr>bmRating := bmRating m + 1\<rparr>) (List.find (\<lambda>m. bmID m = unat mid) ms)"
  by (induction ms) (auto simp: praised_def)

lemma praised_unknown: "List.find (\<lambda>m. bmID m = unat mid) ms = None \<Longrightarrow> praised mid ms = ms"
  by (induction ms) (auto simp: praised_def split: if_splits)

lemma evaluate_steady:
  assumes "dbScript st = []"
  shows "EvaluateBloodMessage mid st =
    (case messageRow st mid of
       None \<Rightarrow> (Inr (0, False), st)
     | Some m \<Rightarrow> (Inr (bmRating m + 1, True), st\<lparr>blood_messages := praised mid (blood_messages st)\<rparr>))"
proof -
  have upd: "st\<lparr>blood_messages := map (\<lambda>m. if bmID m = unat mid then m\<lparr>bmRating := bmRating m + 1\<rparr> else m)
      (blood_messages st)\<rparr> = st\<lparr>blood_messages := praised mid (blood_messages st)\<rparr>"
    by (simp add: praised_def)
  show ?thesis
  proof (cases "messageRow st mid")
    case None
    then have "st\<lparr>blood_messages := praised mid (blood_messages st)\<rparr> = st"
      by (simp add: messageRow_def praised_unknown)
    with None show ?thesis
      unfolding EvaluateBloodMessage_def db_bind_def statement_def assms list.case Let_def upd
      by (simp add: db_return_def)
  next
    case (Some m)
    then show ?thesis
      unfolding EvaluateBloodMessage_def db_bind_def statement_def assms list.case Let_def upd
      by (simp add: assms messageRow_def find_praised)
  qed
qed

text \<open>
  What praising a blood message does when the database answers. An unknown message and a message of
  the praising player are left as they are and nobody is told. Any other message gains exactly one point,
  no other message changes, and one session of its author, if there is one, gets the push with the
  identity of the praising player; nobody else is told.
\<close>

theorem praise_outcome:
  assumes orders: "orders_valid w s" and db: "dbScript (store s) = []"
    and req: "unmarshal w ''RequestEvaluateBloodMessage'' pay = Some req"
    and mid: "getU32 req ''MessageId'' = mid"
    and built: "marshal w (evaluationMsg (heap s cs) mid) = Some body"
  shows "let s' = snd (handleEvaluateBloodMessage w cs pay s) in
    case messageRow (store s) mid of
      None \<Rightarrow> s' = s
    | Some m \<Rightarrow>
        if bmPlayerID m = playerID (heap s cs) then s' = s
        else
          let s1 = s\<lparr>store := (store s)\<lparr>blood_messages := praised mid (blood_messages (store s))\<rparr>\<rparr>
          in if player_online s (bmPlayerID m)
             then \<exists>t. online s t \<and> playerID (heap s t) = bmPlayerID m \<and> s' = sendPush w t body s1
             else s' = s1"
proof (cases "messageRow (store s) mid")
  case None
  then show ?thesis
    by (simp add: handleEvaluateBloodMessage_def parse_def req mid storing_def runStore_def
        GetBloodMessage_def statement_def db evaluate_steady)
next
  case (Some m)
  define s1 where "s1 = s\<lparr>store := (store s)\<lparr>blood_messages := praised mid (blood_messages (store s))\<rparr>\<rparr>"
  have row: "messageRow (store s1) mid = Some (m\<lparr>bmRating := bmRating m + 1\<rparr>)"
    using Some by (simp add: s1_def messageRow_def find_praised)
  have look: "lookupPlayer w 0 p s1 = lookupPlayer w 0 p s" for p
    by (simp add: s1_def lookupPlayer_def sessionForPlayerLocked_def)
  have get: "GetBloodMessage mid (store x) = (Inr (messageRow (store x) mid), store x)"
    if "dbScript (store x) = []" for x
    using that by (simp add: GetBloodMessage_def statement_def)
  show ?thesis
  proof (cases "bmPlayerID m = playerID (heap s cs)")
    case True
    with Some show ?thesis
      by (simp add: handleEvaluateBloodMessage_def parse_def req mid storing_def runStore_def get db)
  next
    case False
    have "handleEvaluateBloodMessage w cs pay s =
        (reply w (Pb ''RequestEvaluateBloodMessageResponse'' []), pushEvaluationToAuthor w cs mid s1)"
      using Some False
      by (simp add: handleEvaluateBloodMessage_def parse_def req mid storing_def runStore_def get db
          evaluate_steady s1_def)
    moreover have "dbScript (store s1) = []" "heap s1 = heap s" using db by (simp_all add: s1_def)
    then have "pushEvaluationToAuthor w cs mid s1 =
        (case lookupPlayer w 0 (bmPlayerID m) s of
           None \<Rightarrow> s1
         | Some t \<Rightarrow> if t = cs then s1 else sendPush w t body s1)"
      using built
      by (simp add: pushEvaluationToAuthor_def runStore_def get row look pushMsg_def split: option.split)
    ultimately show ?thesis
      using Some False lookup_found [OF orders, of 0 "bmPlayerID m"] lookup_missing [OF orders, of 0 "bmPlayerID m"]
      by (cases "lookupPlayer w 0 (bmPlayerID m) s") (auto simp: s1_def)
  qed
qed

definition demo_message_row :: BloodMessage where
  "demo_message_row =
     \<lparr>bmID = 100000, bmPlayerID = 7, bmCharacterID = 1, bmAccountID = ''psn'', bmAreaID = 3, bmCellID = 4,
      bmData = [1], bmRating = 0\<rparr>"

theorem praise_outcome_witness:
  "let w = demo_world (Pb ''RequestEvaluateBloodMessage'' [(''MessageId'', PU32 100000)]);
       s = demo_service\<lparr>store := emptyStore\<lparr>blood_messages := [demo_message_row]\<rparr>\<rparr>
   in \<exists>t st. playerID (heap s t) = 7 \<and> map bmRating (blood_messages st) = [1] \<and>
        snd (handleEvaluateBloodMessage w 1 [] s) = sendPush w t [1] (s\<lparr>store := st\<rparr>)"
proof -
  define req where "req = Pb ''RequestEvaluateBloodMessage'' [(''MessageId'', PU32 100000)]"
  define s where "s = demo_service\<lparr>store := emptyStore\<lparr>blood_messages := [demo_message_row]\<rparr>\<rparr>"
  have same: "sessions s = sessions demo_service" "heap s = heap demo_service" by (simp_all add: s_def)
  have me: "playerID (heap demo_service 1) = 8" "playerID (heap demo_service 0) = 7"
    by (simp_all add: demo_service_def demo_client_def)
  have ov: "orders_valid (demo_world req) s" by (rule demo_orders) (simp add: same)
  have db: "dbScript (store s) = []" and rq: "unmarshal (demo_world req) ''RequestEvaluateBloodMessage'' [] = Some req"
    and mid: "getU32 req ''MessageId'' = 100000"
    and body: "marshal (demo_world req) (evaluationMsg (heap s 1) 100000) = Some [1]"
    by (simp_all add: s_def emptyStore_def demo_world_def req_def pb_simps)
  have row: "messageRow (store s) 100000 = Some demo_message_row"
    by (simp add: s_def messageRow_def demo_message_row_def)
  have "online s 0" using demo_online(1) by (simp add: online_def same)
  then have on: "player_online s 7" unfolding player_online_def same using me by blast
  have "bmPlayerID demo_message_row = 7" by (simp add: demo_message_row_def)
  with praise_outcome [OF ov db rq mid body] row on me obtain t where
    "playerID (heap s t) = 7"
    "snd (handleEvaluateBloodMessage (demo_world req) 1 [] s) = sendPush (demo_world req) t [1]
       (s\<lparr>store := (store s)\<lparr>blood_messages := praised 100000 (blood_messages (store s))\<rparr>\<rparr>)"
    by (auto simp: Let_def same)
  moreover have "map bmRating (praised 100000 (blood_messages (store s))) = [1]"
    by (simp add: s_def praised_def demo_message_row_def)
  ultimately show ?thesis unfolding Let_def s_def [symmetric] req_def [symmetric]
    by (intro exI [of _ t] exI [of _ "(store s)\<lparr>blood_messages := praised 100000 (blood_messages (store s))\<rparr>"])
      simp
qed

subsection \<open>Unset blobs\<close>

text \<open>
  The generated code refuses to encode a message with an unset required field; \<open>Data\<close> is required in
  \<open>GhostData\<close> and in \<open>RequestGetDeadingGhostResponse\<close>.
\<close>

definition refuses_unset_data :: "World \<Rightarrow> bool" where
  "refuses_unset_data w \<longleftrightarrow>
     (\<forall>m. pbName m = ''RequestGetDeadingGhostResponse'' \<and> pbField m ''Data'' = None \<longrightarrow> marshal w m = None) \<and>
     (\<forall>m g. pbName m = ''RequestGetGhostDataListResponse'' \<and> g \<in> set (getMsgs m ''Ghosts'') \<and>
        pbField g ''Data'' = None \<longrightarrow> marshal w m = None)"

lemma pbField_optBytes:
  "f \<notin> fst ` set fs \<Longrightarrow> pbField (Pb n (fs @ optBytes f d)) f = (if d = [] then None else Some (PBytes d))"
proof -
  assume "f \<notin> fst ` set fs"
  then have "map_of fs f = None" by (simp add: map_of_eq_None_iff)
  then show ?thesis by (simp add: optBytes_def map_add_def)
qed

lemma unset_ghost: "pbField (ghostProto g) ''Data'' = None \<longleftrightarrow> ghData g = []"
  unfolding ghostProto_def by (subst pbField_optBytes) auto

lemma unset_deading: "pbField (deadingGhostReply req d) ''Data'' = None \<longleftrightarrow> d = []"
  unfolding deadingGhostReply_def by (subst pbField_optBytes) auto

text \<open>
  Requests that get no answer although the client waits for one. The death replay of an unknown stain
  is an error, not an empty reply. One recording with an empty blob makes every listing that would show
  it an error: whoever asks gets none of the other recordings either.
\<close>

theorem unset_data_unanswered:
  assumes "refuses_unset_data w"
  shows "(unmarshal w ''RequestGetDeadingGhost'' pay = Some req \<and>
      bloodstain_get (bloodstains s) (getU32 req ''BloodstainId'') = None \<longrightarrow>
      handleGetDeadingGhost w cs pay s = (Inl ''marshal'', s)) \<and>
    (unmarshal w ''RequestGetGhostDataList'' pay = Some req \<and> ghData g = [] \<and>
      g \<in> set (ghost_inCells (storeOrd w) (ghosts s) (getU32 req ''OnlineAreaId'') (requestCaps req)
        (playerID (heap s cs)) (uint (getU32 req ''MaxGhosts''))) \<longrightarrow>
      handleGetGhostDataList w cs pay s = (Inl ''marshal'', s))"
proof (rule conjI)
  have "marshal w (deadingGhostReply req []) = None"
    using assms unset_deading [of req "[]"] by (simp add: refuses_unset_data_def deadingGhostReply_def)
  then show "unmarshal w ''RequestGetDeadingGhost'' pay = Some req \<and>
      bloodstain_get (bloodstains s) (getU32 req ''BloodstainId'') = None \<longrightarrow>
      handleGetDeadingGhost w cs pay s = (Inl ''marshal'', s)"
    by (simp add: handleGetDeadingGhost_def parse_def reply_def)
  define found where "found = ghost_inCells (storeOrd w) (ghosts s) (getU32 req ''OnlineAreaId'')
    (requestCaps req) (playerID (heap s cs)) (uint (getU32 req ''MaxGhosts''))"
  define m where "m = Pb ''RequestGetGhostDataListResponse''
    [(''OnlineAreaId'', PU32 (getU32 req ''OnlineAreaId'')), (''Ghosts'', repMsgs (map ghostProto found))]"
  have "marshal w m = None" if "g \<in> set found" "ghData g = []"
  proof -
    have "getMsgs m ''Ghosts'' = map ghostProto found" by (rule getMsgs_repMsgs) (simp add: m_def)
    then have "ghostProto g \<in> set (getMsgs m ''Ghosts'')" using that(1) by simp
    moreover have "pbField (ghostProto g) ''Data'' = None" using that(2) by (simp add: unset_ghost)
    moreover have "pbName m = ''RequestGetGhostDataListResponse''" by (simp add: m_def)
    ultimately show ?thesis using assms unfolding refuses_unset_data_def by blast
  qed
  then show "unmarshal w ''RequestGetGhostDataList'' pay = Some req \<and> ghData g = [] \<and>
      g \<in> set (ghost_inCells (storeOrd w) (ghosts s) (getU32 req ''OnlineAreaId'') (requestCaps req)
        (playerID (heap s cs)) (uint (getU32 req ''MaxGhosts''))) \<longrightarrow>
      handleGetGhostDataList w cs pay s = (Inl ''marshal'', s)"
    unfolding found_def [symmetric]
    by (simp add: handleGetGhostDataList_def parse_def reply_def found_def [symmetric] m_def [symmetric])
qed

theorem unset_data_unanswered_witness:
  "let lib = (\<lambda>m. if pbField m ''Data'' = None \<and> pbName m = ''RequestGetDeadingGhostResponse'' \<or>
                    (\<exists>g \<in> set (getMsgs m ''Ghosts''). pbField g ''Data'' = None) then None else Some [1]);
       w = (demo_world (Pb ''Request'' [(''BloodstainId'', PU32 5)]))\<lparr>marshal := lib\<rparr>
   in handleGetDeadingGhost w 0 [] demo_service = (Inl ''marshal'', demo_service)"
proof -
  define lib :: "pbmsg \<Rightarrow> bytes option" where
    "lib m = (if pbField m ''Data'' = None \<and> pbName m = ''RequestGetDeadingGhostResponse'' \<or>
       (\<exists>g \<in> set (getMsgs m ''Ghosts''). pbField g ''Data'' = None) then None else Some [1])" for m
  define req where "req = Pb ''Request'' [(''BloodstainId'', PU32 5)]"
  let ?w = "(demo_world req)\<lparr>marshal := lib\<rparr>"
  have "refuses_unset_data ?w" by (auto simp: refuses_unset_data_def lib_def)
  moreover have "unmarshal ?w ''RequestGetDeadingGhost'' [] = Some req" by (simp add: demo_world_def)
  moreover have "bloodstain_get (bloodstains demo_service) x = None" for x
    by (simp add: bloodstain_get_def demo_service_def newBloodstainStore_def)
  ultimately have "handleGetDeadingGhost ?w 0 [] demo_service = (Inl ''marshal'', demo_service)"
    using unset_data_unanswered [of ?w "[]" req demo_service 0] by simp
  then show ?thesis unfolding Let_def req_def lib_def by simp
qed

end
