(* ===== verification/Player_Service.thy ===== *)
theory Player_Service
  imports Content_Service
begin

section \<open>Characters, death counter and leaderboard\<close>

text \<open>
  The handlers of internal/server/game/playerdata.go, deathcount.go and ranking.go. Values stored as
  int64 are integers here; the reply fields cut or clamp them as the code does.
\<close>

subsection \<open>Character slots\<close>

text \<open>
  The loop of \<open>lowestFreeCharacterID\<close> counts a uint32 upwards from 1 and would wrap around; it has no
  other exit than a free number. \<open>None\<close> is the loop that never ends.
\<close>

partial_function (option) lowestFreeFrom :: "u32 list \<Rightarrow> u32 \<Rightarrow> u32 option" where
  [code]: "lowestFreeFrom taken i = (if i \<notin> set taken then Some i else lowestFreeFrom taken (i + 1))"

definition lowestFreeCharacterID :: "u32 list \<Rightarrow> u32 option" where
  "lowestFreeCharacterID taken = lowestFreeFrom taken 1"

text \<open>A handler that never returns is shown as an error of its own.\<close>

definition diverges :: result where
  "diverges = Inl ''does not return''"

definition assignCharacter :: "World \<Rightarrow> ptr \<Rightarrow> u32 \<Rightarrow> Service \<Rightarrow> result \<times> Service" where
  "assignCharacter w cs c s =
     (reply w (Pb ''RequestUpdateLoginPlayerCharacterResponse'' [(''CharacterId'', PU32 c)]),
      modify (\<lambda>x. x\<lparr>characterID := c\<rparr>) cs s)"

definition handleUpdateLoginPlayerCharacter :: handler where
  "handleUpdateLoginPlayerCharacter w cs pay s =
     parse w ''RequestUpdateLoginPlayerCharacter'' pay s (\<lambda>req.
       let c = getU32 req ''CharacterId''
       in if c = 0
          then storing (CharacterIDs (playerID (heap s cs))) s (\<lambda>known s1.
                 case lowestFreeCharacterID (known @ getU32s req ''LocalCharacterIds'') of
                   None \<Rightarrow> (diverges, s1)
                 | Some c \<Rightarrow> assignCharacter w cs c s1)
          else assignCharacter w cs c s)"

definition handleUpdatePlayerStatus :: handler where
  "handleUpdatePlayerStatus w cs pay s =
     parse w ''RequestUpdatePlayerStatus'' pay s (\<lambda>req.
       let blob = getBytes req ''Status'';
           s1 = modify (\<lambda>c. c\<lparr>status := blob, profile := applyStatus (unmarshalStatus w) blob (profile c)\<rparr>) cs s;
           c = heap s1 cs
       in if characterID c \<noteq> 0
          then storing (SaveCharacterStatus (playerID c) (characterID c) blob) s1 (\<lambda>_ s2. (noReply, s2))
          else (noReply, s1))"

definition handleUpdatePlayerCharacter :: handler where
  "handleUpdatePlayerCharacter w cs pay s =
     parse w ''RequestUpdatePlayerCharacter'' pay s (\<lambda>req.
       storing (SaveCharacterData (playerID (heap s cs)) (getU32 req ''CharacterId'')
                  (getBytes req ''CharacterData'')) s (\<lambda>_ s1. (noReply, s1)))"

definition characterBlob :: "Character option \<Rightarrow> bytes" where
  "characterBlob c = (case c of None \<Rightarrow> [] | Some c \<Rightarrow> chData c)"

definition handleGetLoginPlayerCharacter :: handler where
  "handleGetLoginPlayerCharacter w cs pay s =
     parse w ''RequestGetLoginPlayerCharacter'' pay s (\<lambda>req.
       let targetID = ucast (getI64 req ''PlayerId''); c = characterID (heap s cs)
       in storing (GetCharacter targetID c) s (\<lambda>ch s1.
            (reply w (Pb ''RequestGetLoginPlayerCharacterResponse''
               [(''PlayerId'', PI64 (getI64 req ''PlayerId'')), (''CharacterId'', PU32 c),
                (''CharacterData'', PBytes (characterBlob ch))]), s1)))"

definition handleGetPlayerCharacter :: handler where
  "handleGetPlayerCharacter w cs pay s =
     parse w ''RequestGetPlayerCharacter'' pay s (\<lambda>req.
       let p = getU32 req ''PlayerId''; asked = getU32 req ''CharacterId'';
           serve = (\<lambda>c s1.
             storing (GetCharacter p c) s1 (\<lambda>ch s2.
               (reply w (Pb ''RequestGetPlayerCharacterResponse''
                  [(''PlayerId'', PU32 p), (''CharacterId'', PU32 asked),
                   (''CharacterData'', PBytes (characterBlob ch))]), s2)))
       in if p \<noteq> playerID (heap s cs)
          then storing (CharacterIDs p) s (\<lambda>ids s1.
                 serve (case ids of [] \<Rightarrow> asked | c # _ \<Rightarrow> c) s1)
          else serve asked s)"

definition handleGetPlayerCharacterList :: handler where
  "handleGetPlayerCharacterList w cs pay s =
     parse w ''RequestGetPlayerCharacterList'' pay s (\<lambda>req.
       (reply w (Pb ''RequestGetPlayerCharacterListResponse'' []), s))"


subsection \<open>The death counter\<close>

definition counterTotalDeaths :: string where "counterTotalDeaths = ''player.total_deaths''"
definition maxOfflineDeathBatch :: int where "maxOfflineDeathBatch = 10000"
definition MaxUint32 :: int where "MaxUint32 = 2 ^ 32 - 1"

definition handleNotifyDeath :: handler where
  "handleNotifyDeath w cs pay s =
     parse w ''RequestNotifyDeath'' pay s (\<lambda>req.
       storing (AddCounter counterTotalDeaths 1) s (\<lambda>_ s1. (noReply, s1)))"

definition handleNotifyOfflineDeathCount :: handler where
  "handleNotifyOfflineDeathCount w cs pay s =
     parse w ''RequestNotifyOfflineDeathCount'' pay s (\<lambda>req.
       let n = sint (getI64 req ''Count'')
       in if n \<le> 0 then (noReply, s)
          else
            let n' = (if maxOfflineDeathBatch < n then maxOfflineDeathBatch else n)
            in storing (AddCounter counterTotalDeaths n') s (\<lambda>_ s1. (noReply, s1)))"

definition handleNotifyKillPlayer :: handler where
  "handleNotifyKillPlayer w cs pay s =
     parse w ''RequestNotifyKillPlayer'' pay s (\<lambda>req. (noReply, s))"

definition handleGetTotalDeathCount :: handler where
  "handleGetTotalDeathCount w cs pay s =
     storing (Counter counterTotalDeaths) s (\<lambda>total s1.
       let t1 = (if total < 0 then 0 else total);
           t2 = (if MaxUint32 < t1 then MaxUint32 else t1)
       in (reply w (Pb ''RequestGetTotalDeathCountResponse'' [(''TotalDeathCount'', PU32 (word_of_int t2))]), s1))"


subsection \<open>The leaderboard\<close>

definition maxScoreIncrement :: int where "maxScoreIncrement = 1000000"
definition maxRankingPage :: u32 where "maxRankingPage = 100"
definition powerStoneBlobLen :: nat where "powerStoneBlobLen = 56"

definition clampScore :: "int \<Rightarrow> u32" where
  "clampScore v = (if v < 0 then 0 else if MaxUint32 < v then word_of_int MaxUint32 else word_of_int v)"

definition rankingToProto :: "PowerStoneRanking \<Rightarrow> pbmsg" where
  "rankingToProto r =
     Pb ''PowerStoneRankingData''
       [(''PlayerId'', PU32 (psPlayerID r)), (''CharacterId'', PU32 (psCharacterID r)),
        (''SerialRank'', PU32 (of_nat (psSerialRank r))), (''Rank'', PU32 (of_nat (psRank r))),
        (''Score'', PU32 (clampScore (psScore r))), (''Data'', PBytes (psData r))]"

definition handleRegisterPowerStoneData :: handler where
  "handleRegisterPowerStoneData w cs pay s =
     parse w ''RequestRegisterPowerStoneData'' pay s (\<lambda>req.
       let inc = uint (getU32 req ''Increment'');
           ok = reply w (Pb ''RequestRegisterPowerStoneDataResponse'' [])
       in if inc < 0 \<or> maxScoreIncrement < inc then (ok, s)
          else
            storing (AddPowerStoneScore (playerID (heap s cs)) (getU32 req ''CharacterId'') inc
                       (getBytes req ''Data'')) s (\<lambda>_ s1. (ok, s1)))"

definition handleGetPowerStoneRanking :: handler where
  "handleGetPowerStoneRanking w cs pay s =
     parse w ''RequestGetPowerStoneRanking'' pay s (\<lambda>req.
       let n = getU32 req ''Count''; n' = (if n = 0 \<or> maxRankingPage < n then maxRankingPage else n)
       in storing (PowerStoneRankings (getU32 req ''Offset'') n') s (\<lambda>rows s1.
            (reply w (Pb ''RequestGetPowerStoneRankingResponse'' [(''Data'', repMsgs (map rankingToProto rows))]),
             s1)))"

definition unrankedRow :: "u32 \<Rightarrow> u32 \<Rightarrow> pbmsg" where
  "unrankedRow p c =
     Pb ''PowerStoneRankingData''
       [(''PlayerId'', PU32 p), (''CharacterId'', PU32 c), (''SerialRank'', PU32 0), (''Rank'', PU32 0),
        (''Score'', PU32 0), (''Data'', PBytes (replicate powerStoneBlobLen 0))]"

definition handleGetPowerStoneMyRanking :: handler where
  "handleGetPowerStoneMyRanking w cs pay s =
     parse w ''RequestGetPowerStoneMyRanking'' pay s (\<lambda>req.
       let p = playerID (heap s cs); c = getU32 req ''CharacterId''
       in storing (PowerStoneRankingFor p c) s (\<lambda>r s1.
            (reply w (Pb ''RequestGetPowerStoneMyRankingResponse''
               [(''Data'', PMsg (case r of None \<Rightarrow> unrankedRow p c | Some r \<Rightarrow> rankingToProto r))]), s1)))"

definition handleGetPowerStoneRankingRecordCount :: handler where
  "handleGetPowerStoneRankingRecordCount w cs pay s =
     parse w ''RequestGetPowerStoneRankingRecordCount'' pay s (\<lambda>req.
       storing PowerStoneRankingCount s (\<lambda>n s1.
         (reply w (Pb ''RequestGetPowerStoneRankingRecordCountResponse'' [(''Count'', PU32 n)]), s1)))"


subsection \<open>What these handlers leave alone\<close>

lemma frame_assign [frame_intros]: "frame cs s s' \<Longrightarrow> frame cs s (snd (assignCharacter w cs c s'))"
  by (auto simp: assignCharacter_def intro!: frame_intros)

lemma player_frames:
  "frame cs s (snd (handleUpdateLoginPlayerCharacter w cs pay s))"
  "frame cs s (snd (handleUpdatePlayerStatus w cs pay s))"
  "frame cs s (snd (handleUpdatePlayerCharacter w cs pay s))"
  "frame cs s (snd (handleGetLoginPlayerCharacter w cs pay s))"
  "frame cs s (snd (handleGetPlayerCharacter w cs pay s))"
  "frame cs s (snd (handleGetPlayerCharacterList w cs pay s))"
  unfolding handleUpdateLoginPlayerCharacter_def handleUpdatePlayerStatus_def
    handleUpdatePlayerCharacter_def handleGetLoginPlayerCharacter_def handleGetPlayerCharacter_def
    handleGetPlayerCharacterList_def Let_def
  by (auto intro!: frame_intros split: option.split)

lemma record_frames:
  "frame cs s (snd (handleNotifyDeath w cs pay s))"
  "frame cs s (snd (handleNotifyOfflineDeathCount w cs pay s))"
  "frame cs s (snd (handleNotifyKillPlayer w cs pay s))"
  "frame cs s (snd (handleGetTotalDeathCount w cs pay s))"
  "frame cs s (snd (handleRegisterPowerStoneData w cs pay s))"
  "frame cs s (snd (handleGetPowerStoneRanking w cs pay s))"
  "frame cs s (snd (handleGetPowerStoneMyRanking w cs pay s))"
  "frame cs s (snd (handleGetPowerStoneRankingRecordCount w cs pay s))"
  unfolding handleNotifyDeath_def handleNotifyOfflineDeathCount_def handleNotifyKillPlayer_def
    handleGetTotalDeathCount_def handleRegisterPowerStoneData_def handleGetPowerStoneRanking_def
    handleGetPowerStoneMyRanking_def handleGetPowerStoneRankingRecordCount_def Let_def
  by (auto intro!: frame_intros)


subsection \<open>A free slot is found\<close>

lemma lowestFreeFrom_least:
  assumes "of_nat n \<notin> set taken" "\<And>k. i \<le> k \<Longrightarrow> k < n \<Longrightarrow> of_nat k \<in> set taken" "i \<le> n"
  shows "lowestFreeFrom taken (of_nat i) = Some (of_nat n)"
  using assms
proof (induction "n - i" arbitrary: i)
  case 0
  then show ?case by (subst lowestFreeFrom.simps) simp
next
  case (Suc d)
  then have "lowestFreeFrom taken (of_nat (Suc i)) = Some (of_nat n)" by (intro Suc.hyps) auto
  moreover have "of_nat i \<in> set taken" using Suc by auto
  ultimately show ?case by (subst lowestFreeFrom.simps) (simp add: add.commute)
qed

lemma unat_of_nat_small: "n < 2 ^ 32 \<Longrightarrow> unat (of_nat n :: u32) = n"
  by (simp add: unat_of_nat)

lemma free_number_exists:
  fixes taken :: "u32 list"
  assumes "length taken < 2 ^ 32 - 1"
  shows "\<exists>n. 1 \<le> n \<and> n \<le> Suc (length taken) \<and> of_nat n \<notin> set taken"
proof (rule ccontr)
  assume "\<nexists>n. 1 \<le> n \<and> n \<le> Suc (length taken) \<and> of_nat n \<notin> set taken"
  then have sub: "of_nat ` {1..Suc (length taken)} \<subseteq> set taken" by auto
  have inj: "inj_on (of_nat :: nat \<Rightarrow> u32) {1..Suc (length taken)}"
  proof (rule inj_onI)
    fix a b :: nat
    assume ab: "a \<in> {1..Suc (length taken)}" "b \<in> {1..Suc (length taken)}" "(of_nat a :: u32) = of_nat b"
    have "unat (of_nat a :: u32) = a" "unat (of_nat b :: u32) = b"
      by (rule unat_of_nat_small, use ab(1,2) assms in simp)+
    with ab(3) show "a = b" by metis
  qed
  have "Suc (length taken) = card (of_nat ` {1..Suc (length taken)} :: u32 set)"
    using card_image [OF inj] by simp
  also have "\<dots> \<le> card (set taken)" using sub by (intro card_mono) auto
  also have "\<dots> \<le> length taken" by (rule card_length)
  finally show False by simp
qed

text \<open>
  C30: allocating a character slot ends, with the lowest positive number that is not taken. The loop has no
  bound of its own; it ends because fewer than all the numbers can be taken, after at most one step more
  than there are taken ones.
\<close>

theorem lowest_free_character:
  assumes "length taken < 2 ^ 32 - 1"
  shows "\<exists>c. lowestFreeCharacterID taken = Some c \<and> 0 < c \<and> c \<notin> set taken \<and>
    (\<forall>d. 0 < d \<and> d < c \<longrightarrow> d \<in> set taken) \<and> unat c \<le> Suc (length taken)"
proof -
  let ?free = "\<lambda>n. 1 \<le> n \<and> (of_nat n :: u32) \<notin> set taken"
  obtain m where m: "?free m" "m \<le> Suc (length taken)" using free_number_exists [OF assms] by blast
  define n where "n = (LEAST n. ?free n)"
  have n: "?free n" "n \<le> m" unfolding n_def using m(1) by (rule LeastI, rule Least_le)
  have least: "of_nat k \<in> set taken" if "1 \<le> k" "k < n" for k
    using that not_less_Least [of k ?free] by (auto simp: n_def)
  have small: "n < 2 ^ 32" using n(2) m(2) assms by simp
  then have u: "unat (of_nat n :: u32) = n" by (rule unat_of_nat_small)
  have "lowestFreeFrom taken (of_nat 1) = Some (of_nat n)"
    using n(1) least by (intro lowestFreeFrom_least) auto
  moreover have "d \<in> set taken" if "0 < d" "d < of_nat n" for d :: u32
  proof -
    have "unat d < n" using that(2) u by (simp add: word_less_nat_alt)
    moreover have "1 \<le> unat d" using that(1) by (simp add: word_less_nat_alt Suc_leI)
    ultimately show ?thesis using least [of "unat d"] by simp
  qed
  ultimately show ?thesis
    using n m(2) u by (intro exI [of _ "of_nat n"]) (auto simp: lowestFreeCharacterID_def word_less_nat_alt)
qed

theorem lowest_free_character_witness: "lowestFreeCharacterID [2, 1, 4] = Some 3"
proof -
  obtain c where c: "lowestFreeCharacterID [2, 1, 4] = Some c" "0 < c" "c \<notin> set [2, 1, 4]"
    "\<forall>d. 0 < d \<and> d < c \<longrightarrow> d \<in> set [2, 1, 4]" "unat c \<le> 4"
    using lowest_free_character [of "[2, 1, 4]"] by auto
  have "\<not> 3 < c" using c(4) [rule_format, of 3] by auto
  then have "unat c \<le> 3" by (simp add: word_less_nat_alt)
  then have "unat c = 0 \<or> unat c = 1 \<or> unat c = 2 \<or> unat c = 3" by linarith
  then have "c = 0 \<or> c = 1 \<or> c = 2 \<or> c = 3" by (auto simp: word_unat_eq_iff)
  with c show ?thesis by auto
qed

end
