(* ===== verification/Sign_Service.thy ===== *)
theory Sign_Service
  imports Game_State
begin

section \<open>Summon signs\<close>

text \<open>
  The handlers of internal/server/game/sign.go and mirrorknight.go. The two files have the same broker
  over two stores, with messages of different names; the parts they share take the board as an argument.
  \<open>int64(x)\<close> of a 32-bit number is a zero extension and \<open>uint32(x)\<close> of an int64 a truncation.
\<close>

datatype board = Ordinary | MirrorKnight

fun boardStore :: "board \<Rightarrow> Service \<Rightarrow> signStore" where
  "boardStore Ordinary s = signs s"
| "boardStore MirrorKnight s = mirrorKnight s"

fun setBoard :: "board \<Rightarrow> signStore \<Rightarrow> Service \<Rightarrow> Service" where
  "setBoard Ordinary st s = s\<lparr>signs := st\<rparr>"
| "setBoard MirrorKnight st s = s\<lparr>mirrorKnight := st\<rparr>"

fun boardMsg :: "board \<Rightarrow> string \<Rightarrow> string" where
  "boardMsg Ordinary what = what @ ''Sign''"
| "boardMsg MirrorKnight what = what @ ''MirrorKnightSign''"

fun pushSummonID :: "board \<Rightarrow> int" where
  "pushSummonID Ordinary = 923"
| "pushSummonID MirrorKnight = 933"

fun pushRejectID :: "board \<Rightarrow> int" where
  "pushRejectID Ordinary = 924"
| "pushRejectID MirrorKnight = 934"

fun pushRemoveID :: "board \<Rightarrow> int" where
  "pushRemoveID Ordinary = 925"
| "pushRemoveID MirrorKnight = 935"

definition SignAlreadyUsed :: int where "SignAlreadyUsed = 1"
definition SignHasDisappeared :: int where "SignHasDisappeared = 2"

definition signInfo :: "u32 \<Rightarrow> u32 \<Rightarrow> pbmsg" where
  "signInfo owner sid = Pb ''SignInfo'' [(''PlayerId'', PU32 owner), (''SignId'', PU32 sid)]"

definition toProto :: "sign \<Rightarrow> pbmsg" where
  "toProto sg =
     Pb ''SignData''
       ([(''SignInfo'', PMsg (signInfo (sgOwnerID sg) (sgID sg))),
         (''OnlineAreaId'', PI64 (ucast (sgAreaID sg)))] @
        optMsg ''MatchingParameter'' (sgMatching sg) @
        optBytes ''PlayerStruct'' (sgPlayer sg) @
        [(''PlayerPsnId'', PStr (sgPsnID sg)),
         (''CellId'', PI64 (ucast (sgCellID sg))),
         (''SignType'', PEnum (sint (sgSignType sg)))])"

definition toMirrorKnightProto :: "sign \<Rightarrow> pbmsg" where
  "toMirrorKnightProto sg =
     Pb ''SignData''
       ([(''SignInfo'', PMsg (signInfo (sgOwnerID sg) (sgID sg))),
         (''OnlineAreaId'', PI64 0)] @
        optMsg ''MatchingParameter'' (sgMatching sg) @
        optBytes ''PlayerStruct'' (sgPlayer sg) @
        [(''PlayerPsnId'', PStr (sgPsnID sg)),
         (''CellId'', PI64 0),
         (''SignType'', PEnum (sint (sgSignType sg)))])"


subsection \<open>Creating, refreshing and removing\<close>

definition handleCreateSign :: handler where
  "handleCreateSign w cs pay s =
     parse w ''RequestCreateSign'' pay s (\<lambda>req.
       let c = heap s cs;
           sg = \<lparr>sgID = 0, sgOwnerID = playerID c, sgOwner = cs, sgAreaID = getU32 req ''OnlineAreaId'',
                 sgCellID = getU32 req ''CellId'', sgSignType = getU32 req ''SignType'',
                 sgMatching = getMsg req ''MatchingParameter'', sgPlayer = getBytes req ''PlayerStruct'',
                 sgPsnID = accountID c, sgSummonedBy = 0, sgAwareOf = {}\<rparr>;
           (sid, st) = sign_add (signs s) sg
       in (reply w (Pb ''RequestCreateSignResponse'' [(''SignId'', PU32 sid)]), s\<lparr>signs := st\<rparr>))"

definition handleCreateMirrorKnightSign :: handler where
  "handleCreateMirrorKnightSign w cs pay s =
     parse w ''RequestCreateMirrorKnightSign'' pay s (\<lambda>req.
       let c = heap s cs;
           sg = \<lparr>sgID = 0, sgOwnerID = playerID c, sgOwner = cs, sgAreaID = 0, sgCellID = 0,
                 sgSignType = 0, sgMatching = getMsg req ''MatchingParameter'',
                 sgPlayer = getBytes req ''Data'', sgPsnID = accountID c, sgSummonedBy = 0,
                 sgAwareOf = {}\<rparr>;
           (sid, st) = sign_add (mirrorKnight s) sg
       in (reply w (Pb ''RequestCreateMirrorKnightSignResponse'' [(''SignId'', PI64 (ucast sid))]),
           s\<lparr>mirrorKnight := st\<rparr>))"

definition handleUpdateSign :: handler where
  "handleUpdateSign w cs pay s =
     parse w ''RequestUpdateSign'' pay s (\<lambda>req. (reply w (Pb ''RequestUpdateSignResponse'' []), s))"

definition handleUpdateMirrorKnightSign :: handler where
  "handleUpdateMirrorKnightSign w cs pay s =
     parse w ''RequestUpdateMirrorKnightSign'' pay s (\<lambda>req.
       (reply w (Pb ''RequestUpdateMirrorKnightSignResponse'' []), s))"

text \<open>
  \<open>pushSignRemoved\<close> and \<open>pushMirrorKnightSignRemoved\<close>: one push per aware player who is online, the
  owner excepted. The loop ranges over the set of aware players in the order \<open>awareOrd\<close>.
\<close>

definition removedMsg :: "board \<Rightarrow> sign \<Rightarrow> pbmsg" where
  "removedMsg b sg =
     Pb (boardMsg b ''PushRequestRemove'')
       [(''PushMessageId'', PEnum (pushRemoveID b)), (''PlayerId'', PI64 (ucast (sgOwnerID sg))),
        (''SignId'', PI64 (ucast (sgID sg))), (''PlayerPsnId'', PStr (sgPsnID sg))]"

fun pushToAware :: "World \<Rightarrow> nat \<Rightarrow> u32 \<Rightarrow> bytes \<Rightarrow> u32 list \<Rightarrow> Service \<Rightarrow> Service" where
  "pushToAware w i owner body [] s = s"
| "pushToAware w i owner body (p # ps) s =
     (if p = owner then pushToAware w i owner body ps s
      else
        case lookupPlayer w i p s of
          None \<Rightarrow> pushToAware w i owner body ps s
        | Some target \<Rightarrow> pushToAware w i owner body ps (sendPush w target body s))"

definition pushRemoved :: "board \<Rightarrow> World \<Rightarrow> nat \<Rightarrow> sign \<Rightarrow> Service \<Rightarrow> Service" where
  "pushRemoved b w i sg s =
     (case marshal w (removedMsg b sg) of
        None \<Rightarrow> s
      | Some body \<Rightarrow>
          pushToAware w i (sgOwnerID sg) body (filter (\<lambda>p. p \<in> sgAwareOf sg) (awareOrd w (sgID sg))) s)"

definition removeSign :: "board \<Rightarrow> World \<Rightarrow> u32 \<Rightarrow> Service \<Rightarrow> Service" where
  "removeSign b w sid s =
     (case sign_remove (boardStore b s) sid of
        (None, _) \<Rightarrow> s
      | (Some sg, st) \<Rightarrow> pushRemoved b w 0 sg (setBoard b st s))"

definition handleRemoveSign :: handler where
  "handleRemoveSign w cs pay s =
     parse w ''RequestRemoveSign'' pay s (\<lambda>req.
       (reply w (Pb ''RequestRemoveSignResponse'' []), removeSign Ordinary w (getU32 req ''SignId'') s))"

definition handleRemoveMirrorKnightSign :: handler where
  "handleRemoveMirrorKnightSign w cs pay s =
     parse w ''RequestRemoveMirrorKnightSign'' pay s (\<lambda>req.
       (reply w (Pb ''RequestRemoveMirrorKnightSignResponse'' []),
        removeSign MirrorKnight w (ucast (getI64 req ''SignId'')) s))"


subsection \<open>Listing\<close>

text \<open>The cells asked about and the signs the client holds already.\<close>

definition askedCells :: "pbmsg \<Rightarrow> u32 set" where
  "askedCells req = (\<lambda>a. getU32 a ''CellId'') ` set (getMsgs req ''SearchAreas'')"

definition knownSigns :: "pbmsg \<Rightarrow> u32 set" where
  "knownSigns req =
     (\<Union>a \<in> set (getMsgs req ''SearchAreas''). (\<lambda>si. getU32 si ''SignId'') ` set (getMsgs a ''LocalSigns''))"

definition markAll :: "u32 \<Rightarrow> sign list \<Rightarrow> signStore \<Rightarrow> signStore" where
  "markAll viewer found st = foldl (\<lambda>st sg. markAware st (sgID sg) viewer) st found"

definition handleGetSignList :: handler where
  "handleGetSignList w cs pay s =
     parse w ''RequestGetSignList'' pay s (\<lambda>req.
       let s1 = modify (\<lambda>c. c\<lparr>areaID := getU32 req ''OnlineAreaId''\<rparr>) cs s;
           me = playerID (heap s1 cs);
           known = knownSigns req;
           found = sign_inCells (storeOrd w) (signs s1) (getU32 req ''OnlineAreaId'') (askedCells req) me
                     (uint (getU32 req ''MaxSigns''));
           infos = map (\<lambda>sg. signInfo (sgOwnerID sg) (sgID sg)) (filter (\<lambda>sg. sgID sg \<in> known) found);
           datas = map toProto (filter (\<lambda>sg. sgID sg \<notin> known) found)
       in (reply w (Pb ''RequestGetSignListResponse''
             [(''SignInfo'', repMsgs infos), (''SignData'', repMsgs datas)]),
           s1\<lparr>signs := markAll me found (signs s1)\<rparr>))"

definition handleGetMirrorKnightSignList :: handler where
  "handleGetMirrorKnightSignList w cs pay s =
     parse w ''RequestGetMirrorKnightSignList'' pay s (\<lambda>req.
       let me = playerID (heap s cs);
           found = sign_all (storeOrd w) (mirrorKnight s) me (sint (getI64 req ''MaxSigns''))
       in (reply w (Pb ''RequestGetMirrorKnightSignListResponse''
             [(''SignData'', repMsgs (map toMirrorKnightProto found))]),
           s\<lparr>mirrorKnight := markAll me found (mirrorKnight s)\<rparr>))"


subsection \<open>Summoning and rejecting\<close>

definition rejectMsg :: "board \<Rightarrow> u32 \<Rightarrow> u32 \<Rightarrow> int \<Rightarrow> string \<Rightarrow> pbmsg" where
  "rejectMsg b ownerID sid reason psn =
     Pb (boardMsg b ''PushRequestReject'')
       [(''PushMessageId'', PEnum (pushRejectID b)), (''SignInfo'', PMsg (signInfo ownerID sid)),
        (''Error'', PEnum reason), (''PlayerPsnId'', PStr psn)]"

definition pushRejectTo :: "board \<Rightarrow> World \<Rightarrow> ptr \<Rightarrow> u32 \<Rightarrow> u32 \<Rightarrow> int \<Rightarrow> Service \<Rightarrow> Service" where
  "pushRejectTo b w target ownerID sid reason s =
     pushMsg w target (rejectMsg b ownerID sid reason (accountID (heap s target))) s"

definition summonMsg :: "board \<Rightarrow> clientSession \<Rightarrow> u32 \<Rightarrow> pbmsg \<Rightarrow> pbmsg" where
  "summonMsg b c sid req =
     Pb (boardMsg b ''PushRequestSummon'')
       ([(''PushMessageId'', PEnum (pushSummonID b)), (''PlayerId'', PI64 (ucast (playerID c))),
         (''SignId'', PI64 (ucast sid))] @
        rawBytes ''PlayerStruct'' req ''PlayerStruct'' @
        [(''PlayerPsnId'', PStr (accountID c))])"

definition summonSign :: "board \<Rightarrow> handler" where
  "summonSign b w cs pay s =
     parse w (boardMsg b ''RequestSummon'') pay s (\<lambda>req.
       let c = heap s cs;
           sid = nilU32 (getMsg req ''SignInfo'') ''SignId'';
           ok = reply w (Pb (boardMsg b ''RequestSummon'' @ ''Response'') []);
           ((sg, claimed), st) = claim (boardStore b s) sid (playerID c)
       in case sg of
            None \<Rightarrow> (ok, pushRejectTo b w cs 0 sid SignHasDisappeared s)
          | Some sg \<Rightarrow>
              if \<not> claimed then (ok, pushRejectTo b w cs (sgOwnerID sg) sid SignAlreadyUsed s)
              else
                let s1 = setBoard b st s
                in case lookupPlayer w 0 (sgOwnerID sg) s1 of
                     None \<Rightarrow>
                       (ok, pushRejectTo b w cs (sgOwnerID sg) sid SignHasDisappeared
                              (setBoard b (release st sid) s1))
                   | Some host \<Rightarrow>
                       (case marshal w (summonMsg b c sid req) of
                          None \<Rightarrow> (Inl (''build '' @ boardMsg b ''PushRequestSummon''), s1)
                        | Some body \<Rightarrow> (ok, sendPush w host body s1)))"

definition handleSummonSign :: handler where
  "handleSummonSign = summonSign Ordinary"

definition handleSummonMirrorKnightSign :: handler where
  "handleSummonMirrorKnightSign = summonSign MirrorKnight"

definition rejectSign :: "board \<Rightarrow> handler" where
  "rejectSign b w cs pay s =
     parse w (boardMsg b ''RequestReject'') pay s (\<lambda>req.
       let sid = ucast (getI64 req ''SignId'');
           ok = reply w (Pb (boardMsg b ''RequestReject'' @ ''Response'') [])
       in case sign_get (boardStore b s) sid of
            None \<Rightarrow> (ok, s)
          | Some sg \<Rightarrow>
              let summoner = sgSummonedBy sg;
                  s1 = setBoard b (release (boardStore b s) sid) s
              in if summoner = 0 then (ok, s1)
                 else
                   case lookupPlayer w 0 summoner s1 of
                     None \<Rightarrow> (ok, s1)
                   | Some target \<Rightarrow>
                       (ok, pushRejectTo b w target (sgOwnerID sg) sid (getEnum 0 req ''Error'') s1))"

definition handleRejectSign :: handler where
  "handleRejectSign = rejectSign Ordinary"

definition handleRejectMirrorKnightSign :: handler where
  "handleRejectMirrorKnightSign = rejectSign MirrorKnight"

definition handleNotifyMirrorKnight :: handler where
  "handleNotifyMirrorKnight w cs pay s =
     parse w ''RequestNotifyMirrorKnight'' pay s (\<lambda>req. (noReply, s))"


subsection \<open>Departing hosts\<close>

fun pushAllRemoved :: "board \<Rightarrow> World \<Rightarrow> nat \<Rightarrow> sign list \<Rightarrow> Service \<Rightarrow> Service" where
  "pushAllRemoved b w i [] s = s"
| "pushAllRemoved b w i (sg # sgs) s = pushAllRemoved b w (Suc i) sgs (pushRemoved b w i sg s)"

definition dropBoard :: "board \<Rightarrow> u32 list \<Rightarrow> World \<Rightarrow> u32 \<Rightarrow> Service \<Rightarrow> Service" where
  "dropBoard b ord w p s =
     (let (gone, st) = removeOwnedBy ord (boardStore b s) p
      in pushAllRemoved b w 0 gone (setBoard b st s))"

definition dropSignsForPlayer :: "u32 list \<Rightarrow> World \<Rightarrow> u32 \<Rightarrow> Service \<Rightarrow> Service" where
  "dropSignsForPlayer = dropBoard Ordinary"

definition dropMirrorKnightSignsForPlayer :: "u32 list \<Rightarrow> World \<Rightarrow> u32 \<Rightarrow> Service \<Rightarrow> Service" where
  "dropMirrorKnightSignsForPlayer = dropBoard MirrorKnight"

subsection \<open>Whom the broker tells\<close>

lemma setBoard_simps [simp]:
  "heap (setBoard b st s) = heap s" "sessions (setBoard b st s) = sessions s"
  "boardStore b (setBoard b st s) = st" "setBoard b st (setBoard b st' s) = setBoard b st s"
  "store (setBoard b st s) = store s" "quickMatchs (setBoard b st s) = quickMatchs s"
  by (cases b; simp)+

lemma lookup_setBoard [simp]: "lookupPlayer w i p (setBoard b st s) = lookupPlayer w i p s"
  by (simp add: lookupPlayer_def sessionForPlayerLocked_def)

lemma frame_setBoard [frame_intros]: "frame cs s s' \<Longrightarrow> frame cs s (setBoard b st s')"
  by (cases b) (simp_all add: frame_stores)

text \<open>The sessions that are told about the removal of an object a set of players is aware of.\<close>

fun audience :: "World \<Rightarrow> nat \<Rightarrow> u32 \<Rightarrow> u32 list \<Rightarrow> Service \<Rightarrow> ptr list" where
  "audience w i owner [] s = []"
| "audience w i owner (p # ps) s =
     (if p = owner then audience w i owner ps s
      else
        case lookupPlayer w i p s of
          None \<Rightarrow> audience w i owner ps s
        | Some t \<Rightarrow> t # audience w i owner ps s)"

lemma audience_sendPush [simp]: "audience w i owner ps (sendPush w' t body s) = audience w i owner ps s"
  by (induction ps) (simp_all split: option.split)

lemma audience_setBoard [simp]: "audience w i owner ps (setBoard b st s) = audience w i owner ps s"
  by (induction ps) (simp_all split: option.split)

lemma audience_sendAll [simp]: "audience w i owner ps (sendAll w' ns s) = audience w i owner ps s"
  by (induction ps) (simp_all split: option.split)

lemma pushToAware_audience:
  "pushToAware w i owner body ps s = sendAll w (map (\<lambda>t. (t, body)) (audience w i owner ps s)) s"
  by (induction ps arbitrary: s) (simp_all split: option.split)

lemma audience_complete:
  assumes "orders_valid w s" "p \<in> set ps" "p \<noteq> owner" "player_online s p"
  shows "\<exists>t\<in>set (audience w i owner ps s). online s t \<and> playerID (heap s t) = p"
proof -
  obtain t where t: "lookupPlayer w i p s = Some t"
    using assms lookup_missing by blast
  have "t \<in> set (audience w i owner ps s)"
    using assms(2,3) t by (induction ps) (auto split: option.split)
  with lookup_found [OF assms(1) t] show ?thesis by blast
qed

lemma pushToAware_frame [frame_intros]:
  "frame cs s s' \<Longrightarrow> frame cs s (pushToAware w i owner body ps s')"
  by (induction ps arbitrary: s') (auto simp: frame_sendPush split: option.split)

lemma pushRemoved_frame [frame_intros]: "frame cs s s' \<Longrightarrow> frame cs s (pushRemoved b w i sg s')"
  by (simp add: pushRemoved_def pushToAware_frame split: option.split)

lemma removeSign_frame [frame_intros]: "frame cs s s' \<Longrightarrow> frame cs s (removeSign b w sid s')"
  by (auto simp: removeSign_def intro!: frame_intros split: option.split prod.split)

lemma sign_frames:
  "frame cs s (snd (handleCreateSign w cs pay s))"
  "frame cs s (snd (handleCreateMirrorKnightSign w cs pay s))"
  "frame cs s (snd (handleUpdateSign w cs pay s))"
  "frame cs s (snd (handleUpdateMirrorKnightSign w cs pay s))"
  "frame cs s (snd (handleRemoveSign w cs pay s))"
  "frame cs s (snd (handleRemoveMirrorKnightSign w cs pay s))"
  "frame cs s (snd (handleGetSignList w cs pay s))"
  "frame cs s (snd (handleGetMirrorKnightSignList w cs pay s))"
  "frame cs s (snd (handleNotifyMirrorKnight w cs pay s))"
  "frame cs s (snd (summonSign b w cs pay s))" "frame cs s (snd (rejectSign b w cs pay s))"
  unfolding handleCreateSign_def handleCreateMirrorKnightSign_def handleUpdateSign_def
    handleUpdateMirrorKnightSign_def handleRemoveSign_def handleRemoveMirrorKnightSign_def
    handleGetSignList_def handleGetMirrorKnightSignList_def handleNotifyMirrorKnight_def
    summonSign_def rejectSign_def pushRejectTo_def Let_def
  by (auto intro!: frame_intros split: option.split prod.split)

text \<open>
  C12: what a summoner brings about, on every branch. If the sign is gone, or held by another player, only
  the summoner is told and nothing is recorded. If the host has no session the summoner is told and the
  claim is given up again. Otherwise the claim is recorded and one session of the host gets the summons,
  which carries the summoner's player id; nobody else's queue changes. The same holds for Mirror Knight
  signs.
\<close>

theorem summon_outcome:
  assumes orders: "orders_valid w s"
    and req: "unmarshal w (boardMsg b ''RequestSummon'') pay = Some req"
    and sid: "nilU32 (getMsg req ''SignInfo'') ''SignId'' = sid"
    and built: "marshal w (summonMsg b (heap s cs) sid req) = Some body"
  shows "let s' = snd (summonSign b w cs pay s); me = playerID (heap s cs); st = boardStore b s in
    case ssByID st sid of
      None \<Rightarrow> s' = pushRejectTo b w cs 0 sid SignHasDisappeared s
    | Some sg \<Rightarrow>
        if sgSummonedBy sg \<noteq> 0 \<and> sgSummonedBy sg \<noteq> me
        then s' = pushRejectTo b w cs (sgOwnerID sg) sid SignAlreadyUsed s
        else if \<not> player_online s (sgOwnerID sg)
        then s' = pushRejectTo b w cs (sgOwnerID sg) sid SignHasDisappeared (setBoard b (release st sid) s)
        else
          \<exists>host. online s host \<and> playerID (heap s host) = sgOwnerID sg \<and>
            s' = sendPush w host body
                   (setBoard b (st\<lparr>ssByID := (ssByID st)(sid \<mapsto> sg\<lparr>sgSummonedBy := me\<rparr>)\<rparr>) s)"
proof (cases "ssByID (boardStore b s) sid")
  case None
  then show ?thesis
    by (simp add: summonSign_def parse_def req sid claim_def Let_def)
next
  case (Some sg)
  let ?me = "playerID (heap s cs)" and ?st = "boardStore b s"
  let ?sg = "sg\<lparr>sgSummonedBy := ?me\<rparr>"
  let ?st' = "?st\<lparr>ssByID := (ssByID ?st)(sid \<mapsto> ?sg)\<rparr>"
  show ?thesis
  proof (cases "sgSummonedBy sg \<noteq> 0 \<and> sgSummonedBy sg \<noteq> ?me")
    case True
    with Some show ?thesis
      by (simp add: summonSign_def parse_def req sid claim_def Let_def)
  next
    case False
    then have c: "claim ?st sid ?me = ((Some ?sg, True), ?st')"
      using Some by (simp add: claim_def Let_def)
    have rel: "release ?st' sid = release ?st sid"
      using Some by (simp add: release_def)
    show ?thesis
    proof (cases "lookupPlayer w 0 (sgOwnerID sg) s")
      case None
      with lookup_missing [OF orders] have "\<not> player_online s (sgOwnerID sg)" by blast
      with None False Some show ?thesis
        by (auto simp: summonSign_def parse_def req sid c rel Let_def)
    next
      case host: (Some host)
      note found = lookup_found [OF orders host]
      then have "player_online s (sgOwnerID sg)" by (auto simp: player_online_def)
      with host found False Some show ?thesis
        by (auto simp: summonSign_def parse_def req sid c built Let_def)
    qed
  qed
qed

subsection \<open>Who learns that a sign is gone\<close>

fun notices :: "board \<Rightarrow> World \<Rightarrow> nat \<Rightarrow> sign list \<Rightarrow> Service \<Rightarrow> (ptr \<times> bytes) list" where
  "notices b w i [] s = []"
| "notices b w i (sg # sgs) s =
     (case marshal w (removedMsg b sg) of
        None \<Rightarrow> []
      | Some body \<Rightarrow>
          map (\<lambda>t. (t, body))
            (audience w i (sgOwnerID sg) (filter (\<lambda>p. p \<in> sgAwareOf sg) (awareOrd w (sgID sg))) s)) @
     notices b w (Suc i) sgs s"

lemma notices_sendAll [simp]: "notices b w i sgs (sendAll w' ns s) = notices b w i sgs s"
  by (induction sgs arbitrary: i) (simp_all split: option.split)

lemma notices_setBoard [simp]: "notices b w i sgs (setBoard b' st s) = notices b w i sgs s"
  by (induction sgs arbitrary: i) (simp_all split: option.split)

lemma pushRemoved_notices: "pushRemoved b w i sg s = sendAll w (notices b w i [sg] s) s"
  by (simp add: pushRemoved_def pushToAware_audience split: option.split)

lemma pushAllRemoved_notices: "pushAllRemoved b w i sgs s = sendAll w (notices b w i sgs s) s"
proof (induction sgs arbitrary: i s)
  case Nil
  show ?case by simp
next
  case (Cons sg sgs)
  have "notices b w i (sg # sgs) s = notices b w i [sg] s @ notices b w (Suc i) sgs s" by simp
  with Cons show ?case by (simp add: pushRemoved_notices del: notices.simps)
qed

lemma notices_complete:
  assumes "orders_valid w s" "sg \<in> set sgs" "p \<in> sgAwareOf sg" "p \<in> set (awareOrd w (sgID sg))"
    and "p \<noteq> sgOwnerID sg" "player_online s p" "marshal w (removedMsg b sg) = Some body"
  shows "\<exists>t. (t, body) \<in> set (notices b w i sgs s) \<and> online s t \<and> playerID (heap s t) = p"
  using assms(2)
proof (induction sgs arbitrary: i)
  case Nil
  then show ?case by simp
next
  case (Cons x xs)
  show ?case
  proof (cases "x = sg")
    case True
    have "p \<in> set (filter (\<lambda>p. p \<in> sgAwareOf sg) (awareOrd w (sgID sg)))" using assms(3,4) by simp
    from audience_complete [OF assms(1) this assms(5,6), of i] obtain t where
      "t \<in> set (audience w i (sgOwnerID sg) (filter (\<lambda>p. p \<in> sgAwareOf sg) (awareOrd w (sgID sg))) s)"
      "online s t" "playerID (heap s t) = p" by blast
    with True assms(7) show ?thesis by auto
  next
    case False
    with Cons show ?thesis by (metis Un_iff notices.simps(2) set_ConsD set_append)
  qed
qed

text \<open>The store of a board without the signs of one player.\<close>

definition withoutOwner :: "u32 \<Rightarrow> signStore \<Rightarrow> signStore" where
  "withoutOwner p st = st\<lparr>ssByID := (\<lambda>i. if owned_by p st i then None else ssByID st i)\<rparr>"

lemma set_range_vals_owned:
  assumes "range_order (ssByID st) ord"
  shows "set (range_vals (ssByID st) (filter (owned_by p st) ord)) = {sg \<in> ran (ssByID st). sgOwnerID sg = p}"
proof
  show "set (range_vals (ssByID st) (filter (owned_by p st) ord)) \<subseteq> {sg \<in> ran (ssByID st). sgOwnerID sg = p}"
    unfolding set_range_vals by (auto simp: ran_def owned_by_def)
next
  show "{sg \<in> ran (ssByID st). sgOwnerID sg = p} \<subseteq> set (range_vals (ssByID st) (filter (owned_by p st) ord))"
  proof
    fix sg assume "sg \<in> {sg \<in> ran (ssByID st). sgOwnerID sg = p}"
    then obtain i where "ssByID st i = Some sg" "sgOwnerID sg = p" by (auto simp: ran_def)
    moreover from this have "i \<in> set (filter (owned_by p st) ord)"
      using assms by (auto simp: range_order_def owned_by_def)
    ultimately show "sg \<in> set (range_vals (ssByID st) (filter (owned_by p st) ord))"
      unfolding set_range_vals by blast
  qed
qed

lemma dropBoard_eq:
  assumes "range_order (ssByID (boardStore b s)) ord"
  shows "\<exists>gone. set gone = {sg \<in> ran (ssByID (boardStore b s)). sgOwnerID sg = p} \<and>
    dropBoard b ord w p s =
      sendAll w (notices b w 0 gone s) (setBoard b (withoutOwner p (boardStore b s)) s)"
proof -
  let ?st = "boardStore b s"
  let ?gone = "range_vals (ssByID ?st) (filter (owned_by p ?st) ord)"
  have keys: "i \<in> set (filter (owned_by p ?st) ord) \<longleftrightarrow> owned_by p ?st i" for i
    using assms by (auto simp: range_order_def owned_by_def split: option.splits)
  have "?st\<lparr>ssByID := (\<lambda>i. if i \<in> set (filter (owned_by p ?st) ord) then None else ssByID ?st i)\<rparr> =
      withoutOwner p ?st"
    unfolding keys withoutOwner_def ..
  then have "dropBoard b ord w p s = sendAll w (notices b w 0 ?gone s) (setBoard b (withoutOwner p ?st) s)"
    by (simp add: dropBoard_def removeOwnedBy_def Let_def pushAllRemoved_notices)
  moreover have "set ?gone = {sg \<in> ran (ssByID ?st). sgOwnerID sg = p}"
    using set_range_vals_owned [OF assms] by simp
  ultimately show ?thesis by blast
qed

lemma markAware_other:
  "ssByID (markAware st i v) j =
     (if j = i then map_option (\<lambda>sg. sg\<lparr>sgAwareOf := insert v (sgAwareOf sg)\<rparr>) (ssByID st i) else ssByID st j)"
  by (simp add: markAware_def split: option.split)

lemma markAll_aware:
  assumes "ssByID st i = Some sg"
  shows "\<exists>A. ssByID (markAll v found st) i = Some (sg\<lparr>sgAwareOf := A\<rparr>) \<and>
    sgAwareOf sg \<subseteq> A \<and> (i \<in> sgID ` set found \<longrightarrow> v \<in> A)"
  using assms unfolding markAll_def
proof (induction found arbitrary: st sg)
  case Nil
  then show ?case by (auto intro: exI [of _ "sgAwareOf sg"])
next
  case (Cons x xs)
  define sg1 where "sg1 = (if i = sgID x then sg\<lparr>sgAwareOf := insert v (sgAwareOf sg)\<rparr> else sg)"
  have "ssByID (markAware st (sgID x) v) i = Some sg1"
    using Cons.prems by (cases "i = sgID x") (auto simp: markAware_other sg1_def)
  from Cons.IH [OF this] obtain A where
    "ssByID (foldl (\<lambda>st sg. markAware st (sgID sg) v) (markAware st (sgID x) v) xs) i = Some (sg1\<lparr>sgAwareOf := A\<rparr>)"
    "sgAwareOf sg1 \<subseteq> A" "i \<in> sgID ` set xs \<longrightarrow> v \<in> A" by blast
  then show ?case by (intro exI [of _ A]) (auto simp: sg1_def split: if_splits)
qed

text \<open>The two listings, each with the signs it shows to a player, and the store each board starts with.\<close>

fun listing :: "board \<Rightarrow> handler" where
  "listing Ordinary = handleGetSignList"
| "listing MirrorKnight = handleGetMirrorKnightSignList"

fun listed :: "board \<Rightarrow> World \<Rightarrow> pbmsg \<Rightarrow> u32 \<Rightarrow> Service \<Rightarrow> sign list" where
  "listed Ordinary w req me s =
     sign_inCells (storeOrd w) (signs s) (getU32 req ''OnlineAreaId'') (askedCells req) me (uint (getU32 req ''MaxSigns''))"
| "listed MirrorKnight w req me s = sign_all (storeOrd w) (mirrorKnight s) me (sint (getI64 req ''MaxSigns''))"

fun newBoard :: "board \<Rightarrow> signStore" where
  "newBoard Ordinary = newSignStore"
| "newBoard MirrorKnight = newSignStoreFrom firstMirrorKnightSignID"

lemma listing_marks:
  assumes "unmarshal w (boardMsg b ''RequestGet'' @ ''List'') pay = Some req"
  shows "boardStore b (snd (listing b w cs pay s)) =
    markAll (playerID (heap s cs)) (listed b w req (playerID (heap s cs)) s) (boardStore b s)"
  using assms
  by (cases b) (simp_all add: handleGetSignList_def handleGetMirrorKnightSignList_def parse_def Let_def)

lemma listed_signs:
  assumes "range_order (ssByID (boardStore b s)) (storeOrd w)" "sg \<in> set (listed b w req me s)"
  shows "sg \<in> ran (ssByID (boardStore b s)) \<and> sgOwnerID sg \<noteq> me \<and>
    (b = Ordinary \<longrightarrow> sgAreaID sg = getU32 req ''OnlineAreaId'')"
proof (cases b)
  case Ordinary
  then show ?thesis
    using assms set_gather [of _ _ "range_vals (ssByID (signs s)) (storeOrd w)"] set_range_vals_order [of "ssByID (signs s)" "storeOrd w"]
    by (auto simp: sign_inCells_def)
next
  case MirrorKnight
  then show ?thesis
    using assms set_gather [of _ _ "range_vals (ssByID (mirrorKnight s)) (storeOrd w)"] set_range_vals_order [of "ssByID (mirrorKnight s)" "storeOrd w"]
    by (auto simp: sign_all_def)
qed

lemma board_life:
  assumes "boardStore b s = snd (signs.run before (newBoard b))" "length before + n < 2 ^ 32 - 499999"
  shows "own_ids (boardStore b s)" "signs.bounded (boardStore b s)" "unat (ssNextID (boardStore b s)) + n < 2 ^ 32"
proof -
  have first: "unat (ssNextID (newBoard b)) \<le> 499999"
    by (cases b) (simp_all add: unat_first)
  have new: "signs.bounded (newBoard b)" "own_ids (newBoard b)"
    by (cases b; simp add: newSignStore_def newSignStore_bounded; fail)
      (cases b; simp add: own_ids_def newSignStore_def newSignStoreFrom_def)
  have room: "unat (ssNextID (newBoard b)) + length before < 2 ^ 32" using first assms(2) by linarith
  show "own_ids (boardStore b s)" unfolding assms(1) by (rule own_ids_run [OF new(2)])
  show "signs.bounded (boardStore b s)" unfolding assms(1) by (rule signs.run_bounded [OF new(1) room])
  show "unat (ssNextID (boardStore b s)) + n < 2 ^ 32"
    using signs.run_ids [OF room] first assms(2) unfolding assms(1) by linarith
qed

lemma next_markAll [simp]: "ssNextID (markAll v found st) = ssNextID st"
proof -
  have "ssNextID (markAware st i v) = ssNextID st" for st i by (simp add: markAware_def split: option.split)
  then show ?thesis unfolding markAll_def by (induction found arbitrary: st) simp_all
qed

text \<open>Whatever happens on the board after a listing, a sign it showed is there with the viewer marked, or is gone.\<close>

lemma shown_stays_known:
  assumes "boardStore b s = snd (signs.run before (newBoard b))" "length before + length after < 2 ^ 32 - 499999"
    and "range_order (ssByID (boardStore b s)) (storeOrd w)"
    and req: "unmarshal w (boardMsg b ''RequestGet'' @ ''List'') pay = Some req"
    and found: "sg \<in> set (listed b w req (playerID (heap s cs)) s)"
    and later: "boardStore b s2 = snd (signs.run after (boardStore b (snd (listing b w cs pay s))))"
    and there: "ssByID (boardStore b s2) (sgID sg) = Some sg2"
  shows "sg2\<lparr>sgAwareOf := {}, sgSummonedBy := 0\<rparr> = sg\<lparr>sgAwareOf := {}, sgSummonedBy := 0\<rparr> \<and>
    playerID (heap s cs) \<in> sgAwareOf sg2"
proof -
  let ?me = "playerID (heap s cs)"
  let ?st1 = "markAll ?me (listed b w req ?me s) (boardStore b s)"
  note life = board_life [OF assms(1,2)]
  have at: "ssByID (boardStore b s) (sgID sg) = Some sg"
    using listed_signs [OF assms(3) found] life(1) by (auto simp: own_ids_def ran_def)
  from markAll_aware [OF this, of ?me "listed b w req ?me s"] found obtain A where
    A: "ssByID ?st1 (sgID sg) = Some (sg\<lparr>sgAwareOf := A\<rparr>)" "?me \<in> A"
    by auto
  have "sgID sg \<le> ssNextID (boardStore b s)" using at life(2) by (auto simp: signs.bounded_def)
  then have "still_known (sg\<lparr>sgAwareOf := A\<rparr>) ?st1"
    using A(1) unfolding still_known_def by simp
  then have "still_known (sg\<lparr>sgAwareOf := A\<rparr>) (boardStore b s2)"
    unfolding later listing_marks [OF req] by (rule still_known_run) (use life(3) in simp)
  with there have "sg2\<lparr>sgAwareOf := A, sgSummonedBy := sgSummonedBy sg\<rparr> = sg\<lparr>sgAwareOf := A\<rparr>" "A \<subseteq> sgAwareOf sg2"
    unfolding still_known_def by auto
  then show ?thesis using A(2) by (cases sg; cases sg2) auto
qed

lemma removeSign_notices:
  "ssByID (boardStore b s) i = Some sg \<Longrightarrow>
   removeSign b w i s = sendAll w (notices b w 0 [sg] s) (setBoard b (snd (sign_remove (boardStore b s) i)) s)"
  by (simp add: removeSign_def sign_remove_def pushRemoved_notices del: notices.simps)

text \<open>
  C13: whoever has been shown a sign is told when it goes. At any time in the life of either board a player
  asks for its signs: none of their own is listed, and on the ordinary board every listed sign is from the
  area asked for. Whatever operations run on the board afterwards (signs placed and removed, other players
  shown the same sign, the sign claimed and released), as long as the sign is there: when it is removed, and
  when its owner leaves, a session of that player gets the removal push, if the player is online then and the
  push can be built. The identifiers of the board must not have run out.
\<close>

theorem shown_then_told:
  assumes life: "boardStore b s = snd (signs.run before (newBoard b))"
    and room: "length before + length after < 2 ^ 32 - 499999"
    and so: "range_order (ssByID (boardStore b s)) (storeOrd w)"
    and req: "unmarshal w (boardMsg b ''RequestGet'' @ ''List'') pay = Some req"
    and found: "sg \<in> set (listed b w req (playerID (heap s cs)) s)"
    and later: "boardStore b s2 = snd (signs.run after (boardStore b (snd (listing b w cs pay s))))"
    and there: "ssByID (boardStore b s2) (sgID sg) = Some sg2"
    and orders: "orders_valid w2 s2" "range_order (ssByID (boardStore b s2)) ord"
      "sgAwareOf sg2 \<subseteq> set (awareOrd w2 (sgID sg))"
    and online: "player_online s2 (playerID (heap s cs))"
    and built: "marshal w2 (removedMsg b sg) = Some body"
  shows "let me = playerID (heap s cs) in
    sgOwnerID sg \<noteq> me \<and> (b = Ordinary \<longrightarrow> sgAreaID sg = getU32 req ''OnlineAreaId'') \<and>
    (\<exists>ns t. removeSign b w2 (sgID sg) s2 =
        sendAll w2 ns (setBoard b (snd (sign_remove (boardStore b s2) (sgID sg))) s2) \<and>
      (t, body) \<in> set ns \<and> online s2 t \<and> playerID (heap s2 t) = me) \<and>
    (\<exists>ns t. dropBoard b ord w2 (sgOwnerID sg) s2 =
        sendAll w2 ns (setBoard b (withoutOwner (sgOwnerID sg) (boardStore b s2)) s2) \<and>
      (t, body) \<in> set ns \<and> online s2 t \<and> playerID (heap s2 t) = me)"
proof -
  let ?me = "playerID (heap s cs)"
  have same: "sgID sg2 = sgID sg" "sgOwnerID sg2 = sgOwnerID sg" "removedMsg b sg2 = removedMsg b sg"
    "?me \<in> sgAwareOf sg2"
    using shown_stays_known [OF life room so req found later there]
    by (cases sg; cases sg2; simp add: removedMsg_def)+
  note sg = listed_signs [OF so found]
  have told: "\<exists>t. (t, body) \<in> set (notices b w2 0 gone s2) \<and> online s2 t \<and> playerID (heap s2 t) = ?me"
    if "sg2 \<in> set gone" for gone
    using notices_complete [OF orders(1) that, of ?me b body 0] same sg orders(3) online built by auto
  obtain gone where gone: "set gone = {x \<in> ran (ssByID (boardStore b s2)). sgOwnerID x = sgOwnerID sg}"
    "dropBoard b ord w2 (sgOwnerID sg) s2 =
       sendAll w2 (notices b w2 0 gone s2) (setBoard b (withoutOwner (sgOwnerID sg) (boardStore b s2)) s2)"
    using dropBoard_eq [OF orders(2)] by blast
  have "sg2 \<in> set gone" using there same(2) unfolding gone(1) by (auto simp: ran_def)
  from told [OF this] gone(2) told [of "[sg2]"] removeSign_notices [OF there] sg show ?thesis
    unfolding Let_def by (metis list.set_intros(1))
qed

text \<open>Player 7 has a sign on the board; player 8 finds and summons it.\<close>

definition demo_sign :: sign where
  "demo_sign = blank_sign\<lparr>sgID := 5, sgOwnerID := 7, sgAreaID := 3\<rparr>"

definition demo_board :: Service where
  "demo_board = demo_service\<lparr>signs := newSignStore\<lparr>ssByID := [5 \<mapsto> demo_sign]\<rparr>\<rparr>"

lemma demo_board_facts:
  "sessions demo_board = sessions demo_service" "heap demo_board = heap demo_service"
  "ssByID (signs demo_board) = [5 \<mapsto> demo_sign]"
  by (simp_all add: demo_board_def demo_service_def)

theorem summon_outcome_witness:
  "let w = demo_world (Pb ''RequestSummonSign'' [(''SignInfo'', PMsg (signInfo 7 5))])
   in \<exists>host st. online demo_board host \<and> playerID (heap demo_board host) = 7 \<and>
        snd (summonSign Ordinary w 1 [] demo_board) = sendPush w host [1] (setBoard Ordinary st demo_board)"
proof -
  define req where "req = Pb ''RequestSummonSign'' [(''SignInfo'', PMsg (signInfo 7 5))]"
  let ?w = "demo_world req"
  have ov: "orders_valid ?w demo_board" by (rule demo_orders) (simp add: demo_board_facts)
  have rq: "unmarshal ?w (boardMsg Ordinary ''RequestSummon'') [] = Some req"
    and sid: "nilU32 (getMsg req ''SignInfo'') ''SignId'' = 5"
    and body: "marshal ?w (summonMsg Ordinary (heap demo_board 1) 5 req) = Some [1]"
    by (simp_all add: demo_world_def req_def pb_simps signInfo_def)
  have "online demo_board 0" "playerID (heap demo_board 0) = 7"
    using demo_online(1) by (simp_all add: online_def demo_board_facts demo_service_def demo_client_def)
  then have "player_online demo_board 7" unfolding player_online_def by blast
  with summon_outcome [OF ov rq sid body] show ?thesis
    by (auto simp: Let_def demo_board_facts demo_sign_def blank_sign_def req_def [symmetric])
qed

text \<open>
  Player 7 places a sign and player 8 lists it; then player 9 is shown it and claims it, and it is taken down.
\<close>

definition demo_placed :: sign where
  "demo_placed = demo_sign\<lparr>sgID := 100000, sgAwareOf := {}\<rparr>"

definition demo_shown :: Service where
  "demo_shown = demo_service\<lparr>signs := snd (signs.run [OpAdd demo_sign] newSignStore)\<rparr>"

definition demo_listWorld :: World where
  "demo_listWorld = (demo_world (Pb ''RequestGetSignList'' [(''OnlineAreaId'', PU32 3)]))
     \<lparr>storeOrd := [100000], awareOrd := (\<lambda>_. [8, 9])\<rparr>"

definition demo_later :: Service where
  "demo_later = (let s1 = snd (handleGetSignList demo_listWorld 1 [] demo_shown)
     in s1\<lparr>signs := snd (signs.run [OpMarkAware 100000 9, OpClaim 100000 9] (signs s1))\<rparr>)"

lemma demo_shown_facts:
  "sessions demo_shown = sessions demo_service" "heap demo_shown = heap demo_service"
  "ssByID (signs demo_shown) = [100000 \<mapsto> demo_placed]" "playerID (heap demo_shown 1) = 8"
  by (simp_all add: demo_shown_def demo_service_def demo_client_def demo_placed_def sign_add_def newSignStore_def
      newSignStoreFrom_def firstSignID_def Let_def)

lemma demo_listed:
  "listed Ordinary demo_listWorld (Pb ''RequestGetSignList'' [(''OnlineAreaId'', PU32 3)]) 8 demo_shown = [demo_placed]"
  by (simp add: demo_listWorld_def demo_shown_facts sign_inCells_def range_vals_def List.map_filter_def
      demo_placed_def demo_sign_def blank_sign_def askedCells_def pb_simps)

lemma demo_later_facts:
  "ssByID (signs demo_later) = [100000 \<mapsto> demo_placed\<lparr>sgAwareOf := {9, 8}, sgSummonedBy := 9\<rparr>]"
  "sessions demo_later = sessions demo_service" "playerID (heap demo_later 1) = 8"
proof -
  have rq: "unmarshal demo_listWorld ''RequestGetSignList'' [] = Some (Pb ''RequestGetSignList'' [(''OnlineAreaId'', PU32 3)])"
    by (simp add: demo_listWorld_def demo_world_def)
  have st: "signs (snd (handleGetSignList demo_listWorld 1 [] demo_shown)) = markAll 8 [demo_placed] (signs demo_shown)"
    using listing_marks [of demo_listWorld Ordinary "[]" "Pb ''RequestGetSignList'' [(''OnlineAreaId'', PU32 3)]" 1 demo_shown] rq
    unfolding demo_shown_facts(4) demo_listed by simp
  have "sgSummonedBy demo_placed = 0" "sgID demo_placed = 100000" "sgAwareOf demo_placed = {}"
    by (simp_all add: demo_placed_def demo_sign_def blank_sign_def)
  then show "ssByID (signs demo_later) = [100000 \<mapsto> demo_placed\<lparr>sgAwareOf := {9, 8}, sgSummonedBy := 9\<rparr>]"
    unfolding demo_later_def Let_def st by (simp add: markAll_def markAware_def claim_def demo_shown_facts Let_def)
  show "sessions demo_later = sessions demo_service" "playerID (heap demo_later 1) = 8"
    using demo_shown_facts by (simp_all add: demo_later_def handleGetSignList_def parse_def rq Let_def)
qed

theorem shown_then_told_witness:
  "\<exists>ns t. removeSign Ordinary demo_listWorld 100000 demo_later =
       sendAll demo_listWorld ns (setBoard Ordinary (snd (sign_remove (signs demo_later) 100000)) demo_later) \<and>
     (t, [1]) \<in> set ns \<and> playerID (heap demo_later t) = 8"
proof -
  let ?req = "Pb ''RequestGetSignList'' [(''OnlineAreaId'', PU32 3)]"
  let ?w = demo_listWorld and ?sg2 = "demo_placed\<lparr>sgAwareOf := {9, 8}, sgSummonedBy := 9\<rparr>"
  have life: "boardStore Ordinary demo_shown = snd (signs.run [OpAdd demo_sign] (newBoard Ordinary))"
    by (simp add: demo_shown_def)
  have room: "length [OpAdd demo_sign] + length [OpMarkAware 100000 9, OpClaim 100000 9] < 2 ^ 32 - 499999" by simp
  have so: "range_order (ssByID (boardStore Ordinary demo_shown)) (storeOrd ?w)"
    by (simp add: range_order_def demo_shown_facts demo_listWorld_def)
  have rq: "unmarshal ?w (boardMsg Ordinary ''RequestGet'' @ ''List'') [] = Some ?req"
    by (simp add: demo_listWorld_def demo_world_def)
  have found: "demo_placed \<in> set (listed Ordinary ?w ?req (playerID (heap demo_shown 1)) demo_shown)"
    unfolding demo_shown_facts(4) demo_listed by simp
  have later: "boardStore Ordinary demo_later = snd (signs.run [OpMarkAware 100000 9, OpClaim 100000 9]
      (boardStore Ordinary (snd (listing Ordinary ?w 1 [] demo_shown))))"
    by (simp add: demo_later_def Let_def)
  have sid: "sgID demo_placed = 100000" by (simp add: demo_placed_def)
  have there: "ssByID (boardStore Ordinary demo_later) (sgID demo_placed) = Some ?sg2"
    by (simp add: demo_later_facts sid)
  have ov: "orders_valid ?w demo_later"
    using demo_orders [of demo_later ?req] unfolding orders_valid_def demo_listWorld_def
    by (simp add: demo_later_facts)
  have ord: "range_order (ssByID (boardStore Ordinary demo_later)) [100000]"
    by (simp add: range_order_def demo_later_facts)
  have aware: "sgAwareOf ?sg2 \<subseteq> set (awareOrd ?w (sgID demo_placed))"
    by (simp add: demo_listWorld_def)
  have "online demo_later 1" using demo_online(2) by (simp add: online_def demo_later_facts)
  then have on: "player_online demo_later (playerID (heap demo_shown 1))"
    unfolding player_online_def demo_shown_facts(4) using demo_later_facts(3) by blast
  have built: "marshal ?w (removedMsg Ordinary demo_placed) = Some [1]"
    by (simp add: demo_listWorld_def demo_world_def)
  from shown_then_told [OF life room so rq found later there ov ord aware on built, unfolded Let_def demo_shown_facts(4) sid]
  show ?thesis by auto
qed

end
