(* ===== verification/Match_Service.thy ===== *)
theory Match_Service
  imports Sign_Service
begin

section \<open>Invasions, visits and arena duels\<close>

text \<open>
  The handlers of internal/server/game/breakin.go, visitor.go and quickmatch.go. Enumerations are numbers,
  as in the generated code: invasions Red 0 and Blue 2, arena modes Blue 0 and Brotherhood 1, visitors
  None -1, Blue Sentinels 0, Bell Keepers 1 and Rat 2. Loops over \<open>s.sessions\<close> follow \<open>allOrd\<close>.
\<close>

definition filtering :: "World \<Rightarrow> bool" where
  "filtering w = matchmakingEnabled (getenv w ''DSO_MATCHMAKING_FILTERS'')"

text \<open>The sessions a listing loop passes over in order, as far as they are objects of the loop.\<close>

definition othersOf :: "World \<Rightarrow> Service \<Rightarrow> clientSession list" where
  "othersOf w s = map (heap s) (range_vals (sessions s) (allOrd w))"

definition isOther :: "clientSession \<Rightarrow> clientSession \<Rightarrow> bool" where
  "isOther me c \<longleftrightarrow> playerID c \<noteq> 0 \<and> playerID c \<noteq> playerID me"


subsection \<open>Invasions\<close>

definition minSinForBlueOrb :: u32 where "minSinForBlueOrb = 10"
definition debugPhantomTargetID :: u32 where "debugPhantomTargetID = 1"
definition breakInPushBase :: int where "breakInPushBase = 0x3B9"
definition breakInRoleTarget :: int where "breakInRoleTarget = 0"
definition breakInRoleReject :: int where "breakInRoleReject = 1"
definition BlueEyeOrb :: int where "BlueEyeOrb = 2"

definition breakInPushIDFor :: "int \<Rightarrow> int \<Rightarrow> int" where
  "breakInPushIDFor mode role = sint (word_of_int (breakInPushBase + 4 * mode + role) :: 32 word)"

definition rejectPushID :: "World \<Rightarrow> int \<Rightarrow> int" where
  "rejectPushID w mode =
     (let v = BreakInRejectPushID (gameConfig w)
      in if v \<noteq> 0 then sint (ucast v :: 32 word) else breakInPushIDFor mode breakInRoleReject)"

definition breakInRejectMsg :: "World \<Rightarrow> clientSession \<Rightarrow> u32 \<Rightarrow> pbmsg" where
  "breakInRejectMsg w invader hostID =
     Pb ''PushRequestRejectBreakInTarget''
       [(''PushMessageId'', PEnum (rejectPushID w (breakInType invader))), (''PlayerId'', PI64 (ucast hostID)),
        (''Unknown_3'', PI64 0), (''PsnId'', PStr (accountID invader)), (''Unknown_5'', PI64 0)]"

definition pushBreakInRejected :: "World \<Rightarrow> ptr \<Rightarrow> u32 \<Rightarrow> Service \<Rightarrow> Service" where
  "pushBreakInRejected w invader hostID s = pushMsg w invader (breakInRejectMsg w (heap s invader) hostID) s"

text \<open>The tests of the loop in the order of the code; a session that fails one is skipped.\<close>

definition breakInSkips :: "bool \<Rightarrow> pbmsg \<Rightarrow> u32 \<Rightarrow> clientSession \<Rightarrow> clientSession \<Rightarrow> bool" where
  "breakInSkips filt req invaderSM me c \<longleftrightarrow>
     (let p = profile c; blue = (getEnum 0 req ''Type'' = BlueEyeOrb)
      in \<not> isOther me c \<or>
         filt \<and>
         (\<not> isInvadable p \<or>
          \<not> blue \<and> onlineArea p \<noteq> getU32 req ''OnlineAreaId'' \<or>
          \<not> soulMemoryMatches invaderSM (effectiveSoulMemory p) breakInTierWindow \<or>
          blue \<and> statsSeen p \<and> sinnerPoints p < minSinForBlueOrb))"

definition breakInTargets :: "World \<Rightarrow> pbmsg \<Rightarrow> clientSession \<Rightarrow> Service \<Rightarrow> clientSession list" where
  "breakInTargets w req me s =
     gather (uint (getU32 req ''MaxTargets''))
       (breakInSkips (filtering w) req (nilU32 (getMsg req ''MatchingParameter'') ''SoulMemory'') me) []
       (othersOf w s)"

definition targetData :: "u32 \<Rightarrow> string \<Rightarrow> pbmsg" where
  "targetData p psn = Pb ''BreakInTargetData'' [(''PlayerId'', PU32 p), (''PsnId'', PStr psn)]"

definition handleGetBreakInTargetList :: handler where
  "handleGetBreakInTargetList w cs pay s =
     parse w ''RequestGetBreakInTargetList'' pay s (\<lambda>req.
       let s1 = modify (\<lambda>c. c\<lparr>areaID := getU32 req ''OnlineAreaId'',
                  profile := applyMatchingParameter (getMsg req ''MatchingParameter'') (profile c)\<rparr>) cs s;
           found = map (\<lambda>c. targetData (playerID c) (accountID c)) (breakInTargets w req (heap s1 cs) s1);
           targets = (if DebugForceBreakInReject (gameConfig w) \<and> found = []
                      then [targetData debugPhantomTargetID ''dso-reject-test''] else found)
       in (reply w (Pb ''RequestGetBreakInTargetListResponse''
             [(''OnlineAreaId'', PU32 (getU32 req ''OnlineAreaId'')), (''CellId'', PU32 (getU32 req ''CellId'')),
              (''TargetData'', repMsgs targets)]), s1))"

definition breakInMsg :: "clientSession \<Rightarrow> clientSession \<Rightarrow> pbmsg \<Rightarrow> pbmsg" where
  "breakInMsg me target req =
     (let here = onlineActivityArea (profile target) \<noteq> 0;
          cellID = (if here then onlineActivityArea (profile target) else getU32 req ''CellId'');
          area = (if here \<and> onlineArea (profile target) \<noteq> 0 then onlineArea (profile target)
                  else getU32 req ''OnlineAreaId'');
          t = getEnum 0 req ''Type''
      in Pb ''PushRequestBreakInTarget''
           [(''PushMessageId'', PEnum (breakInPushIDFor t breakInRoleTarget)), (''PlayerId'', PU32 (playerID me)),
            (''PsnId'', PStr (accountID me)), (''Type'', PEnum t), (''OnlineAreaId'', PU32 area),
            (''CellId'', PU32 cellID)])"

definition handleBreakInTarget :: handler where
  "handleBreakInTarget w cs pay s =
     parse w ''RequestBreakInTarget'' pay s (\<lambda>req.
       let t = getEnum 0 req ''Type''; host = getU32 req ''PlayerId'';
           ok = reply w (Pb ''RequestBreakInTargetResponse'' []);
           remember = modify (\<lambda>c. c\<lparr>breakInType := t\<rparr>) cs
       in if DebugForceBreakInReject (gameConfig w) then (ok, pushBreakInRejected w cs host (remember s))
          else
            case lookupPlayer w 0 host s of
              None \<Rightarrow> (ok, pushBreakInRejected w cs host s)
            | Some target \<Rightarrow>
                let s1 = remember s
                in case marshal w (breakInMsg (heap s1 cs) (heap s1 target) req) of
                     None \<Rightarrow> (Inl ''build PushRequestBreakInTarget'', s1)
                   | Some body \<Rightarrow> (ok, sendPush w target body s1))"

definition handleRejectBreakInTarget :: handler where
  "handleRejectBreakInTarget w cs pay s =
     parse w ''RequestRejectBreakInTarget'' pay s (\<lambda>req.
       (reply w (Pb ''RequestRejectBreakInTargetResponse'' []),
        case lookupPlayer w 0 (ucast (getI64 req ''PlayerId'')) s of
          None \<Rightarrow> s
        | Some invader \<Rightarrow> pushBreakInRejected w invader (playerID (heap s cs)) s))"


subsection \<open>Visits\<close>

definition visitorPushBase :: int where "visitorPushBase = 0x3C9"
definition visitorRoleVisit :: int where "visitorRoleVisit = 0"
definition visitorRoleReject :: int where "visitorRoleReject = 1"
definition visitorModes :: int where "visitorModes = 3"

definition visitorPushIDFor :: "int \<Rightarrow> int \<Rightarrow> int" where
  "visitorPushIDFor mode role =
     (let m = (if mode < 0 \<or> visitorModes \<le> mode then 0 else mode)
      in sint (word_of_int (visitorPushBase + 3 * m + role) :: 32 word))"

definition visitorTypeOf :: "int \<Rightarrow> VisitorType" where
  "visitorTypeOf t =
     (if t = -1 then VisitorType_None else if t = 0 then VisitorType_BlueSentinels
      else if t = 1 then VisitorType_BellKeepers else if t = 2 then VisitorType_Rat else VisitorType_Other t)"

text \<open>A missing entry of the table reads as the zero window.\<close>

definition visitorWindow :: "VisitorType \<Rightarrow> tierWindow" where
  "visitorWindow t = (case visitorTierWindows t of None \<Rightarrow> \<lparr>below = 0, above = 0\<rparr> | Some win \<Rightarrow> win)"

definition visitorSkips :: "bool \<Rightarrow> VisitorType \<Rightarrow> u32 \<Rightarrow> clientSession \<Rightarrow> clientSession \<Rightarrow> bool" where
  "visitorSkips filt t hostSM me c \<longleftrightarrow>
     \<not> isOther me c \<or>
     filt \<and>
     (visitorPoolFor (profile c) \<noteq> t \<or>
      \<not> soulMemoryMatches hostSM (effectiveSoulMemory (profile c)) (visitorWindow t))"

definition visitorTargets :: "World \<Rightarrow> pbmsg \<Rightarrow> clientSession \<Rightarrow> Service \<Rightarrow> clientSession list" where
  "visitorTargets w req me s =
     gather (sint (getI64 req ''MaxTargets''))
       (visitorSkips (filtering w) (visitorTypeOf (getEnum (-1) req ''Type''))
          (nilU32 (getMsg req ''MatchingParameter'') ''SoulMemory'') me) []
       (othersOf w s)"

definition handleGetVisitorList :: handler where
  "handleGetVisitorList w cs pay s =
     parse w ''RequestGetVisitorList'' pay s (\<lambda>req.
       let s1 = modify (\<lambda>c. c\<lparr>profile :=
                  applyMatchingParameter (getMsg req ''MatchingParameter'') (profile c)\<rparr>) cs s;
           targets = map (\<lambda>c. Pb ''VisitorData'' [(''PlayerId'', PI64 (ucast (playerID c))),
                       (''PlayerPsnId'', PStr (accountID c))]) (visitorTargets w req (heap s1 cs) s1)
       in (reply w (Pb ''RequestGetVisitorListResponse''
             [(''OnlineAreaId'', PI64 (getI64 req ''OnlineAreaId'')), (''CellId'', PI64 (getI64 req ''CellId'')),
              (''TargetData'', repMsgs targets)]), s1))"

definition pushVisitRejected :: "World \<Rightarrow> ptr \<Rightarrow> u32 \<Rightarrow> int \<Rightarrow> Service \<Rightarrow> Service" where
  "pushVisitRejected w host guestID vType s =
     pushMsg w host
       (Pb ''PushRequestRejectVisit''
          [(''PushMessageId'', PEnum (visitorPushIDFor vType visitorRoleReject)),
           (''PlayerId'', PI64 (ucast guestID)), (''Unknown_3'', PI64 0),
           (''PsnId'', PStr (accountID (heap s host))), (''Type'', PEnum vType)]) s"

definition visitMsg :: "clientSession \<Rightarrow> pbmsg \<Rightarrow> pbmsg" where
  "visitMsg me req =
     (let t = getEnum (-1) req ''Type''
      in Pb ''PushRequestVisit''
           ([(''PushMessageId'', PEnum (visitorPushIDFor t visitorRoleVisit)),
             (''PlayerId'', PI64 (ucast (playerID me))), (''PlayerPsnId'', PStr (accountID me))] @
            rawBytes ''PlayerStruct'' req ''PlayerStruct'' @
            [(''Type'', PEnum t), (''OnlineAreaId'', PI64 (getI64 req ''OnlineAreaId'')),
             (''CellId'', PI64 (getI64 req ''CellId''))]))"

definition handleVisit :: handler where
  "handleVisit w cs pay s =
     parse w ''RequestVisit'' pay s (\<lambda>req.
       let guestID = ucast (getI64 req ''PlayerId''); ok = reply w (Pb ''RequestVisitResponse'' [])
       in case lookupPlayer w 0 guestID s of
            None \<Rightarrow> (ok, pushVisitRejected w cs guestID (getEnum (-1) req ''Type'') s)
          | Some guest \<Rightarrow>
              (case marshal w (visitMsg (heap s cs) req) of
                 None \<Rightarrow> (Inl ''build PushRequestVisit'', s)
               | Some body \<Rightarrow> (ok, sendPush w guest body s)))"

definition handleRejectVisit :: handler where
  "handleRejectVisit w cs pay s =
     parse w ''RequestRejectVisit'' pay s (\<lambda>req.
       (reply w (Pb ''RequestRejectVisitResponse'' []),
        case lookupPlayer w 0 (ucast (getI64 req ''PlayerId'')) s of
          None \<Rightarrow> s
        | Some host \<Rightarrow>
            pushVisitRejected w host (playerID (heap s cs)) (getEnum (-1) req ''Type'') s))"


subsection \<open>Arena duels\<close>

definition quickMatchPushBase :: int where "quickMatchPushBase = 0x3E0"
definition quickMatchRoleJoin :: int where "quickMatchRoleJoin = 0"
definition quickMatchRoleReject :: int where "quickMatchRoleReject = 1"
definition quickMatchRoleRemove :: int where "quickMatchRoleRemove = 3"

definition quickMatchPushIDFor :: "int \<Rightarrow> int \<Rightarrow> int" where
  "quickMatchPushIDFor mode role =
     (let parity = (if mode = 1 then 0 else 1)
      in sint (word_of_int (quickMatchPushBase + 2 * role + parity) :: 32 word))"

definition quickMatchToProto :: "quickMatch \<Rightarrow> pbmsg" where
  "quickMatchToProto m =
     Pb ''QuickMatchData''
       ([(''PlayerId'', PI64 (ucast (qmPlayerID m))), (''OnlineAreaId'', PI64 (qmAreaID m)),
         (''CellId'', PI64 (qmCellID m))] @
        optMsg ''MatchingParameter'' (qmMatching m) @
        [(''PlayerPsnId'', PStr (qmPsnID m)), (''Mode'', PEnum (qmMode m))])"

definition registration :: "clientSession \<Rightarrow> pbmsg \<Rightarrow> quickMatch" where
  "registration me req =
     \<lparr>qmPlayerID = playerID me, qmPsnID = accountID me, qmAreaID = getI64 req ''OnlineAreaId'',
      qmCellID = getI64 req ''CellId'', qmMode = getEnum 0 req ''Mode'',
      qmMatching = getMsg req ''MatchingParameter'', qmAwareOf = {}\<rparr>"

definition joinMsg :: "clientSession \<Rightarrow> 64 word \<Rightarrow> 64 word \<Rightarrow> int \<Rightarrow> pbmsg" where
  "joinMsg joiner area cell mode =
     Pb ''PushRequestJoinQuickMatch''
       [(''PushMessageId'', PEnum (quickMatchPushIDFor mode quickMatchRoleJoin)),
        (''PlayerId'', PI64 (ucast (playerID joiner))), (''PlayerPsnId'', PStr (accountID joiner)),
        (''OnlineAreaId'', PI64 area), (''CellId'', PI64 cell), (''Mode'', PEnum mode)]"

definition autoPair :: "World \<Rightarrow> ptr \<Rightarrow> 64 word \<Rightarrow> 64 word \<Rightarrow> int \<Rightarrow> Service \<Rightarrow> Service" where
  "autoPair w joiner area cell mode s =
     (case qm_search (storeOrd w) (quickMatchs s) area cell mode (playerID (heap s joiner)) 1 of
        [] \<Rightarrow> s
      | m # _ \<Rightarrow>
          case lookupPlayer w 0 (qmPlayerID m) s of
            None \<Rightarrow> s
          | Some host \<Rightarrow> pushMsg w host (joinMsg (heap s joiner) area cell mode) s)"

definition handleRegisterQuickMatch :: handler where
  "handleRegisterQuickMatch w cs pay s =
     parse w ''RequestRegisterQuickMatch'' pay s (\<lambda>req.
       let s1 = s\<lparr>quickMatchs := qm_put (quickMatchs s) (registration (heap s cs) req)\<rparr>
       in (reply w (Pb ''RequestRegisterQuickMatchResponse'' []),
           if QuickMatchAutoPair (gameConfig w)
           then autoPair w cs (getI64 req ''OnlineAreaId'') (getI64 req ''CellId'') (getEnum 0 req ''Mode'') s1
           else s1))"

definition quickMatchRemovedMsg :: "quickMatch \<Rightarrow> pbmsg" where
  "quickMatchRemovedMsg m =
     Pb ''PushRequestRemoveQuickMatch''
       [(''PushMessageId'', PEnum (quickMatchPushIDFor (qmMode m) quickMatchRoleRemove)),
        (''PlayerId'', PI64 (ucast (qmPlayerID m))), (''OnlineAreaId'', PI64 (qmAreaID m)),
        (''CellId'', PI64 (qmCellID m)), (''PlayerPsnId'', PStr (qmPsnID m)), (''Mode'', PEnum (qmMode m))]"

definition pushQuickMatchRemoved :: "World \<Rightarrow> quickMatch \<Rightarrow> Service \<Rightarrow> Service" where
  "pushQuickMatchRemoved w m s =
     (case marshal w (quickMatchRemovedMsg m) of
        None \<Rightarrow> s
      | Some body \<Rightarrow>
          pushToAware w 0 (qmPlayerID m) body
            (filter (\<lambda>p. p \<in> qmAwareOf m) (awareOrd w (qmPlayerID m))) s)"

definition dropQuickMatchForPlayer :: "World \<Rightarrow> u32 \<Rightarrow> Service \<Rightarrow> Service" where
  "dropQuickMatchForPlayer w p s =
     (case qm_remove (quickMatchs s) p of
        (None, _) \<Rightarrow> s
      | (Some m, q) \<Rightarrow> pushQuickMatchRemoved w m (s\<lparr>quickMatchs := q\<rparr>))"

definition handleUnregisterQuickMatch :: handler where
  "handleUnregisterQuickMatch w cs pay s =
     parse w ''RequestUnregisterQuickMatch'' pay s (\<lambda>req.
       (reply w (Pb ''RequestUnregisterQuickMatchResponse'' []),
        dropQuickMatchForPlayer w (playerID (heap s cs)) s))"

definition handleUpdateQuickMatch :: handler where
  "handleUpdateQuickMatch w cs pay s =
     parse w ''RequestUpdateQuickMatch'' pay s (\<lambda>req.
       (reply w (Pb ''RequestUpdateQuickMatchResponse'' []), s))"

definition handleSearchQuickMatch :: handler where
  "handleSearchQuickMatch w cs pay s =
     parse w ''RequestSearchQuickMatch'' pay s (\<lambda>req.
       let me = playerID (heap s cs);
           q = qm_put (quickMatchs s) (registration (heap s cs) req);
           found = qm_search (storeOrd w) q (getI64 req ''OnlineAreaId'') (getI64 req ''CellId'')
                     (getEnum 0 req ''Mode'') me (sint (getI64 req ''MaxResults''));
           q' = foldl (\<lambda>q m. qm_markAware q (qmPlayerID m) me) q found
       in (reply w (Pb ''RequestSearchQuickMatchResponse'' [(''Matches'', repMsgs (map quickMatchToProto found))]),
           s\<lparr>quickMatchs := q'\<rparr>))"

definition pushQuickMatchRejected :: "World \<Rightarrow> ptr \<Rightarrow> u32 \<Rightarrow> 64 word \<Rightarrow> 64 word \<Rightarrow> int \<Rightarrow> Service \<Rightarrow> Service" where
  "pushQuickMatchRejected w joiner hostID area cell mode s =
     pushMsg w joiner
       (Pb ''PushRequestRejectQuickMatch''
          [(''PushMessageId'', PEnum (quickMatchPushIDFor mode quickMatchRoleReject)),
           (''PlayerId'', PI64 (ucast hostID)), (''PlayerPsnId'', PStr (accountID (heap s joiner))),
           (''OnlineAreaId'', PI64 area), (''CellId'', PI64 cell), (''Mode'', PEnum mode),
           (''Unknown_7'', PI64 0)]) s"

definition handleJoinQuickMatch :: handler where
  "handleJoinQuickMatch w cs pay s =
     parse w ''RequestJoinQuickMatch'' pay s (\<lambda>req.
       let hostID = ucast (getI64 req ''PlayerId''); area = getI64 req ''OnlineAreaId'';
           cell = getI64 req ''CellId''; mode = getEnum 0 req ''Mode'';
           ok = reply w (Pb ''RequestJoinQuickMatchResponse'' [])
       in case lookupPlayer w 0 hostID s of
            None \<Rightarrow> (ok, pushQuickMatchRejected w cs hostID area cell mode s)
          | Some host \<Rightarrow>
              (case marshal w (joinMsg (heap s cs) area cell mode) of
                 None \<Rightarrow> (Inl ''build PushRequestJoinQuickMatch'', s)
               | Some body \<Rightarrow> (ok, sendPush w host body s)))"

definition handleRejectQuickMatch :: handler where
  "handleRejectQuickMatch w cs pay s =
     parse w ''RequestRejectQuickMatch'' pay s (\<lambda>req.
       (reply w (Pb ''RequestRejectQuickMatchResponse'' []),
        case lookupPlayer w 0 (ucast (getI64 req ''PlayerId'')) s of
          None \<Rightarrow> s
        | Some joiner \<Rightarrow>
            pushQuickMatchRejected w joiner (playerID (heap s cs)) (getI64 req ''OnlineAreaId'')
              (getI64 req ''CellId'') (getEnum 0 req ''Mode'') s))"

subsection \<open>What these handlers leave alone\<close>

lemma frame_breakInRejected [frame_intros]: "frame cs s s' \<Longrightarrow> frame cs s (pushBreakInRejected w t h s')"
  by (simp add: pushBreakInRejected_def frame_pushMsg)

lemma frame_visitRejected [frame_intros]: "frame cs s s' \<Longrightarrow> frame cs s (pushVisitRejected w t g v s')"
  by (simp add: pushVisitRejected_def frame_pushMsg)

lemma frame_quickMatchRejected [frame_intros]:
  "frame cs s s' \<Longrightarrow> frame cs s (pushQuickMatchRejected w t h a c m s')"
  by (simp add: pushQuickMatchRejected_def frame_pushMsg)

lemma frame_quickMatchRemoved [frame_intros]: "frame cs s s' \<Longrightarrow> frame cs s (pushQuickMatchRemoved w m s')"
  by (simp add: pushQuickMatchRemoved_def pushToAware_frame split: option.split)

lemma frame_dropQuickMatch [frame_intros]: "frame cs s s' \<Longrightarrow> frame cs s (dropQuickMatchForPlayer w p s')"
  by (auto simp: dropQuickMatchForPlayer_def intro!: frame_intros split: option.split prod.split)

lemma frame_autoPair [frame_intros]: "frame cs s s' \<Longrightarrow> frame cs s (autoPair w j a c m s')"
  by (auto simp: autoPair_def intro!: frame_intros split: option.split list.split)

lemma match_frames:
  "frame cs s (snd (handleGetBreakInTargetList w cs pay s))"
  "frame cs s (snd (handleBreakInTarget w cs pay s))"
  "frame cs s (snd (handleRejectBreakInTarget w cs pay s))"
  "frame cs s (snd (handleGetVisitorList w cs pay s))"
  "frame cs s (snd (handleVisit w cs pay s))"
  "frame cs s (snd (handleRejectVisit w cs pay s))"
  unfolding handleGetBreakInTargetList_def handleBreakInTarget_def handleRejectBreakInTarget_def
    handleGetVisitorList_def handleVisit_def handleRejectVisit_def Let_def
  by (auto intro!: frame_intros split: option.split)

lemma arena_frames:
  "frame cs s (snd (handleRegisterQuickMatch w cs pay s))"
  "frame cs s (snd (handleUnregisterQuickMatch w cs pay s))"
  "frame cs s (snd (handleUpdateQuickMatch w cs pay s))"
  "frame cs s (snd (handleSearchQuickMatch w cs pay s))"
  "frame cs s (snd (handleJoinQuickMatch w cs pay s))"
  "frame cs s (snd (handleRejectQuickMatch w cs pay s))"
  unfolding handleRegisterQuickMatch_def handleUnregisterQuickMatch_def handleUpdateQuickMatch_def
    handleSearchQuickMatch_def handleJoinQuickMatch_def handleRejectQuickMatch_def Let_def
  by (auto intro!: frame_intros split: option.split)


subsection \<open>Who can be invaded\<close>

lemma set_othersOf: "orders_valid w s \<Longrightarrow> set (othersOf w s) = {heap s p |p. online s p}"
  by (auto simp: othersOf_def orders_valid_def online_def set_range_vals_order)

lemma gather_complete:
  assumes "x \<in> set xs" "\<not> skip x"
  shows "x \<in> set (gather limit skip [] xs) \<or> 0 < limit \<and> int (length (gather limit skip [] xs)) = limit"
proof (cases "0 < limit \<and> limit < int (length (filter (\<lambda>x. \<not> skip x) xs))")
  case True
  with assms show ?thesis by (simp add: gather_Nil_eq min_def)
next
  case False
  then have "gather limit skip [] xs = filter (\<lambda>x. \<not> skip x) xs"
    by (auto simp: gather_Nil_eq)
  with assms show ?thesis by simp
qed

text \<open>
  C14: who is offered to an invader while the filters are on. Every player offered is a connected player
  other than the invader, in a place that counts as online, neither resting at a bonfire nor protected by
  a burnt effigy, whose soul memory lies in the invader's band or at most four bands above; for the blue
  orb a player known to have fewer than ten sin points is left out, for the others a player from another
  area. The list respects the maximum, and a player who qualifies is missing only when the list is full. The
  phantom target the handler can add for debugging is not part of this list.
\<close>

theorem invasion_targets:
  assumes "orders_valid w s" "filtering w"
  shows "let ts = breakInTargets w req me s; limit = uint (getU32 req ''MaxTargets'');
       sm = nilU32 (getMsg req ''MatchingParameter'') ''SoulMemory''; blue = (getEnum 0 req ''Type'' = 2);
       ok = (\<lambda>c. let p = profile c in
         playerID c \<noteq> 0 \<and> playerID c \<noteq> playerID me \<and> received p \<and> onlineActivityArea p \<noteq> 0 \<and>
         \<not> sittingAtBonfire p \<and> \<not> humanEffigyBurnt p \<and>
         soulMemoryTier sm \<le> soulMemoryTier (effectiveSoulMemory p) \<and>
         soulMemoryTier (effectiveSoulMemory p) \<le> soulMemoryTier sm + 4 \<and>
         (if blue then \<not> statsSeen p \<or> 10 \<le> sinnerPoints p
          else onlineArea p = getU32 req ''OnlineAreaId''))
     in (\<forall>c \<in> set ts. ok c \<and> (\<exists>t. online s t \<and> c = heap s t)) \<and>
        (0 < limit \<longrightarrow> int (length ts) \<le> limit) \<and>
        (\<forall>t. online s t \<and> ok (heap s t) \<longrightarrow> heap s t \<in> set ts \<or> 0 < limit \<and> int (length ts) = limit)"
proof -
  define limit where "limit = uint (getU32 req ''MaxTargets'')"
  define sm where "sm = nilU32 (getMsg req ''MatchingParameter'') ''SoulMemory''"
  define skip where "skip = breakInSkips True req sm me"
  have ts: "breakInTargets w req me s = gather limit skip [] (othersOf w s)"
    using assms(2) by (simp add: breakInTargets_def limit_def sm_def skip_def)
  have iff: "\<not> skip c \<longleftrightarrow> (let p = profile c in
      playerID c \<noteq> 0 \<and> playerID c \<noteq> playerID me \<and> received p \<and> onlineActivityArea p \<noteq> 0 \<and>
      \<not> sittingAtBonfire p \<and> \<not> humanEffigyBurnt p \<and>
      soulMemoryTier sm \<le> soulMemoryTier (effectiveSoulMemory p) \<and>
      soulMemoryTier (effectiveSoulMemory p) \<le> soulMemoryTier sm + 4 \<and>
      (if getEnum 0 req ''Type'' = 2 then \<not> statsSeen p \<or> 10 \<le> sinnerPoints p
       else onlineArea p = getU32 req ''OnlineAreaId''))" for c
    unfolding skip_def breakInSkips_def Let_def isOther_def isInvadable_def soulMemoryMatches_def
      breakInTierWindow_def BlueEyeOrb_def minSinForBlueOrb_def
    by (auto simp: not_less)
  have "set (gather limit skip [] (othersOf w s)) \<subseteq> {c. \<not> skip c \<and> (\<exists>t. online s t \<and> c = heap s t)}"
    using set_gather [of limit skip "othersOf w s"] set_othersOf [OF assms(1)] by auto
  moreover have "heap s t \<in> set (gather limit skip [] (othersOf w s)) \<or>
      0 < limit \<and> int (length (gather limit skip [] (othersOf w s))) = limit"
    if "online s t" "\<not> skip (heap s t)" for t
    using that set_othersOf [OF assms(1)] by (intro gather_complete) auto
  moreover have "0 < limit \<longrightarrow> int (length (gather limit skip [] (othersOf w s))) \<le> limit"
    using length_gather by blast
  ultimately show ?thesis
    unfolding Let_def limit_def [symmetric] sm_def [symmetric] ts iff [unfolded Let_def, symmetric] by blast
qed

definition demo_hunted :: Service where
  "demo_hunted = modify (\<lambda>c. c\<lparr>profile := (profile c)\<lparr>received := True, onlineActivityArea := 5,
     onlineArea := 3, soulMemory := 20000\<rparr>\<rparr>) 0 demo_service"

theorem invasion_targets_witness:
  "let req = Pb ''RequestGetBreakInTargetList'' [(''OnlineAreaId'', PU32 3),
         (''MatchingParameter'', PMsg (Pb ''MatchingParameter'' [(''SoulMemory'', PU32 15000)]))];
       ts = breakInTargets (demo_world req) req (heap demo_hunted 1) demo_hunted
   in heap demo_hunted 0 \<in> set ts \<and> (\<forall>c \<in> set ts. playerID c \<noteq> 8)"
proof -
  define req where "req = Pb ''RequestGetBreakInTargetList'' [(''OnlineAreaId'', PU32 3),
    (''MatchingParameter'', PMsg (Pb ''MatchingParameter'' [(''SoulMemory'', PU32 15000)]))]"
  define me where "me = heap demo_hunted 1"
  have same: "sessions demo_hunted = sessions demo_service" by (simp add: demo_hunted_def)
  have ov: "orders_valid (demo_world req) demo_hunted" by (rule demo_orders) (rule same)
  have fl: "filtering (demo_world req)" by (simp add: filtering_def demo_world_def matchmakingEnabled_def)
  have fields: "getU32 req ''OnlineAreaId'' = 3" "getU32 req ''MaxTargets'' = 0" "getEnum 0 req ''Type'' = 0"
    "nilU32 (getMsg req ''MatchingParameter'') ''SoulMemory'' = 15000"
    by (simp_all add: req_def pb_simps)
  have host: "playerID (heap demo_hunted 0) = 7" "profile (heap demo_hunted 0) =
      emptyProfile\<lparr>received := True, onlineActivityArea := 5, onlineArea := 3, soulMemory := 20000\<rparr>"
    "playerID me = 8"
    by (simp_all add: me_def demo_hunted_def demo_service_def demo_client_def)
  have tiers: "soulMemoryTier 15000 = 1" "soulMemoryTier 20000 = 2"
    by (simp_all add: soulMemoryTier_def soulMemoryTiers_def)
  have on: "online demo_hunted 0" using demo_online(1) by (simp add: online_def same)
  note offered = invasion_targets [OF ov fl, of req me, unfolded Let_def fields host(3)]
  have "heap demo_hunted 0 \<in> set (breakInTargets (demo_world req) req me demo_hunted)"
    using offered [THEN conjunct2, THEN conjunct2, THEN spec, of 0] on host(1,2) tiers
    by (simp add: emptyProfile_def effectiveSoulMemory_def)
  moreover have "\<forall>c \<in> set (breakInTargets (demo_world req) req me demo_hunted). playerID c \<noteq> 8"
    using offered [THEN conjunct1] by blast
  ultimately show ?thesis unfolding Let_def req_def [symmetric] me_def by blast
qed


subsection \<open>Push aliases\<close>

lemma sint_small: "0 \<le> n \<Longrightarrow> n < 2 ^ 31 \<Longrightarrow> sint (word_of_int n :: 32 word) = n"
  by (simp add: signed_take_bit_int_eq_self sint_sbintrunc' take_bit_int_eq_self)

text \<open>
  The numbers under which pushes are sent. Visit pushes stay in the block 0x3C9 to 0x3D1 for every
  covenant number, arena pushes in 0x3E0 to 0x3E7, and invasion pushes of the two known orbs in 0x3B9 to
  0x3C8, with different numbers for different modes and roles. The invasion block is not clamped: an
  invasion of type 4 is pushed under the numbers of the Blue Sentinel visits.
\<close>

theorem push_alias_blocks:
  "(0 \<le> r \<and> r \<le> 2 \<longrightarrow> visitorPushIDFor m r \<in> {0x3C9..0x3D1}) \<and>
   (0 \<le> r \<and> r \<le> 3 \<longrightarrow> quickMatchPushIDFor m r \<in> {0x3E0..0x3E7}) \<and>
   (0 \<le> r \<and> r \<le> 2 \<and> m \<in> {0, 2} \<longrightarrow> breakInPushIDFor m r \<in> {0x3B9..0x3C8}) \<and>
   inj_on (\<lambda>(m, r). visitorPushIDFor m r) ({0..2} \<times> {0..2}) \<and>
   inj_on (\<lambda>(m, r). quickMatchPushIDFor m r) ({0..1} \<times> {0..3}) \<and>
   inj_on (\<lambda>(m, r). breakInPushIDFor m r) ({0..3} \<times> {0..3}) \<and>
   breakInPushIDFor 4 r = visitorPushIDFor 0 r"
proof -
  have v: "visitorPushIDFor m r = 0x3C9 + 3 * (if m < 0 \<or> 3 \<le> m then 0 else m) + r"
    if "0 \<le> r" "r \<le> 2" for m r
    using that unfolding visitorPushIDFor_def visitorModes_def visitorPushBase_def Let_def
    by (subst sint_small) auto
  have q: "quickMatchPushIDFor m r = 0x3E0 + 2 * r + (if m = 1 then 0 else 1)" if "0 \<le> r" "r \<le> 3" for m r
    using that unfolding quickMatchPushIDFor_def quickMatchPushBase_def Let_def by (subst sint_small) auto
  have b: "breakInPushIDFor m r = 0x3B9 + 4 * m + r" if "0 \<le> r" "r \<le> 3" "0 \<le> m" "m \<le> 3" for m r
    using that unfolding breakInPushIDFor_def breakInPushBase_def by (subst sint_small) auto
  have "breakInPushIDFor 4 r = visitorPushIDFor 0 r"
    by (simp add: breakInPushIDFor_def visitorPushIDFor_def breakInPushBase_def visitorPushBase_def
        visitorModes_def)
  moreover have "inj_on (\<lambda>(m, r). visitorPushIDFor m r) ({0..2} \<times> {0..2})"
    by (rule inj_onI) (auto simp: v; presburger)
  moreover have "inj_on (\<lambda>(m, r). quickMatchPushIDFor m r) ({0..1} \<times> {0..3})"
    by (rule inj_onI) (auto simp: q split: if_splits; presburger)
  moreover have "inj_on (\<lambda>(m, r). breakInPushIDFor m r) ({0..3} \<times> {0..3})"
    by (rule inj_onI) (auto simp: b; presburger)
  ultimately show ?thesis by (auto simp: v q b)
qed

theorem push_alias_blocks_witness:
  "visitorPushIDFor 3 2 \<in> {0x3C9..0x3D1} \<and> breakInPushIDFor 4 1 = visitorPushIDFor 0 1"
  using push_alias_blocks [of 2 3] push_alias_blocks [of 1 0] by simp

end
