(* ===== verification/World_Service.thy ===== *)
theory World_Service
  imports Player_Service Match_Service
begin

section \<open>Bells, world statistics, link checks and login\<close>

text \<open>
  The handlers of internal/server/game/telemetry.go, matchingarea.go, connection.go, managementtext.go and
  boot.go, and the sending of resource pushes (regulationpush.go). A run of spaced pushes is a goroutine;
  its iterations are steps of their own.
\<close>

subsection \<open>Bells\<close>

definition bellRegions :: "u32 \<Rightarrow> u32 list option" where
  "bellRegions m =
     (if m = 10160000 then Some [10160000] else if m = 10190000 then Some [10190000] else None)"

definition bellRegionFor :: "World \<Rightarrow> u32 \<Rightarrow> u32 list" where
  "bellRegionFor w ringMap =
     (let over = numberList (getenv w (''DSO_BELL_REGION_'' @ decimal (unat ringMap)))
      in if getenv w (''DSO_BELL_REGION_'' @ decimal (unat ringMap)) \<noteq> [] \<and> over \<noteq> [] then over
         else case bellRegions ringMap of Some r \<Rightarrow> r | None \<Rightarrow> [ringMap])"

definition bellReaches :: "World \<Rightarrow> u32 \<Rightarrow> u32 \<Rightarrow> bool" where
  "bellReaches w ringMap area \<longleftrightarrow> area \<noteq> 0 \<and> area \<in> set (bellRegionFor w ringMap)"

definition bellBroadcastEnabled :: "World \<Rightarrow> bool" where
  "bellBroadcastEnabled w \<longleftrightarrow>
     (let v = getenv w ''DSO_BELL_BROADCAST''
      in v = [] \<or> (case parseBool v of None \<Rightarrow> True | Some on \<Rightarrow> on))"

definition tollMsg :: "u32 \<Rightarrow> u32 \<Rightarrow> pbmsg" where
  "tollMsg p m =
     Pb ''PushRequestNotifyRingBell''
       [(''PushMessageId'', PEnum 1007), (''Field_2'', PU32 p), (''Field_3'', PU32 m), (''Field_4'', PBytes [])]"

fun tollLoop :: "World \<Rightarrow> (clientSession \<Rightarrow> bool) \<Rightarrow> bytes \<Rightarrow> ptr list \<Rightarrow> Service \<Rightarrow> Service" where
  "tollLoop w hears body [] s = s"
| "tollLoop w hears body (t # ts) s =
     tollLoop w hears body ts (if hears (heap s t) then sendPush w t body s else s)"

definition broadcastBellToll :: "World \<Rightarrow> ptr \<Rightarrow> u32 \<Rightarrow> Service \<Rightarrow> Service" where
  "broadcastBellToll w from mapID s =
     (if \<not> bellBroadcastEnabled w then s
      else
        let me = playerID (heap s from)
        in case marshal w (tollMsg me mapID) of
             None \<Rightarrow> s
           | Some body \<Rightarrow>
               tollLoop w (\<lambda>c. playerID c \<noteq> 0 \<and> playerID c \<noteq> me \<and> bellReaches w mapID (onlineArea (profile c)))
                 body (range_vals (sessions s) (allOrd w)) s)"

text \<open>A bell that does not parse is only logged.\<close>

definition handleNotifyRingBell :: handler where
  "handleNotifyRingBell w cs pay s =
     (case unmarshal w ''RequestNotifyRingBell'' pay of
        None \<Rightarrow> (noReply, s)
      | Some req \<Rightarrow> (noReply, broadcastBellToll w cs (getU32 req ''Field_1'') s))"

definition testBellMapID :: "World \<Rightarrow> u32" where
  "testBellMapID w =
     (case parseUint 32 (getenv w ''DSO_BELL_TEST_MAP'') of
        Some n \<Rightarrow> if 0 < n then of_nat n else 10160000
      | None \<Rightarrow> 10160000)"

definition testBellInterval :: "World \<Rightarrow> duration" where
  "testBellInterval w =
     (case atoi (getenv w ''DSO_BELL_TEST_SECONDS'') of
        Some n \<Rightarrow> if n \<le> 0 then 0 else sint (word_of_int (n * second) :: 64 word)
      | None \<Rightarrow> 0)"

definition maybeSendTestBellToll :: "World \<Rightarrow> Service \<Rightarrow> Service" where
  "maybeSendTestBellToll w s =
     (let every = testBellInterval w; t = now (clock w)
      in if every \<le> 0 \<or> \<not> bellBroadcastEnabled w then s
         else if lastTestBell s \<noteq> 0 \<and> time_sub t (lastTestBell s) < every then s
         else
           let s1 = s\<lparr>lastTestBell := t\<rparr>
           in case marshal w (tollMsg 0 (testBellMapID w)) of
                None \<Rightarrow> s1
              | Some body \<Rightarrow>
                  tollLoop w (\<lambda>c. playerID c \<noteq> 0) body (range_vals (sessions s1) (allOrd w)) s1)"


subsection \<open>Notifications\<close>

definition notifyOnly :: "string \<Rightarrow> handler" where
  "notifyOnly name w cs pay s = parse w name pay s (\<lambda>req. (noReply, s))"

definition handleNotifyJoinSession :: handler where
  "handleNotifyJoinSession = notifyOnly ''RequestNotifyJoinSession''"

definition handleNotifyLeaveSession :: handler where
  "handleNotifyLeaveSession = notifyOnly ''RequestNotifyLeaveSession''"

definition handleNotifyJoinGuestPlayer :: handler where
  "handleNotifyJoinGuestPlayer = notifyOnly ''RequestNotifyJoinGuestPlayer''"

definition handleNotifyLeaveGuestPlayer :: handler where
  "handleNotifyLeaveGuestPlayer = notifyOnly ''RequestNotifyLeaveGuestPlayer''"

definition handleNotifyDisconnectSession :: handler where
  "handleNotifyDisconnectSession = notifyOnly ''RequestNotifyDisconnectSession''"

definition plausibleKills :: "pbmsg \<Rightarrow> int" where
  "plausibleKills req =
     foldl (\<lambda>total e. let n = sint (getI64 e ''EnemyCount'')
                      in if n \<le> 0 \<or> maxOfflineDeathBatch < n then total else total + n)
       0 (getMsgs req ''EnemyCount'')"

definition handleNotifyKillEnemy :: handler where
  "handleNotifyKillEnemy w cs pay s =
     parse w ''RequestNotifyKillEnemy'' pay s (\<lambda>req.
       let total = plausibleKills req
       in if total = 0 then (noReply, s)
          else storing (AddCounter ''world.enemies_killed'' total) s (\<lambda>_ s1. (noReply, s1)))"

definition handleNotifyBuyItem :: handler where
  "handleNotifyBuyItem w cs pay s =
     parse w ''RequestNotifyBuyItem'' pay s (\<lambda>req.
       let qty = uint (getU32 req ''Quantity''); souls = uint (getU32 req ''SoulsSpent'');
           spend = (\<lambda>s1. if 0 < souls then storing (AddCounter ''world.souls_spent'' souls) s1 (\<lambda>_ s2. (noReply, s2))
                         else (noReply, s1))
       in if 0 < qty \<and> qty \<le> maxOfflineDeathBatch
          then storing (AddCounter ''world.items_bought'' qty) s (\<lambda>_ s1. spend s1)
          else spend s)"


subsection \<open>Where the players are\<close>

definition matchingAreaReportLimit :: nat where "matchingAreaReportLimit = 3"

text \<open>The loop counts the players of each area; the entries come out sorted, so the order of the map is lost.\<close>

definition countedAreas :: "World \<Rightarrow> Service \<Rightarrow> u32 list" where
  "countedAreas w s =
     map areaID (filter (\<lambda>c. playerID c \<noteq> 0 \<and> areaID c \<noteq> 0) (map (heap s) (range_vals (sessions s) (allOrd w))))"

definition areaReport :: "u32 list \<Rightarrow> (u32 \<times> u32) list" where
  "areaReport as =
     take matchingAreaReportLimit
       (sort_key (\<lambda>(a, n). (- uint n, a)) (map (\<lambda>a. (a, of_nat (count_list as a))) (remdups as)))"

definition handleGetRightMatchingArea :: handler where
  "handleGetRightMatchingArea w cs pay s =
     parse w ''RequestGetRightMatchingArea'' pay s (\<lambda>req.
       (reply w (Pb ''RequestGetRightMatchingAreaResponse''
          [(''AreaInfo'', repMsgs (map (\<lambda>(a, n). Pb ''AreaInfo''
              [(''OnlineAreaId'', PU32 a), (''Population'', PU32 n)]) (areaReport (countedAreas w s))))]), s))"


subsection \<open>Link checks\<close>

definition emptyAnswer :: "string \<Rightarrow> string \<Rightarrow> handler" where
  "emptyAnswer req resp w cs pay s = parse w req pay s (\<lambda>_. (reply w (Pb resp []), s))"

definition handleServerPing :: handler where
  "handleServerPing = emptyAnswer ''ServerPing'' ''ServerPing''"

definition handleMeasureUploadBandwidth :: handler where
  "handleMeasureUploadBandwidth = emptyAnswer ''RequestMeasureUploadBandwidth'' ''RequestMeasureUploadBandwidthResponse''"

definition handleMeasureDownloadBandwidth :: handler where
  "handleMeasureDownloadBandwidth =
     emptyAnswer ''RequestMeasureDownloadBandwidth'' ''RequestMeasureDownloadBandwidthResponse''"

definition handleBenchmarkThroughput :: handler where
  "handleBenchmarkThroughput = emptyAnswer ''RequestBenchmarkThroughput'' ''RequestBenchmarkThroughputResponse''"


subsection \<open>Login\<close>

definition handleGetAnnounceMessageList :: handler where
  "handleGetAnnounceMessageList w cs pay s =
     parse w ''RequestGetAnnounceMessageList'' pay s (\<lambda>req.
       (reply w (Pb ''RequestGetAnnounceMessageListResponse''
          [(''Changes'', PMsg (Pb ''AnnounceMessageDataList'' [])),
           (''Notices'', PMsg (Pb ''AnnounceMessageDataList'' []))]), s))"

definition sendManagementText :: "World \<Rightarrow> ptr \<Rightarrow> Service \<Rightarrow> Service" where
  "sendManagementText w cs s =
     (let txt = ManagementText (gameConfig w)
      in if txt = [] then s
         else pushMsg w cs
                (Pb ''ManagementTextMessage''
                   [(''PushMessageId'', PEnum 0x389), (''Message'', PStr txt), (''Timestamp'', PMsg (dateTime 2021)),
                    (''Unknown_4'', PU32 (ucast (ManagementTextLanguage (gameConfig w)))), (''Unknown_5'', PU32 0)]) s)"

definition pushResource :: "World \<Rightarrow> ptr \<Rightarrow> resourcePush \<Rightarrow> Service \<Rightarrow> Service" where
  "pushResource w cs p s =
     (if regulationPushEntries (gameConfig w) (rpPath p) (rpData p) = [] then s
      else pushMsg w cs (resourceMsg (gameConfig w) p) s)"

text \<open>\<open>time.Duration(seconds) * time.Second\<close> in 64 bits.\<close>

definition secondsOf :: "u64 \<Rightarrow> duration" where
  "secondsOf n = sint (n * word_of_int second)"

definition wakeAfter :: "World \<Rightarrow> duration \<Rightarrow> time option" where
  "wakeAfter w d = (if 0 < d then Some (now (clock w) + d) else None)"

definition sendResourcePushes :: "World \<Rightarrow> ptr \<Rightarrow> resourcePush list \<Rightarrow> Service \<Rightarrow> Service" where
  "sendResourcePushes w cs pushes s =
     (let delay = secondsOf (RegulationPushDelaySeconds (gameConfig w))
      in if pushes = [] then s
         else if delay \<le> 0 \<and> length pushes = 1 then pushResource w cs (hd pushes) s
         else s\<lparr>pushRuns := pushRuns s @ [\<lparr>runTo = cs, runRest = pushes, runWake = wakeAfter w delay\<rparr>]\<rparr>)"

text \<open>
  One iteration of the goroutine: it sleeps until its time or until the session is closed, where \<open>pick\<close>
  is the choice of the select when both are so, and sends the next push.
\<close>

definition afterPush :: "World \<Rightarrow> pushRun \<Rightarrow> pushRun list" where
  "afterPush w r =
     (if tl (runRest r) = [] then []
      else [r\<lparr>runRest := tl (runRest r),
              runWake := wakeAfter w (secondsOf (RegulationPushGapSeconds (gameConfig w)))\<rparr>])"

definition pushRunStep :: "World \<Rightarrow> bool \<Rightarrow> nat \<Rightarrow> Service \<Rightarrow> Service" where
  "pushRunStep w pick i s =
     (let r = pushRuns s ! i;
          put = (\<lambda>rs s. s\<lparr>pushRuns := take i (pushRuns s) @ rs @ drop (Suc i) (pushRuns s)\<rparr>);
          send = put (afterPush w r) (pushResource w (runTo r) (hd (runRest r)) s)
      in if length (pushRuns s) \<le> i then s
         else
           case runWake r of
             None \<Rightarrow> send
           | Some t \<Rightarrow>
               if closed (heap s (runTo r)) \<and> (pick \<or> now (clock w) < t) then put [] s
               else if t \<le> now (clock w) then send
               else s)"

definition handleWaitForUserLogin :: handler where
  "handleWaitForUserLogin w cs pay s =
     parse w ''RequestWaitForUserLogin'' pay s (\<lambda>req.
       let account = getStr req ''PsnId''
       in if account = [] then (Inl ''RequestWaitForUserLogin has an empty account id'', s)
          else
            storing (PlayerID account) (modify (\<lambda>c. c\<lparr>accountID := account\<rparr>) cs s) (\<lambda>p s1.
              let s2 = modify (\<lambda>c. c\<lparr>playerID := p\<rparr>) cs s1;
                  s3 = sendManagementText w cs s2;
                  s4 = sendResourcePushes w cs (loginResourcePushes (gameConfig w) (resourceEnv w)) s3
              in (reply w (Pb ''RequestWaitForUserLoginResponse''
                    [(''PsnId'', PStr account), (''PlayerId'', PU32 p)]), s4)))"


subsection \<open>What these handlers leave alone\<close>

lemma frame_tollLoop [frame_intros]: "frame cs s s' \<Longrightarrow> frame cs s (tollLoop w h body ts s')"
  by (induction ts arbitrary: s') (auto intro: frame_intros)

lemma frame_broadcast [frame_intros]: "frame cs s s' \<Longrightarrow> frame cs s (broadcastBellToll w from m s')"
  by (auto simp: broadcastBellToll_def Let_def intro!: frame_intros split: option.split)

lemma frame_managementText [frame_intros]: "frame cs s s' \<Longrightarrow> frame cs s (sendManagementText w t s')"
  by (auto simp: sendManagementText_def Let_def intro!: frame_intros)

lemma frame_pushResource [frame_intros]: "frame cs s s' \<Longrightarrow> frame cs s (pushResource w t p s')"
  by (auto simp: pushResource_def intro!: frame_intros)

lemma frame_resourcePushes [frame_intros]: "frame cs s s' \<Longrightarrow> frame cs s (sendResourcePushes w t ps s')"
  by (auto simp: sendResourcePushes_def Let_def intro!: frame_intros)

lemma notify_frames:
  "frame cs s (snd (notifyOnly name w cs pay s))"
  "frame cs s (snd (emptyAnswer a b w cs pay s))"
  "frame cs s (snd (handleNotifyRingBell w cs pay s))"
  "frame cs s (snd (handleNotifyKillEnemy w cs pay s))"
  "frame cs s (snd (handleNotifyBuyItem w cs pay s))"
  "frame cs s (snd (handleGetRightMatchingArea w cs pay s))"
  "frame cs s (snd (handleGetAnnounceMessageList w cs pay s))"
  unfolding notifyOnly_def emptyAnswer_def handleNotifyRingBell_def handleNotifyKillEnemy_def
    handleNotifyBuyItem_def handleGetRightMatchingArea_def handleGetAnnounceMessageList_def Let_def
  by (auto intro!: frame_intros split: option.split)

lemma login_frame: "frame cs s (snd (handleWaitForUserLogin w cs pay s))"
  unfolding handleWaitForUserLogin_def Let_def by (auto intro!: frame_intros)

subsection \<open>Who hears a bell\<close>

lemma tollLoop_sendAll:
  assumes "\<And>c x. hears (c\<lparr>conn := x\<rparr>) = hears c"
  shows "tollLoop w hears body ts s =
    sendAll w (map (\<lambda>t. (t, body)) (filter (\<lambda>t. hears (heap s t)) ts)) s"
proof (induction ts arbitrary: s)
  case Nil
  show ?case by simp
next
  case (Cons t ts)
  have "hears (heap (sendPush w t body s) c) = hears (heap s c)" for c
    using assms by (simp add: sendPush_def)
  with Cons [of "sendPush w t body s"] Cons [of s] show ?case by simp
qed

text \<open>A broadcast sends one body to the sessions picked by the loop over the map of sessions.\<close>

lemma broadcast_picks:
  assumes "orders_valid w s" "bellBroadcastEnabled w"
    and "marshal w (tollMsg (playerID (heap s from)) m) = Some body"
  shows "\<exists>ts. broadcastBellToll w from m s = sendAll w (map (\<lambda>t. (t, body)) ts) s \<and>
    set ts = {t. online s t \<and> playerID (heap s t) \<noteq> 0 \<and> playerID (heap s t) \<noteq> playerID (heap s from) \<and>
      bellReaches w m (onlineArea (profile (heap s t)))}"
proof -
  define hears where "hears c \<longleftrightarrow> playerID c \<noteq> 0 \<and> playerID c \<noteq> playerID (heap s from) \<and>
    bellReaches w m (onlineArea (profile c))" for c :: clientSession
  define ts where "ts = filter (\<lambda>t. hears (heap s t)) (range_vals (sessions s) (allOrd w))"
  have "broadcastBellToll w from m s = tollLoop w hears body (range_vals (sessions s) (allOrd w)) s"
    unfolding broadcastBellToll_def hears_def using assms(2,3) by (simp add: Let_def)
  also have "\<dots> = sendAll w (map (\<lambda>t. (t, body)) ts) s"
    unfolding ts_def by (rule tollLoop_sendAll) (simp add: hears_def)
  finally have "broadcastBellToll w from m s = sendAll w (map (\<lambda>t. (t, body)) ts) s" .
  moreover have "set (range_vals (sessions s) (allOrd w)) = {t. online s t}"
    using assms(1) by (simp add: orders_valid_def set_range_vals_order online_def)
  ultimately show ?thesis by (auto simp: ts_def hears_def intro!: exI [of _ ts])
qed

lemma own_belfry: "getenv w (''DSO_BELL_REGION_'' @ decimal (unat m)) = [] \<Longrightarrow> set (bellRegionFor w m) = {m}"
  by (simp add: bellRegionFor_def bellRegions_def Let_def)

text \<open>
  The area 0 is that of a player whose profile has not arrived. The comment of broadcastBellToll wants such
  a player to get the toll; bellReaches turns the player away.
\<close>

lemma unknown_area_hears_nothing:
  assumes "orders_valid w s" "bellBroadcastEnabled w"
    and "marshal w (tollMsg (playerID (heap s from)) m) = Some body"
  shows "\<exists>ts. broadcastBellToll w from m s = sendAll w (map (\<lambda>t. (t, body)) ts) s \<and>
    (\<forall>t\<in>set ts. onlineArea (profile (heap s t)) \<noteq> 0)"
  using broadcast_picks [OF assms] by (auto simp: bellReaches_def)

text \<open>
  C28: who hears a bell. With broadcasting switched off, or a toll the library refuses, nothing changes.
  Otherwise the toll is queued only for live sessions of other logged-in players, and among those whose
  area is known for exactly the ones whose area lies in the region of the bell; unless the operator sets
  DSO_BELL_REGION for the bell, that region is its own map alone, so nobody in another belfry
  hears it.
\<close>

theorem bell_toll_recipients:
  fixes "from" :: ptr and m :: u32
  assumes "orders_valid w s"
  defines "toll \<equiv> marshal w (tollMsg (playerID (heap s from)) m)"
  shows "(\<not> bellBroadcastEnabled w \<or> toll = None \<longrightarrow> broadcastBellToll w from m s = s) \<and>
    (\<forall>body. bellBroadcastEnabled w \<and> toll = Some body \<longrightarrow>
      (\<exists>ts. broadcastBellToll w from m s = sendAll w (map (\<lambda>t. (t, body)) ts) s \<and>
        (\<forall>t\<in>set ts. online s t \<and> playerID (heap s t) \<noteq> 0 \<and>
           playerID (heap s t) \<noteq> playerID (heap s from)) \<and>
        (\<forall>t. online s t \<and> playerID (heap s t) \<noteq> 0 \<and> playerID (heap s t) \<noteq> playerID (heap s from) \<and>
           onlineArea (profile (heap s t)) \<noteq> 0 \<longrightarrow>
           (t \<in> set ts \<longleftrightarrow> onlineArea (profile (heap s t)) \<in> set (bellRegionFor w m))))) \<and>
    (getenv w (''DSO_BELL_REGION_'' @ decimal (unat m)) = [] \<longrightarrow> set (bellRegionFor w m) = {m})"
proof (intro conjI allI impI)
  show "broadcastBellToll w from m s = s" if "\<not> bellBroadcastEnabled w \<or> toll = None"
    using that by (auto simp: broadcastBellToll_def toll_def)
next
  fix body
  assume "bellBroadcastEnabled w \<and> toll = Some body"
  then obtain ts where "broadcastBellToll w from m s = sendAll w (map (\<lambda>t. (t, body)) ts) s"
    "set ts = {t. online s t \<and> playerID (heap s t) \<noteq> 0 \<and> playerID (heap s t) \<noteq> playerID (heap s from) \<and>
      bellReaches w m (onlineArea (profile (heap s t)))}"
    using broadcast_picks [OF assms(1), of "from" m body] unfolding toll_def by blast
  then show "\<exists>ts. broadcastBellToll w from m s = sendAll w (map (\<lambda>t. (t, body)) ts) s \<and>
        (\<forall>t\<in>set ts. online s t \<and> playerID (heap s t) \<noteq> 0 \<and>
           playerID (heap s t) \<noteq> playerID (heap s from)) \<and>
        (\<forall>t. online s t \<and> playerID (heap s t) \<noteq> 0 \<and> playerID (heap s t) \<noteq> playerID (heap s from) \<and>
           onlineArea (profile (heap s t)) \<noteq> 0 \<longrightarrow>
           (t \<in> set ts \<longleftrightarrow> onlineArea (profile (heap s t)) \<in> set (bellRegionFor w m)))"
    by (intro exI [of _ ts]) (simp add: bellReaches_def)
qed (rule own_belfry)

theorem bell_toll_recipients_witness:
  "let s = modify (\<lambda>c. c\<lparr>profile := (profile c)\<lparr>onlineArea := 10160000\<rparr>\<rparr>) 1 demo_service;
       w = demo_world (Pb ''RequestNotifyRingBell'' [])
   in \<exists>ts. broadcastBellToll w 0 10160000 s = sendAll w (map (\<lambda>t. (t, [1])) ts) s \<and> 1 \<in> set ts"
proof -
  define s where "s = modify (\<lambda>c. c\<lparr>profile := (profile c)\<lparr>onlineArea := 10160000\<rparr>\<rparr>) 1 demo_service"
  define w where "w = demo_world (Pb ''RequestNotifyRingBell'' [])"
  have ov: "orders_valid w s" unfolding w_def by (rule demo_orders) (simp add: s_def)
  have en: "bellBroadcastEnabled w" and env: "getenv w (''DSO_BELL_REGION_'' @ decimal (unat (10160000 :: u32))) = []"
    and body: "marshal w (tollMsg (playerID (heap s 0)) 10160000) = Some [1]"
    by (simp_all add: w_def demo_world_def bellBroadcastEnabled_def)
  have "online s 1" using demo_online(2) by (simp add: online_def s_def)
  moreover have "playerID (heap s 1) = 8" "playerID (heap s 0) = 7" "onlineArea (profile (heap s 1)) = 10160000"
    by (simp_all add: s_def demo_service_def demo_client_def)
  moreover have "\<exists>ts. broadcastBellToll w 0 10160000 s = sendAll w (map (\<lambda>t. (t, [1])) ts) s \<and>
        (\<forall>t. online s t \<and> playerID (heap s t) \<noteq> 0 \<and> playerID (heap s t) \<noteq> playerID (heap s 0) \<and>
           onlineArea (profile (heap s t)) \<noteq> 0 \<longrightarrow>
           (t \<in> set ts \<longleftrightarrow> onlineArea (profile (heap s t)) \<in> set (bellRegionFor w 10160000)))"
    and "set (bellRegionFor w 10160000) = {10160000}"
    using bell_toll_recipients [OF ov, of 0 10160000] en env body by blast+
  ultimately show ?thesis
    unfolding Let_def s_def [symmetric] w_def [symmetric] by fastforce
qed

end
