(* ===== verification/Game_Service.thy ===== *)
theory Game_Service
  imports World_Service
begin

section \<open>The game service\<close>

text \<open>
  boot.go (dispatch) and game.go: the table of handlers, opening a session for a datagram, reading the
  messages of a session, the pump and dropping sessions. The two lock regions of \<open>handleDatagram\<close> are two
  steps, between which the pump, the auth service and the goroutines of the resource pushes may run.
\<close>

subsection \<open>Dispatch\<close>

definition opcodeTable :: "(u32 \<times> handler) list" where
  "opcodeTable =
    [(0x386, handleWaitForUserLogin), (0x3EC, handleGetAnnounceMessageList),
     (0x3B6, handleUpdateLoginPlayerCharacter),
     (0x3AB, handleCreateBloodMessage), (0x3AE, handleGetBloodMessageList),
     (0x3AD, handleReentryBloodMessage), (0x3AC, handleRemoveBloodMessage),
     (0x3AF, handleEvaluateBloodMessage), (0x3B0, handleGetBloodMessageEvaluation),
     (0x391, handleCreateBloodstain), (0x392, handleGetBloodstainList), (0x393, handleGetDeadingGhost),
     (0x3B1, handleCreateGhostData), (0x3B2, handleGetGhostDataList),
     (0x394, handleCreateSign), (0x395, handleUpdateSign), (0x396, handleRemoveSign),
     (0x397, handleGetSignList), (0x398, handleSummonSign), (0x39A, handleRejectSign),
     (0x39E, handleCreateMirrorKnightSign), (0x39F, handleUpdateMirrorKnightSign),
     (0x3A0, handleRemoveMirrorKnightSign), (0x3A1, handleGetMirrorKnightSignList),
     (0x3A2, handleSummonMirrorKnightSign), (0x3A4, handleRejectMirrorKnightSign),
     (0x3D8, handleNotifyMirrorKnight),
     (0x3F0, handleGetTotalDeathCount), (0x3F1, handleNotifyDeath), (0x3F2, handleNotifyOfflineDeathCount),
     (0x3ED, handleNotifyKillPlayer),
     (0x3F3, handleRegisterPowerStoneData), (0x3F4, handleGetPowerStoneRanking),
     (0x3F5, handleGetPowerStoneMyRanking), (0x3F8, handleGetPowerStoneRankingRecordCount),
     (0x320, handleSendMessageToPlayers),
     (0x3D9, handleRegisterQuickMatch), (0x3DA, handleUnregisterQuickMatch), (0x3DB, handleUpdateQuickMatch),
     (0x3DC, handleSearchQuickMatch), (0x3DD, handleJoinQuickMatch), (0x3DE, handleRejectQuickMatch),
     (0x3FA, handleGetRightMatchingArea),
     (0x3D5, handleGetVisitorList), (0x3D6, handleVisit), (0x3D7, handleRejectVisit),
     (0x3D2, handleGetBreakInTargetList), (0x3D3, handleBreakInTarget), (0x3D4, handleRejectBreakInTarget),
     (0x3B3, handleGetLoginPlayerCharacter), (0x3A9, handleGetPlayerCharacter),
     (0x3B5, handleGetPlayerCharacterList),
     (0x38D, handleServerPing), (0x38E, handleMeasureUploadBandwidth),
     (0x38F, handleMeasureDownloadBandwidth), (0x3B7, handleBenchmarkThroughput),
     (0x3EA, handleNotifyJoinSession), (0x3EB, handleNotifyLeaveSession),
     (0x3E8, handleNotifyJoinGuestPlayer), (0x3E9, handleNotifyLeaveGuestPlayer),
     (0x3EE, handleNotifyRingBell), (0x3F6, handleNotifyKillEnemy), (0x3F7, handleNotifyBuyItem),
     (0x3F9, handleNotifyDisconnectSession),
     (0x3B8, handleUpdatePlayerStatus), (0x3A8, handleUpdatePlayerCharacter)]"

definition dispatch :: "World \<Rightarrow> ptr \<Rightarrow> u32 \<Rightarrow> bytes \<Rightarrow> Service \<Rightarrow> result \<times> Service" where
  "dispatch w cs msgType pay s =
     (case map_of opcodeTable msgType of None \<Rightarrow> (noReply, s) | Some h \<Rightarrow> h w cs pay s)"

definition handledOpcodes :: "u32 list" where
  "handledOpcodes =
     [0x3B8, 0x3A8, 0x391, 0x3F1, 0x3F2, 0x3ED, 0x3EA, 0x3EB, 0x3E8, 0x3E9, 0x3EE, 0x3F6, 0x3F7, 0x3F9, 0x3D8]"

text \<open>The reply and whether the opcode was handled, or the error.\<close>

definition handleMessage ::
  "World \<Rightarrow> ptr \<Rightarrow> u32 \<Rightarrow> bytes \<Rightarrow> Service \<Rightarrow> (string + bytes option \<times> bool) \<times> Service" where
  "handleMessage w cs msgType pay s =
     (case dispatch w cs msgType pay s of
        (Inl err, s') \<Rightarrow> (Inl err, s')
      | (Inr rep, s') \<Rightarrow>
          if rep = None \<and> msgType \<notin> set handledOpcodes then (Inr (None, False), s')
          else (Inr (rep, True), s'))"


text \<open>versions.go: the builds of the game, and the opcodes that are not in every one of them.\<close>

datatype GameVersion = VersionV100 | VersionV110

definition IntroducedIn :: "u32 \<Rightarrow> GameVersion option" where
  "IntroducedIn op = (if op = 0x3FA then Some VersionV110 else None)"


subsection \<open>What the dispatched handlers leave alone\<close>

lemmas plain_handlers = handleSummonSign_def handleRejectSign_def handleSummonMirrorKnightSign_def
  handleRejectMirrorKnightSign_def handleServerPing_def handleMeasureUploadBandwidth_def
  handleMeasureDownloadBandwidth_def handleBenchmarkThroughput_def handleNotifyJoinSession_def
  handleNotifyLeaveSession_def handleNotifyJoinGuestPlayer_def handleNotifyLeaveGuestPlayer_def
  handleNotifyDisconnectSession_def

lemma table_frames: "list_all (\<lambda>(op, h). \<forall>w cs pay s. frame cs s (snd (h w cs pay s))) opcodeTable"
  unfolding opcodeTable_def plain_handlers
  by (simp add: content_frames evaluation_frames match_frames arena_frames player_frames record_frames
      notify_frames login_frame sign_frames)

lemma table_frame: "(op, h) \<in> set opcodeTable \<Longrightarrow> frame cs s (snd (h w cs pay s))"
  using table_frames by (auto simp: list_all_iff)

lemma dispatch_frame: "frame cs s (snd (dispatch w cs ty pay s))"
  by (auto simp: dispatch_def dest: map_of_SomeD intro: table_frame split: option.split)

lemma handleMessage_frame: "frame cs s (snd (handleMessage w cs ty pay s))"
  using dispatch_frame [of cs s w ty pay]
  by (auto simp: handleMessage_def split: prod.split sum.split)

subsection \<open>Reading the messages of a session\<close>

definition setConn :: "ptr \<Rightarrow> MessageConn \<Rightarrow> Service \<Rightarrow> Service" where
  "setConn cs mc = modify (\<lambda>c. c\<lparr>conn := mc\<rparr>) cs"

text \<open>What follows a handled message: a reply is sent, anything else is only logged.\<close>

definition answer :: "World \<Rightarrow> ptr \<Rightarrow> Message \<Rightarrow> (string + bytes option \<times> bool) \<Rightarrow> Service \<Rightarrow> Service" where
  "answer w cs m r s =
     (case r of
        Inr (Some body, _) \<Rightarrow> modify (\<lambda>c. c\<lparr>conn := SendReply (clock w) (conn c) m body\<rparr>) cs s
      | _ \<Rightarrow> s)"

lemma Recv_incoming:
  "Recv inflate mc = (Inr (Some m), mc') \<Longrightarrow>
     length (Session.received (sess mc')) < length (Session.received (sess mc))"
proof (induction inflate mc rule: Recv.induct)
  case (1 inflate mc)
  from "1.prems" show ?case
    by (subst (asm) Recv.simps)
      (fastforce split: prod.splits option.splits sum.splits dest: Receive_SomeD "1.IH" [rotated -1])
qed

lemma incoming_received: "incoming a = incoming b \<Longrightarrow> Session.received (sess a) = Session.received (sess b)"
  by (simp add: incoming_def)

lemma answer_frame: "frame cs s s' \<Longrightarrow> frame cs s (answer w cs m r s')"
  by (auto simp: answer_def intro: frame_modify_conn split: sum.split option.split)

text \<open>
  The loop of \<open>drain\<close>: the \<open>n\<close>-th message is handled in the world \<open>ws n\<close>. It ends because no handler adds
  to what the client has sent.
\<close>

function drainLoop :: "inflater \<Rightarrow> (nat \<Rightarrow> World) \<Rightarrow> ptr \<Rightarrow> nat \<Rightarrow> Service \<Rightarrow> Service" where
  "drainLoop inflate ws cs n s =
     (case Recv inflate (conn (heap s cs)) of
        (Inl err, mc) \<Rightarrow> setConn cs mc s
      | (Inr None, mc) \<Rightarrow> setConn cs mc s
      | (Inr (Some m), mc) \<Rightarrow>
          (case handleMessage (ws n) cs (Type m) (Payload m) (setConn cs mc s) of
             (r, s1) \<Rightarrow> drainLoop inflate ws cs (Suc n) (answer (ws n) cs m r s1)))"
  by pat_completeness auto
termination
proof (relation "measure (\<lambda>(i, ws, cs, n, s). length (Session.received (sess (conn (heap s cs)))))")
  show "wf (measure (\<lambda>(i :: inflater, ws :: nat \<Rightarrow> World, cs, n :: nat, s).
    length (Session.received (sess (conn (heap s cs))))))" by simp
next
  fix inflate :: inflater and ws :: "nat \<Rightarrow> World" and cs and n :: nat and s a mc z m r s1
  assume rc: "(a, mc) = Recv inflate (conn (heap s cs))" "a = Inr z" "z = Some m"
    and hm: "(r, s1) = handleMessage (ws n) cs (Type m) (Payload m) (setConn cs mc s)"
  let ?s' = "answer (ws n) cs m r s1"
  have "s1 = snd (handleMessage (ws n) cs (Type m) (Payload m) (setConn cs mc s))"
    by (metis hm snd_conv)
  then have "frame cs (setConn cs mc s) ?s'"
    using handleMessage_frame by (simp add: answer_frame)
  then have "incoming (conn (heap ?s' cs)) = incoming mc"
    by (simp add: frame_def setConn_def)
  then have "Session.received (sess (conn (heap ?s' cs))) = Session.received (sess mc)"
    by (rule incoming_received)
  moreover have "length (Session.received (sess mc)) < length (Session.received (sess (conn (heap s cs))))"
    using rc Recv_incoming by metis
  ultimately show "((inflate, ws, cs, Suc n, ?s'), inflate, ws, cs, n, s)
    \<in> measure (\<lambda>(i, ws, cs, n, s). length (Session.received (sess (conn (heap s cs)))))"
    by simp
qed

declare drainLoop.simps [simp del]

definition drain :: "inflater \<Rightarrow> (nat \<Rightarrow> World) \<Rightarrow> ptr \<Rightarrow> Service \<Rightarrow> Service" where
  "drain inflate ws cs s =
     drainLoop inflate ws cs 0 (modify (\<lambda>c. c\<lparr>lastState := sess_state (sess (conn c))\<rparr>) cs s)"


subsection \<open>Datagrams\<close>

definition sessionIdle :: duration where "sessionIdle = 60 * second"

text \<open>
  What the service gets from outside: AES, the zlib decoder, the random bytes of the \<open>n\<close>-th seal of a
  session, and whether writing the \<open>n\<close>-th datagram to a peer fails.
\<close>

record Net =
  aesBlock :: "bytes \<Rightarrow> bytes \<Rightarrow> bytes"
  inflateWith :: inflater
  sealRand :: "string \<Rightarrow> nat \<Rightarrow> rand"
  writeTo :: "string \<Rightarrow> nat \<Rightarrow> bytes \<Rightarrow> string option"

definition sendSealed :: "Net \<Rightarrow> string \<Rightarrow> Context \<Rightarrow> datagram list \<Rightarrow> string option" where
  "sendSealed net from ctx sent =
     (case sealServerToClient ctx (sealRand net from (length sent)) (fst (last sent)) of
        Inl err \<Rightarrow> Some ''seal''
      | Inr sealed \<Rightarrow> writeTo net from (length sent) sealed)"

definition newClient :: "Net \<Rightarrow> env \<Rightarrow> string \<Rightarrow> Token \<Rightarrow> Context \<Rightarrow> clientSession" where
  "newClient net e from tok ctx =
     (let sn = NewServerSession e (sendSealed net from ctx)
      in \<lparr>token = tok, cipher = ctx, conn = NewMessageConn sn, lastSeen = now e, lastState = sess_state sn,
          accountID = [], playerID = 0, characterID = 0, status = [], profile = emptyProfile, areaID = 0,
          breakInType = 0, closed = False\<rparr>)"

definition session :: "Net \<Rightarrow> env \<Rightarrow> string \<Rightarrow> Token \<Rightarrow> Service \<Rightarrow> (string + ptr) \<times> Service" where
  "session net e from tok s =
     (case sessions s from of
        Some cs \<Rightarrow> (if token (heap s cs) \<noteq> tok then Inl ''token mismatch for existing session'' else Inr cs, s)
      | None \<Rightarrow>
          (case Lookup (now e) (tokens s) tok of
             (None, ts) \<Rightarrow> (Inl ''unknown or expired auth token'', s\<lparr>tokens := ts\<rparr>)
           | (Some cwcKey, ts) \<Rightarrow>
               (case NewContext (aesBlock net) cwcKey of
                  Inl err \<Rightarrow> (Inl ''build udp cipher'', s\<lparr>tokens := ts\<rparr>)
                | Inr ctx \<Rightarrow>
                    let cs = nextPtr s
                    in (Inr cs, s\<lparr>tokens := ts, heap := (heap s)(cs := newClient net e from tok ctx),
                                  nextPtr := Suc cs, sessions := (sessions s)(from \<mapsto> cs)\<rparr>))))"

text \<open>The first half of \<open>handleDatagram\<close> finds the session and decrypts, the second feeds and answers.\<close>

definition acceptDatagram :: "Net \<Rightarrow> env \<Rightarrow> string \<Rightarrow> bytes \<Rightarrow> Service \<Rightarrow> (ptr \<times> bytes) option \<times> Service" where
  "acceptDatagram net e from dg s =
     (case TokenFromDatagram dg of
        None \<Rightarrow> (None, s)
      | Some tok \<Rightarrow>
          (case session net e from tok s of
             (Inl err, s') \<Rightarrow> (None, s')
           | (Inr cs, s') \<Rightarrow>
               (case openClientToServer (cipher (heap s' cs)) dg of
                  Inl err \<Rightarrow> (None, s')
                | Inr (pt, pre) \<Rightarrow> (Some (cs, pt), s'))))"

definition feedDatagram :: "Net \<Rightarrow> env \<Rightarrow> (nat \<Rightarrow> World) \<Rightarrow> ptr \<Rightarrow> bytes \<Rightarrow> Service \<Rightarrow> Service" where
  "feedDatagram net e ws cs pt s =
     drain (inflateWith net) ws cs
       (modify (\<lambda>c. c\<lparr>lastSeen := now e, conn := (conn c)\<lparr>sess := Feed e (sess (conn c)) pt\<rparr>\<rparr>) cs s)"

definition handleDatagram :: "Net \<Rightarrow> env \<Rightarrow> (nat \<Rightarrow> World) \<Rightarrow> string \<Rightarrow> bytes \<Rightarrow> Service \<Rightarrow> Service" where
  "handleDatagram net e ws from dg s =
     (case acceptDatagram net e from dg s of
        (None, s') \<Rightarrow> s'
      | (Some (cs, pt), s') \<Rightarrow> feedDatagram net e ws cs pt s')"

subsection \<open>Pump and clean-up\<close>

text \<open>
  \<open>dropSession\<close>: the loop over the Mirror Knight signs visits them in the order \<open>mkOrd\<close>, the one over the
  ordinary signs in the order \<open>storeOrd w\<close>.
\<close>

definition dropSession :: "World \<Rightarrow> u32 list \<Rightarrow> string \<Rightarrow> ptr \<Rightarrow> Service \<Rightarrow> Service" where
  "dropSession w mkOrd key cs s =
     (let s1 = modify (\<lambda>c. c\<lparr>conn := (conn c)\<lparr>sess := SendReset (sess (conn c))\<rparr>, closed := True\<rparr>) cs s;
          s2 = s1\<lparr>sessions := (sessions s1)(key := None)\<rparr>;
          p = playerID (heap s2 cs)
      in if p = 0 then s2
         else
           dropQuickMatchForPlayer w p
             (dropMirrorKnightSignsForPlayer mkOrd w p (dropSignsForPlayer (storeOrd w) w p s2)))"

text \<open>One iteration of the loop of \<open>pumpOnce\<close>; \<open>t\<close> is the time read before the loop.\<close>

definition pumpSession :: "World \<Rightarrow> u32 list \<Rightarrow> time \<Rightarrow> string \<Rightarrow> Service \<Rightarrow> Service" where
  "pumpSession w mkOrd t key s =
     (case sessions s key of
        None \<Rightarrow> s
      | Some cs \<Rightarrow>
          let s1 = s\<lparr>tokens := snd (Lookup (now (clock w)) (tokens s) (token (heap s cs)))\<rparr>
          in if sessionIdle < time_sub t (lastSeen (heap s1 cs)) then dropSession w mkOrd key cs s1
             else
               case Pump (clock w) (sess (conn (heap s1 cs))) of
                 (err, sn) \<Rightarrow>
                   let s2 = modify (\<lambda>c. c\<lparr>conn := (conn c)\<lparr>sess := sn\<rparr>\<rparr>) cs s1
                   in if err \<noteq> None \<or> sess_state sn = StateClosed then dropSession w mkOrd key cs s2 else s2)"

text \<open>The sessions are visited in the order \<open>ord\<close>; the iteration for \<open>key\<close> happens in the world \<open>ws key\<close>.\<close>

fun pumpLoop :: "(string \<Rightarrow> World \<times> u32 list) \<Rightarrow> time \<Rightarrow> string list \<Rightarrow> Service \<Rightarrow> Service" where
  "pumpLoop ws t [] s = s"
| "pumpLoop ws t (key # ord) s =
     pumpLoop ws t ord (pumpSession (fst (ws key)) (snd (ws key)) t key s)"

definition pumpOnce :: "(string \<Rightarrow> World \<times> u32 list) \<Rightarrow> time \<Rightarrow> string list \<Rightarrow> Service \<Rightarrow> Service" where
  "pumpOnce ws t ord s = pumpLoop ws t ord s"

text \<open>\<open>New\<close>; what the heap holds before anything is allocated does not matter.\<close>

definition NewService :: "(ptr \<Rightarrow> clientSession) \<Rightarrow> Registry \<Rightarrow> Store \<Rightarrow> Service" where
  "NewService h ts st =
     \<lparr>heap = h, nextPtr = 0, sessions = Map.empty, tokens = ts, store = st,
      ghosts = newGhostStore, bloodstains = newBloodstainStore, signs = newSignStore,
      mirrorKnight = newSignStoreFrom firstMirrorKnightSignID, quickMatchs = newQuickMatchStore,
      lastTestBell = 0, pushRuns = []\<rparr>"


subsection \<open>What dropping a session does to the others\<close>

lemma frame_pushAllRemoved [frame_intros]: "frame cs s s' \<Longrightarrow> frame cs s (pushAllRemoved b w i sgs s')"
  by (induction sgs arbitrary: i s') (simp_all add: pushRemoved_frame)

lemma frame_dropBoard [frame_intros]: "frame cs s s' \<Longrightarrow> frame cs s (dropBoard b ord w p s')"
  by (auto simp: dropBoard_def intro!: frame_intros split: prod.split)

lemma frame_dropSigns [frame_intros]:
  "frame cs s s' \<Longrightarrow> frame cs s (dropSignsForPlayer ord w p s')"
  "frame cs s s' \<Longrightarrow> frame cs s (dropMirrorKnightSignsForPlayer ord w p s')"
  by (simp_all add: dropSignsForPlayer_def dropMirrorKnightSignsForPlayer_def frame_dropBoard)

text \<open>The table and the objects after a session is dropped, up to outgoing queues.\<close>

definition closing :: "string \<Rightarrow> ptr \<Rightarrow> Service \<Rightarrow> Service" where
  "closing key cs s =
     (modify (\<lambda>c. c\<lparr>conn := (conn c)\<lparr>sess := SendReset (sess (conn c))\<rparr>, closed := True\<rparr>) cs s)
       \<lparr>sessions := (sessions s)(key := None)\<rparr>"

lemma dropSession_closing:
  "dropSession w mkOrd key cs s =
     (let s2 = closing key cs s; p = playerID (heap s cs)
      in if p = 0 then s2
         else dropQuickMatchForPlayer w p
             (dropMirrorKnightSignsForPlayer mkOrd w p (dropSignsForPlayer (storeOrd w) w p s2)))"
  by (simp add: dropSession_def closing_def Let_def)

lemma dropSession_frame: "frame c (closing key cs s) (dropSession w mkOrd key cs s)"
  unfolding dropSession_closing Let_def by (auto intro!: frame_intros)

subsection \<open>What the datagrams of one client leave alone\<close>

text \<open>
  As \<open>frame\<close>, for a whole datagram: what the client itself has sent changes too, and its session records
  when it was last seen.
\<close>

definition isolated :: "ptr \<Rightarrow> Service \<Rightarrow> Service \<Rightarrow> bool" where
  "isolated cs s s' \<longleftrightarrow>
     sessions s' = sessions s \<and> tokens s' = tokens s \<and> nextPtr s' = nextPtr s \<and>
     (\<forall>c. c \<noteq> cs \<longrightarrow> heap s' c = (heap s c)\<lparr>conn := conn (heap s' c)\<rparr> \<and>
                    only_queued (conn (heap s c)) (conn (heap s' c))) \<and>
     token (heap s' cs) = token (heap s cs) \<and> cipher (heap s' cs) = cipher (heap s cs) \<and>
     closed (heap s' cs) = closed (heap s cs)"

lemma frame_isolated: "frame cs s s' \<Longrightarrow> isolated cs s s'"
  by (simp add: frame_def isolated_def)

lemma isolated_trans:
  assumes a: "isolated cs s s'" and b: "isolated cs s' s''"
  shows "isolated cs s s''"
proof -
  have "heap s'' c = (heap s c)\<lparr>conn := conn (heap s'' c)\<rparr>" if "c \<noteq> cs" for c
  proof -
    have "heap s'' c = (heap s' c)\<lparr>conn := conn (heap s'' c)\<rparr>" "heap s' c = (heap s c)\<lparr>conn := conn (heap s' c)\<rparr>"
      using a b that by (simp_all add: isolated_def)
    then show ?thesis by (metis clientSession.surjective clientSession.update_convs(3))
  qed
  moreover have "only_queued (conn (heap s c)) (conn (heap s'' c))" if "c \<noteq> cs" for c
    using a b that unfolding isolated_def by (blast intro: only_queued_trans)
  ultimately show ?thesis using a b by (simp add: isolated_def)
qed

lemma isolated_modify:
  "(\<And>c. token (f c) = token c) \<Longrightarrow> (\<And>c. cipher (f c) = cipher c) \<Longrightarrow> (\<And>c. closed (f c) = closed c) \<Longrightarrow>
     isolated cs s (modify f cs s)"
  by (simp add: isolated_def)

lemma drainLoop_isolated: "isolated cs s (drainLoop inflate ws cs n s)"
proof (induction inflate ws cs n s rule: drainLoop.induct)
  case (1 inflate ws cs n s)
  obtain r mc where rc: "Recv inflate (conn (heap s cs)) = (r, mc)" by fastforce
  have st: "isolated cs s (setConn cs mc s)"
    unfolding setConn_def by (rule isolated_modify) simp_all
  show ?case
  proof (cases "\<exists>m. r = Inr (Some m)")
    case True
    then obtain m where r: "r = Inr (Some m)" by blast
    obtain q s1 where hm: "handleMessage (ws n) cs (Type m) (Payload m) (setConn cs mc s) = (q, s1)" by fastforce
    have "frame cs (setConn cs mc s) (answer (ws n) cs m q s1)"
      using handleMessage_frame [of cs "setConn cs mc s" "ws n" "Type m" "Payload m"] hm
      by (simp add: answer_frame)
    then have "isolated cs s (answer (ws n) cs m q s1)"
      by (blast intro: isolated_trans [OF st] frame_isolated)
    moreover have "isolated cs (answer (ws n) cs m q s1) (drainLoop inflate ws cs (Suc n) (answer (ws n) cs m q s1))"
      using "1" rc r hm by fastforce
    ultimately show ?thesis
      by (subst drainLoop.simps) (simp add: rc r hm isolated_trans)
  next
    case False
    with st rc show ?thesis
      by (subst drainLoop.simps) (auto split: sum.split option.split)
  qed
qed

lemma feedDatagram_isolated: "isolated cs s (feedDatagram net e ws cs pt s)"
  unfolding feedDatagram_def drain_def
  by (rule isolated_trans [OF isolated_modify isolated_trans [OF isolated_modify drainLoop_isolated]]) simp_all

lemma isolated_keeps:
  assumes "isolated cs s s'"
  shows "token (heap s' c) = token (heap s c)" "cipher (heap s' c) = cipher (heap s c)"
    "closed (heap s' c) = closed (heap s c)" "sessions s' = sessions s" "tokens s' = tokens s"
    "nextPtr s' = nextPtr s"
proof -
  have "c \<noteq> cs \<Longrightarrow> heap s' c = (heap s c)\<lparr>conn := conn (heap s' c)\<rparr>"
    using assms by (simp add: isolated_def)
  then have "token (heap s' c) = token (heap s c) \<and> cipher (heap s' c) = cipher (heap s c) \<and>
      closed (heap s' c) = closed (heap s c)"
    using assms by (cases "c = cs") (simp add: isolated_def, metis clientSession.select_convs clientSession.surjective
      clientSession.update_convs(3))
  then show "token (heap s' c) = token (heap s c)" "cipher (heap s' c) = cipher (heap s c)"
    "closed (heap s' c) = closed (heap s c)" by simp_all
  show "sessions s' = sessions s" "tokens s' = tokens s" "nextPtr s' = nextPtr s"
    using assms by (simp_all add: isolated_def)
qed

end
