(* ===== verification/Game_Invariant.thy ===== *)
theory Game_Invariant
  imports Game_Service
begin

section \<open>Runs of the game service\<close>

text \<open>
  The states the game service can reach, with everything that runs beside it: the auth service and the
  janitor on the token registry, the pump, the test bell and the goroutines of the resource pushes. The
  listener handles one datagram at a time, so at most one is between the two halves of
  \<open>handleDatagram\<close>.
\<close>

type_synonym inFlight = "(ptr \<times> bytes) option"

inductive reachable :: "Net \<Rightarrow> (Token \<times> bytes) set \<Rightarrow> Service \<Rightarrow> inFlight \<Rightarrow> bool" for net where
  start: "reachable net {} (NewService h NewRegistry st) None"
| register: "reachable net K s q \<Longrightarrow>
    reachable net (insert (tok, key) K) (s\<lparr>tokens := Add t (tokens s) tok key\<rparr>) q"
| janitor: "reachable net K s q \<Longrightarrow> reachable net K (s\<lparr>tokens := prune t (tokens s)\<rparr>) q"
| arrive: "reachable net K s None \<Longrightarrow> acceptDatagram net e from dg s = (q, s') \<Longrightarrow> reachable net K s' q"
| feed: "reachable net K s (Some (cs, pt)) \<Longrightarrow> reachable net K (feedDatagram net e ws cs pt s) None"
| pump: "reachable net K s q \<Longrightarrow> range_order (sessions s) ord \<Longrightarrow> reachable net K (pumpOnce ws t ord s) q"
| bell: "reachable net K s q \<Longrightarrow> reachable net K (maybeSendTestBellToll w s) q"
| resource: "reachable net K s q \<Longrightarrow> reachable net K (pushRunStep w pick i s) q"

text \<open>
  An invariant of the runs, which may speak about the tokens registered so far: what it has to survive, and
  that it then holds in every reachable state.
\<close>

locale service_invariant =
  fixes net :: Net
    and I :: "(Token \<times> bytes) set \<Rightarrow> Service \<Rightarrow> bool"
  assumes at_start: "I {} (NewService h NewRegistry st)"
    and on_register: "I K s \<Longrightarrow> I (insert (tok, key) K) (s\<lparr>tokens := Add t (tokens s) tok key\<rparr>)"
    and on_janitor: "I K s \<Longrightarrow> I K (s\<lparr>tokens := prune t (tokens s)\<rparr>)"
    and on_arrive: "I K s \<Longrightarrow> acceptDatagram net e from dg s = (q, s') \<Longrightarrow> I K s'"
    and on_feed: "I K s \<Longrightarrow> I K (feedDatagram net e ws cs pt s)"
    and on_pump: "I K s \<Longrightarrow> I K (pumpOnce ps t ord s)"
    and on_bell: "I K s \<Longrightarrow> I K (maybeSendTestBellToll w s)"
    and on_resource: "I K s \<Longrightarrow> I K (pushRunStep w pick i s)"
begin

lemma holds: "reachable net K s q \<Longrightarrow> I K s"
  by (induction rule: reachable.induct)
    (blast intro: at_start on_register on_janitor on_arrive on_feed on_pump on_bell on_resource)+

end


subsection \<open>Sessions belong to authenticated clients\<close>

definition authentic :: "Net \<Rightarrow> (Token \<times> bytes) set \<Rightarrow> clientSession \<Rightarrow> bool" where
  "authentic net K c \<longleftrightarrow> (\<exists>key. (token c, key) \<in> K \<and> NewContext (aesBlock net) key = Inr (cipher c))"

text \<open>
  The table holds open sessions only, each under one address; a session that is not in the table any more
  is closed; every session has a token somebody registered and the key registered with it.
\<close>

definition table_inv :: "Net \<Rightarrow> (Token \<times> bytes) set \<Rightarrow> Service \<Rightarrow> bool" where
  "table_inv net K s \<longleftrightarrow>
     (\<forall>key cs. sessions s key = Some cs \<longrightarrow> cs < nextPtr s) \<and>
     (\<forall>k k' cs. sessions s k = Some cs \<and> sessions s k' = Some cs \<longrightarrow> k = k') \<and>
     (\<forall>cs < nextPtr s. closed (heap s cs) \<longleftrightarrow> \<not> online s cs) \<and>
     (\<forall>cs < nextPtr s. authentic net K (heap s cs)) \<and>
     (\<forall>tok en. regm (tokens s) tok = Some en \<longrightarrow> (tok, ekey en) \<in> K)"

lemma authentic_mono: "authentic net K c \<Longrightarrow> K \<subseteq> K' \<Longrightarrow> authentic net K' c"
  by (auto simp: authentic_def)

lemma table_inv_isolated:
  assumes "isolated cs s s'" "table_inv net K s"
  shows "table_inv net K s'"
  using assms(2) by (simp add: table_inv_def online_def authentic_def isolated_keeps [OF assms(1)])

lemma table_inv_tokens:
  assumes "table_inv net K s" "\<And>tok en. regm r tok = Some en \<Longrightarrow> (tok, ekey en) \<in> K"
  shows "table_inv net K (s\<lparr>tokens := r\<rparr>)"
  using assms by (simp add: table_inv_def online_def)

lemma Lookup_keys:
  assumes "regm (snd (Lookup t r tok)) x = Some en"
  shows "\<exists>en'. regm r x = Some en' \<and> ekey en' = ekey en"
  using assms by (auto simp: Lookup_def split: option.splits if_splits)

lemma table_inv_Lookup:
  "table_inv net K s \<Longrightarrow> table_inv net K (s\<lparr>tokens := snd (Lookup t (tokens s) tok)\<rparr>)"
proof (rule table_inv_tokens, assumption)
  fix x en assume "table_inv net K s" and "regm (snd (Lookup t (tokens s) tok)) x = Some en"
  then show "(x, ekey en) \<in> K" using Lookup_keys [of t "tokens s" tok x en] unfolding table_inv_def by metis
qed

lemma table_inv_start: "table_inv net {} (NewService h NewRegistry st)"
  by (simp add: table_inv_def NewService_def NewRegistry_def)

lemma table_inv_register:
  assumes "table_inv net K s"
  shows "table_inv net (insert (tok, key) K) (s\<lparr>tokens := Add t (tokens s) tok key\<rparr>)"
proof (rule table_inv_tokens)
  show "table_inv net (insert (tok, key) K) s"
    using assms authentic_mono [of net K _ "insert (tok, key) K"] unfolding table_inv_def by blast
  show "\<And>x en. regm (Add t (tokens s) tok key) x = Some en \<Longrightarrow> (x, ekey en) \<in> insert (tok, key) K"
    using assms by (auto simp: Add_def table_inv_def split: if_splits)
qed

lemma table_inv_janitor:
  "table_inv net K s \<Longrightarrow> table_inv net K (s\<lparr>tokens := prune t (tokens s)\<rparr>)"
  by (rule table_inv_tokens) (auto simp: prune_def table_inv_def split: option.splits if_splits)

lemma Lookup_key_known:
  assumes "table_inv net K s" "Lookup t (tokens s) tok = (Some key, ts)"
  shows "(tok, key) \<in> K"
  using assms by (auto simp: Lookup_def table_inv_def split: option.splits if_splits)

lemma table_inv_open:
  assumes inv: "table_inv net K s" and "sessions s from = None"
    and "(tok, key) \<in> K" "NewContext (aesBlock net) key = Inr ctx"
  shows "table_inv net K (s\<lparr>heap := (heap s)(nextPtr s := newClient net e from tok ctx),
    nextPtr := Suc (nextPtr s), sessions := (sessions s)(from \<mapsto> nextPtr s)\<rparr>)"
    (is "table_inv net K ?s'")
proof -
  let ?n = "nextPtr s" and ?c = "newClient net e from tok ctx"
  have below: "\<And>k cs. sessions s k = Some cs \<Longrightarrow> cs < ?n" using inv by (auto simp: table_inv_def)
  have on: "online ?s' cs \<longleftrightarrow> cs = ?n \<or> online s cs" for cs
    using assms(2) by (simp add: online_def ran_map_upd)
  have new: "authentic net K ?c" "\<not> closed ?c"
    using assms(3,4) by (auto simp: authentic_def newClient_def Let_def)
  have "closed (heap ?s' cs) \<longleftrightarrow> \<not> online ?s' cs" "authentic net K (heap ?s' cs)" if "cs < Suc ?n" for cs
    using that inv new on by (auto simp: table_inv_def less_Suc_eq)
  with inv below show ?thesis
    by (auto simp: table_inv_def less_Suc_eq dest: less_irrefl_nat split: if_splits)
qed

lemma table_inv_session:
  assumes "table_inv net K s" "session net e from tok s = (r, s')"
  shows "table_inv net K s' \<and> (\<forall>cs. r = Inr cs \<longrightarrow> cs < nextPtr s')"
proof (cases "sessions s from")
  case (Some cs)
  with assms show ?thesis by (auto simp: session_def table_inv_def split: if_splits)
next
  case None
  obtain k ts where lk: "Lookup (now e) (tokens s) tok = (k, ts)" by fastforce
  have ts: "table_inv net K (s\<lparr>tokens := ts\<rparr>)"
    using table_inv_Lookup [OF assms(1), of "now e" tok] lk by simp
  show ?thesis
  proof (cases "\<exists>key ctx. k = Some key \<and> NewContext (aesBlock net) key = Inr ctx")
    case True
    then obtain key ctx where k: "k = Some key" "NewContext (aesBlock net) key = Inr ctx" by blast
    with table_inv_open [OF ts _ Lookup_key_known [OF assms(1)] k(2), of "from" "now e" tok ts e] None lk assms(2)
    show ?thesis by (auto simp: session_def Let_def)
  next
    case False
    with ts None lk assms(2) show ?thesis
      by (auto simp: session_def split: option.splits sum.splits)
  qed
qed

lemma table_inv_arrive:
  assumes "table_inv net K s" "acceptDatagram net e from dg s = (q, s')"
  shows "table_inv net K s'"
proof (cases "TokenFromDatagram dg")
  case None
  with assms show ?thesis by (simp add: acceptDatagram_def)
next
  case (Some tok)
  obtain r s1 where ss: "session net e from tok s = (r, s1)" by fastforce
  then have "s' = s1"
    using assms(2) Some by (auto simp: acceptDatagram_def split: sum.splits)
  with table_inv_session [OF assms(1) ss] show ?thesis by simp
qed

lemma closing_simps [simp]:
  "sessions (closing key cs s) = (sessions s)(key := None)" "nextPtr (closing key cs s) = nextPtr s"
  "tokens (closing key cs s) = tokens s"
  "token (heap (closing key cs s) c) = token (heap s c)" "cipher (heap (closing key cs s) c) = cipher (heap s c)"
  "closed (heap (closing key cs s) c) \<longleftrightarrow> c = cs \<or> closed (heap s c)"
  "playerID (heap (closing key cs s) c) = playerID (heap s c)"
  by (auto simp: closing_def)

lemma table_inv_drop:
  assumes inv: "table_inv net K s" and key: "sessions s key = Some cs"
  shows "table_inv net K (dropSession w mkOrd key cs s)"
proof (rule table_inv_isolated [OF frame_isolated [OF dropSession_frame]])
  have once: "sessions s k = Some cs \<Longrightarrow> k = key" for k
    using inv key by (auto simp: table_inv_def)
  have "online (closing key cs s) c \<longleftrightarrow> online s c \<and> c \<noteq> cs" for c
  proof -
    have "online (closing key cs s) c \<longleftrightarrow> (\<exists>k. k \<noteq> key \<and> sessions s k = Some c)"
      by (auto simp: online_def ran_def)
    also have "\<dots> \<longleftrightarrow> (\<exists>k. sessions s k = Some c) \<and> c \<noteq> cs"
      using key once by (metis option.inject)
    finally show ?thesis by (simp add: online_def ran_def)
  qed
  moreover have "cs < nextPtr s" using inv key by (auto simp: table_inv_def)
  ultimately show "table_inv net K (closing key cs s)"
    using inv by (auto simp: table_inv_def authentic_def split: if_splits)
qed

lemma table_inv_pumpSession:
  assumes "table_inv net K s"
  shows "table_inv net K (pumpSession w mkOrd t key s)"
proof (cases "sessions s key")
  case None
  with assms show ?thesis by (simp add: pumpSession_def)
next
  case (Some cs)
  let ?s1 = "s\<lparr>tokens := snd (Lookup (now (clock w)) (tokens s) (token (heap s cs)))\<rparr>"
  note s1 = table_inv_Lookup [OF assms, of "now (clock w)" "token (heap s cs)"]
  have s2: "table_inv net K (modify (\<lambda>c. c\<lparr>conn := (conn c)\<lparr>sess := sn\<rparr>\<rparr>) cs ?s1)" for sn
    by (rule table_inv_isolated [OF isolated_modify s1]) simp_all
  from Some show ?thesis
    by (auto simp: pumpSession_def Let_def s1 s2 intro!: table_inv_drop split: prod.split)
qed

lemma table_inv_pumpLoop: "table_inv net K s \<Longrightarrow> table_inv net K (pumpLoop ws t ord s)"
  by (induction ord arbitrary: s) (simp_all add: table_inv_pumpSession)

lemma testBell_frame: "frame cs s (maybeSendTestBellToll w s)"
proof -
  have "frame cs s (s\<lparr>lastTestBell := t\<rparr>)" for t by (simp add: frame_def)
  then show ?thesis
    by (auto simp: maybeSendTestBellToll_def Let_def intro!: frame_intros split: option.split)
qed

lemma pushRunStep_frame: "frame cs s (pushRunStep w pick i s)"
  by (auto simp: pushRunStep_def Let_def intro!: frame_intros split: option.split)

interpretation table_runs: service_invariant net "table_inv net" for net
  by unfold_locales
    (auto simp: pumpOnce_def intro: table_inv_start table_inv_register table_inv_janitor table_inv_arrive table_inv_pumpLoop
      table_inv_isolated [OF feedDatagram_isolated] table_inv_isolated [OF frame_isolated [OF testBell_frame]]
      table_inv_isolated [OF frame_isolated [OF pushRunStep_frame]])

lemma session_token: "session net e from tok s = (Inr cs, s') \<Longrightarrow> token (heap s' cs) = tok"
  by (auto simp: session_def newClient_def Let_def split: option.splits prod.splits sum.splits if_splits)

lemma arrive_authentic:
  assumes inv: "table_inv net K s" and acc: "acceptDatagram net e from dg s = (Some (cs, pt), s')"
  shows "\<exists>key ctx pre. (take 8 dg, key) \<in> K \<and> NewContext (aesBlock net) key = Inr ctx \<and>
    openClientToServer ctx dg = Inr (pt, pre)"
proof -
  obtain tok where tok: "TokenFromDatagram dg = Some tok" and ss: "session net e from tok s = (Inr cs, s')"
    and "\<exists>pre. openClientToServer (cipher (heap s' cs)) dg = Inr (pt, pre)"
    using acc by (auto simp: acceptDatagram_def split: option.splits prod.splits sum.splits)
  moreover have "authentic net K (heap s' cs)"
    using table_inv_session [OF inv ss] by (auto simp: table_inv_def)
  moreover have "tok = take 8 dg"
    using tok by (auto simp: TokenFromDatagram_def udpTokenLen_def split: if_splits)
  ultimately show ?thesis using session_token [OF ss] by (auto simp: authentic_def)
qed

text \<open>
  C3: only authenticated clients get through. In every state the game service can reach, whatever datagrams
  arrive and however they interleave with the pump and the auth service: a session in the table is open,
  is reached from one address only, and has a token that was registered together with its key. And
  whatever a datagram feeds into a session decrypts under a key that was registered with the very token
  the datagram carries.
\<close>

theorem session_authenticated:
  assumes "reachable net K s q"
  shows "(\<forall>from cs. sessions s from = Some cs \<longrightarrow>
      \<not> closed (heap s cs) \<and> (\<forall>from'. sessions s from' = Some cs \<longrightarrow> from' = from) \<and>
      (\<exists>key. (token (heap s cs), key) \<in> K \<and> NewContext (aesBlock net) key = Inr (cipher (heap s cs)))) \<and>
    (\<forall>e from dg cs pt s'. acceptDatagram net e from dg s = (Some (cs, pt), s') \<longrightarrow>
      (\<exists>key ctx pre. (take 8 dg, key) \<in> K \<and> NewContext (aesBlock net) key = Inr ctx \<and>
         openClientToServer ctx dg = Inr (pt, pre)))"
proof -
  note inv = table_runs.holds [OF assms]
  have "\<not> closed (heap s cs) \<and> (\<forall>from'. sessions s from' = Some cs \<longrightarrow> from' = from) \<and>
      (\<exists>key. (token (heap s cs), key) \<in> K \<and> NewContext (aesBlock net) key = Inr (cipher (heap s cs)))"
    if cs: "sessions s from = Some cs" for "from" cs
  proof -
    have "cs < nextPtr s" "online s cs" using inv cs by (auto simp: table_inv_def online_def intro: ranI)
    with inv cs show ?thesis unfolding table_inv_def authentic_def by metis
  qed
  with arrive_authentic [OF inv] show ?thesis by blast
qed

definition demo_net :: Net where
  "demo_net = \<lparr>aesBlock = demo_aes, inflateWith = Inr, sealRand = (\<lambda>_ _. Inr (replicate 11 0)),
     writeTo = (\<lambda>_ _ _. None)\<rparr>"

definition demo_start :: Service where
  "demo_start = (NewService (\<lambda>_. demo_client 0) NewRegistry emptyStore)
     \<lparr>tokens := Add 0 NewRegistry (replicate 8 9) demo_key\<rparr>"

lemma demo_reachable: "reachable demo_net {(replicate 8 9, demo_key)} demo_start None"
  using reachable.register [OF reachable.start [of demo_net "\<lambda>_. demo_client 0" emptyStore],
    of "replicate 8 9" demo_key 0]
  by (simp add: demo_start_def NewService_def)

lemma demo_arrival:
  "\<exists>dg s' ctx. acceptDatagram demo_net \<lparr>now = 0, rnd = (0, 0)\<rparr> ''peer'' dg demo_start = (Some (0, [1, 2, 3]), s') \<and>
     NewContext demo_aes demo_key = Inr ctx \<and>
     s' = demo_start\<lparr>heap := (heap demo_start)(0 := newClient demo_net \<lparr>now = 0, rnd = (0, 0)\<rparr> ''peer'' (replicate 8 9) ctx),
       nextPtr := 1, sessions := [''peer'' \<mapsto> 0]\<rparr>"
proof -
  obtain ctx where ctx: "NewContext demo_aes demo_key = Inr ctx" using demo_context by blast
  have blk: "aes_block_size (block ctx)" by (rule NewContext_key(2) [OF ctx demo_aes_block])
  obtain dg where dg: "clientSeal ctx (replicate 8 9) (Inr (replicate 11 7)) ([1, 2, 3], True) = Inr dg"
    using client_udp.encrypts [of "Inr (replicate 11 7)" ctx "replicate 8 9" "([1, 2, 3], True)"] blk
    by (auto simp: iv_ok_def)
  have opened: "openClientToServer ctx dg = Inr ([1, 2, 3], True)"
    using client_udp.inverts [of "Inr (replicate 11 7)" ctx "replicate 8 9" "([1, 2, 3], True)"] blk dg
    by (auto simp: iv_ok_def)
  have tok: "TokenFromDatagram dg = Some (replicate 8 9)" by (rule clientSeal_token [OF _ dg]) simp
  have "Lookup 0 (tokens demo_start) (replicate 8 9) = (Some demo_key, tokens demo_start)"
    by (simp add: Lookup_def demo_start_def Add_def NewRegistry_def TTL_def second_def millisecond_def)
  with tok opened ctx show ?thesis
    by (intro exI [of _ dg] exI [of _ ctx] exI)
      (auto simp: acceptDatagram_def session_def demo_start_def NewService_def demo_net_def Let_def newClient_def)
qed

theorem session_authenticated_witness:
  "\<exists>dg s'. acceptDatagram demo_net \<lparr>now = 0, rnd = (0, 0)\<rparr> ''peer'' dg demo_start = (Some (0, [1, 2, 3]), s') \<and>
     sessions s' ''peer'' = Some 0 \<and> \<not> closed (heap s' 0) \<and> take 8 dg = replicate 8 9 \<and>
     token (heap s' 0) = replicate 8 9 \<and> NewContext demo_aes demo_key = Inr (cipher (heap s' 0))"
proof -
  obtain dg s' ctx where a: "acceptDatagram demo_net \<lparr>now = 0, rnd = (0, 0)\<rparr> ''peer'' dg demo_start = (Some (0, [1, 2, 3]), s')"
    and s': "sessions s' ''peer'' = Some 0"
    using demo_arrival by auto
  note r = reachable.arrive [OF demo_reachable a]
  have net: "aesBlock demo_net = demo_aes" by (simp add: demo_net_def)
  obtain key where k: "\<not> closed (heap s' 0)" "(token (heap s' 0), key) \<in> {(replicate 8 9, demo_key)}"
    "NewContext demo_aes key = Inr (cipher (heap s' 0))"
    using session_authenticated [OF r, THEN conjunct1, rule_format, OF s'] net by auto
  obtain key' where "(take 8 dg, key') \<in> {(replicate 8 9, demo_key)}"
    using session_authenticated [OF demo_reachable, THEN conjunct2, rule_format, OF a] by blast
  with k a s' show ?thesis by blast
qed

subsection \<open>One client cannot touch another\<close>

lemma isolated_other:
  assumes "isolated cs s s'" "c \<noteq> cs"
  shows "\<exists>q n. (\<forall>p\<in>set q. opcode (pkt p) = OpDAT) \<and>
    heap s' c = (heap s c)\<lparr>conn := (conn (heap s c))
      \<lparr>sess := (sess (conn (heap s c)))
         \<lparr>sequenceIndex := ((\<lambda>i. (i + 1) mod maxAckValue) ^^ length q) (sequenceIndex (sess (conn (heap s c)))),
          sendQueue := sendQueue (sess (conn (heap s c))) @ q\<rparr>,
       counter := n\<rparr>\<rparr>"
proof -
  have "heap s' c = (heap s c)\<lparr>conn := conn (heap s' c)\<rparr>" "only_queued (conn (heap s c)) (conn (heap s' c))"
    using assms by (simp_all add: isolated_def)
  then show ?thesis unfolding only_queued_def queued_def by metis
qed

lemma session_effect:
  assumes "session net e from tok s = (r, s1)"
  shows "(\<forall>k. k \<noteq> from \<or> sessions s from \<noteq> None \<longrightarrow> sessions s1 k = sessions s k) \<and>
    (\<forall>c < nextPtr s. heap s1 c = heap s c) \<and>
    (\<forall>cs. r = Inr cs \<longrightarrow> sessions s from = Some cs \<or> sessions s from = None \<and> cs = nextPtr s)"
  using assms by (auto simp: session_def Let_def split: option.splits prod.splits sum.splits if_splits)

lemma accept_effect:
  assumes "acceptDatagram net e from dg s = (q, s1)"
  shows "(\<forall>k. k \<noteq> from \<or> sessions s from \<noteq> None \<longrightarrow> sessions s1 k = sessions s k) \<and>
    (\<forall>c < nextPtr s. heap s1 c = heap s c) \<and>
    (\<forall>cs pt. q = Some (cs, pt) \<longrightarrow> sessions s from = Some cs \<or> sessions s from = None \<and> cs = nextPtr s)"
proof (cases "TokenFromDatagram dg")
  case None
  with assms show ?thesis by (auto simp: acceptDatagram_def)
next
  case (Some tok)
  obtain r s2 where ss: "session net e from tok s = (r, s2)" by fastforce
  with assms Some have "s1 = s2" "\<forall>cs pt. q = Some (cs, pt) \<longrightarrow> r = Inr cs"
    by (auto simp: acceptDatagram_def split: sum.splits)
  with session_effect [OF ss] show ?thesis by blast
qed

text \<open>
  C6: one client cannot touch another. A datagram from an address, whatever it holds and however many
  messages it completes, leaves every other session of the table in place, and to every session but the one
  of that address it does no more than queue data packets for sending: packets are appended to the queue,
  the sequence index counts them, the counter of messages may move. Everything else of that session stays:
  identity, token, key, profile, place, the state of its transport, its acknowledgements, retransmissions and
  errors, its unread input. A session already open for the address stays its session, and a datagram that
  carries another token than that session's changes nothing at all.
\<close>

theorem datagram_isolated:
  "let s' = handleDatagram net e ws from dg s in
     (\<forall>c < nextPtr s. sessions s from \<noteq> Some c \<longrightarrow>
        (\<exists>q n. (\<forall>p\<in>set q. opcode (pkt p) = OpDAT) \<and>
           heap s' c = (heap s c)\<lparr>conn := (conn (heap s c))
             \<lparr>sess := (sess (conn (heap s c)))
                \<lparr>sequenceIndex := ((\<lambda>i. (i + 1) mod maxAckValue) ^^ length q) (sequenceIndex (sess (conn (heap s c)))),
                 sendQueue := sendQueue (sess (conn (heap s c))) @ q\<rparr>,
              counter := n\<rparr>\<rparr>)) \<and>
     (\<forall>k. k \<noteq> from \<or> sessions s from \<noteq> None \<longrightarrow> sessions s' k = sessions s k) \<and>
     (\<forall>cs. sessions s from = Some cs \<and> take 8 dg \<noteq> token (heap s cs) \<longrightarrow> s' = s)"
    (is "let s' = _ in (\<forall>c < _. _ \<longrightarrow> ?only_queued s' c) \<and> _")
proof -
  obtain q s1 where acc: "acceptDatagram net e from dg s = (q, s1)" by fastforce
  note eff = accept_effect [OF acc]
  let ?s' = "handleDatagram net e ws from dg s"
  have run: "?s' = s1 \<and> q = None \<or> (\<exists>cs pt. q = Some (cs, pt) \<and> isolated cs s1 ?s')"
    using acc feedDatagram_isolated by (auto simp: handleDatagram_def split: option.split)
  have "?only_queued ?s' c" if c: "c < nextPtr s" "sessions s from \<noteq> Some c" for c
  proof -
    have eq: "heap s1 c = heap s c" using eff c(1) by blast
    show ?thesis
    proof (cases "q = None")
      case True
      with run eq have "heap ?s' c = heap s c" by auto
      then show ?thesis
        by (intro exI [of _ "[]"] exI [of _ "counter (conn (heap s c))"]) simp
    next
      case False
      then obtain cs pt where "q = Some (cs, pt)" "isolated cs s1 ?s'" using run by auto
      moreover from this have "c \<noteq> cs" using eff c by auto
      ultimately show ?thesis using isolated_other [of cs s1 ?s' c] unfolding eq by blast
    qed
  qed
  moreover have "sessions ?s' = sessions s1"
    using run by (auto simp: isolated_keeps(4))
  moreover have "?s' = s" if "sessions s from = Some cs" "take 8 dg \<noteq> token (heap s cs)" for cs
    using that by (auto simp: handleDatagram_def acceptDatagram_def session_def TokenFromDatagram_def udpTokenLen_def
      split: option.split)
  ultimately show ?thesis using eff unfolding Let_def by simp
qed

theorem datagram_isolated_witness:
  "let s' = handleDatagram demo_net \<lparr>now = 0, rnd = (0, 0)\<rparr> (\<lambda>_. demo_world (Pb [] [])) ''a'' [1, 2, 3] demo_service
   in playerID (heap s' 1) = 8 \<and> sessions s' ''b'' = Some 1 \<and> s' = demo_service"
proof -
  have d: "nextPtr demo_service = 2" "sessions demo_service ''a'' = Some 0" "sessions demo_service ''b'' = Some 1"
    "playerID (heap demo_service 1) = 8" "token (heap demo_service 0) = []"
    by (simp_all add: demo_service_def demo_client_def)
  let ?s' = "handleDatagram demo_net \<lparr>now = 0, rnd = (0, 0)\<rparr> (\<lambda>_. demo_world (Pb [] [])) ''a'' [1, 2, 3] demo_service"
  note iso = datagram_isolated [of demo_net "\<lparr>now = 0, rnd = (0, 0)\<rparr>" "\<lambda>_. demo_world (Pb [] [])" "''a''"
      "[1, 2, 3]" demo_service, unfolded Let_def]
  have "?s' = demo_service"
    by (rule iso [THEN conjunct2, THEN conjunct2, rule_format, of 0]) (simp add: d)
  with d show ?thesis by simp
qed

subsection \<open>A departing player\<close>

lemma sendAll_updates:
  "setBoard b st (sendAll w ns s) = sendAll w ns (setBoard b st s)"
  "(sendAll w ns s)\<lparr>quickMatchs := q\<rparr> = sendAll w ns (s\<lparr>quickMatchs := q\<rparr>)"
  "boardStore b (sendAll w ns s) = boardStore b s" "quickMatchs (sendAll w ns s) = quickMatchs s"
proof -
  have "setBoard b st (sendPush w t body s) = sendPush w t body (setBoard b st s)"
    "(sendPush w t body s)\<lparr>quickMatchs := q\<rparr> = sendPush w t body (s\<lparr>quickMatchs := q\<rparr>)"
    "boardStore b (sendPush w t body s) = boardStore b s" "quickMatchs (sendPush w t body s) = quickMatchs s" for t body s
    by (cases b; simp add: sendPush_def modify_def)+
  then show "setBoard b st (sendAll w ns s) = sendAll w ns (setBoard b st s)"
    "(sendAll w ns s)\<lparr>quickMatchs := q\<rparr> = sendAll w ns (s\<lparr>quickMatchs := q\<rparr>)"
    "boardStore b (sendAll w ns s) = boardStore b s" "quickMatchs (sendAll w ns s) = quickMatchs s"
    by (induction ns arbitrary: s) auto
qed

lemma dropQuickMatch_sendAll:
  "\<exists>ns. dropQuickMatchForPlayer w p s = sendAll w ns (s\<lparr>quickMatchs := (quickMatchs s)(p := None)\<rparr>)"
proof (cases "quickMatchs s p")
  case None
  then have "s\<lparr>quickMatchs := (quickMatchs s)(p := None)\<rparr> = s" by (simp add: fun_upd_idem)
  with None show ?thesis
    by (intro exI [of _ "[]"]) (simp add: dropQuickMatchForPlayer_def qm_remove_def)
next
  case (Some m)
  let ?s = "s\<lparr>quickMatchs := (quickMatchs s)(p := None)\<rparr>"
  have "dropQuickMatchForPlayer w p s = pushQuickMatchRemoved w m ?s"
    using Some by (simp add: dropQuickMatchForPlayer_def qm_remove_def)
  moreover have "\<exists>ns. pushQuickMatchRemoved w m ?s = sendAll w ns ?s"
    by (auto simp: pushQuickMatchRemoved_def pushToAware_audience intro: exI [of _ "[]"] split: option.split)
  ultimately show ?thesis by simp
qed

text \<open>The service once a player's session and everything advertised under the player's name is gone.\<close>

definition departed :: "string \<Rightarrow> ptr \<Rightarrow> Service \<Rightarrow> Service" where
  "departed key cs s =
     (let p = playerID (heap s cs)
      in (closing key cs s)\<lparr>signs := withoutOwner p (signs s), mirrorKnight := withoutOwner p (mirrorKnight s),
            quickMatchs := (quickMatchs s)(p := None)\<rparr>)"

lemma closing_stores [simp]:
  "boardStore b (closing key cs s) = boardStore b s" "quickMatchs (closing key cs s) = quickMatchs s"
  "signs (closing key cs s) = signs s" "mirrorKnight (closing key cs s) = mirrorKnight s"
  by (cases b; simp add: closing_def)+

lemma dropSession_eq:
  assumes "range_order (ssByID (signs s)) (storeOrd w)" "range_order (ssByID (mirrorKnight s)) mkOrd"
    and "playerID (heap s cs) = p" "p \<noteq> 0"
  shows "\<exists>gone ns. (\<forall>b. set (gone b) = {sg \<in> ran (ssByID (boardStore b s)). sgOwnerID sg = p}) \<and>
    (\<forall>b. set (notices b w 0 (gone b) (closing key cs s)) \<subseteq> set ns) \<and>
    dropSession w mkOrd key cs s = sendAll w ns (departed key cs s)"
proof -
  let ?s = "closing key cs s"
  obtain g1 where g1: "set g1 = {sg \<in> ran (ssByID (signs s)). sgOwnerID sg = p}"
    and d1: "dropBoard Ordinary (storeOrd w) w p ?s =
      sendAll w (notices Ordinary w 0 g1 ?s) (setBoard Ordinary (withoutOwner p (signs s)) ?s)"
    using dropBoard_eq [of Ordinary ?s "storeOrd w" p w] assms(1) by auto
  let ?s1 = "sendAll w (notices Ordinary w 0 g1 ?s) (setBoard Ordinary (withoutOwner p (signs s)) ?s)"
  have "boardStore MirrorKnight ?s1 = mirrorKnight s"
    unfolding sendAll_updates(3) by simp
  then obtain g2 where g2: "set g2 = {sg \<in> ran (ssByID (mirrorKnight s)). sgOwnerID sg = p}"
    and d2: "dropBoard MirrorKnight mkOrd w p ?s1 =
      sendAll w (notices MirrorKnight w 0 g2 ?s1) (setBoard MirrorKnight (withoutOwner p (mirrorKnight s)) ?s1)"
    using dropBoard_eq [of MirrorKnight ?s1 mkOrd p w] assms(2) by auto
  let ?s2 = "sendAll w (notices MirrorKnight w 0 g2 ?s1) (setBoard MirrorKnight (withoutOwner p (mirrorKnight s)) ?s1)"
  obtain n3 where d3: "dropQuickMatchForPlayer w p ?s2 = sendAll w n3 (?s2\<lparr>quickMatchs := (quickMatchs ?s2)(p := None)\<rparr>)"
    using dropQuickMatch_sendAll by blast
  let ?ns = "notices Ordinary w 0 g1 ?s @ notices MirrorKnight w 0 g2 ?s @ n3"
  have same: "notices MirrorKnight w 0 g2 (?s\<lparr>signs := st\<rparr>) = notices MirrorKnight w 0 g2 ?s" for st
    using notices_setBoard [of MirrorKnight w 0 g2 Ordinary st ?s] by simp
  have "dropSession w mkOrd key cs s = sendAll w ?ns (departed key cs s)"
    using assms(3,4) d1 d2 d3
    by (simp add: same dropSession_closing dropSignsForPlayer_def dropMirrorKnightSignsForPlayer_def sendAll_updates
      departed_def Let_def)
  moreover define gone where "gone b = (case b of Ordinary \<Rightarrow> g1 | MirrorKnight \<Rightarrow> g2)" for b
  ultimately show ?thesis using g1 g2
    by (intro exI [of _ gone] exI [of _ ?ns]) (auto simp: gone_def split: board.split)
qed

lemma dropped_tables:
  assumes "dropSession w mkOrd key cs s = sendAll w ns (departed key cs s)"
  shows "boardStore b (dropSession w mkOrd key cs s) = withoutOwner (playerID (heap s cs)) (boardStore b s)"
    "quickMatchs (dropSession w mkOrd key cs s) = (quickMatchs s)(playerID (heap s cs) := None)"
    "sessions (dropSession w mkOrd key cs s) = (sessions s)(key := None)"
    "closed (heap (dropSession w mkOrd key cs s) cs)"
proof -
  show "boardStore b (dropSession w mkOrd key cs s) = withoutOwner (playerID (heap s cs)) (boardStore b s)"
    unfolding assms sendAll_updates(3) by (cases b) (simp_all add: departed_def Let_def)
  show "quickMatchs (dropSession w mkOrd key cs s) = (quickMatchs s)(playerID (heap s cs) := None)"
    unfolding assms sendAll_updates(4) by (simp add: departed_def Let_def)
  show "sessions (dropSession w mkOrd key cs s) = (sessions s)(key := None)" "closed (heap (dropSession w mkOrd key cs s) cs)"
    using dropSession_frame [of cs key cs s w mkOrd] by (simp_all add: frame_def)
qed

lemma withoutOwner_owners: "ssByID (withoutOwner p st) i = Some sg \<longleftrightarrow> ssByID st i = Some sg \<and> sgOwnerID sg \<noteq> p"
  by (auto simp: withoutOwner_def owned_by_def)

lemma player_online_kept: "player_online (closing key cs s) v \<Longrightarrow> player_online s v"
  by (auto simp: player_online_def online_def ran_def split: if_splits)

text \<open>
  C10: a player who leaves takes everything along. When the session of a logged-in player is dropped, it
  is closed and out of the table, and no summon sign, Mirror Knight sign or arena registration under that
  player's id is left, while those of other players stay. Every player who was shown one of the signs and
  still has a session gets the removal push.
\<close>

theorem departure_complete:
  assumes "range_order (ssByID (signs s)) (storeOrd w)" "range_order (ssByID (mirrorKnight s)) mkOrd"
    and "orders_valid w (closing key cs s)" "playerID (heap s cs) = p" "p \<noteq> 0"
  shows "let s' = dropSession w mkOrd key cs s in
    sessions s' = (sessions s)(key := None) \<and> closed (heap s' cs) \<and>
    (\<forall>b i sg. ssByID (boardStore b s') i = Some sg \<longleftrightarrow> ssByID (boardStore b s) i = Some sg \<and> sgOwnerID sg \<noteq> p) \<and>
    quickMatchs s' = (quickMatchs s)(p := None) \<and>
    (\<exists>ns. s' = sendAll w ns (departed key cs s) \<and>
       (\<forall>b sg v body. sg \<in> ran (ssByID (boardStore b s)) \<and> sgOwnerID sg = p \<and> v \<in> sgAwareOf sg \<and>
           v \<in> set (awareOrd w (sgID sg)) \<and> v \<noteq> p \<and> player_online (closing key cs s) v \<and>
           marshal w (removedMsg b sg) = Some body \<longrightarrow>
         (\<exists>t. (t, body) \<in> set ns \<and> online (closing key cs s) t \<and> playerID (heap s t) = v)))"
proof -
  obtain gone ns where gone: "\<And>b. set (gone b) = {sg \<in> ran (ssByID (boardStore b s)). sgOwnerID sg = p}"
    and sub: "\<And>b. set (notices b w 0 (gone b) (closing key cs s)) \<subseteq> set ns"
    and eq: "dropSession w mkOrd key cs s = sendAll w ns (departed key cs s)"
    using dropSession_eq [OF assms(1,2,4,5)] by blast
  have told: "\<exists>t. (t, body) \<in> set ns \<and> online (closing key cs s) t \<and> playerID (heap s t) = v"
    if "sg \<in> ran (ssByID (boardStore b s))" "sgOwnerID sg = p" "v \<in> sgAwareOf sg" "v \<in> set (awareOrd w (sgID sg))"
      "v \<noteq> p" "player_online (closing key cs s) v" "marshal w (removedMsg b sg) = Some body" for b sg v body
    using notices_complete [OF assms(3), of sg "gone b" v b body 0] that gone sub by fastforce
  have eq': "sendAll w ns (departed key cs s) = dropSession w mkOrd key cs s" by (simp add: eq)
  show ?thesis
    unfolding Let_def dropped_tables [OF eq] withoutOwner_owners assms(4)
    using eq told dropped_tables(4) [OF eq] by auto
qed

theorem departure_complete_witness:
  "let w = (demo_world (Pb [] []))\<lparr>storeOrd := [5], sessOrd := (\<lambda>i p. [''b'']), allOrd := [''b'']\<rparr>;
       s' = dropSession w [] ''a'' 0 demo_board
   in ssByID (signs s') 5 = None \<and> sessions s' ''a'' = None \<and> sessions s' ''b'' = Some 1 \<and> closed (heap s' 0)"
proof -
  define w where "w = (demo_world (Pb [] []))\<lparr>storeOrd := [5], sessOrd := (\<lambda>i p. [''b'']), allOrd := [''b'']\<rparr>"
  have order: "range_order (ssByID (signs demo_board)) (storeOrd w)" "range_order (ssByID (mirrorKnight demo_board)) []"
    by (simp_all add: range_order_def w_def demo_board_def demo_service_def newSignStoreFrom_def)
  have tab: "sessions demo_board = [''a'' \<mapsto> 0, ''b'' \<mapsto> 1]" by (simp add: demo_board_facts demo_service_def)
  have "sessions (closing ''a'' 0 demo_board) = [''b'' \<mapsto> 1]" by (auto simp: tab)
  then have ov: "orders_valid w (closing ''a'' 0 demo_board)"
    by (simp add: orders_valid_def w_def range_order_def)
  have p: "playerID (heap demo_board 0) = 7" "(7 :: u32) \<noteq> 0"
    by (simp_all add: demo_board_facts demo_service_def demo_client_def)
  note dep = departure_complete [OF order ov p, unfolded Let_def]
  have "ssByID (signs demo_board) 5 = Some sg \<Longrightarrow> sgOwnerID sg = 7" for sg
    by (auto simp: demo_board_facts demo_sign_def blank_sign_def)
  with dep [THEN conjunct2, THEN conjunct2, THEN conjunct1, rule_format, of Ordinary 5]
  have "ssByID (signs (dropSession w [] ''a'' 0 demo_board)) 5 = None" by (metis boardStore.simps(1) not_None_eq)
  moreover have "sessions (dropSession w [] ''a'' 0 demo_board) = [''b'' \<mapsto> 1]"
    using dep [THEN conjunct1] tab by auto
  ultimately show ?thesis
    using dep [THEN conjunct2, THEN conjunct1] unfolding w_def by (simp add: Let_def)
qed

text \<open>
  The clean-up goes by player, not by session: a player who has reconnected from another address loses
  the signs set up over the new session when the stale one is dropped.
\<close>

lemma stale_session_takes_live_signs:
  assumes "range_order (ssByID (signs s)) (storeOrd w)" "range_order (ssByID (mirrorKnight s)) mkOrd"
    and "playerID (heap s stale) = p" "playerID (heap s live) = p" "p \<noteq> 0"
    and "sessions s oldKey = Some stale" "sessions s newKey = Some live" "oldKey \<noteq> newKey"
    and "ssByID (signs s) i = Some sg" "sgOwner sg = live" "sgOwnerID sg = p"
  shows "sessions (dropSession w mkOrd oldKey stale s) newKey = Some live \<and>
    ssByID (signs (dropSession w mkOrd oldKey stale s)) i = None"
proof -
  obtain ns where eq: "dropSession w mkOrd oldKey stale s = sendAll w ns (departed oldKey stale s)"
    using dropSession_eq [OF assms(1,2,3,5)] by blast
  show ?thesis
    using dropped_tables(1) [OF eq, of Ordinary] dropped_tables(3) [OF eq] assms
    by (simp add: withoutOwner_def owned_by_def)
qed

subsection \<open>A dropped client can come back\<close>

lemma dropSession_keeps:
  "tokens (dropSession w mkOrd key cs s) = tokens s" "sessions (dropSession w mkOrd key cs s) = (sessions s)(key := None)"
  "token (heap (dropSession w mkOrd key cs s) c) = token (heap s c)"
  using isolated_keeps(1) [OF frame_isolated [OF dropSession_frame [of cs key cs s w mkOrd]], of c]
    isolated_keeps(4,5) [OF frame_isolated [OF dropSession_frame [of cs key cs s w mkOrd]]] by simp_all

lemma pumpSession_tokens:
  "tokens (pumpSession w mkOrd t key s) =
     (case sessions s key of
        None \<Rightarrow> tokens s | Some cs \<Rightarrow> snd (Lookup (now (clock w)) (tokens s) (token (heap s cs))))"
  "k \<noteq> key \<Longrightarrow> sessions (pumpSession w mkOrd t key s) k = sessions s k"
  "token (heap (pumpSession w mkOrd t key s) c) = token (heap s c)"
  by (auto simp: pumpSession_def Let_def dropSession_keeps split: option.split prod.split)

text \<open>A token is good until a time if every lookup up to then finds the key.\<close>

definition good_until :: "time \<Rightarrow> Registry \<Rightarrow> Token \<Rightarrow> bytes \<Rightarrow> bool" where
  "good_until u r tok key \<longleftrightarrow> (\<exists>en. regm r tok = Some en \<and> ekey en = key \<and> u \<le> expires en)"

lemma good_live: "good_until u r tok key \<Longrightarrow> t \<le> u \<Longrightarrow> live_key t r tok = Some key"
  by (auto simp: good_until_def live_key_def)

lemma good_Lookup:
  assumes "0 \<le> ttl r"
  shows "live_key t r tok = Some key \<Longrightarrow> good_until (t + ttl r) (snd (Lookup t r tok)) tok key"
    "good_until (t + ttl r) r tok key \<Longrightarrow> good_until (t + ttl r) (snd (Lookup t r x)) tok key"
    "live_key t r tok = Some key \<Longrightarrow> live_key t (snd (Lookup t r x)) tok = Some key"
    "ttl (snd (Lookup t r x)) = ttl r"
  using assms
  by (auto simp: good_until_def live_key_def Lookup_def split: option.splits if_splits)

lemma pumpLoop_good:
  assumes "0 \<le> ttl (tokens s)" "good_until (u + ttl (tokens s)) (tokens s) tok key"
    and "\<forall>k\<in>set ord. now (clock (fst (ws k))) = u"
  shows "good_until (u + ttl (tokens s)) (tokens (pumpLoop ws t ord s)) tok key"
  using assms
proof (induction ord arbitrary: s)
  case Nil
  then show ?case by simp
next
  case (Cons k ord)
  let ?s1 = "pumpSession (fst (ws k)) (snd (ws k)) t k s"
  have "ttl (tokens ?s1) = ttl (tokens s)" "good_until (u + ttl (tokens s)) (tokens ?s1) tok key"
    using Cons.prems good_Lookup(2,4) [OF Cons.prems(1)]
    by (simp_all add: pumpSession_tokens split: option.split)
  with Cons.IH [of ?s1] Cons.prems show ?case by simp
qed

lemma pumpLoop_refreshes:
  assumes "0 \<le> ttl (tokens s)" "sessions s key = Some cs" "key \<in> set ord"
    and "\<forall>k\<in>set ord. now (clock (fst (ws k))) = u" "live_key u (tokens s) (token (heap s cs)) = Some k"
  shows "good_until (u + ttl (tokens s)) (tokens (pumpLoop ws t ord s)) (token (heap s cs)) k"
  using assms
proof (induction ord arbitrary: s)
  case Nil
  then show ?case by simp
next
  case (Cons x ord)
  let ?s1 = "pumpSession (fst (ws x)) (snd (ws x)) t x s"
  have ttl: "ttl (tokens ?s1) = ttl (tokens s)" and live: "live_key u (tokens ?s1) (token (heap s cs)) = Some k"
    using Cons.prems good_Lookup(3,4) [OF Cons.prems(1)] by (simp_all add: pumpSession_tokens split: option.split)
  show ?case
  proof (cases "x = key")
    case True
    then have "good_until (u + ttl (tokens s)) (tokens ?s1) (token (heap s cs)) k"
      using Cons.prems good_Lookup(1) [OF Cons.prems(1)] by (simp add: pumpSession_tokens)
    with pumpLoop_good [of ?s1 u "token (heap s cs)" k ord ws t] ttl Cons.prems show ?thesis by simp
  next
    case False
    with Cons.IH [of ?s1] ttl live Cons.prems show ?thesis by (simp add: pumpSession_tokens)
  qed
qed

text \<open>
  C17: a dropped client can come back. The pump looks up the token of every session in the table, so a token
  that is still good when the pump runs is good for another full lifetime afterwards, also when this very
  pump drops the session for idling, for an error or because it is closed. A datagram with that token from
  an address without a session then opens a new one with the same key.
\<close>

theorem reconnect_after_drop:
  assumes "0 \<le> ttl (tokens s)" "sessions s key = Some cs" "key \<in> set ord"
    and "\<forall>k\<in>set ord. now (clock (fst (ws k))) = u" "live_key u (tokens s) (token (heap s cs)) = Some cwcKey"
    and "now e \<le> u + ttl (tokens s)" "NewContext (aesBlock net) cwcKey = Inr ctx"
    and "s' = pumpOnce ws t ord s" "sessions s' from = None"
  shows "\<exists>new s''. session net e from (token (heap s cs)) s' = (Inr new, s'') \<and> sessions s'' from = Some new \<and>
    heap s'' new = newClient net e from (token (heap s cs)) ctx \<and>
    (\<forall>k. k \<noteq> from \<longrightarrow> sessions s'' k = sessions s' k)"
proof -
  have "live_key (now e) (tokens s') (token (heap s cs)) = Some cwcKey"
    using good_live [OF pumpLoop_refreshes [OF assms(1-5)] assms(6)] assms(8) by (simp add: pumpOnce_def)
  then obtain ts where "Lookup (now e) (tokens s') (token (heap s cs)) = (Some cwcKey, ts)"
    by (auto simp: live_key_def Lookup_def split: option.splits if_splits)
  with assms(7,9) show ?thesis by (auto simp: session_def Let_def)
qed

theorem reconnect_after_drop_witness:
  "\<exists>s new s''. sessions s ''peer'' = Some 0 \<and> regm (tokens s) (replicate 8 9) = Some \<lparr>ekey = demo_key, expires = 30 * second\<rparr> \<and>
     session demo_net \<lparr>now = 45 * second, rnd = (0, 0)\<rparr> ''new'' (replicate 8 9)
       (pumpOnce (\<lambda>_. ((demo_world (Pb [] []))\<lparr>clock := \<lparr>now = 20 * second, rnd = (0, 0)\<rparr>\<rparr>, [])) (20 * second) [''peer''] s) = (Inr new, s'') \<and>
     sessions s'' ''new'' = Some new"
proof -
  define ws :: "string \<Rightarrow> World \<times> u32 list" where
    "ws = (\<lambda>_. ((demo_world (Pb [] []))\<lparr>clock := \<lparr>now = 20 * second, rnd = (0, 0)\<rparr>\<rparr>, []))"
  define e :: env where "e = \<lparr>now = 45 * second, rnd = (0, 0)\<rparr>"
  obtain s ctx where ctx: "NewContext demo_aes demo_key = Inr ctx"
    and "s = demo_start\<lparr>heap := (heap demo_start)(0 := newClient demo_net \<lparr>now = 0, rnd = (0, 0)\<rparr> ''peer'' (replicate 8 9) ctx),
      nextPtr := 1, sessions := [''peer'' \<mapsto> 0]\<rparr>"
    using demo_context by blast
  then have s: "sessions s = [''peer'' \<mapsto> 0]" "token (heap s 0) = replicate 8 9"
    "tokens s = Add 0 NewRegistry (replicate 8 9) demo_key"
    by (simp_all add: newClient_def Let_def demo_start_def)
  have reg: "ttl (tokens s) = 30 * second" "regm (tokens s) (replicate 8 9) = Some \<lparr>ekey = demo_key, expires = 30 * second\<rparr>"
    by (simp_all add: s Add_def NewRegistry_def TTL_def)
  have "sessions (pumpOnce ws (20 * second) [''peer''] s) ''new'' = None"
    by (simp add: pumpOnce_def pumpSession_tokens(2) s)
  moreover have "live_key (20 * second) (tokens s) (token (heap s 0)) = Some demo_key"
    by (simp add: live_key_def reg s(2) second_def millisecond_def)
  ultimately have "\<exists>new s''. session demo_net e ''new'' (token (heap s 0)) (pumpOnce ws (20 * second) [''peer''] s) = (Inr new, s'') \<and>
      sessions s'' ''new'' = Some new \<and> heap s'' new = newClient demo_net e ''new'' (token (heap s 0)) ctx \<and>
      (\<forall>k. k \<noteq> ''new'' \<longrightarrow> sessions s'' k = sessions (pumpOnce ws (20 * second) [''peer''] s) k)"
    using ctx
    by (intro reconnect_after_drop [where key = "''peer''" and u = "20 * second" and cwcKey = demo_key])
      (simp_all add: s(1) reg ws_def e_def demo_net_def second_def millisecond_def)
  with s(1,2) reg(2) show ?thesis unfolding ws_def e_def by (intro exI [of _ s]) auto
qed

end
