(* ===== verification/Game_Handlers.thy ===== *)
theory Game_Handlers
  imports Game_Invariant
begin

section \<open>What all handlers have in common\<close>

text \<open>
  Which messages are answered, and that every handler keeps the memory stores well formed; both are proved
  handler by handler, over the table of boot.go, and lifted to whole datagrams and to every reachable
  state.
\<close>

subsection \<open>Answers\<close>

definition answers :: "bool \<Rightarrow> result \<Rightarrow> bool" where
  "answers b r \<longleftrightarrow> (case r of Inl err \<Rightarrow> True | Inr rep \<Rightarrow> (rep \<noteq> None) = b)"

named_theorems answer_intros \<open>whether a handler answers\<close>

lemma answers_basic [answer_intros]:
  "answers True (reply w m)" "answers False noReply" "answers b (Inl err)" "answers b diverges"
  by (simp_all add: answers_def reply_def noReply_def diverges_def split: option.split)

lemma answers_parse [answer_intros]:
  "(\<And>req. answers b (fst (k req))) \<Longrightarrow> answers b (fst (parse w n pay s k))"
  by (auto simp: parse_def answers_def split: option.split)

lemma answers_storing [answer_intros]:
  "(\<And>x s1. answers b (fst (k x s1))) \<Longrightarrow> answers b (fst (storing m s k))"
  by (auto simp: storing_def answers_basic split: prod.split sum.split)

lemma sign_answers:
  "answers True (fst (handleCreateSign w cs pay s))" "answers True (fst (handleCreateMirrorKnightSign w cs pay s))"
  "answers True (fst (handleUpdateSign w cs pay s))" "answers True (fst (handleUpdateMirrorKnightSign w cs pay s))"
  "answers True (fst (handleRemoveSign w cs pay s))" "answers True (fst (handleRemoveMirrorKnightSign w cs pay s))"
  "answers True (fst (handleGetSignList w cs pay s))" "answers True (fst (handleGetMirrorKnightSignList w cs pay s))"
  "answers False (fst (handleNotifyMirrorKnight w cs pay s))"
  "answers True (fst (summonSign b w cs pay s))" "answers True (fst (rejectSign b w cs pay s))"
  unfolding handleCreateSign_def handleCreateMirrorKnightSign_def handleUpdateSign_def
    handleUpdateMirrorKnightSign_def handleRemoveSign_def handleRemoveMirrorKnightSign_def
    handleGetSignList_def handleGetMirrorKnightSignList_def handleNotifyMirrorKnight_def
    summonSign_def rejectSign_def Let_def
  by (auto intro!: answer_intros split: option.split prod.split)

lemma content_answers:
  "answers True (fst (handleCreateGhostData w cs pay s))" "answers True (fst (handleGetGhostDataList w cs pay s))"
  "answers False (fst (handleCreateBloodstain w cs pay s))" "answers True (fst (handleGetBloodstainList w cs pay s))"
  "answers True (fst (handleGetDeadingGhost w cs pay s))" "answers True (fst (handleCreateBloodMessage w cs pay s))"
  "answers True (fst (handleGetBloodMessageList w cs pay s))" "answers True (fst (handleReentryBloodMessage w cs pay s))"
  "answers True (fst (handleRemoveBloodMessage w cs pay s))" "answers True (fst (handleEvaluateBloodMessage w cs pay s))"
  "answers True (fst (handleGetBloodMessageEvaluation w cs pay s))" "answers True (fst (handleSendMessageToPlayers w cs pay s))"
  unfolding handleCreateGhostData_def handleGetGhostDataList_def handleCreateBloodstain_def
    handleGetBloodstainList_def handleGetDeadingGhost_def handleCreateBloodMessage_def handleGetBloodMessageList_def
    handleReentryBloodMessage_def handleRemoveBloodMessage_def handleEvaluateBloodMessage_def
    handleGetBloodMessageEvaluation_def handleSendMessageToPlayers_def Let_def
  by (auto intro!: answer_intros split: option.split prod.split)

lemma match_answers:
  "answers True (fst (handleGetBreakInTargetList w cs pay s))" "answers True (fst (handleBreakInTarget w cs pay s))"
  "answers True (fst (handleRejectBreakInTarget w cs pay s))" "answers True (fst (handleGetVisitorList w cs pay s))"
  "answers True (fst (handleVisit w cs pay s))" "answers True (fst (handleRejectVisit w cs pay s))"
  "answers True (fst (handleRegisterQuickMatch w cs pay s))" "answers True (fst (handleUnregisterQuickMatch w cs pay s))"
  "answers True (fst (handleUpdateQuickMatch w cs pay s))" "answers True (fst (handleSearchQuickMatch w cs pay s))"
  "answers True (fst (handleJoinQuickMatch w cs pay s))" "answers True (fst (handleRejectQuickMatch w cs pay s))"
  unfolding handleGetBreakInTargetList_def handleBreakInTarget_def handleRejectBreakInTarget_def
    handleGetVisitorList_def handleVisit_def handleRejectVisit_def
    handleRegisterQuickMatch_def handleUnregisterQuickMatch_def handleUpdateQuickMatch_def
    handleSearchQuickMatch_def handleJoinQuickMatch_def handleRejectQuickMatch_def Let_def
  by (auto intro!: answer_intros split: option.split prod.split)

lemma assign_answers [answer_intros]: "answers True (fst (assignCharacter w cs c s))"
  by (simp add: assignCharacter_def answers_basic)

lemma player_answers:
  "answers True (fst (handleUpdateLoginPlayerCharacter w cs pay s))" "answers False (fst (handleUpdatePlayerStatus w cs pay s))"
  "answers False (fst (handleUpdatePlayerCharacter w cs pay s))" "answers True (fst (handleGetLoginPlayerCharacter w cs pay s))"
  "answers True (fst (handleGetPlayerCharacter w cs pay s))" "answers True (fst (handleGetPlayerCharacterList w cs pay s))"
  "answers False (fst (handleNotifyDeath w cs pay s))" "answers False (fst (handleNotifyOfflineDeathCount w cs pay s))"
  "answers False (fst (handleNotifyKillPlayer w cs pay s))" "answers True (fst (handleGetTotalDeathCount w cs pay s))"
  "answers True (fst (handleRegisterPowerStoneData w cs pay s))" "answers True (fst (handleGetPowerStoneRanking w cs pay s))"
  "answers True (fst (handleGetPowerStoneMyRanking w cs pay s))" "answers True (fst (handleGetPowerStoneRankingRecordCount w cs pay s))"
  unfolding handleUpdateLoginPlayerCharacter_def handleUpdatePlayerStatus_def handleUpdatePlayerCharacter_def
    handleGetLoginPlayerCharacter_def handleGetPlayerCharacter_def handleGetPlayerCharacterList_def
    handleNotifyDeath_def handleNotifyOfflineDeathCount_def handleNotifyKillPlayer_def handleGetTotalDeathCount_def
    handleRegisterPowerStoneData_def handleGetPowerStoneRanking_def handleGetPowerStoneMyRanking_def
    handleGetPowerStoneRankingRecordCount_def Let_def
  by (auto intro!: answer_intros split: option.split prod.split)

lemma world_answers:
  "answers False (fst (notifyOnly name w cs pay s))" "answers True (fst (emptyAnswer a b w cs pay s))"
  "answers False (fst (handleNotifyRingBell w cs pay s))" "answers False (fst (handleNotifyKillEnemy w cs pay s))"
  "answers False (fst (handleNotifyBuyItem w cs pay s))" "answers True (fst (handleGetRightMatchingArea w cs pay s))"
  "answers True (fst (handleGetAnnounceMessageList w cs pay s))" "answers True (fst (handleWaitForUserLogin w cs pay s))"
  unfolding notifyOnly_def emptyAnswer_def handleNotifyRingBell_def handleNotifyKillEnemy_def
    handleNotifyBuyItem_def handleGetRightMatchingArea_def handleGetAnnounceMessageList_def
    handleWaitForUserLogin_def Let_def
  by (auto intro!: answer_intros split: option.split prod.split)

lemma table_answers:
  "list_all (\<lambda>(op, h). \<forall>w cs pay s. answers (op \<notin> set handledOpcodes) (fst (h w cs pay s))) opcodeTable"
  unfolding opcodeTable_def plain_handlers
  by (simp add: handledOpcodes_def sign_answers content_answers match_answers player_answers world_answers)

lemma table_answer: "(op, h) \<in> set opcodeTable \<Longrightarrow> answers (op \<notin> set handledOpcodes) (fst (h w cs pay s))"
  using table_answers by (auto simp: list_all_iff)

lemma handled_in_table: "set handledOpcodes \<subseteq> fst ` set opcodeTable"
  by (simp add: handledOpcodes_def opcodeTable_def)

text \<open>
  C16: the table and the list of silent opcodes agree. A message that is handled without an error is
  answered exactly if its opcode is in the table and not one of the fifteen the client registers no
  callback for; and it is reported as handled exactly if its opcode is in the table, so that no opcode
  with a handler is mistaken for an unimplemented one, nor the other way round.
\<close>

theorem answered_exactly:
  assumes "handleMessage w cs op pay s = (Inr (rep, handled), s')"
  shows "(rep \<noteq> None \<longleftrightarrow> op \<in> fst ` set opcodeTable \<and> op \<notin> set handledOpcodes) \<and>
    (handled \<longleftrightarrow> op \<in> fst ` set opcodeTable) \<and> (op \<notin> fst ` set opcodeTable \<longrightarrow> s' = s)"
proof (cases "map_of opcodeTable op")
  case None
  then have "op \<notin> fst ` set opcodeTable" by (simp add: map_of_eq_None_iff)
  moreover from this have "op \<notin> set handledOpcodes" using handled_in_table by blast
  ultimately show ?thesis using assms None by (simp add: handleMessage_def dispatch_def noReply_def)
next
  case (Some h)
  then have mem: "(op, h) \<in> set opcodeTable" by (rule map_of_SomeD)
  then have "op \<in> fst ` set opcodeTable" by force
  moreover have "answers (op \<notin> set handledOpcodes) (fst (h w cs pay s))" by (rule table_answer [OF mem])
  ultimately show ?thesis using assms Some
    by (auto simp: handleMessage_def dispatch_def answers_def split: prod.splits sum.splits if_splits)
qed

theorem answered_exactly_witness:
  "\<exists>rep s'. handleMessage (demo_world (Pb [] [])) 0 0x38D [] demo_service = (Inr (rep, True), s') \<and> rep \<noteq> None"
proof -
  let ?w = "demo_world (Pb [] [])"
  have "map_of opcodeTable 0x38D = Some handleServerPing" by (simp add: opcodeTable_def)
  then have "dispatch ?w 0 0x38D [] demo_service = (Inr (Some [1]), demo_service)"
    by (simp add: dispatch_def handleServerPing_def emptyAnswer_def parse_def reply_def demo_world_def)
  then have h: "handleMessage ?w 0 0x38D [] demo_service = (Inr (Some [1], True), demo_service)"
    by (simp add: handleMessage_def)
  from answered_exactly [OF h] h show ?thesis by blast
qed

subsection \<open>Well-formed stores\<close>

text \<open>Everything in a memory store is filed under its own number.\<close>

definition ghosts_filed :: "ghostStore \<Rightarrow> bool" where
  "ghosts_filed g \<longleftrightarrow> (\<forall>i x. gsByID g i = Some x \<longrightarrow> ghID x = i)"

definition stains_filed :: "bloodstainStore \<Rightarrow> bool" where
  "stains_filed b \<longleftrightarrow> (\<forall>i x. bsByID b i = Some x \<longrightarrow> bsID x = i)"

definition matches_filed :: "quickMatchStore \<Rightarrow> bool" where
  "matches_filed q \<longleftrightarrow> (\<forall>p m. q p = Some m \<longrightarrow> qmPlayerID m = p)"

definition stores_wf :: "Service \<Rightarrow> bool" where
  "stores_wf s \<longleftrightarrow>
     own_ids (signs s) \<and> own_ids (mirrorKnight s) \<and> ghosts_filed (ghosts s) \<and> stains_filed (bloodstains s) \<and>
     matches_filed (quickMatchs s)"

named_theorems wf_intros \<open>operations that keep the stores well formed\<close>

lemma wf_of_stores [wf_intros]:
  "stores_wf s \<Longrightarrow> own_ids (signs s)" "stores_wf s \<Longrightarrow> own_ids (mirrorKnight s)"
  "stores_wf s \<Longrightarrow> own_ids (boardStore b s)" "stores_wf s \<Longrightarrow> ghosts_filed (ghosts s)"
  "stores_wf s \<Longrightarrow> stains_filed (bloodstains s)" "stores_wf s \<Longrightarrow> matches_filed (quickMatchs s)"
  by (cases b; simp add: stores_wf_def)+

lemma filed_updates [wf_intros]:
  "stores_wf s \<Longrightarrow> own_ids a \<Longrightarrow> stores_wf (s\<lparr>signs := a\<rparr>)"
  "stores_wf s \<Longrightarrow> own_ids a \<Longrightarrow> stores_wf (s\<lparr>mirrorKnight := a\<rparr>)"
  "stores_wf s \<Longrightarrow> own_ids a \<Longrightarrow> stores_wf (setBoard b a s)"
  "stores_wf s \<Longrightarrow> ghosts_filed g \<Longrightarrow> stores_wf (s\<lparr>ghosts := g\<rparr>)"
  "stores_wf s \<Longrightarrow> stains_filed d \<Longrightarrow> stores_wf (s\<lparr>bloodstains := d\<rparr>)"
  "stores_wf s \<Longrightarrow> matches_filed q \<Longrightarrow> stores_wf (s\<lparr>quickMatchs := q\<rparr>)"
  "stores_wf s \<Longrightarrow> stores_wf (s\<lparr>store := st\<rparr>)" "stores_wf s \<Longrightarrow> stores_wf (s\<lparr>pushRuns := r\<rparr>)"
  "stores_wf s \<Longrightarrow> stores_wf (s\<lparr>lastTestBell := lt\<rparr>)" "stores_wf s \<Longrightarrow> stores_wf (s\<lparr>tokens := ts\<rparr>)"
  "stores_wf s \<Longrightarrow> stores_wf (s\<lparr>sessions := tab\<rparr>)" "stores_wf s \<Longrightarrow> stores_wf (modify f cs s)"
  "stores_wf s \<Longrightarrow> stores_wf (sendPush w t body s)"
  by (cases b; simp add: stores_wf_def sendPush_def)+

lemma filed_ops [wf_intros]:
  "own_ids st \<Longrightarrow> own_ids (snd (sign_add st sg))" "own_ids st \<Longrightarrow> own_ids (snd (sign_remove st i))"
  "own_ids st \<Longrightarrow> own_ids (snd (removeOwnedBy ord st p))" "own_ids st \<Longrightarrow> own_ids (markAware st i p)"
  "own_ids st \<Longrightarrow> own_ids (snd (claim st i p))" "own_ids st \<Longrightarrow> own_ids (release st i)"
  "ghosts_filed g \<Longrightarrow> ghosts_filed (snd (ghost_add ord g x))"
  "stains_filed d \<Longrightarrow> stains_filed (snd (bloodstain_add d y))"
  "matches_filed q \<Longrightarrow> matches_filed (qm_put q m)" "matches_filed q \<Longrightarrow> matches_filed (snd (qm_remove q p))"
  "matches_filed q \<Longrightarrow> matches_filed (qm_markAware q p v)"
  using own_ids_step [of st "OpAdd sg"] own_ids_step [of st "OpRemove i"] own_ids_step [of st "OpRemoveOwnedBy p ord"]
    own_ids_step [of st "OpMarkAware i p"] own_ids_step [of st "OpClaim i p"] own_ids_step [of st "OpRelease i"]
  by (auto simp: ghosts_filed_def stains_filed_def matches_filed_def ghost_add_def evictLocked_def bloodstain_add_def
    qm_put_def qm_remove_def qm_markAware_def Let_def split: if_splits option.splits prod.splits)

lemma filed_folds [wf_intros]:
  "own_ids st \<Longrightarrow> own_ids (markAll v found st)"
  "matches_filed q \<Longrightarrow> matches_filed (foldl (\<lambda>q m. qm_markAware q (qmPlayerID m) v) q ms)"
proof -
  show "own_ids st \<Longrightarrow> own_ids (markAll v found st)"
    unfolding markAll_def by (induction found arbitrary: st) (simp_all add: filed_ops)
  show "matches_filed q \<Longrightarrow> matches_filed (foldl (\<lambda>q m. qm_markAware q (qmPlayerID m) v) q ms)"
    by (induction ms arbitrary: q) (simp_all add: filed_ops)
qed

lemma wf_control [wf_intros]:
  "stores_wf s \<Longrightarrow> (\<And>req. stores_wf (snd (k req))) \<Longrightarrow> stores_wf (snd (parse w n pay s k))"
  "stores_wf s \<Longrightarrow> stores_wf (snd (runStore m s))"
  "stores_wf s \<Longrightarrow> (\<And>x s1. stores_wf s1 \<Longrightarrow> stores_wf (snd (k' x s1))) \<Longrightarrow> stores_wf (snd (storing m' s k'))"
  by (auto simp: parse_def storing_def runStore_def filed_updates split: option.split prod.split sum.split)

lemma wf_runStore: "runStore m s = (r, s1) \<Longrightarrow> stores_wf s \<Longrightarrow> stores_wf s1"
  using wf_control(2) [of s m] by simp

lemma wf_pushes [wf_intros]:
  "stores_wf s \<Longrightarrow> stores_wf (pushMsg w t m s)" "stores_wf s \<Longrightarrow> stores_wf (sendAll w ns s)"
  "stores_wf s \<Longrightarrow> stores_wf (pushToAware w i owner body ps s)" "stores_wf s \<Longrightarrow> stores_wf (relayTo w i c body ps s)"
  "stores_wf s \<Longrightarrow> stores_wf (tollLoop w h body ts s)"
proof -
  show "stores_wf s \<Longrightarrow> stores_wf (pushMsg w t m s)"
    by (simp add: pushMsg_def filed_updates split: option.split)
  show all: "stores_wf s \<Longrightarrow> stores_wf (sendAll w ns s)" for ns s
    by (induction ns arbitrary: s) (auto simp: filed_updates)
  then show "stores_wf s \<Longrightarrow> stores_wf (pushToAware w i owner body ps s)"
    by (simp add: pushToAware_audience)
  show "stores_wf s \<Longrightarrow> stores_wf (relayTo w i c body ps s)"
    by (induction w i c body ps s rule: relayTo.induct) (auto simp: filed_updates split: option.split)
  show "stores_wf s \<Longrightarrow> stores_wf (tollLoop w h body ts s)"
    by (induction ts arbitrary: s) (auto simp: filed_updates)
qed

lemma wf_notices [wf_intros]:
  "stores_wf s \<Longrightarrow> stores_wf (pushRemoved b w i sg s)" "stores_wf s \<Longrightarrow> stores_wf (pushAllRemoved b w i sgs s)"
  "stores_wf s \<Longrightarrow> stores_wf (pushQuickMatchRemoved w m s)" "stores_wf s \<Longrightarrow> stores_wf (pushRejectTo b w t o' sid r s)"
  "stores_wf s \<Longrightarrow> stores_wf (pushBreakInRejected w t h s)" "stores_wf s \<Longrightarrow> stores_wf (pushVisitRejected w t g v s)"
  "stores_wf s \<Longrightarrow> stores_wf (pushQuickMatchRejected w t h' a c md s)"
  "stores_wf s \<Longrightarrow> stores_wf (autoPair w t a c md s)" "stores_wf s \<Longrightarrow> stores_wf (pushEvaluationToAuthor w p i' s)"
  "stores_wf s \<Longrightarrow> stores_wf (broadcastBellToll w t z s)" "stores_wf s \<Longrightarrow> stores_wf (sendManagementText w t s)"
  "stores_wf s \<Longrightarrow> stores_wf (pushResource w t rp s)" "stores_wf s \<Longrightarrow> stores_wf (sendResourcePushes w t rps s)"
  by (auto simp: pushRemoved_notices pushAllRemoved_notices pushQuickMatchRemoved_def pushRejectTo_def
    pushBreakInRejected_def pushVisitRejected_def pushQuickMatchRejected_def autoPair_def pushEvaluationToAuthor_def
    broadcastBellToll_def sendManagementText_def pushResource_def sendResourcePushes_def Let_def
    intro!: filed_updates(7,8) wf_pushes dest: wf_runStore split: option.split list.split prod.split sum.split)

lemma wf_removals [wf_intros]:
  assumes "stores_wf s"
  shows "stores_wf (removeSign b w i s)" "stores_wf (dropBoard b ord w p s)"
    "stores_wf (dropQuickMatchForPlayer w p s)" "stores_wf (snd (assignCharacter w cs c s))"
  using assms filed_ops(2) [OF wf_of_stores(3) [OF assms], where i = i and b1 = b] filed_ops(3) [OF wf_of_stores(3) [OF assms], of ord b p]
    filed_ops(10) [OF wf_of_stores(6) [OF assms], of p]
  by (auto simp: removeSign_def dropBoard_def dropQuickMatchForPlayer_def assignCharacter_def
    intro!: filed_updates wf_notices split: option.split prod.split)

lemma sign_wf:
  assumes "stores_wf s"
  shows "stores_wf (snd (handleCreateSign w cs pay s))" "stores_wf (snd (handleCreateMirrorKnightSign w cs pay s))"
    "stores_wf (snd (handleUpdateSign w cs pay s))" "stores_wf (snd (handleUpdateMirrorKnightSign w cs pay s))"
    "stores_wf (snd (handleRemoveSign w cs pay s))" "stores_wf (snd (handleRemoveMirrorKnightSign w cs pay s))"
    "stores_wf (snd (handleGetSignList w cs pay s))" "stores_wf (snd (handleGetMirrorKnightSignList w cs pay s))"
    "stores_wf (snd (handleNotifyMirrorKnight w cs pay s))"
    "stores_wf (snd (summonSign b w cs pay s))" "stores_wf (snd (rejectSign b w cs pay s))"
  using assms
  unfolding handleCreateSign_def handleCreateMirrorKnightSign_def handleUpdateSign_def
    handleUpdateMirrorKnightSign_def handleRemoveSign_def handleRemoveMirrorKnightSign_def
    handleGetSignList_def handleGetMirrorKnightSignList_def handleNotifyMirrorKnight_def
    summonSign_def rejectSign_def Let_def case_prod_beta
  by (auto intro!: wf_intros split: option.split)

lemma content_wf:
  assumes "stores_wf s"
  shows "stores_wf (snd (handleCreateGhostData w cs pay s))" "stores_wf (snd (handleGetGhostDataList w cs pay s))"
    "stores_wf (snd (handleCreateBloodstain w cs pay s))" "stores_wf (snd (handleGetBloodstainList w cs pay s))"
    "stores_wf (snd (handleGetDeadingGhost w cs pay s))" "stores_wf (snd (handleCreateBloodMessage w cs pay s))"
    "stores_wf (snd (handleGetBloodMessageList w cs pay s))" "stores_wf (snd (handleReentryBloodMessage w cs pay s))"
    "stores_wf (snd (handleRemoveBloodMessage w cs pay s))" "stores_wf (snd (handleEvaluateBloodMessage w cs pay s))"
    "stores_wf (snd (handleGetBloodMessageEvaluation w cs pay s))" "stores_wf (snd (handleSendMessageToPlayers w cs pay s))"
  using assms
  unfolding handleCreateGhostData_def handleGetGhostDataList_def handleCreateBloodstain_def
    handleGetBloodstainList_def handleGetDeadingGhost_def handleCreateBloodMessage_def handleGetBloodMessageList_def
    handleReentryBloodMessage_def handleRemoveBloodMessage_def handleEvaluateBloodMessage_def
    handleGetBloodMessageEvaluation_def handleSendMessageToPlayers_def Let_def case_prod_beta
  by (auto intro!: wf_intros split: option.split sum.split)

lemma match_wf:
  assumes "stores_wf s"
  shows "stores_wf (snd (handleGetBreakInTargetList w cs pay s))" "stores_wf (snd (handleBreakInTarget w cs pay s))"
    "stores_wf (snd (handleRejectBreakInTarget w cs pay s))" "stores_wf (snd (handleGetVisitorList w cs pay s))"
    "stores_wf (snd (handleVisit w cs pay s))" "stores_wf (snd (handleRejectVisit w cs pay s))"
    "stores_wf (snd (handleRegisterQuickMatch w cs pay s))" "stores_wf (snd (handleUnregisterQuickMatch w cs pay s))"
    "stores_wf (snd (handleUpdateQuickMatch w cs pay s))" "stores_wf (snd (handleSearchQuickMatch w cs pay s))"
    "stores_wf (snd (handleJoinQuickMatch w cs pay s))" "stores_wf (snd (handleRejectQuickMatch w cs pay s))"
  using assms
  unfolding handleGetBreakInTargetList_def handleBreakInTarget_def handleRejectBreakInTarget_def
    handleGetVisitorList_def handleVisit_def handleRejectVisit_def
    handleRegisterQuickMatch_def handleUnregisterQuickMatch_def handleUpdateQuickMatch_def
    handleSearchQuickMatch_def handleJoinQuickMatch_def handleRejectQuickMatch_def Let_def case_prod_beta
  by (auto intro!: wf_intros split: option.split)

lemma player_wf:
  assumes "stores_wf s"
  shows "stores_wf (snd (handleUpdateLoginPlayerCharacter w cs pay s))" "stores_wf (snd (handleUpdatePlayerStatus w cs pay s))"
    "stores_wf (snd (handleUpdatePlayerCharacter w cs pay s))" "stores_wf (snd (handleGetLoginPlayerCharacter w cs pay s))"
    "stores_wf (snd (handleGetPlayerCharacter w cs pay s))" "stores_wf (snd (handleGetPlayerCharacterList w cs pay s))"
    "stores_wf (snd (handleNotifyDeath w cs pay s))" "stores_wf (snd (handleNotifyOfflineDeathCount w cs pay s))"
    "stores_wf (snd (handleNotifyKillPlayer w cs pay s))" "stores_wf (snd (handleGetTotalDeathCount w cs pay s))"
    "stores_wf (snd (handleRegisterPowerStoneData w cs pay s))" "stores_wf (snd (handleGetPowerStoneRanking w cs pay s))"
    "stores_wf (snd (handleGetPowerStoneMyRanking w cs pay s))" "stores_wf (snd (handleGetPowerStoneRankingRecordCount w cs pay s))"
  using assms
  unfolding handleUpdateLoginPlayerCharacter_def handleUpdatePlayerStatus_def handleUpdatePlayerCharacter_def
    handleGetLoginPlayerCharacter_def handleGetPlayerCharacter_def handleGetPlayerCharacterList_def
    handleNotifyDeath_def handleNotifyOfflineDeathCount_def handleNotifyKillPlayer_def handleGetTotalDeathCount_def
    handleRegisterPowerStoneData_def handleGetPowerStoneRanking_def handleGetPowerStoneMyRanking_def
    handleGetPowerStoneRankingRecordCount_def Let_def case_prod_beta
  by (auto intro!: wf_intros split: option.split)

lemma world_wf:
  assumes "stores_wf s"
  shows "stores_wf (snd (notifyOnly name w cs pay s))" "stores_wf (snd (emptyAnswer a b w cs pay s))"
    "stores_wf (snd (handleNotifyRingBell w cs pay s))" "stores_wf (snd (handleNotifyKillEnemy w cs pay s))"
    "stores_wf (snd (handleNotifyBuyItem w cs pay s))" "stores_wf (snd (handleGetRightMatchingArea w cs pay s))"
    "stores_wf (snd (handleGetAnnounceMessageList w cs pay s))" "stores_wf (snd (handleWaitForUserLogin w cs pay s))"
  using assms
  unfolding notifyOnly_def emptyAnswer_def handleNotifyRingBell_def handleNotifyKillEnemy_def
    handleNotifyBuyItem_def handleGetRightMatchingArea_def handleGetAnnounceMessageList_def
    handleWaitForUserLogin_def Let_def
  by (auto intro!: wf_intros split: option.split)

lemma table_wf: "list_all (\<lambda>(op, h). \<forall>w cs pay s. stores_wf s \<longrightarrow> stores_wf (snd (h w cs pay s))) opcodeTable"
  unfolding opcodeTable_def plain_handlers
  by (simp add: sign_wf content_wf match_wf player_wf world_wf)

lemma handleMessage_wf: "stores_wf s \<Longrightarrow> stores_wf (snd (handleMessage w cs op pay s))"
proof -
  assume wf: "stores_wf s"
  have "stores_wf (snd (dispatch w cs op pay s))"
    using table_wf wf map_of_SomeD [of opcodeTable op] unfolding list_all_iff
    by (fastforce simp: dispatch_def split: option.split)
  then show ?thesis by (auto simp: handleMessage_def split: prod.split sum.split)
qed

lemma answer_wf: "stores_wf s \<Longrightarrow> stores_wf (answer w cs m r s)"
  by (auto simp: answer_def intro: filed_updates split: sum.split option.split)

lemma drainLoop_wf: "stores_wf s \<Longrightarrow> stores_wf (drainLoop inflate ws cs n s)"
proof (induction inflate ws cs n s rule: drainLoop.induct)
  case (1 inflate ws cs n s)
  obtain r mc where rc: "Recv inflate (conn (heap s cs)) = (r, mc)" by fastforce
  have st: "stores_wf (setConn cs mc s)" using "1.prems" by (simp add: setConn_def filed_updates)
  show ?case
  proof (cases "\<exists>m. r = Inr (Some m)")
    case True
    then obtain m where r: "r = Inr (Some m)" by blast
    obtain q s1 where hm: "handleMessage (ws n) cs (Type m) (Payload m) (setConn cs mc s) = (q, s1)" by fastforce
    then have "stores_wf (answer (ws n) cs m q s1)"
      using handleMessage_wf [OF st, of "ws n" cs "Type m" "Payload m"] by (simp add: answer_wf)
    then show ?thesis
      using "1.IH" rc r hm by (subst drainLoop.simps) simp
  next
    case False
    with st rc show ?thesis by (subst drainLoop.simps) (auto split: sum.split option.split)
  qed
qed

lemma accept_wf:
  assumes "stores_wf s" "acceptDatagram net e from dg s = (q, s')"
  shows "stores_wf s'"
  using assms
  by (auto simp: acceptDatagram_def session_def stores_wf_def Let_def split: option.splits prod.splits sum.splits if_splits)

lemma dropSession_wf [wf_intros]: "stores_wf s \<Longrightarrow> stores_wf (dropSession w mkOrd key cs s)"
  by (auto simp: dropSession_def Let_def dropSignsForPlayer_def dropMirrorKnightSignsForPlayer_def intro!: wf_intros)

lemma pumpLoop_wf: "stores_wf s \<Longrightarrow> stores_wf (pumpLoop ws t ord s)"
proof (induction ord arbitrary: s)
  case Nil
  then show ?case by simp
next
  case (Cons key ord)
  have "stores_wf (pumpSession w mk t key s)" for w mk
    using Cons.prems by (auto simp: pumpSession_def Let_def intro!: wf_intros split: option.split prod.split)
  with Cons.IH show ?case by simp
qed

interpretation filed_runs: service_invariant net "\<lambda>K. stores_wf" for net
proof unfold_locales
  fix h st
  show "stores_wf (NewService h NewRegistry st)"
    by (simp add: stores_wf_def NewService_def own_ids_def ghosts_filed_def stains_filed_def matches_filed_def
      newSignStore_def newSignStoreFrom_def newGhostStore_def newBloodstainStore_def newQuickMatchStore_def)
next
  fix s e ws cs pt
  show "stores_wf s \<Longrightarrow> stores_wf (feedDatagram net e ws cs pt s)"
    unfolding feedDatagram_def drain_def by (intro drainLoop_wf filed_updates)
qed (auto simp: pumpOnce_def pushRunStep_def maybeSendTestBellToll_def Let_def
    intro!: pumpLoop_wf wf_intros intro: accept_wf split: option.split)

text \<open>
  C9: the stores stay well formed. In every reachable state every sign, recording, bloodstain and arena
  registration is filed under its own number, whatever messages arrive. So what a listing shows can be
  looked up, claimed and removed under the number shown.
\<close>

theorem reachable_stores_wf:
  assumes "reachable net K s q"
  shows "(\<forall>b i sg. ssByID (boardStore b s) i = Some sg \<longrightarrow> sgID sg = i) \<and>
    (\<forall>i g. gsByID (ghosts s) i = Some g \<longrightarrow> ghID g = i) \<and>
    (\<forall>i b. bsByID (bloodstains s) i = Some b \<longrightarrow> bsID b = i) \<and>
    (\<forall>p m. quickMatchs s p = Some m \<longrightarrow> qmPlayerID m = p)"
proof -
  have "stores_wf s" by (rule filed_runs.holds [OF assms])
  moreover from this have "own_ids (boardStore b s)" for b by (rule wf_of_stores)
  ultimately show ?thesis
    unfolding stores_wf_def own_ids_def ghosts_filed_def stains_filed_def matches_filed_def by blast
qed

theorem reachable_stores_wf_witness:
  "\<exists>s q. reachable demo_net {(replicate 8 9, demo_key)} s q \<and> sessions s ''peer'' = Some 0 \<and>
     (\<forall>i sg. ssByID (signs s) i = Some sg \<longrightarrow> sgID sg = i)"
proof -
  obtain dg s where a: "acceptDatagram demo_net \<lparr>now = 0, rnd = (0, 0)\<rparr> ''peer'' dg demo_start = (Some (0, [1, 2, 3]), s)"
    and s: "sessions s ''peer'' = Some 0" using demo_arrival by auto
  note r = reachable.arrive [OF demo_reachable a]
  have "\<forall>i sg. ssByID (boardStore Ordinary s) i = Some sg \<longrightarrow> sgID sg = i"
    using reachable_stores_wf [OF r, THEN conjunct1] by blast
  with r s show ?thesis by auto
qed

end
