(* ===== verification/Tcp_Stream.thy ===== *)
theory Tcp_Stream
  imports Frpg_Cipher
begin

section \<open>The TCP packet and message streams\<close>

text \<open>
  internal/frpg/packet/packet.go and internal/frpg/message/message.go: length-prefixed packets on a
  connection and, inside them, messages whose body an exchangeable cipher protects. The connection is
  the bytes still to be read, the blocks written so far and a function that says whether the last
  write failed. A read that runs out of bytes fails, as on a closed connection.
\<close>

definition MaxPacketLength :: nat where "MaxPacketLength = 64 * 1024"
definition tcpHeaderSize :: nat where "tcpHeaderSize = 12"

datatype stream_error =
    ReadFailed
  | ZeroLengthPacket
  | LengthExceedsMax nat
  | SmallerThanHeader nat
  | DeclaredLength nat nat
  | PayloadTooLarge nat
  | WriteFailed string
  | ShortPayload nat
  | ShortReplyPayload nat
  | CipherFailed cipher_error

record Stream =
  conn_in :: bytes
  conn_out :: "bytes list"
  conn_write :: "bytes list \<Rightarrow> string option"
  sent :: u16

definition readFull :: "nat \<Rightarrow> Stream \<Rightarrow> bytes option \<times> Stream" where
  "readFull n s =
     (if length (conn_in s) < n then (None, s\<lparr>conn_in := []\<rparr>)
      else (Some (take n (conn_in s)), s\<lparr>conn_in := drop n (conn_in s)\<rparr>))"

definition ReadPacket :: "Stream \<Rightarrow> (stream_error + bytes) \<times> Stream" where
  "ReadPacket s =
     (case readFull 2 s of
        (None, s1) \<Rightarrow> (Inl ReadFailed, s1)
      | (Some lenBuf, s1) \<Rightarrow>
          let outerLen = unat (get_be16 lenBuf)
          in if outerLen = 0 then (Inl ZeroLengthPacket, s1)
             else if MaxPacketLength < outerLen then (Inl (LengthExceedsMax outerLen), s1)
             else if outerLen < tcpHeaderSize then (Inl (SmallerThanHeader outerLen), s1)
             else
               (case readFull outerLen s1 of
                  (None, s2) \<Rightarrow> (Inl ReadFailed, s2)
                | (Some buf, s2) \<Rightarrow>
                    let payloadLen = unat (get_be32 (slice 4 8 buf))
                    in if payloadLen \<noteq> outerLen - tcpHeaderSize
                       then (Inl (DeclaredLength payloadLen (outerLen - tcpHeaderSize)), s2)
                       else (Inr (drop tcpHeaderSize buf), s2)))"

definition packetFrame :: "u16 \<Rightarrow> bytes \<Rightarrow> bytes" where
  "packetFrame counter p =
     put_be16 (word_of_nat (tcpHeaderSize + length p)) @ put_be16 counter @ [0, 0] @
     put_be32 (word_of_nat (length p)) @ [0, 0] @ put_be16 (word_of_nat (length p)) @ p"

definition WritePacket :: "Stream \<Rightarrow> bytes \<Rightarrow> stream_error option \<times> Stream" where
  "WritePacket s p =
     (if MaxPacketLength - tcpHeaderSize < length p then (Some (PayloadTooLarge (length p)), s)
      else
        let s1 = s\<lparr>sent := sent s + 1\<rparr>;
            s2 = s1\<lparr>conn_out := conn_out s1 @ [packetFrame (sent s1) p]\<rparr>
        in (map_option WriteFailed (conn_write s2 (conn_out s2)), s2))"


subsection \<open>Messages\<close>

type_synonym MsgType = u32

definition Reply :: MsgType where "Reply = 0x0"
definition KeyMaterial :: MsgType where "KeyMaterial = 0x1"
definition GetServiceStatus :: MsgType where "GetServiceStatus = 0x2"
definition PSNTicket :: MsgType where "PSNTicket = 0x3"
definition RequestQueryLoginServerInfo :: MsgType where "RequestQueryLoginServerInfo = 0x5"
definition RequestHandshake :: MsgType where "RequestHandshake = 0x6"

definition tcpMsgHeaderSize :: nat where "tcpMsgHeaderSize = 12"
definition respHeaderSize :: nat where "respHeaderSize = 16"

record Cipher =
  Encrypt :: "rand \<Rightarrow> bytes \<Rightarrow> cipher_error + bytes"
  Decrypt :: "bytes \<Rightarrow> cipher_error + bytes"

record TcpMessage =
  mType :: MsgType
  mIndex :: u32
  mPayload :: bytes

record MessageStream =
  pktStream :: Stream
  enc :: "Cipher option"
  dec :: "Cipher option"

definition NewStream :: "Stream \<Rightarrow> MessageStream" where
  "NewStream conn = \<lparr>pktStream = conn\<lparr>sent := 0\<rparr>, enc = None, dec = None\<rparr>"

definition SetCiphers :: "MessageStream \<Rightarrow> Cipher option \<Rightarrow> Cipher option \<Rightarrow> MessageStream" where
  "SetCiphers s e d = s\<lparr>enc := e, dec := d\<rparr>"

definition tcpMessageBytes :: "TcpMessage \<Rightarrow> bytes \<Rightarrow> bytes" where
  "tcpMessageBytes m body =
     put_be32 (word_of_nat tcpMsgHeaderSize) @ put_be32 (mType m) @ put_le32 (mIndex m) @
     (if mType m = Reply then put_be32 0 @ put_be32 1 @ put_be32 0 @ put_be32 0 else []) @ body"

definition encryptBody :: "MessageStream \<Rightarrow> rand \<Rightarrow> bytes \<Rightarrow> cipher_error + bytes" where
  "encryptBody s rd p = (case enc s of None \<Rightarrow> Inr p | Some c \<Rightarrow> Encrypt c rd p)"

definition decryptBody :: "MessageStream \<Rightarrow> bytes \<Rightarrow> cipher_error + bytes" where
  "decryptBody s body =
     (case dec s of
        None \<Rightarrow> Inr body
      | Some c \<Rightarrow> if 0 < length body then Decrypt c body else Inr body)"

definition Send :: "rand \<Rightarrow> MessageStream \<Rightarrow> TcpMessage \<Rightarrow> stream_error option \<times> MessageStream" where
  "Send rd s m =
     (case encryptBody s rd (mPayload m) of
        Inl err \<Rightarrow> (Some (CipherFailed err), s)
      | Inr body \<Rightarrow>
          let (err, p) = WritePacket (pktStream s) (tcpMessageBytes m body)
          in (err, s\<lparr>pktStream := p\<rparr>))"

definition RecvMessage :: "MessageStream \<Rightarrow> (stream_error + TcpMessage) \<times> MessageStream" where
  "RecvMessage s =
     (case ReadPacket (pktStream s) of
        (Inl err, p) \<Rightarrow> (Inl err, s\<lparr>pktStream := p\<rparr>)
      | (Inr pl, p) \<Rightarrow>
          let s' = s\<lparr>pktStream := p\<rparr>
          in if length pl < tcpMsgHeaderSize then (Inl (ShortPayload (length pl)), s')
             else
               let msgType = get_be32 (slice 4 8 pl);
                   index = get_le32 (slice 8 12 pl)
               in if msgType = Reply \<and> length pl < tcpMsgHeaderSize + respHeaderSize
                  then (Inl (ShortReplyPayload (length pl)), s')
                  else
                    let body = drop (if msgType = Reply then tcpMsgHeaderSize + respHeaderSize
                                     else tcpMsgHeaderSize) pl
                    in (case decryptBody s body of
                          Inl err \<Rightarrow> (Inl (CipherFailed err), s')
                        | Inr b \<Rightarrow>
                            (Inr \<lparr>mType = msgType, mIndex = index, mPayload = b\<rparr>, s')))"


subsection \<open>Round trips\<close>

lemma packetFrame_fields:
  "take 2 (packetFrame c p @ rest) = put_be16 (word_of_nat (12 + length p))"
  "slice 4 8 (drop 2 (packetFrame c p)) = put_be32 (word_of_nat (length p))"
  "drop 14 (packetFrame c p) = p" "length (packetFrame c p) = length p + 14"
  by (simp_all add: packetFrame_def slice_def put_be16_def put_be32_def tcpHeaderSize_def)

lemma ReadPacket_frame:
  assumes "conn_in s = packetFrame c p @ rest" "length p < 65524"
  shows "ReadPacket s = (Inr p, s\<lparr>conn_in := rest\<rparr>)"
proof -
  let ?f = "packetFrame c p"
  have f: "take 2 (conn_in s) = put_be16 (word_of_nat (12 + length p))"
    by (simp only: assms(1) packetFrame_fields)
  have n: "unat (word_of_nat (12 + length p) :: u16) = 12 + length p"
    "unat (word_of_nat (length p) :: u32) = length p"
    using assms(2) by (subst unat_of_nat, simp)+
  have buf: "take (12 + length p) (drop 2 (conn_in s)) = drop 2 ?f"
    "drop (14 + length p) (conn_in s) = rest"
    using assms(1) by (simp_all add: packetFrame_fields)
  have len: "length (conn_in s) = length p + 14 + length rest"
    using assms(1) by (simp add: packetFrame_fields)
  have 1: "readFull 2 s = (Some (put_be16 (word_of_nat (12 + length p))), s\<lparr>conn_in := drop 2 (conn_in s)\<rparr>)"
    using len f by (simp add: readFull_def)
  have 2: "readFull (12 + length p) (s\<lparr>conn_in := drop 2 (conn_in s)\<rparr>) =
      (Some (drop 2 ?f), s\<lparr>conn_in := rest\<rparr>)"
    using len buf by (simp add: readFull_def add.commute)
  have "drop 12 (drop 2 ?f) = p"
    using packetFrame_fields(3) by simp
  then show ?thesis
    using assms(2) unfolding ReadPacket_def 1
    by (simp add: Let_def n(1) [simplified] 2 [simplified] packetFrame_fields n(2)
        MaxPacketLength_def tcpHeaderSize_def)
qed


definition tcp_overhead :: "TcpMessage \<Rightarrow> nat" where
  "tcp_overhead m = (if mType m = Reply then 28 else 12)"

lemma length_tcpMessageBytes: "length (tcpMessageBytes m body) = tcp_overhead m + length body"
  by (simp add: tcpMessageBytes_def tcp_overhead_def)

lemma RecvMessage_frame:
  assumes "conn_in (pktStream s) = packetFrame c (tcpMessageBytes m body) @ rest"
    and "tcp_overhead m + length body < 65524" "decryptBody s body = Inr (mPayload m)"
  shows "RecvMessage s = (Inr m, s\<lparr>pktStream := (pktStream s)\<lparr>conn_in := rest\<rparr>\<rparr>)"
proof -
  let ?b = "tcpMessageBytes m body"
  have r: "ReadPacket (pktStream s) = (Inr ?b, (pktStream s)\<lparr>conn_in := rest\<rparr>)"
    using assms(1,2) by (intro ReadPacket_frame) (simp_all add: length_tcpMessageBytes)
  have "slice 4 8 ?b = put_be32 (mType m)" "slice 8 12 ?b = put_le32 (mIndex m)"
    "drop (tcp_overhead m) ?b = body"
    by (simp_all add: tcpMessageBytes_def tcp_overhead_def wire_simps)
  with assms(3) show ?thesis
    by (simp add: RecvMessage_def r Let_def length_tcpMessageBytes tcp_overhead_def
        tcpMsgHeaderSize_def respHeaderSize_def split: if_splits)
qed

lemma Send_ok:
  assumes "encryptBody s rd (mPayload m) = Inr body" "tcp_overhead m + length body < 65524"
    and "\<forall>w. conn_write (pktStream s) w = None"
  shows "\<exists>s'. Send rd s m = (None, s') \<and> enc s' = enc s \<and> dec s' = dec s \<and>
    conn_out (pktStream s') = conn_out (pktStream s) @
      [packetFrame (sent (pktStream s) + 1) (tcpMessageBytes m body)]"
  using assms
  by (simp add: Send_def WritePacket_def Let_def length_tcpMessageBytes MaxPacketLength_def
      tcpHeaderSize_def)

text \<open>
  A stream whose two ends hold the two halves of a cipher: whatever one end sends, the other receives,
  with the rest of the connection untouched. Proved once for every cipher with the interface.
\<close>

locale protected_stream = cipher encrypt decrypt rnd_ok plain_ok
  for encrypt :: "rand \<Rightarrow> bytes \<Rightarrow> cipher_error + bytes"
    and decrypt :: "bytes \<Rightarrow> cipher_error + bytes"
    and rnd_ok :: "rand \<Rightarrow> bool" and plain_ok :: "bytes \<Rightarrow> bool" +
  fixes overhead :: nat
  assumes expansion: "rnd_ok r \<Longrightarrow> plain_ok p \<Longrightarrow> encrypt r p = Inr ct \<Longrightarrow> length ct \<le> length p + overhead"
begin

lemma send_receive:
  assumes "rnd_ok rd" "plain_ok (mPayload m)" "length (mPayload m) + overhead + 28 < 65524"
    and "enc s = Some \<lparr>Encrypt = encrypt, Decrypt = f\<rparr>"
    and "dec r = Some \<lparr>Encrypt = g, Decrypt = decrypt\<rparr>"
    and "\<forall>w. conn_write (pktStream s) w = None"
  shows "\<exists>s' frame. Send rd s m = (None, s') \<and>
    conn_out (pktStream s') = conn_out (pktStream s) @ [frame] \<and>
    (conn_in (pktStream r) = frame @ rest \<longrightarrow>
     RecvMessage r = (Inr m, r\<lparr>pktStream := (pktStream r)\<lparr>conn_in := rest\<rparr>\<rparr>))"
proof -
  obtain ct where ct: "encrypt rd (mPayload m) = Inr ct" "ct \<noteq> []"
    using encrypts [OF assms(1,2)] by blast
  have len: "tcp_overhead m + length ct < 65524"
    using expansion [OF assms(1,2) ct(1)] assms(3) by (simp add: tcp_overhead_def)
  have "encryptBody s rd (mPayload m) = Inr ct" "decryptBody r ct = Inr (mPayload m)"
    using ct inverts [OF assms(1,2) ct(1)] assms(4,5)
    by (simp_all add: encryptBody_def decryptBody_def)
  with Send_ok [OF _ len assms(6)] RecvMessage_frame [OF _ len] show ?thesis by blast
qed

end

lemma EncryptMessage_length:
  "aes_block_size (block ctx) \<Longrightarrow> EncryptMessage ctx iv hdr pt n = (ct, tag) \<Longrightarrow>
     length tag + length ct = n + length pt"
  using decrypt_encrypt(2,3) by auto

interpretation auth_stream: protected_stream "cwcTCP_Encrypt ctx" "cwcTCP_Decrypt ctx" iv_ok
  "\<lambda>pt. aes_block_size (block ctx) \<and> pt \<noteq> []" 27 for ctx
proof unfold_locales
  fix r and pt ct :: bytes
  assume "iv_ok r" "aes_block_size (block ctx) \<and> pt \<noteq> []" "cwcTCP_Encrypt ctx r pt = Inr ct"
  then show "length ct \<le> length pt + 27"
    by (auto simp: iv_ok_def cwcTCP_Encrypt_def frame_lens split: prod.splits)
      (frule (1) EncryptMessage_length, simp)
qed


text \<open>
  A message sent on the auth stream under AES-CWC, whatever its type, index and nonempty payload,
  leaves one frame on the connection, and the peer that reads that frame with the same key receives
  exactly that message and has the rest of the connection in front of it. Payloads are limited to what
  the 16-bit length of a frame can carry.
\<close>

theorem auth_stream_roundtrip:
  assumes "NewContext aes key = Inr ctx" "aes_block_size (aes key)" "length iv = 11"
    and "mPayload m \<noteq> []" "length (mPayload m) < 65469"
    and "enc s = Some \<lparr>Encrypt = cwcTCP_Encrypt ctx, Decrypt = cwcTCP_Decrypt ctx\<rparr>"
    and "dec r = Some \<lparr>Encrypt = cwcTCP_Encrypt ctx, Decrypt = cwcTCP_Decrypt ctx\<rparr>"
    and "\<forall>w. conn_write (pktStream s) w = None"
  shows "\<exists>s' frame. Send (Inr iv) s m = (None, s') \<and>
    conn_out (pktStream s') = conn_out (pktStream s) @ [frame] \<and>
    (conn_in (pktStream r) = frame @ rest \<longrightarrow>
     RecvMessage r = (Inr m, r\<lparr>pktStream := (pktStream r)\<lparr>conn_in := rest\<rparr>\<rparr>))"
  using NewContext_key(2) [OF assms(1,2)] assms(3-8)
  by (intro auth_stream.send_receive) (auto simp: iv_ok_def)

definition demo_stream :: "Context \<Rightarrow> bytes \<Rightarrow> MessageStream" where
  "demo_stream ctx inp = SetCiphers
     (NewStream \<lparr>conn_in = inp, conn_out = [], conn_write = (\<lambda>_. None), sent = 0\<rparr>)
     (Some \<lparr>Encrypt = cwcTCP_Encrypt ctx, Decrypt = cwcTCP_Decrypt ctx\<rparr>)
     (Some \<lparr>Encrypt = cwcTCP_Encrypt ctx, Decrypt = cwcTCP_Decrypt ctx\<rparr>)"

theorem auth_stream_roundtrip_witness:
  "\<exists>ctx s' frame r'. NewContext demo_aes demo_key = Inr ctx \<and>
     Send (Inr (replicate 11 7)) (demo_stream ctx []) \<lparr>mType = Reply, mIndex = 5, mPayload = [1, 2]\<rparr> =
       (None, s') \<and>
     RecvMessage (demo_stream ctx frame) = (Inr \<lparr>mType = Reply, mIndex = 5, mPayload = [1, 2]\<rparr>, r')"
proof -
  obtain ctx where ctx: "NewContext demo_aes demo_key = Inr ctx"
    using demo_context by blast
  let ?m = "\<lparr>mType = Reply, mIndex = 5, mPayload = [1, 2]\<rparr>"
  have rt: "\<exists>s' frame. Send (Inr (replicate 11 7)) (demo_stream ctx []) ?m = (None, s') \<and>
      conn_out (pktStream s') = conn_out (pktStream (demo_stream ctx [])) @ [frame] \<and>
      (conn_in (pktStream (demo_stream ctx inp)) = frame @ [] \<longrightarrow>
       RecvMessage (demo_stream ctx inp) = (Inr ?m, (demo_stream ctx inp)
         \<lparr>pktStream := (pktStream (demo_stream ctx inp))\<lparr>conn_in := []\<rparr>\<rparr>))" for inp
    by (rule auth_stream_roundtrip [OF ctx demo_aes_block])
      (simp_all add: demo_stream_def SetCiphers_def NewStream_def)
  obtain s' frame where s': "Send (Inr (replicate 11 7)) (demo_stream ctx []) ?m = (None, s')"
    "conn_out (pktStream s') = [frame]"
    using rt [of "[]"] by (auto simp: demo_stream_def SetCiphers_def NewStream_def)
  have "\<exists>r'. RecvMessage (demo_stream ctx frame) = (Inr ?m, r')"
    using rt [of frame] s' by (auto simp: demo_stream_def SetCiphers_def NewStream_def)
  with ctx s'(1) show ?thesis by blast
qed

text \<open>
  The largest payload WritePacket accepts does not fit its own length prefix. A payload of 65524
  bytes makes the prefix wrap to zero, so the write succeeds and the reader fails on the packet.
\<close>

theorem largest_packet_unreadable:
  assumes "length p = 65524" "conn_write s (conn_out s @ [packetFrame (sent s + 1) p]) = None"
    and "conn_in r = packetFrame c p @ rest"
  shows "fst (WritePacket s p) = None \<and> fst (ReadPacket r) = Inl ZeroLengthPacket"
proof
  show "fst (WritePacket s p) = None"
    using assms(1,2)
    by (simp add: WritePacket_def MaxPacketLength_def tcpHeaderSize_def Let_def)
  have "(word_of_nat (12 + length p) :: u16) = 0"
    by (simp add: assms(1))
  then have "take 2 (conn_in r) = put_be16 0"
    using packetFrame_fields(1) [of c p rest] by (simp only: assms(3))
  moreover have "2 \<le> length (conn_in r)"
    using assms(3) by (simp add: packetFrame_fields)
  ultimately show "fst (ReadPacket r) = Inl ZeroLengthPacket"
    by (simp add: ReadPacket_def readFull_def Let_def)
qed

theorem largest_packet_unreadable_witness:
  "fst (ReadPacket \<lparr>conn_in = packetFrame 1 (replicate 65524 0), conn_out = [],
     conn_write = (\<lambda>_. None), sent = 0\<rparr>) = Inl ZeroLengthPacket"
  using largest_packet_unreadable [of "replicate 65524 0"
      "\<lparr>conn_in = [], conn_out = [], conn_write = (\<lambda>_. None), sent = 0\<rparr>"
      "\<lparr>conn_in = packetFrame 1 (replicate 65524 0), conn_out = [], conn_write = (\<lambda>_. None), sent = 0\<rparr>"
      1 "[]"]
  by simp

end
