(* ===== verification/Server_Core.thy ===== *)
theory Server_Core
  imports Tcp_Stream Auth_Token Go_Strings
begin

section \<open>Addresses, identities and the login reply\<close>

text \<open>
  internal/server/core/core.go (which address a client is told), internal/identity (ticket
  validation), internal/server/auth/gameserverinfo.go and internal/server/login/serverinfo.go (the two
  binary replies that carry an address). The parser of IPv6 literals of net/netip, the hash of
  crypto/sha256 and the package protowire are arguments.
\<close>

datatype Addr = V4 byte byte byte byte | V6 bytes string

type_synonym v6_parser = "string \<Rightarrow> Addr option"

subsection \<open>net/netip\<close>

definition v4in6_prefix :: bytes where
  "v4in6_prefix = replicate 10 0 @ [0xFF, 0xFF]"

fun Unmap :: "Addr \<Rightarrow> Addr" where
  "Unmap (V4 a b c d) = V4 a b c d"
| "Unmap (V6 bs zone) =
     (if length bs = 16 \<and> take 12 bs = v4in6_prefix
      then V4 (bs ! 12) (bs ! 13) (bs ! 14) (bs ! 15) else V6 bs zone)"

definition digit_val :: "char \<Rightarrow> nat option" where
  "digit_val ch = (let n = of_char ch :: nat in if 48 \<le> n \<and> n \<le> 57 then Some (n - 48) else None)"

fun parseDec :: "nat \<Rightarrow> string \<Rightarrow> nat option" where
  "parseDec acc [] = Some acc"
| "parseDec acc (ch # cs) =
     (case digit_val ch of
        None \<Rightarrow> None
      | Some d \<Rightarrow> if 255 < acc * 10 + d then None else parseDec (acc * 10 + d) cs)"

definition parseOctet :: "string \<Rightarrow> byte option" where
  "parseOctet s =
     (if s = [] \<or> (1 < length s \<and> hd s = CHR ''0'') then None
      else map_option word_of_nat (parseDec 0 s))"

definition parseIPv4 :: "string \<Rightarrow> Addr option" where
  "parseIPv4 s =
     (case map parseOctet (splitOn (CHR ''.'') s) of
        [Some a, Some b, Some c, Some d] \<Rightarrow> Some (V4 a b c d)
      | _ \<Rightarrow> None)"

definition ParseAddr :: "v6_parser \<Rightarrow> string \<Rightarrow> Addr option" where
  "ParseAddr parseIPv6 s =
     (case List.find (\<lambda>ch. ch = CHR ''.'' \<or> ch = CHR '':'' \<or> ch = CHR ''%'') s of
        Some ch \<Rightarrow>
          if ch = CHR ''.'' then parseIPv4 s
          else if ch = CHR '':'' then parseIPv6 s
          else None
      | None \<Rightarrow> None)"

fun IsPrivate :: "Addr \<Rightarrow> bool" where
  "IsPrivate (V4 a b c d) \<longleftrightarrow> a = 10 \<or> (a = 172 \<and> b AND 0xF0 = 16) \<or> (a = 192 \<and> b = 168)"
| "IsPrivate (V6 bs zone) \<longleftrightarrow> hd bs AND 0xFE = 0xFC"

fun IsLoopback :: "Addr \<Rightarrow> bool" where
  "IsLoopback (V4 a b c d) \<longleftrightarrow> a = 127"
| "IsLoopback (V6 bs zone) \<longleftrightarrow> bs = replicate 15 0 @ [1]"

fun IsLinkLocalUnicast :: "Addr \<Rightarrow> bool" where
  "IsLinkLocalUnicast (V4 a b c d) \<longleftrightarrow> a = 169 \<and> b = 254"
| "IsLinkLocalUnicast (V6 bs zone) \<longleftrightarrow> hd bs = 0xFE \<and> bs ! 1 AND 0xC0 = 0x80"


subsection \<open>The server's configuration and choice of address\<close>

datatype Platform = PlatformPC | PlatformPS3 | PlatformOther string

record Config =
  cfgPlatform :: Platform
  AdvertiseAddress :: string
  AdvertisePrivateAddress :: string
  AuthPort :: int
  GamePort :: int
  EnforceAppVersion :: bool
  AppVersionMin :: u64
  AppVersionMax :: u64

definition isPrivate :: "Addr \<Rightarrow> bool" where
  "isPrivate a \<longleftrightarrow> IsPrivate a \<or> IsLoopback a \<or> IsLinkLocalUnicast a"

definition AdvertisedAddressFor :: "Config \<Rightarrow> Addr \<Rightarrow> string" where
  "AdvertisedAddressFor cfg peer =
     (if AdvertisePrivateAddress cfg \<noteq> '''' \<and> isPrivate peer then AdvertisePrivateAddress cfg
      else AdvertiseAddress cfg)"

text \<open>\<open>peerAddr\<close> gives nothing when the remote address is not a TCP address with an IP.\<close>

definition serverAddress :: "Config \<Rightarrow> Addr option \<Rightarrow> string" where
  "serverAddress cfg peer =
     (case peer of None \<Rightarrow> AdvertiseAddress cfg | Some a \<Rightarrow> AdvertisedAddressFor cfg (Unmap a))"


subsection \<open>Identities\<close>

record Identity =
  idID :: string
  idPlatform :: string

definition hexDigit :: "nat \<Rightarrow> char" where
  "hexDigit n = (''0123456789abcdef'') ! n"

definition hexEncode :: "bytes \<Rightarrow> string" where
  "hexEncode bs = concat (map (\<lambda>b. [hexDigit (unat b div 16), hexDigit (unat b mod 16)]) bs)"

definition Noop_Validate :: "(bytes \<Rightarrow> bytes) \<Rightarrow> string \<Rightarrow> bytes \<Rightarrow> string + Identity" where
  "Noop_Validate sha256 hintID ticket =
     Inr \<lparr>idID = (if hintID = '''' then ''dev-'' @ hexEncode (take 8 (sha256 ticket)) else hintID),
          idPlatform = ''dev''\<rparr>"


subsection \<open>The game server record\<close>

datatype addr_error = NotAnAddress string | NotIPv4 string

definition gameServerInfoSize :: nat where "gameServerInfoSize = 56"

definition tuning :: "u32 list" where
  "tuning = [0x00004000, 0x00004000, 0x00005000, 0x00005000, 0x00000080, 0x00004000, 0x00005000,
             0x000493E0, 0x000061A8, 0x0000000C]"

definition parseV4 :: "v6_parser \<Rightarrow> string \<Rightarrow> addr_error + byte \<times> byte \<times> byte \<times> byte" where
  "parseV4 parseIPv6 s =
     (case ParseAddr parseIPv6 s of
        None \<Rightarrow> Inl (NotAnAddress s)
      | Some addr \<Rightarrow>
          case Unmap addr of
            V4 a b c d \<Rightarrow> Inr (a, b, c, d)
          | V6 _ _ \<Rightarrow> Inl (NotIPv4 s))"

definition encodeGameServerInfo ::
  "v6_parser \<Rightarrow> Token \<Rightarrow> string \<Rightarrow> u16 \<Rightarrow> addr_error + bytes" where
  "encodeGameServerInfo parseIPv6 token ip port =
     bind_err (parseV4 parseIPv6 ip) (\<lambda>(a, b, c, d).
       Inr (copy_into 8 token @ [a, b, c, d] @ put_be16 port @ [0, 0] @
            concat (map put_be32 tuning)))"

lemma slice_put_be32:
  "i < length ws \<Longrightarrow> slice (4 * i) (4 * i + 4) (concat (map put_be32 ws)) = put_be32 (ws ! i)"
proof (induction ws arbitrary: i)
  case Nil
  then show ?case by simp
next
  case (Cons w ws)
  show ?case
  proof (cases i)
    case 0
    then show ?thesis by (simp add: slice_def)
  next
    case (Suc k)
    have "slice (4 * i) (4 * i + 4) (concat (map put_be32 (w # ws))) =
        slice (4 * k) (4 * k + 4) (concat (map put_be32 ws))"
      using Suc by (simp add: slice_append_right add.commute)
    with Cons Suc show ?thesis by simp
  qed
qed

text \<open>
  The reply that tells a client where the game service is has the 56 bytes the client insists on,
  with the token, the four octets of the configured address, the port and the ten transport
  parameters at their offsets.
\<close>

theorem gameServerInfo_layout:
  assumes "length token = 8" "encodeGameServerInfo parseIPv6 token ip port = Inr buf"
  shows "\<exists>a b c d. parseV4 parseIPv6 ip = Inr (a, b, c, d) \<and> length buf = gameServerInfoSize \<and>
    take 8 buf = token \<and> slice 8 12 buf = [a, b, c, d] \<and> get_be16 (slice 12 14 buf) = port \<and>
    map (\<lambda>i. get_be32 (slice (16 + 4 * i) (20 + 4 * i) buf)) [0..<10] = tuning"
proof -
  obtain a b c d where p: "parseV4 parseIPv6 ip = Inr (a, b, c, d)"
    and buf: "buf = token @ [a, b, c, d] @ put_be16 port @ [0, 0] @ concat (map put_be32 tuning)"
    using assms by (auto simp: encodeGameServerInfo_def bind_err_Inr_iff)
  have "slice 12 14 buf = put_be16 port"
    using assms(1) by (simp add: buf slice_def put_be16_def)
  then have "get_be16 (slice 12 14 buf) = port" by (simp only: get_put_be16)
  moreover have "slice (16 + 4 * i) (20 + 4 * i) buf = put_be32 (tuning ! i)" if "i < 10" for i
  proof -
    let ?pre = "token @ [a, b, c, d] @ put_be16 port @ [0, 0]"
    have "buf = ?pre @ concat (map put_be32 tuning)" "length ?pre = 16"
      using assms(1) by (simp_all add: buf)
    then have "slice (16 + 4 * i) (20 + 4 * i) buf =
        slice (4 * i) (4 * i + 4) (concat (map put_be32 tuning))"
      by (simp only: slice_append_right le_add1) (simp add: add.commute)
    also have "\<dots> = put_be32 (tuning ! i)"
      using that by (intro slice_put_be32) (simp add: tuning_def)
    finally show ?thesis .
  qed
  then have "map (\<lambda>i. get_be32 (slice (16 + 4 * i) (20 + 4 * i) buf)) [0..<10] = tuning"
    by (intro nth_equalityI) (simp_all add: tuning_def)
  moreover have "length buf = gameServerInfoSize"
    using assms(1) by (simp add: buf gameServerInfoSize_def tuning_def)
  moreover have "take 8 buf = token" "slice 8 12 buf = [a, b, c, d]"
    using assms(1) by (simp_all add: buf slice_def)
  ultimately show ?thesis
    using p by blast
qed


theorem gameServerInfo_layout_witness:
  "\<exists>buf. encodeGameServerInfo (\<lambda>_. None) (replicate 8 5) ''192.168.1.100'' 50031 = Inr buf \<and>
     length buf = gameServerInfoSize \<and> slice 8 12 buf = [192, 168, 1, 100]"
proof -
  have "ParseAddr (\<lambda>_. None) ''192.168.1.100'' = Some (V4 192 168 1 100)"
    by code_simp
  then have p: "parseV4 (\<lambda>_. None) ''192.168.1.100'' = Inr (192, 168, 1, 100)"
    by (simp add: parseV4_def)
  then obtain buf where
    "encodeGameServerInfo (\<lambda>_. None) (replicate 8 5) ''192.168.1.100'' 50031 = Inr buf"
    by (simp add: encodeGameServerInfo_def)
  with gameServerInfo_layout [OF _ this] p show ?thesis by auto
qed



subsection \<open>The login reply\<close>

text \<open>
  The package protowire: what is appended for a tag and a varint, and what is consumed (the value and
  the number of bytes, nothing on a parse error). \<open>protowire_ok\<close> is its documented behaviour that
  consuming undoes appending.
\<close>

record protowire =
  appendTag :: "nat \<Rightarrow> nat \<Rightarrow> bytes"
  appendVarint :: "u64 \<Rightarrow> bytes"
  consumeTag :: "bytes \<Rightarrow> (nat \<times> nat \<times> nat) option"
  consumeVarint :: "bytes \<Rightarrow> (u64 \<times> nat) option"

definition VarintType :: nat where "VarintType = 0"

definition protowire_ok :: "protowire \<Rightarrow> bool" where
  "protowire_ok w \<longleftrightarrow>
     (\<forall>n rest. 0 < n \<and> n < 2 ^ 29 \<longrightarrow> appendTag w n VarintType \<noteq> [] \<and>
        consumeTag w (appendTag w n VarintType @ rest) =
          Some (n, VarintType, length (appendTag w n VarintType))) \<and>
     (\<forall>v rest. consumeVarint w (appendVarint w v @ rest) = Some (v, length (appendVarint w v)))"

definition encodeServerInfoPS3 ::
  "protowire \<Rightarrow> v6_parser \<Rightarrow> string \<Rightarrow> u16 \<Rightarrow> addr_error + bytes" where
  "encodeServerInfoPS3 w parseIPv6 authIP authPort =
     bind_err (parseV4 parseIPv6 authIP) (\<lambda>(a, b, c, d).
       let ipValue = push_bit 24 (ucast a) OR push_bit 16 (ucast b) OR push_bit 8 (ucast c) OR
                     (ucast d :: u32)
       in Inr (appendTag w 1 VarintType @ appendVarint w (ucast authPort) @
               appendTag w 2 VarintType @ appendVarint w (ucast ipValue)))"

datatype info_error =
    BadTag
  | BadWiretype nat nat
  | BadVarint nat
  | MissingField nat
  | LoopDiverges

text \<open>
  The parse loop, with fuel: one more than the number of bytes is enough for every parser that consumes
  at least a byte per tag.
\<close>

fun serverInfoLoop ::
  "nat \<Rightarrow> protowire \<Rightarrow> bytes \<Rightarrow> u16 \<times> u32 \<times> nat \<Rightarrow> info_error + u16 \<times> u32 \<times> nat" where
  "serverInfoLoop 0 w b acc = Inl LoopDiverges"
| "serverInfoLoop (Suc k) w b (port, ip, seen) =
     (if b = [] then Inr (port, ip, seen)
      else case consumeTag w b of
             None \<Rightarrow> Inl BadTag
           | Some (num, typ, n) \<Rightarrow>
               let b1 = drop n b
               in if typ \<noteq> VarintType then Inl (BadWiretype num typ)
                  else case consumeVarint w b1 of
                         None \<Rightarrow> Inl (BadVarint num)
                       | Some (v, n') \<Rightarrow>
                           serverInfoLoop k w (drop n' b1)
                             (if num = 1 then (ucast v, ip, seen OR 1)
                              else if num = 2 then (port, ucast v, seen OR 2)
                              else (port, ip, seen)))"

definition decodeServerInfoPS3 :: "protowire \<Rightarrow> bytes \<Rightarrow> info_error + Addr \<times> u16" where
  "decodeServerInfoPS3 w b =
     bind_err (serverInfoLoop (Suc (length b)) w b (0, 0, 0)) (\<lambda>(port, ip, seen).
       if seen \<noteq> 3 then Inl (MissingField seen)
       else Inr (V4 (ucast (drop_bit 24 ip)) (ucast (drop_bit 16 ip)) (ucast (drop_bit 8 ip)) (ucast ip),
                 port))"

lemma ip_octets:
  fixes a b c d :: byte
  defines "ip \<equiv> push_bit 24 (ucast a) OR push_bit 16 (ucast b) OR push_bit 8 (ucast c) OR (ucast d :: u32)"
  shows "ucast (drop_bit 24 ip) = a" "ucast (drop_bit 16 ip) = b" "ucast (drop_bit 8 ip) = c"
    "ucast ip = d"
proof -
  have lt: "bit x n \<Longrightarrow> n < 8" for x :: byte and n
    using bit_imp_le_length [of x n] by simp
  show "ucast (drop_bit 24 ip) = a" "ucast (drop_bit 16 ip) = b" "ucast (drop_bit 8 ip) = c"
    "ucast ip = d"
    unfolding ip_def by (rule bit_word_eqI; auto simp: bit_simps dest: lt)+
qed

lemma ucast_up_down: "ucast (ucast (p :: u16) :: u64) = p" "ucast (ucast (q :: u32) :: u64) = q"
  by (rule bit_word_eqI; auto simp: bit_simps)+

lemma serverInfoLoop_step:
  assumes "t \<noteq> []" "consumeTag w (t @ v @ rest) = Some (num, VarintType, length t)"
    and "consumeVarint w (v @ rest) = Some (x, length v)"
  shows "serverInfoLoop (Suc k) w (t @ v @ rest) (port, ip, seen) =
    serverInfoLoop k w rest
      (if num = 1 then (ucast x, ip, seen OR 1)
       else if num = 2 then (port, ucast x, seen OR 2) else (port, ip, seen))"
  using assms by simp

text \<open>
  What the login service tells a PS3 client, the client reads back: the address it was configured
  with and the port of the auth service.
\<close>

theorem serverInfo_roundtrip:
  assumes "protowire_ok w" "encodeServerInfoPS3 w parseIPv6 ip port = Inr buf"
  shows "\<exists>a b c d. parseV4 parseIPv6 ip = Inr (a, b, c, d) \<and>
    decodeServerInfoPS3 w buf = Inr (V4 a b c d, port)"
proof -
  obtain a b c d where p: "parseV4 parseIPv6 ip = Inr (a, b, c, d)"
    using assms(2) by (auto simp: encodeServerInfoPS3_def bind_err_Inr_iff)
  define iv where "iv = push_bit 24 (ucast a) OR push_bit 16 (ucast b) OR push_bit 8 (ucast c) OR (ucast d :: u32)"
  define t1 t2 v1 v2 where "t1 = appendTag w 1 VarintType" and "t2 = appendTag w 2 VarintType"
    and "v1 = appendVarint w (ucast port)" and "v2 = appendVarint w (ucast iv)"
  have buf: "buf = t1 @ v1 @ t2 @ v2"
    using assms(2) p by (simp add: encodeServerInfoPS3_def Let_def t1_def t2_def v1_def v2_def iv_def)
  have ne: "t1 \<noteq> []" "t2 \<noteq> []"
    and tag: "consumeTag w (t1 @ r) = Some (1, VarintType, length t1)"
      "consumeTag w (t2 @ r) = Some (2, VarintType, length t2)"
    and var: "consumeVarint w (v1 @ r) = Some (ucast port, length v1)"
      "consumeVarint w (v2 @ r) = Some (ucast iv, length v2)" for r
    using assms(1) by (auto simp: protowire_ok_def t1_def t2_def v1_def v2_def)
  have "1 \<le> length t1" "1 \<le> length t2"
    using ne by (simp_all add: Suc_le_eq)
  then have "2 \<le> length buf" by (simp add: buf)
  then have k: "Suc (length buf) = Suc (Suc (Suc k))" if "k = length buf - 2" for k
    using that by simp
  note k = k [OF refl]
  have "serverInfoLoop (Suc (length buf)) w buf (0, 0, 0) = Inr (port, iv, 3)"
  proof -
    let ?k = "length buf - 2"
    have "serverInfoLoop (Suc (Suc (Suc ?k))) w (t1 @ v1 @ t2 @ v2) (0, 0, 0) =
        serverInfoLoop (Suc (Suc ?k)) w (t2 @ v2) (port, 0, 0 OR 1)"
      by (subst serverInfoLoop_step [OF ne(1) tag(1) var(1)]) (simp add: ucast_up_down(1))
    also have "\<dots> = serverInfoLoop (Suc ?k) w [] (port, iv, (0 OR 1) OR 2)"
      using serverInfoLoop_step [OF ne(2) tag(2) var(2) [of "[]"], of "Suc ?k" port 0 "0 OR 1"]
      by (simp add: ucast_up_down(2) del: serverInfoLoop.simps)
    also have "\<dots> = Inr (port, iv, 3)"
      by simp
    finally show ?thesis using k by (simp only: buf)
  qed
  then have "decodeServerInfoPS3 w buf = Inr (V4 a b c d, port)"
    by (simp only: decodeServerInfoPS3_def bind_err_simps prod.case
        ip_octets [of a b c d, folded iv_def]) simp
  with p show ?thesis by blast
qed


text \<open>The documented varint encoding, base 128 with the low group first, has that behaviour.\<close>

fun leb128 :: "nat \<Rightarrow> bytes" where
  "leb128 n = (if n < 128 then [word_of_nat n] else word_of_nat (n mod 128 + 128) # leb128 (n div 128))"

fun unleb128 :: "bytes \<Rightarrow> (nat \<times> nat) option" where
  "unleb128 [] = None"
| "unleb128 (b # bs) =
     (if unat b < 128 then Some (unat b, 1)
      else map_option (\<lambda>(v, k). (unat b - 128 + 128 * v, Suc k)) (unleb128 bs))"

declare leb128.simps [simp del]

lemma unleb_leb: "unleb128 (leb128 n @ rest) = Some (n, length (leb128 n))"
proof (induction n rule: leb128.induct)
  case (1 n)
  show ?case
  proof (cases "n < 128")
    case True
    then show ?thesis by (simp add: leb128.simps [of n] unat_of_nat)
  next
    case False
    have "n mod 128 + 128 < 256"
      using mod_less_divisor [of 128 n] by simp
    then have "unat (word_of_nat (n mod 128 + 128) :: byte) = n mod 128 + 128"
      by (subst unat_of_nat) simp
    with False 1 show ?thesis by (simp add: leb128.simps [of n] del: of_nat_add)
  qed
qed

definition demo_wire :: protowire where
  "demo_wire =
     \<lparr>appendTag = (\<lambda>n t. leb128 (n * 8 + t)), appendVarint = (\<lambda>v. leb128 (unat v)),
      consumeTag = (\<lambda>b. map_option (\<lambda>(v, k). (v div 8, v mod 8, k)) (unleb128 b)),
      consumeVarint = (\<lambda>b. map_option (\<lambda>(v, k). (word_of_nat v, k)) (unleb128 b))\<rparr>"

lemma demo_wire_ok: "protowire_ok demo_wire"
proof -
  have "leb128 n \<noteq> []" for n
    by (subst leb128.simps) simp
  then show ?thesis
    by (simp add: protowire_ok_def demo_wire_def VarintType_def unleb_leb)
qed

theorem serverInfo_roundtrip_witness:
  "\<exists>buf. encodeServerInfoPS3 demo_wire (\<lambda>_. None) ''192.168.1.100'' 50050 = Inr buf \<and>
     decodeServerInfoPS3 demo_wire buf = Inr (V4 192 168 1 100, 50050)"
proof -
  have "ParseAddr (\<lambda>_. None) ''192.168.1.100'' = Some (V4 192 168 1 100)"
    by code_simp
  then have p: "parseV4 (\<lambda>_. None) ''192.168.1.100'' = Inr (192, 168, 1, 100)"
    by (simp add: parseV4_def)
  then obtain buf where
    "encodeServerInfoPS3 demo_wire (\<lambda>_. None) ''192.168.1.100'' 50050 = Inr buf"
    by (simp add: encodeServerInfoPS3_def Let_def)
  with serverInfo_roundtrip [OF demo_wire_ok this] p show ?thesis by auto
qed

end
