(* ===== verification/Auth_Service.thy ===== *)
theory Auth_Service
  imports Server_Core
begin

section \<open>The login and auth services\<close>

text \<open>
  internal/server/login/login.go and internal/server/auth/auth.go: what one connection does, from the
  first message to the end. The record \<open>AuthLibs\<close> holds the library functions (AES, OAEP, SHA-256, the
  IPv6 parser, protowire and the generated protobuf codecs) and the RSA key; \<open>AuthRand\<close> the random bytes
  each step draws. Logging, read deadlines and the debug wrapper of the connection are left out.
\<close>

record AuthLibs =
  libAES :: "bytes \<Rightarrow> bytes \<Rightarrow> bytes"
  libOAEP :: "bytes \<Rightarrow> string + bytes"
  libSHA256 :: "bytes \<Rightarrow> bytes"
  libIPv6 :: v6_parser
  libWire :: protowire
  pbRequestHandshake :: "bytes \<Rightarrow> string + bytes"
  pbGetServiceStatus :: "bytes \<Rightarrow> string + string \<times> u64"
  pbGetServiceStatusResponse :: "u64 \<Rightarrow> string + bytes"
  pbQueryLoginServerInfo :: "bytes \<Rightarrow> string + unit"
  pbQueryLoginServerInfoResponse :: "string \<Rightarrow> int \<Rightarrow> string + bytes"
  keyN :: nat
  keyD :: nat

record AuthRand =
  rndBlob :: rand
  ivStatus :: rand
  rndKey :: rand
  ivKey :: rand
  rndToken :: rand
  ivTicket :: rand

datatype auth_error =
    StreamFailed stream_error
  | UnexpectedType MsgType MsgType
  | ParseFailed string
  | BadCwcKey nat
  | NoRandom string
  | CwcFailed cwc_error
  | UnsupportedVersion u64
  | MarshalFailed string
  | BadKeyMaterial nat
  | ShortTicket nat
  | TicketRefused string
  | AddressFailed addr_error

definition NewRSAServer :: "AuthLibs \<Rightarrow> Cipher" where
  "NewRSAServer l =
     \<lparr>Encrypt = (\<lambda>_. rsaServer_Encrypt (keyN l) (keyD l)), Decrypt = rsaServer_Decrypt (libOAEP l)\<rparr>"

definition NewCWCTCP :: "AuthLibs \<Rightarrow> bytes \<Rightarrow> cwc_error + Cipher" where
  "NewCWCTCP l key =
     bind_err (NewContext (libAES l) key) (\<lambda>ctx.
       Inr \<lparr>Encrypt = cwcTCP_Encrypt ctx, Decrypt = cwcTCP_Decrypt ctx\<rparr>)"

definition recv_want ::
  "MessageStream \<Rightarrow> MsgType \<Rightarrow> (auth_error + TcpMessage) \<times> MessageStream" where
  "recv_want s want =
     (case RecvMessage s of
        (Inl err, s') \<Rightarrow> (Inl (StreamFailed err), s')
      | (Inr m, s') \<Rightarrow>
          if mType m \<noteq> want then (Inl (UnexpectedType want (mType m)), s') else (Inr m, s'))"

definition reply_to ::
  "rand \<Rightarrow> MessageStream \<Rightarrow> TcpMessage \<Rightarrow> bytes \<Rightarrow> (auth_error + unit) \<times> MessageStream" where
  "reply_to rd s m body =
     (case Send rd s \<lparr>mType = Reply, mIndex = mIndex m, mPayload = body\<rparr> of
        (None, s') \<Rightarrow> (Inr (), s')
      | (Some err, s') \<Rightarrow> (Inl (StreamFailed err), s'))"

definition doHandshake ::
  "AuthLibs \<Rightarrow> AuthRand \<Rightarrow> MessageStream \<Rightarrow> (auth_error + unit) \<times> MessageStream" where
  "doHandshake l rd s =
     (case recv_want s RequestHandshake of
        (Inl err, s1) \<Rightarrow> (Inl err, s1)
      | (Inr m, s1) \<Rightarrow>
          case pbRequestHandshake l (mPayload m) of
            Inl err \<Rightarrow> (Inl (ParseFailed err), s1)
          | Inr cwcKey \<Rightarrow>
              if length cwcKey \<noteq> 16 then (Inl (BadCwcKey (length cwcKey)), s1)
              else
                let s2 = SetCiphers s1 None None
                in case rndBlob rd of
                     Inl err \<Rightarrow> (Inl (NoRandom err), s2)
                   | Inr r \<Rightarrow>
                       (case reply_to (Inl '''') s2 m (r @ replicate 16 0) of
                          (Inl err, s3) \<Rightarrow> (Inl err, s3)
                        | (Inr _, s3) \<Rightarrow>
                            case NewCWCTCP l cwcKey of
                              Inl err \<Rightarrow> (Inl (CwcFailed err), s3)
                            | Inr c \<Rightarrow> (Inr (), SetCiphers s3 (Some c) (Some c))))"

definition versionAccepted :: "Config \<Rightarrow> u64 \<Rightarrow> bool" where
  "versionAccepted cfg v \<longleftrightarrow>
     \<not> EnforceAppVersion cfg \<or> (AppVersionMin cfg \<le> v \<and> v \<le> AppVersionMax cfg)"

definition doServiceStatus ::
  "AuthLibs \<Rightarrow> Config \<Rightarrow> AuthRand \<Rightarrow> MessageStream \<Rightarrow> (auth_error + string) \<times> MessageStream" where
  "doServiceStatus l cfg rd s =
     (case recv_want s GetServiceStatus of
        (Inl err, s1) \<Rightarrow> (Inl err, s1)
      | (Inr m, s1) \<Rightarrow>
          case pbGetServiceStatus l (mPayload m) of
            Inl err \<Rightarrow> (Inl (ParseFailed err), s1)
          | Inr (psnID, appVersion) \<Rightarrow>
              if \<not> versionAccepted cfg appVersion
              then (Inl (UnsupportedVersion appVersion), snd (reply_to (ivStatus rd) s1 m []))
              else case pbGetServiceStatusResponse l appVersion of
                     Inl err \<Rightarrow> (Inl (MarshalFailed err), s1)
                   | Inr body \<Rightarrow>
                       (case reply_to (ivStatus rd) s1 m body of
                          (Inl err, s2) \<Rightarrow> (Inl err, s2)
                        | (Inr _, s2) \<Rightarrow> (Inr psnID, s2)))"

definition doKeyMaterial ::
  "AuthRand \<Rightarrow> MessageStream \<Rightarrow> (auth_error + bytes) \<times> MessageStream" where
  "doKeyMaterial rd s =
     (case recv_want s KeyMaterial of
        (Inl err, s1) \<Rightarrow> (Inl err, s1)
      | (Inr m, s1) \<Rightarrow>
          if length (mPayload m) \<noteq> 8 then (Inl (BadKeyMaterial (length (mPayload m))), s1)
          else case rndKey rd of
                 Inl err \<Rightarrow> (Inl (NoRandom err), s1)
               | Inr r \<Rightarrow>
                   let gameKey = mPayload m @ r
                   in case reply_to (ivKey rd) s1 m gameKey of
                        (Inl err, s2) \<Rightarrow> (Inl err, s2)
                      | (Inr _, s2) \<Rightarrow> (Inr gameKey, s2))"

definition doPSNTicket ::
  "AuthLibs \<Rightarrow> Config \<Rightarrow> AuthRand \<Rightarrow> time \<Rightarrow> Addr option \<Rightarrow> MessageStream \<Rightarrow> Registry \<Rightarrow>
     string \<Rightarrow> bytes \<Rightarrow> (auth_error + unit) \<times> MessageStream \<times> Registry" where
  "doPSNTicket l cfg rd t peer s reg psnID gameKey =
     (case recv_want s PSNTicket of
        (Inl err, s1) \<Rightarrow> (Inl err, s1, reg)
      | (Inr m, s1) \<Rightarrow>
          if length (mPayload m) < 16 then (Inl (ShortTicket (length (mPayload m))), s1, reg)
          else case Noop_Validate (libSHA256 l) psnID (drop 16 (mPayload m)) of
                 Inl err \<Rightarrow> (Inl (TicketRefused err), s1, reg)
               | Inr ident \<Rightarrow>
                   case rndToken rd of
                     Inl err \<Rightarrow> (Inl (NoRandom err), s1, reg)
                   | Inr token \<Rightarrow>
                       case encodeGameServerInfo (libIPv6 l) token (serverAddress cfg peer)
                              (word_of_int (GamePort cfg)) of
                         Inl err \<Rightarrow> (Inl (AddressFailed err), s1, reg)
                       | Inr info \<Rightarrow>
                           case reply_to (ivTicket rd) s1 m info of
                             (Inl err, s2) \<Rightarrow> (Inl err, s2, reg)
                           | (Inr _, s2) \<Rightarrow> (Inr (), s2, Add t reg token gameKey))"

definition auth_handle ::
  "AuthLibs \<Rightarrow> Config \<Rightarrow> AuthRand \<Rightarrow> time \<Rightarrow> Addr option \<Rightarrow> Stream \<Rightarrow> Registry \<Rightarrow>
     (auth_error + unit) \<times> MessageStream \<times> Registry" where
  "auth_handle l cfg rd t peer conn reg =
     (let c = NewRSAServer l;
          s0 = SetCiphers (NewStream conn) (Some c) (Some c)
      in case doHandshake l rd s0 of
           (Inl err, s1) \<Rightarrow> (Inl err, s1, reg)
         | (Inr _, s1) \<Rightarrow>
             case doServiceStatus l cfg rd s1 of
               (Inl err, s2) \<Rightarrow> (Inl err, s2, reg)
             | (Inr psnID, s2) \<Rightarrow>
                 case doKeyMaterial rd s2 of
                   (Inl err, s3) \<Rightarrow> (Inl err, s3, reg)
                 | (Inr gameKey, s3) \<Rightarrow> doPSNTicket l cfg rd t peer s3 reg psnID gameKey)"


subsection \<open>The login service\<close>

definition loginReply :: "AuthLibs \<Rightarrow> Config \<Rightarrow> Addr option \<Rightarrow> auth_error + bytes" where
  "loginReply l cfg peer =
     (let serverIP = serverAddress cfg peer
      in if cfgPlatform cfg = PlatformPS3
         then (case encodeServerInfoPS3 (libWire l) (libIPv6 l) serverIP (word_of_int (AuthPort cfg)) of
                 Inl err \<Rightarrow> Inl (AddressFailed err) | Inr b \<Rightarrow> Inr b)
         else (case pbQueryLoginServerInfoResponse l serverIP (AuthPort cfg) of
                 Inl err \<Rightarrow> Inl (MarshalFailed err) | Inr b \<Rightarrow> Inr b))"

text \<open>One round of the login loop; the loop ends with the first error.\<close>

definition login_step ::
  "AuthLibs \<Rightarrow> Config \<Rightarrow> Addr option \<Rightarrow> MessageStream \<Rightarrow> (auth_error + unit) \<times> MessageStream" where
  "login_step l cfg peer s =
     (case recv_want s RequestQueryLoginServerInfo of
        (Inl err, s1) \<Rightarrow> (Inl err, s1)
      | (Inr m, s1) \<Rightarrow>
          case pbQueryLoginServerInfo l (mPayload m) of
            Inl err \<Rightarrow> (Inl (ParseFailed err), s1)
          | Inr _ \<Rightarrow>
              case loginReply l cfg peer of
                Inl err \<Rightarrow> (Inl err, s1)
              | Inr body \<Rightarrow> reply_to (Inl '''') s1 m body)"

lemma recv_consumes:
  assumes "recv_want s w = (Inr m, s')"
  shows "length (conn_in (pktStream s')) < length (conn_in (pktStream s))" "mType m = w"
    and "conn_out (pktStream s') = conn_out (pktStream s)" "enc s' = enc s" "dec s' = dec s"
proof -
  obtain s1 where r: "RecvMessage s = (Inr m, s1)" "mType m = w" "s' = s1"
    using assms by (auto simp: recv_want_def split: prod.splits sum.splits if_splits)
  then obtain pl p where rp: "ReadPacket (pktStream s) = (Inr pl, p)" "s' = s\<lparr>pktStream := p\<rparr>"
    by (auto simp: RecvMessage_def Let_def split: prod.splits sum.splits if_splits)
  from rp(1) have "length (conn_in p) < length (conn_in (pktStream s)) \<and>
      conn_out p = conn_out (pktStream s)"
    by (auto simp: ReadPacket_def readFull_def Let_def split: prod.splits option.splits if_splits)
  with rp r show "length (conn_in (pktStream s')) < length (conn_in (pktStream s))" "mType m = w"
    "conn_out (pktStream s') = conn_out (pktStream s)" "enc s' = enc s" "dec s' = dec s"
    by auto
qed


lemma reply_in: "reply_to rd s m b = (x, s') \<Longrightarrow> conn_in (pktStream s') = conn_in (pktStream s)"
  by (auto simp: reply_to_def Send_def WritePacket_def Let_def
      split: prod.splits sum.splits option.splits if_splits)

lemma reply_ok:
  "reply_to rd s m b = (Inr u, s') \<Longrightarrow>
     length (conn_out (pktStream s')) = Suc (length (conn_out (pktStream s)))"
  by (auto simp: reply_to_def Send_def WritePacket_def Let_def
      split: prod.splits sum.splits option.splits if_splits)

lemma login_consumes:
  "login_step l cfg peer s = (Inr u, s') \<Longrightarrow>
     length (conn_in (pktStream s')) < length (conn_in (pktStream s))"
  by (auto simp: login_step_def dest!: recv_consumes(1) reply_in
      split: prod.splits sum.splits)

function login_loop ::
  "AuthLibs \<Rightarrow> Config \<Rightarrow> Addr option \<Rightarrow> MessageStream \<Rightarrow> auth_error \<times> MessageStream" where
  "login_loop l cfg peer s =
     (case login_step l cfg peer s of
        (Inl err, s') \<Rightarrow> (err, s')
      | (Inr _, s') \<Rightarrow> login_loop l cfg peer s')"
  by pat_completeness auto
termination
  by (relation "measure (\<lambda>(l, cfg, peer, s). length (conn_in (pktStream s)))")
    (auto dest: login_consumes login_consumes [OF sym])

definition login_handle ::
  "AuthLibs \<Rightarrow> Config \<Rightarrow> Addr option \<Rightarrow> Stream \<Rightarrow> auth_error \<times> MessageStream" where
  "login_handle l cfg peer conn =
     (let c = NewRSAServer l
      in login_loop l cfg peer (SetCiphers (NewStream conn) (Some c) (Some c)))"

declare login_loop.simps [simp del]


subsection \<open>What the four stages leave behind\<close>

lemma pktStream_SetCiphers [simp]: "pktStream (SetCiphers s e d) = pktStream s"
  by (simp add: SetCiphers_def)

text \<open>
  What the peer sent: the messages its bytes hold, read one after another, each with its own cipher. Only
  the input counts; what has been written and whether writing works does not.
\<close>

definition reader :: "bytes \<Rightarrow> Cipher option \<Rightarrow> MessageStream" where
  "reader inp d =
     \<lparr>pktStream = \<lparr>conn_in = inp, conn_out = [], conn_write = (\<lambda>_. None), sent = 0\<rparr>, enc = None, dec = d\<rparr>"

fun messages_read :: "Cipher list \<Rightarrow> bytes \<Rightarrow> TcpMessage list option" where
  "messages_read [] inp = Some []"
| "messages_read (c # cs) inp =
     (case RecvMessage (reader inp (Some c)) of
        (Inl _, _) \<Rightarrow> None
      | (Inr m, s) \<Rightarrow> map_option (Cons m) (messages_read cs (conn_in (pktStream s))))"

lemma ReadPacket_input:
  assumes "ReadPacket s = (r, s')" "conn_in q = conn_in s"
  shows "\<exists>q'. ReadPacket q = (r, q') \<and> conn_in q' = conn_in s'"
  using assms
  by (auto simp: ReadPacket_def readFull_def Let_def split: prod.splits option.splits if_splits)

lemma RecvMessage_input:
  assumes "RecvMessage s = (r, s')" "conn_in (pktStream q) = conn_in (pktStream s)" "dec q = dec s"
  shows "\<exists>q'. RecvMessage q = (r, q') \<and> conn_in (pktStream q') = conn_in (pktStream s')"
proof -
  obtain r1 p where p: "ReadPacket (pktStream s) = (r1, p)" by fastforce
  obtain p' where p': "ReadPacket (pktStream q) = (r1, p')" "conn_in p' = conn_in p"
    using ReadPacket_input [OF p assms(2)] by blast
  from assms(1,3) p p' show ?thesis
    by (auto simp: RecvMessage_def decryptBody_def Let_def split: sum.splits if_splits option.splits)
qed

lemma recv_read:
  assumes "recv_want s w = (Inr m, s1)" "conn_in (pktStream s') = conn_in (pktStream s1)" "dec s = Some c"
  shows "messages_read (c # cs) (conn_in (pktStream s)) =
    map_option (Cons m) (messages_read cs (conn_in (pktStream s')))"
proof -
  have "RecvMessage s = (Inr m, s1)"
    using assms(1) by (auto simp: recv_want_def split: prod.splits sum.splits if_splits)
  then obtain q where "RecvMessage (reader (conn_in (pktStream s)) (Some c)) = (Inr m, q)"
    "conn_in (pktStream q) = conn_in (pktStream s1)"
    using RecvMessage_input [of s "Inr m" s1 "reader (conn_in (pktStream s)) (Some c)"] assms(3)
    by (auto simp: reader_def)
  with assms(2) show ?thesis by simp
qed

lemma reply_dec: "reply_to rd s m b = (x, s') \<Longrightarrow> dec s' = dec s"
  by (auto simp: reply_to_def Send_def WritePacket_def Let_def
      split: prod.splits sum.splits option.splits if_splits)

lemma dec_SetCiphers [simp]: "dec (SetCiphers s e d) = d"
  by (simp add: SetCiphers_def)

lemma handshake_ok:
  assumes "doHandshake l rd s = (Inr u, s')" "dec s = Some c0"
  shows "length (conn_out (pktStream s')) = Suc (length (conn_out (pktStream s))) \<and>
    (\<exists>m cwcKey c. mType m = RequestHandshake \<and> pbRequestHandshake l (mPayload m) = Inr cwcKey \<and>
       length cwcKey = 16 \<and> NewCWCTCP l cwcKey = Inr c \<and> dec s' = Some c \<and>
       (\<forall>cs. messages_read (c0 # cs) (conn_in (pktStream s)) =
          map_option (Cons m) (messages_read cs (conn_in (pktStream s')))))"
proof -
  obtain m s1 cwcKey blob s3 c where st: "recv_want s RequestHandshake = (Inr m, s1)"
    "pbRequestHandshake l (mPayload m) = Inr cwcKey" "length cwcKey = 16"
    "reply_to (Inl '''') (SetCiphers s1 None None) m blob = (Inr (), s3)"
    "NewCWCTCP l cwcKey = Inr c" "s' = SetCiphers s3 (Some c) (Some c)"
    using assms(1) by (auto simp: doHandshake_def Let_def split: prod.splits sum.splits if_splits)
  then have "conn_in (pktStream s') = conn_in (pktStream s1)" using reply_in [OF st(4)] by simp
  from recv_read [OF st(1) this assms(2)] recv_consumes [OF st(1)] reply_ok [OF st(4)] st show ?thesis
    by auto
qed

lemma status_ok:
  assumes "doServiceStatus l cfg rd s = (Inr psn, s')" "dec s = Some c"
  shows "length (conn_out (pktStream s')) = Suc (length (conn_out (pktStream s))) \<and> dec s' = Some c \<and>
    (\<exists>m v. mType m = GetServiceStatus \<and> pbGetServiceStatus l (mPayload m) = Inr (psn, v) \<and> versionAccepted cfg v \<and>
       (\<forall>cs. messages_read (c # cs) (conn_in (pktStream s)) =
          map_option (Cons m) (messages_read cs (conn_in (pktStream s')))))"
proof -
  obtain m s1 v body where st: "recv_want s GetServiceStatus = (Inr m, s1)"
    "pbGetServiceStatus l (mPayload m) = Inr (psn, v)" "versionAccepted cfg v"
    "reply_to (ivStatus rd) s1 m body = (Inr (), s')"
    using assms(1) by (auto simp: doServiceStatus_def Let_def split: prod.splits sum.splits if_splits)
  from recv_read [OF st(1) reply_in [OF st(4)] assms(2)] recv_consumes [OF st(1)] reply_ok [OF st(4)]
    reply_dec [OF st(4)] assms(2) st show ?thesis
    by auto
qed

lemma key_ok:
  assumes "doKeyMaterial rd s = (Inr key, s')" "dec s = Some c"
  shows "length (conn_out (pktStream s')) = Suc (length (conn_out (pktStream s))) \<and> dec s' = Some c \<and>
    (\<exists>m srv. mType m = KeyMaterial \<and> length (mPayload m) = 8 \<and> rndKey rd = Inr srv \<and> key = mPayload m @ srv \<and>
       (\<forall>cs. messages_read (c # cs) (conn_in (pktStream s)) =
          map_option (Cons m) (messages_read cs (conn_in (pktStream s')))))"
proof -
  obtain m s1 srv where st: "recv_want s KeyMaterial = (Inr m, s1)" "length (mPayload m) = 8"
    "rndKey rd = Inr srv" "reply_to (ivKey rd) s1 m (mPayload m @ srv) = (Inr (), s')" "key = mPayload m @ srv"
    using assms(1) by (auto simp: doKeyMaterial_def Let_def split: prod.splits sum.splits if_splits)
  from recv_read [OF st(1) reply_in [OF st(4)] assms(2)] recv_consumes [OF st(1)] reply_ok [OF st(4)]
    reply_dec [OF st(4)] assms(2) st show ?thesis
    by auto
qed

lemma ticket_failed: "doPSNTicket l cfg rd t peer s reg psn key = (Inl err, s', reg') \<Longrightarrow> reg' = reg"
  by (auto simp: doPSNTicket_def Let_def split: prod.splits sum.splits if_splits)

lemma ticket_ok:
  assumes "doPSNTicket l cfg rd t peer s reg psn key = (Inr u, s', reg')" "dec s = Some c"
  shows "length (conn_out (pktStream s')) = Suc (length (conn_out (pktStream s))) \<and>
    (\<exists>m token. mType m = PSNTicket \<and> 16 \<le> length (mPayload m) \<and> rndToken rd = Inr token \<and>
       reg' = Add t reg token key \<and> messages_read [c] (conn_in (pktStream s)) = Some [m])"
proof -
  obtain m s1 token info where st: "recv_want s PSNTicket = (Inr m, s1)" "16 \<le> length (mPayload m)"
    "rndToken rd = Inr token" "reply_to (ivTicket rd) s1 m info = (Inr (), s')" "reg' = Add t reg token key"
    using assms(1) by (auto simp: doPSNTicket_def Let_def split: prod.splits sum.splits if_splits)
  from recv_read [OF st(1) reply_in [OF st(4)] assms(2), of "[]"] recv_consumes [OF st(1)] reply_ok [OF st(4)] st
  show ?thesis by auto
qed

text \<open>
  C5: a token is issued exactly at the end of a complete handshake. If any stage of an auth connection
  fails the token registry is untouched. If the connection succeeds then exactly four replies were
  written, and the bytes of the peer hold four messages: a handshake readable with the key of the server that
  carries a 16-byte session key, and under that session key a status request with a version the
  configuration accepts, key material of eight bytes and a ticket of at least 16. The registry gained the
  drawn token with the eight bytes of that third message followed by the bytes the server drew, and
  nothing else; from then on, until the token expires, a lookup of the token finds that key.
\<close>

theorem auth_outcome:
  assumes "auth_handle l cfg rd t peer conn reg = (res, s', reg')"
  shows "(\<forall>err. res = Inl err \<longrightarrow> reg' = reg) \<and>
    (res = Inr () \<longrightarrow>
      length (conn_out (pktStream s')) = length (conn_out conn) + 4 \<and>
      (\<exists>handshake status material ticket cwcKey c psn v srv token.
        messages_read [NewRSAServer l, c, c, c] (conn_in conn) = Some [handshake, status, material, ticket] \<and>
        mType handshake = RequestHandshake \<and> pbRequestHandshake l (mPayload handshake) = Inr cwcKey \<and>
        length cwcKey = 16 \<and> NewCWCTCP l cwcKey = Inr c \<and>
        mType status = GetServiceStatus \<and> pbGetServiceStatus l (mPayload status) = Inr (psn, v) \<and>
        versionAccepted cfg v \<and>
        mType material = KeyMaterial \<and> length (mPayload material) = 8 \<and> rndKey rd = Inr srv \<and>
        mType ticket = PSNTicket \<and> 16 \<le> length (mPayload ticket) \<and> rndToken rd = Inr token \<and>
        reg' = Add t reg token (mPayload material @ srv) \<and>
        (\<forall>t'\<le>t + ttl reg. fst (Lookup t' reg' token) = Some (mPayload material @ srv))))"
proof -
  let ?c0 = "NewRSAServer l"
  let ?s0 = "SetCiphers (NewStream conn) (Some ?c0) (Some ?c0)"
  have s0: "dec ?s0 = Some ?c0" "conn_out (pktStream ?s0) = conn_out conn" "conn_in (pktStream ?s0) = conn_in conn"
    by (simp_all add: NewStream_def)
  obtain r1 s1 where 1: "doHandshake l rd ?s0 = (r1, s1)" by fastforce
  obtain r2 s2 where 2: "doServiceStatus l cfg rd s1 = (r2, s2)" by fastforce
  obtain r3 s3 where 3: "doKeyMaterial rd s2 = (r3, s3)" by fastforce
  have live: "fst (Lookup t' (Add t reg token k) token) = Some k" if "t' \<le> t + ttl reg" for t' token k
    using that by (simp add: tokens.lookup_live tokens.add_same)
  show ?thesis
  proof (cases "\<exists>psn key. r1 = Inr () \<and> r2 = Inr psn \<and> r3 = Inr key")
    case True
    then obtain psn key where r: "r1 = Inr ()" "r2 = Inr psn" "r3 = Inr key" by blast
    then have h: "doPSNTicket l cfg rd t peer s3 reg psn key = (res, s', reg')"
      using assms 1 2 3 by (simp add: auth_handle_def Let_def)
    note hs = handshake_ok [OF 1 [unfolded r] s0(1), unfolded s0]
    then obtain c where c: "dec s1 = Some c" by blast
    note st = status_ok [OF 2 [unfolded r] c]
    note km = key_ok [OF 3 [unfolded r] st [THEN conjunct2, THEN conjunct1]]
    show ?thesis
    proof (cases res)
      case (Inl err)
      with ticket_failed h show ?thesis by auto
    next
      case (Inr u)
      note tk = ticket_ok [OF h [unfolded Inr] km [THEN conjunct2, THEN conjunct1]]
      obtain m1 key1 where m1: "mType m1 = RequestHandshake" "pbRequestHandshake l (mPayload m1) = Inr key1"
        "length key1 = 16" "NewCWCTCP l key1 = Inr c"
        "messages_read (?c0 # cs) (conn_in conn) = map_option (Cons m1) (messages_read cs (conn_in (pktStream s1)))" for cs
        using hs c by fastforce
      obtain m2 v where m2: "mType m2 = GetServiceStatus" "pbGetServiceStatus l (mPayload m2) = Inr (psn, v)"
        "versionAccepted cfg v" "messages_read (c # cs) (conn_in (pktStream s1)) =
          map_option (Cons m2) (messages_read cs (conn_in (pktStream s2)))" for cs
        using st by blast
      obtain m3 srv where m3: "mType m3 = KeyMaterial" "length (mPayload m3) = 8" "rndKey rd = Inr srv"
        "key = mPayload m3 @ srv" "messages_read (c # cs) (conn_in (pktStream s2)) =
          map_option (Cons m3) (messages_read cs (conn_in (pktStream s3)))" for cs
        using km by blast
      obtain m4 token where m4: "mType m4 = PSNTicket" "16 \<le> length (mPayload m4)" "rndToken rd = Inr token"
        "reg' = Add t reg token key" "messages_read [c] (conn_in (pktStream s3)) = Some [m4]"
        using tk by blast
      have "messages_read [?c0, c, c, c] (conn_in conn) = Some [m1, m2, m3, m4]"
        unfolding m1(5) m2(4) m3(5) m4(5) by simp
      moreover have "length (conn_out (pktStream s')) = length (conn_out conn) + 4"
        using hs st km tk by simp
      ultimately show ?thesis
        using Inr m1(1-4) m2(1-3) m3(1-4) m4(1-4) live [of _ token key] by (intro conjI impI) (simp, simp, blast)
    qed
  next
    case False
    then have "reg' = reg \<and> res \<noteq> Inr ()"
      using assms 1 2 3
      by (auto simp: auth_handle_def Let_def split: sum.splits)
    then show ?thesis by (cases res) auto
  qed
qed

subsection \<open>A client that follows the protocol gets its token\<close>

text \<open>The state of a stream between two stages: its cipher and what is still to be read.\<close>

definition stage :: "Cipher option \<Rightarrow> bytes \<Rightarrow> MessageStream \<Rightarrow> bool" where
  "stage c rest s \<longleftrightarrow> enc s = c \<and> dec s = c \<and> conn_in (pktStream s) = rest \<and>
     (\<forall>w. conn_write (pktStream s) w = None)"

definition cwcCipher :: "Context \<Rightarrow> Cipher" where
  "cwcCipher ctx = \<lparr>Encrypt = cwcTCP_Encrypt ctx, Decrypt = cwcTCP_Decrypt ctx\<rparr>"

text \<open>A frame of a client that holds the key of the stream.\<close>

definition client_frame :: "Context \<Rightarrow> TcpMessage \<Rightarrow> bytes \<Rightarrow> bool" where
  "client_frame ctx m f \<longleftrightarrow>
     (\<exists>c iv body. length iv = 11 \<and> cwcTCP_Encrypt ctx (Inr iv) (mPayload m) = Inr body \<and>
        f = packetFrame c (tcpMessageBytes m body) \<and> mPayload m \<noteq> [] \<and>
        length (mPayload m) < 65000)"

lemma stage_recv:
  assumes "stage c (packetFrame k (tcpMessageBytes m body) @ rest) s"
    and "28 + length body < 65524" "decryptBody s body = Inr (mPayload m)"
  shows "\<exists>s'. recv_want s (mType m) = (Inr m, s') \<and> stage c rest s'"
proof -
  have "RecvMessage s = (Inr m, s\<lparr>pktStream := (pktStream s)\<lparr>conn_in := rest\<rparr>\<rparr>)"
    using assms by (intro RecvMessage_frame) (auto simp: stage_def tcp_overhead_def)
  with assms(1) show ?thesis
    by (simp add: recv_want_def stage_def)
qed

lemma stage_reply:
  assumes "stage c rest s" "encryptBody s rd b = Inr ct" "28 + length ct < 65524"
  shows "\<exists>s'. reply_to rd s m b = (Inr (), s') \<and> stage c rest s'"
  using assms
  by (auto simp: reply_to_def Send_def stage_def WritePacket_def Let_def length_tcpMessageBytes
      tcp_overhead_def MaxPacketLength_def tcpHeaderSize_def)

lemma cwc_encrypt_any:
  assumes "aes_block_size (block ctx)" "iv_ok rd"
  shows "\<exists>ct. cwcTCP_Encrypt ctx rd b = Inr ct \<and> length ct = length b + 27"
proof -
  obtain iv where iv: "rd = Inr iv" "length iv = 11"
    using assms(2) by (auto simp: iv_ok_def)
  obtain ct tag where e: "EncryptMessage ctx iv iv b 16 = (ct, tag)" by fastforce
  with EncryptMessage_length [OF assms(1) e] iv show ?thesis
    by (simp add: cwcTCP_Encrypt_def frame_lens)
qed

lemma cwc_stage_recv:
  assumes "aes_block_size (block ctx)" "stage (Some (cwcCipher ctx)) (f @ rest) s" "client_frame ctx m f"
  shows "\<exists>s'. recv_want s (mType m) = (Inr m, s') \<and> stage (Some (cwcCipher ctx)) rest s'"
proof -
  obtain c iv body where f: "length iv = 11" "cwcTCP_Encrypt ctx (Inr iv) (mPayload m) = Inr body"
    "f = packetFrame c (tcpMessageBytes m body)" "mPayload m \<noteq> []" "length (mPayload m) < 65000"
    using assms(3) by (auto simp: client_frame_def)
  have iv: "iv_ok (Inr iv)" using f(1) by (simp add: iv_ok_def)
  have len: "length body = length (mPayload m) + 27"
    using cwc_encrypt_any [OF assms(1) iv, of "mPayload m"] f(2) by simp
  moreover have "decryptBody s body = Inr (mPayload m)"
    using assms(1,2) tcp_cipher.inverts [OF iv _ f(2)] f(4) len
    by (auto simp: decryptBody_def stage_def cwcCipher_def)
  ultimately show ?thesis
    using assms(2) f(3,5) by (intro stage_recv [of _ c m body]) auto
qed

lemma cwc_stage_reply:
  assumes "aes_block_size (block ctx)" "stage (Some (cwcCipher ctx)) rest s" "iv_ok rd" "length b < 65000"
  shows "\<exists>s'. reply_to rd s m b = (Inr (), s') \<and> stage (Some (cwcCipher ctx)) rest s'"
proof -
  obtain ct where "cwcTCP_Encrypt ctx rd b = Inr ct" "length ct = length b + 27"
    using cwc_encrypt_any [OF assms(1,3)] by blast
  with assms(2,4) show ?thesis
    by (intro stage_reply [of _ _ _ _ _ ct]) (auto simp: encryptBody_def stage_def cwcCipher_def)
qed

text \<open>
  The hypotheses on the client's first frame: its body decrypts under OAEP to a handshake that carries
  a 16-byte key.
\<close>

definition handshake_frame :: "AuthLibs \<Rightarrow> bytes \<Rightarrow> bytes \<Rightarrow> bool" where
  "handshake_frame l key f \<longleftrightarrow>
     (\<exists>c m body. f = packetFrame c (tcpMessageBytes m body) \<and> mType m = RequestHandshake \<and>
        libOAEP l body = Inr (mPayload m) \<and> body \<noteq> [] \<and> length body < 65000 \<and>
        pbRequestHandshake l (mPayload m) = Inr key \<and> length key = 16)"

lemma handshake_completes:
  assumes "handshake_frame l key f" "stage (Some (NewRSAServer l)) (f @ rest) s"
    and "NewContext (libAES l) key = Inr ctx" "rndBlob rd = Inr r" "length r = 11"
  shows "\<exists>s'. doHandshake l rd s = (Inr (), s') \<and> stage (Some (cwcCipher ctx)) rest s'"
proof -
  obtain c m body where f: "f = packetFrame c (tcpMessageBytes m body)" "mType m = RequestHandshake"
    "libOAEP l body = Inr (mPayload m)" "body \<noteq> []" "length body < 65000"
    "pbRequestHandshake l (mPayload m) = Inr key" "length key = 16"
    using assms(1) by (auto simp: handshake_frame_def)
  have "decryptBody s body = Inr (mPayload m)"
    using assms(2) f(3,4) by (simp add: decryptBody_def stage_def NewRSAServer_def rsaServer_Decrypt_def)
  then obtain s1 where s1: "recv_want s (mType m) = (Inr m, s1)" "stage (Some (NewRSAServer l)) rest s1"
    using stage_recv [of "Some (NewRSAServer l)" c m body rest s] assms(2) f(1,5) by auto
  have st: "stage None rest (SetCiphers s1 None None)"
    using s1(2) by (simp add: stage_def SetCiphers_def)
  let ?blob = "r @ replicate 16 0"
  have "encryptBody (SetCiphers s1 None None) (Inl '''') ?blob = Inr ?blob"
    by (simp add: encryptBody_def SetCiphers_def)
  then obtain s3 where s3: "reply_to (Inl '''') (SetCiphers s1 None None) m ?blob = (Inr (), s3)"
    "stage None rest s3"
    using stage_reply [OF st, of "Inl ''''" ?blob ?blob m] assms(5) by auto
  have "doHandshake l rd s = (Inr (), SetCiphers s3 (Some (cwcCipher ctx)) (Some (cwcCipher ctx)))"
    using s1(1) f s3(1) assms(3,4)
    by (simp add: doHandshake_def Let_def NewCWCTCP_def cwcCipher_def)
  moreover have "stage (Some (cwcCipher ctx)) rest (SetCiphers s3 (Some (cwcCipher ctx)) (Some (cwcCipher ctx)))"
    using s3(2) by (simp add: stage_def SetCiphers_def)
  ultimately show ?thesis by blast
qed

definition draws_ok :: "AuthRand \<Rightarrow> bytes \<Rightarrow> bytes \<Rightarrow> bool" where
  "draws_ok rd srv token \<longleftrightarrow>
     (\<exists>r. rndBlob rd = Inr r \<and> length r = 11) \<and> iv_ok (ivStatus rd) \<and> iv_ok (ivKey rd) \<and>
     iv_ok (ivTicket rd) \<and> rndKey rd = Inr srv \<and> length srv = 8 \<and>
     rndToken rd = Inr token \<and> length token = 8"

lemma length_gameServerInfo:
  "encodeGameServerInfo p token ip port = Inr info \<Longrightarrow> length info = 56"
  by (auto simp: encodeGameServerInfo_def bind_err_Inr_iff tuning_def)

lemma auth_completes_aux:
  assumes "handshake_frame l key f1" "NewContext (libAES l) key = Inr ctx" "aes_block_size (libAES l key)"
    and "client_frame ctx m2 f2" "mType m2 = GetServiceStatus"
    and "pbGetServiceStatus l (mPayload m2) = Inr (psn, v)" "versionAccepted cfg v"
    and "pbGetServiceStatusResponse l v = Inr sb" "length sb < 65000"
    and "client_frame ctx m3 f3" "mType m3 = KeyMaterial" "length (mPayload m3) = 8"
    and "client_frame ctx m4 f4" "mType m4 = PSNTicket" "16 \<le> length (mPayload m4)"
    and "draws_ok rd srv token"
    and "encodeGameServerInfo (libIPv6 l) token (serverAddress cfg peer) (word_of_int (GamePort cfg)) = Inr info"
    and "conn_in conn = f1 @ f2 @ f3 @ f4 @ rest" "\<forall>w. conn_write conn w = None"
  shows "\<exists>s'. auth_handle l cfg rd t peer conn reg = (Inr (), s', Add t reg token (mPayload m3 @ srv))"
proof -
  let ?c = "Some (cwcCipher ctx)" and ?r = "Some (NewRSAServer l)"
  have b: "aes_block_size (block ctx)"
    by (rule NewContext_key(2) [OF assms(2,3)])
  have d: "\<exists>r. rndBlob rd = Inr r \<and> length r = 11" "iv_ok (ivStatus rd)" "iv_ok (ivKey rd)"
    "iv_ok (ivTicket rd)" "rndKey rd = Inr srv" "length srv = 8" "rndToken rd = Inr token"
    using assms(16) by (auto simp: draws_ok_def)
  let ?s0 = "SetCiphers (NewStream conn) ?r ?r"
  have "stage ?r (f1 @ f2 @ f3 @ f4 @ rest) ?s0"
    using assms(18,19) by (simp add: stage_def SetCiphers_def NewStream_def)
  then obtain s1 where s1: "doHandshake l rd ?s0 = (Inr (), s1)" "stage ?c (f2 @ f3 @ f4 @ rest) s1"
    using handshake_completes [OF assms(1) _ assms(2)] d(1) by blast
  obtain s2 where s2: "recv_want s1 GetServiceStatus = (Inr m2, s2)" "stage ?c (f3 @ f4 @ rest) s2"
    using cwc_stage_recv [OF b s1(2) assms(4)] assms(5) by auto
  obtain s3 where s3: "reply_to (ivStatus rd) s2 m2 sb = (Inr (), s3)" "stage ?c (f3 @ f4 @ rest) s3"
    using cwc_stage_reply [OF b s2(2) d(2) assms(9)] by blast
  have status: "doServiceStatus l cfg rd s1 = (Inr psn, s3)"
    using s2 s3 assms(6-8) by (simp add: doServiceStatus_def)
  obtain s4 where s4: "recv_want s3 KeyMaterial = (Inr m3, s4)" "stage ?c (f4 @ rest) s4"
    using cwc_stage_recv [OF b s3(2) assms(10)] assms(11) by auto
  obtain s5 where s5: "reply_to (ivKey rd) s4 m3 (mPayload m3 @ srv) = (Inr (), s5)" "stage ?c (f4 @ rest) s5"
    using cwc_stage_reply [OF b s4(2) d(3), of "mPayload m3 @ srv" m3] assms(12) d(6) by auto
  have keym: "doKeyMaterial rd s3 = (Inr (mPayload m3 @ srv), s5)"
    using s4 s5 assms(12) d(5) by (simp add: doKeyMaterial_def Let_def)
  obtain s6 where s6: "recv_want s5 PSNTicket = (Inr m4, s6)" "stage ?c rest s6"
    using cwc_stage_recv [OF b s5(2) assms(13)] assms(14) by auto
  obtain s7 where s7: "reply_to (ivTicket rd) s6 m4 info = (Inr (), s7)"
    using cwc_stage_reply [OF b s6(2) d(4), of info m4] length_gameServerInfo [OF assms(17)] by auto
  have "doPSNTicket l cfg rd t peer s5 reg psn (mPayload m3 @ srv) =
      (Inr (), s7, Add t reg token (mPayload m3 @ srv))"
    using s6 s7 assms(15,17) d(7) by (simp add: doPSNTicket_def Noop_Validate_def)
  with s1 status keym show ?thesis
    by (simp add: auth_handle_def Let_def)
qed

text \<open>
  A client that follows the protocol gets its token. When the four frames on the connection are a
  handshake with a 16-byte key and, under that key, an accepted status request, eight bytes of key
  material and a ticket of at least 16 bytes, and no write fails, the connection succeeds and the
  registry maps the issued token to the client's eight bytes followed by the server's.
\<close>

theorem auth_completes:
  assumes "handshake_frame l key f1" "NewContext (libAES l) key = Inr ctx" "aes_block_size (libAES l key)"
    and "client_frame ctx m2 f2" "mType m2 = GetServiceStatus"
    and "pbGetServiceStatus l (mPayload m2) = Inr (psn, v)" "versionAccepted cfg v"
    and "pbGetServiceStatusResponse l v = Inr sb" "length sb < 65000"
    and "client_frame ctx m3 f3" "mType m3 = KeyMaterial" "length (mPayload m3) = 8"
    and "client_frame ctx m4 f4" "mType m4 = PSNTicket" "16 \<le> length (mPayload m4)"
    and "draws_ok rd srv token"
    and "encodeGameServerInfo (libIPv6 l) token (serverAddress cfg peer) (word_of_int (GamePort cfg)) = Inr info"
    and "conn_in conn = f1 @ f2 @ f3 @ f4 @ rest" "\<forall>w. conn_write conn w = None"
  shows "\<exists>s'. auth_handle l cfg rd t peer conn reg = (Inr (), s', Add t reg token (mPayload m3 @ srv))"
  by (rule auth_completes_aux [OF assms])

definition demo_libs :: AuthLibs where
  "demo_libs =
     \<lparr>libAES = demo_aes, libOAEP = Inr, libSHA256 = id, libIPv6 = (\<lambda>_. None), libWire = demo_wire,
      pbRequestHandshake = Inr, pbGetServiceStatus = (\<lambda>b. Inr (''psn'', 5)),
      pbGetServiceStatusResponse = (\<lambda>v. Inr [2]), pbQueryLoginServerInfo = (\<lambda>_. Inr ()),
      pbQueryLoginServerInfoResponse = (\<lambda>_ _. Inr [1]), keyN = 9464455, keyD = 11\<rparr>"

definition demo_config :: Config where
  "demo_config =
     \<lparr>cfgPlatform = PlatformPS3, AdvertiseAddress = ''192.168.1.100'', AdvertisePrivateAddress = '''',
      AuthPort = 50000, GamePort = 50010, EnforceAppVersion = True, AppVersionMin = 1,
      AppVersionMax = 9\<rparr>"

definition demo_rand :: AuthRand where
  "demo_rand =
     \<lparr>rndBlob = Inr (replicate 11 1), ivStatus = Inr (replicate 11 2), rndKey = Inr (replicate 8 3),
      ivKey = Inr (replicate 11 4), rndToken = Inr (replicate 8 5), ivTicket = Inr (replicate 11 6)\<rparr>"

lemma demo_client_frame:
  assumes "aes_block_size (block ctx)" "mPayload m \<noteq> []" "length (mPayload m) < 65000"
  shows "\<exists>f. client_frame ctx m f"
  using cwc_encrypt_any [OF assms(1), of "Inr (replicate 11 7)" "mPayload m"] assms(2,3)
  unfolding client_frame_def iv_ok_def by (metis length_replicate)

lemma demo_handshake: "\<exists>f. handshake_frame demo_libs demo_key f"
proof -
  let ?m = "\<lparr>mType = RequestHandshake, mIndex = 1, mPayload = demo_key\<rparr>"
  have "length demo_key = 16" by (simp add: demo_key_def)
  then have "handshake_frame demo_libs demo_key (packetFrame 1 (tcpMessageBytes ?m demo_key))"
    unfolding handshake_frame_def
    by (intro exI [of _ 1] exI [of _ ?m] exI [of _ demo_key]) (auto simp: demo_libs_def)
  then show ?thesis by blast
qed

lemma demo_info:
  "\<exists>info. encodeGameServerInfo (libIPv6 demo_libs) (replicate 8 5) (serverAddress demo_config None)
     (word_of_int (GamePort demo_config)) = Inr info"
proof -
  have "ParseAddr (\<lambda>_. None) ''192.168.1.100'' = Some (V4 192 168 1 100)"
    by code_simp
  then show ?thesis
    by (simp add: demo_libs_def demo_config_def serverAddress_def encodeGameServerInfo_def parseV4_def)
qed

lemma demo_draws: "draws_ok demo_rand (replicate 8 3) (replicate 8 5)"
  by (simp add: draws_ok_def demo_rand_def iv_ok_def)

text \<open>What the demonstration client sends after the handshake.\<close>

definition demo_status :: TcpMessage where
  "demo_status = \<lparr>mType = GetServiceStatus, mIndex = 2, mPayload = [1]\<rparr>"

definition demo_material :: TcpMessage where
  "demo_material = \<lparr>mType = KeyMaterial, mIndex = 3, mPayload = replicate 8 9\<rparr>"

definition demo_ticket :: TcpMessage where
  "demo_ticket = \<lparr>mType = PSNTicket, mIndex = 4, mPayload = replicate 20 1\<rparr>"

definition demo_conn :: "bytes \<Rightarrow> Stream" where
  "demo_conn inp = \<lparr>conn_in = inp, conn_out = [], conn_write = (\<lambda>_. None), sent = 0\<rparr>"

lemmas demo_auth_defs = demo_libs_def demo_config_def demo_status_def demo_material_def
  demo_ticket_def demo_conn_def

lemma demo_exchange:
  "\<exists>ctx f1 f2 f3 f4. NewContext (libAES demo_libs) demo_key = Inr ctx \<and>
     handshake_frame demo_libs demo_key f1 \<and> client_frame ctx demo_status f2 \<and>
     client_frame ctx demo_material f3 \<and> client_frame ctx demo_ticket f4"
proof -
  obtain ctx where ctx: "NewContext demo_aes demo_key = Inr ctx"
    using demo_context by blast
  then have "aes_block_size (block ctx)"
    by (rule NewContext_key(2)) (rule demo_aes_block)
  with ctx demo_handshake demo_client_frame [of ctx demo_status] demo_client_frame [of ctx demo_material]
    demo_client_frame [of ctx demo_ticket]
  show ?thesis by (auto simp: demo_auth_defs)
qed

theorem auth_completes_witness:
  "\<exists>inp s'. auth_handle demo_libs demo_config demo_rand 7 None (demo_conn inp) NewRegistry =
     (Inr (), s', Add 7 NewRegistry (replicate 8 5) (replicate 8 9 @ replicate 8 3))"
proof -
  obtain ctx f1 f2 f3 f4 where x: "NewContext (libAES demo_libs) demo_key = Inr ctx"
    "handshake_frame demo_libs demo_key f1" "client_frame ctx demo_status f2"
    "client_frame ctx demo_material f3" "client_frame ctx demo_ticket f4"
    using demo_exchange by blast
  obtain info where i: "encodeGameServerInfo (libIPv6 demo_libs) (replicate 8 5)
      (serverAddress demo_config None) (word_of_int (GamePort demo_config)) = Inr info"
    using demo_info by blast
  have "\<exists>s'. auth_handle demo_libs demo_config demo_rand 7 None (demo_conn (f1 @ f2 @ f3 @ f4 @ []))
      NewRegistry = (Inr (), s', Add 7 NewRegistry (replicate 8 5) (mPayload demo_material @ replicate 8 3))"
    by (rule auth_completes [OF x(2,1) _ x(3) _ _ _ _ _ x(4) _ _ x(5) _ _ demo_draws i, where psn = "''psn''" and v = 5 and sb = "[2]" and rest = "[]"])
      (simp_all add: demo_auth_defs versionAccepted_def demo_aes_block)
  then show ?thesis by (auto simp: demo_material_def)
qed

theorem auth_outcome_witness:
  "\<exists>inp s' reg'. auth_handle demo_libs demo_config demo_rand 7 None (demo_conn inp) NewRegistry =
     (Inr (), s', reg') \<and> length (conn_out (pktStream s')) = 4 \<and>
     (\<exists>c ms. messages_read [NewRSAServer demo_libs, c, c, c] inp = Some ms \<and>
        fst (Lookup 7 reg' (replicate 8 5)) = Some (mPayload (ms ! 2) @ replicate 8 3))"
proof -
  obtain ctx f1 f2 f3 f4 where x: "NewContext (libAES demo_libs) demo_key = Inr ctx"
    "handshake_frame demo_libs demo_key f1" "client_frame ctx demo_status f2"
    "client_frame ctx demo_material f3" "client_frame ctx demo_ticket f4"
    using demo_exchange by blast
  obtain info where i: "encodeGameServerInfo (libIPv6 demo_libs) (replicate 8 5)
      (serverAddress demo_config None) (word_of_int (GamePort demo_config)) = Inr info"
    using demo_info by blast
  have "\<exists>s'. auth_handle demo_libs demo_config demo_rand 7 None (demo_conn (f1 @ f2 @ f3 @ f4 @ []))
      NewRegistry = (Inr (), s', Add 7 NewRegistry (replicate 8 5) (mPayload demo_material @ replicate 8 3))"
    by (rule auth_completes_aux [OF x(2,1) _ x(3) _ _ _ _ _ x(4) _ _ x(5) _ _ demo_draws i, where psn = "''psn''" and v = 5 and sb = "[2]" and rest = "[]"])
      (simp_all add: demo_auth_defs versionAccepted_def demo_aes_block)
  then obtain s' where s': "auth_handle demo_libs demo_config demo_rand 7 None
      (demo_conn (f1 @ f2 @ f3 @ f4 @ [])) NewRegistry =
    (Inr (), s', Add 7 NewRegistry (replicate 8 5) (mPayload demo_material @ replicate 8 3))"
    by blast
  let ?inp = "f1 @ f2 @ f3 @ f4 @ []" and ?reg = "Add 7 NewRegistry (replicate 8 5) (mPayload demo_material @ replicate 8 3)"
  have draws: "rndKey demo_rand = Inr (replicate 8 3)" "rndToken demo_rand = Inr (replicate 8 5)"
    by (simp_all add: demo_rand_def)
  have "7 \<le> 7 + ttl NewRegistry" by (simp add: NewRegistry_def TTL_def second_def millisecond_def)
  then obtain c m1 m2 m3 m4 where "length (conn_out (pktStream s')) = 4"
    "messages_read [NewRSAServer demo_libs, c, c, c] ?inp = Some [m1, m2, m3, m4]"
    "fst (Lookup 7 ?reg (replicate 8 5)) = Some (mPayload m3 @ replicate 8 3)"
    using auth_outcome [OF s'] unfolding draws by (auto simp: demo_conn_def simp del: messages_read.simps)
  then have "length (conn_out (pktStream s')) = 4 \<and>
     (\<exists>c ms. messages_read [NewRSAServer demo_libs, c, c, c] ?inp = Some ms \<and>
        fst (Lookup 7 ?reg (replicate 8 5)) = Some (mPayload (ms ! 2) @ replicate 8 3))"
    by (intro conjI exI [of _ c] exI [of _ "[m1, m2, m3, m4]"]) (simp_all del: messages_read.simps)
  with s' show ?thesis by blast
qed

end
