(* ===== verification/Go_Paths.thy ===== *)
theory Go_Paths
  imports Go_Strings
begin

section \<open>Paths\<close>

text \<open>
  The functions of Go's packages path and path/filepath the code uses, as they are on a Unix system: a
  path is cleaned lexically, component by component.
\<close>

abbreviation slash :: char where "slash \<equiv> CHR 0x2F"

text \<open>\<open>strings.Join(xs, "/")\<close>.\<close>

fun joinSlash :: "string list \<Rightarrow> string" where
  "joinSlash [] = []"
| "joinSlash [x] = x"
| "joinSlash (x # y # ys) = x @ slash # joinSlash (y # ys)"

text \<open>
  The loop of \<open>path.Clean\<close> over the components, with the output as a stack: empty components and dots are
  skipped, a double dot removes the last component unless that is one that could not be removed.
\<close>

fun cleanLoop :: "bool \<Rightarrow> string list \<Rightarrow> string list \<Rightarrow> string list" where
  "cleanLoop rooted out [] = rev out"
| "cleanLoop rooted out (c # cs) =
     (if c = [] \<or> c = ''.'' then cleanLoop rooted out cs
      else if c = ''..'' then
        (case out of
           lastC # rest \<Rightarrow> if lastC \<noteq> ''..'' then cleanLoop rooted rest cs else cleanLoop rooted (c # out) cs
         | [] \<Rightarrow> if rooted then cleanLoop rooted [] cs else cleanLoop rooted [c] cs)
      else cleanLoop rooted (c # out) cs)"

definition isRooted :: "string \<Rightarrow> bool" where
  "isRooted p \<longleftrightarrow> p \<noteq> [] \<and> hd p = slash"

definition components :: "string \<Rightarrow> string list" where
  "components p = cleanLoop (isRooted p) [] (splitOn slash p)"

definition render :: "bool \<Rightarrow> string list \<Rightarrow> string" where
  "render rooted cs = (if rooted then slash # joinSlash cs else if cs = [] then ''.'' else joinSlash cs)"

definition Clean :: "string \<Rightarrow> string" where
  "Clean p = (if p = [] then ''.'' else render (isRooted p) (components p))"

definition Base :: "string \<Rightarrow> string" where
  "Base p =
     (if p = [] then ''.''
      else
        let t = rev (dropWhile (\<lambda>c. c = slash) (rev p));
            n = rev (takeWhile (\<lambda>c. c \<noteq> slash) (rev t))
        in if n = [] then [slash] else n)"

definition Dir :: "string \<Rightarrow> string" where
  "Dir p = Clean (rev (dropWhile (\<lambda>c. c \<noteq> slash) (rev p)))"

definition Join2 :: "string \<Rightarrow> string \<Rightarrow> string" where
  "Join2 a b =
     (if a \<noteq> [] then Clean (a @ slash # b) else if b \<noteq> [] then Clean b else [])"


subsection \<open>A plain name under a directory\<close>

definition plainName :: "string \<Rightarrow> bool" where
  "plainName n \<longleftrightarrow> n \<noteq> [] \<and> n \<noteq> ''.'' \<and> n \<noteq> ''..'' \<and> slash \<notin> set n"

definition under :: "string \<Rightarrow> string \<Rightarrow> string" where
  "under d n = (if d = ''.'' then n else if d = [slash] then slash # n else d @ slash # n)"

lemma splitOn_none: "sep \<notin> set n \<Longrightarrow> splitOn sep n = [n]"
  by (induction n) auto

lemma splitOn_append_sep: "splitOn sep (a @ sep # b) = splitOn sep a @ splitOn sep b"
proof (induction a)
  case (Cons c a)
  then show ?case by (cases "splitOn sep a") auto
qed simp

lemma cleanLoop_append:
  "cleanLoop rooted out (cs @ [n]) = cleanLoop rooted out cs @ [n]" if "n \<noteq> []" "n \<noteq> ''.''" "n \<noteq> ''..''"
  using that by (induction rooted out cs rule: cleanLoop.induct) (auto split: list.split)

lemma joinSlash_append: "cs \<noteq> [] \<Longrightarrow> joinSlash (cs @ [n]) = joinSlash cs @ slash # n"
  by (induction cs rule: joinSlash.induct) auto

lemma splitOn_no_sep: "c \<in> set (splitOn sep p) \<Longrightarrow> sep \<notin> set c"
proof (induction p arbitrary: c)
  case (Cons a p)
  then show ?case by (cases "splitOn sep p") (auto split: if_splits)
qed simp

lemma set_cleanLoop:
  "c \<in> set (cleanLoop rooted out cs) \<Longrightarrow>
     c \<in> set out \<or> (c \<in> set cs \<and> c \<noteq> [] \<and> c \<noteq> ''.'')"
  by (induction rooted out cs rule: cleanLoop.induct) (auto split: if_splits list.splits)

lemma components_plain:
  assumes "c \<in> set (components p)"
  shows "c \<noteq> []" "c \<noteq> ''.''" "slash \<notin> set c"
  using set_cleanLoop [of c _ "[]"] assms splitOn_no_sep [of c slash p]
  by (auto simp: components_def)

lemma joinSlash_special:
  assumes "cs \<noteq> []" "\<forall>c\<in>set cs. c \<noteq> [] \<and> c \<noteq> ''.'' \<and> slash \<notin> set c"
  shows "joinSlash cs \<noteq> []" "joinSlash cs \<noteq> ''.''" "joinSlash cs \<noteq> [slash]"
  using assms by (cases cs rule: joinSlash.cases; auto simp: append_eq_Cons_conv)+

text \<open>A plain name joined to a directory names an entry of exactly that directory.\<close>

lemma Join2_plain:
  assumes "a \<noteq> []" "plainName n"
  shows "Join2 a n = under (Clean a) n"
proof -
  have r: "isRooted (a @ slash # n) = isRooted a"
    using assms(1) by (simp add: isRooted_def)
  have c: "components (a @ slash # n) = components a @ [n]"
    using assms(2) by (simp add: components_def r splitOn_append_sep splitOn_none plainName_def cleanLoop_append)
  have pl: "\<forall>c\<in>set (components a). c \<noteq> [] \<and> c \<noteq> ''.'' \<and> slash \<notin> set c"
    using components_plain by blast
  show ?thesis
  proof (cases "components a = []")
    case True
    then show ?thesis
      using assms by (simp add: Join2_def Clean_def r c render_def under_def)
  next
    case False
    with joinSlash_special [OF False pl] show ?thesis
      using assms by (simp add: Join2_def Clean_def r c render_def under_def joinSlash_append)
  qed
qed

lemma Base_no_slash:
  assumes "Base p \<noteq> [slash]"
  shows "slash \<notin> set (Base p)" "Base p \<noteq> []"
proof -
  let ?t = "rev (dropWhile (\<lambda>c. c = slash) (rev p))"
  have "slash \<notin> set (takeWhile (\<lambda>c. c \<noteq> slash) xs)" for xs
    by (auto dest: set_takeWhileD)
  with assms show "slash \<notin> set (Base p)" "Base p \<noteq> []"
    by (auto simp: Base_def Let_def split: if_splits)
qed

lemma Base_under: "plainName n \<Longrightarrow> Base (d @ slash # n) = n"
proof -
  assume n: "plainName n"
  then have ne: "n \<noteq> []" and sl: "slash \<notin> set n" by (auto simp: plainName_def)
  have "dropWhile (\<lambda>c. c = slash) (rev n @ slash # rev d) = rev n @ slash # rev d"
    using ne sl by (cases n rule: rev_cases) auto
  moreover have "takeWhile (\<lambda>c. c \<noteq> slash) (rev n @ slash # rev d) = rev n"
    using sl by (subst takeWhile_append2) auto
  ultimately show ?thesis
    using ne by (simp add: Base_def Let_def)
qed

end
