(* ===== verification/Rsa_Keys.thy ===== *)
theory Rsa_Keys
  imports X931 Go_Paths
begin

section \<open>The RSA key pair of the server\<close>

text \<open>
  internal/crypto/keys/keys.go: generation of a key pair, with the exponent 3 of the PS3 client where
  asked, and loading it from disk or making it on the first run. \<open>rand.Prime\<close> is the argument \<open>draw\<close> (the
  result of its i-th call), \<open>rsa.GenerateKey\<close> the argument \<open>gen\<close>, \<open>PrivateKey.Validate\<close> the argument
  \<open>validate\<close>; the PEM and PKCS#1 codecs of the standard library are the record \<open>KeyCodec\<close>.
\<close>

record RSAKey =
  keyModulus :: nat
  keyPublic :: int
  keyPrivate :: nat
  keyPrimes :: "nat list"

datatype key_error =
    PrimeFailed string
  | GenerateFailed string
  | NoKeyForExponent
  | NotAKeyPEM
  | ParseKeyFailed string
  | ReadKeyFailed string
  | MkdirFailed string
  | WritePrivateFailed string
  | WritePublicFailed string

definition defaultBits :: int where "defaultBits = 2048"


subsection \<open>Generation\<close>

type_synonym generator = "int \<Rightarrow> string + RSAKey"

definition Generate :: "generator \<Rightarrow> int \<Rightarrow> key_error + RSAKey" where
  "Generate gen bits =
     (case gen (if bits = 0 then defaultBits else bits) of
        Inl err \<Rightarrow> Inl (GenerateFailed err) | Inr k \<Rightarrow> Inr k)"

text \<open>\<open>big.Int.ModInverse\<close>: nothing unless the two are coprime; the result is reduced.\<close>

definition modInverse :: "int \<Rightarrow> nat \<Rightarrow> nat option" where
  "modInverse e n =
     (if gcd e (int n) \<noteq> 1 then None
      else Some (nat (fst (bezw (nat (e mod int n)) n) mod int n)))"

text \<open>One round of the loop: the key, or nothing where the code continues.\<close>

definition smallExponentKey :: "int \<Rightarrow> int \<Rightarrow> nat \<Rightarrow> nat \<Rightarrow> RSAKey option" where
  "smallExponentKey bits e p q =
     (if p = q then None
      else if gcd e (int p - 1) \<noteq> 1 then None
      else if gcd e (int q - 1) \<noteq> 1 then None
      else
        let n = p * q
        in if int (bitLen n) \<noteq> bits then None
           else
             let g = gcd (p - 1) (q - 1);
                 lcm' = ((p - 1) * (q - 1)) div g
             in case modInverse e lcm' of
                  None \<Rightarrow> None
                | Some d \<Rightarrow> Some \<lparr>keyModulus = n, keyPublic = e, keyPrivate = d, keyPrimes = [p, q]\<rparr>)"

fun smallExponentLoop ::
  "(nat \<Rightarrow> int \<Rightarrow> string + nat) \<Rightarrow> (RSAKey \<Rightarrow> bool) \<Rightarrow> int \<Rightarrow> int \<Rightarrow> nat \<Rightarrow> nat \<Rightarrow> key_error + RSAKey" where
  "smallExponentLoop draw validate bits e 0 i = Inl NoKeyForExponent"
| "smallExponentLoop draw validate bits e (Suc k) i =
     (case draw i (bits div 2) of
        Inl err \<Rightarrow> Inl (PrimeFailed err)
      | Inr p \<Rightarrow>
          (case draw (Suc i) (bits div 2) of
             Inl err \<Rightarrow> Inl (PrimeFailed err)
           | Inr q \<Rightarrow>
               (case smallExponentKey bits e p q of
                  None \<Rightarrow> smallExponentLoop draw validate bits e k (i + 2)
                | Some key \<Rightarrow>
                    if validate key then Inr key
                    else smallExponentLoop draw validate bits e k (i + 2))))"

definition generateSmallExponent ::
  "(nat \<Rightarrow> int \<Rightarrow> string + nat) \<Rightarrow> (RSAKey \<Rightarrow> bool) \<Rightarrow> int \<Rightarrow> int \<Rightarrow> key_error + RSAKey" where
  "generateSmallExponent draw validate bits e = smallExponentLoop draw validate bits e 1000 0"

definition GenerateWithExponent ::
  "generator \<Rightarrow> (nat \<Rightarrow> int \<Rightarrow> string + nat) \<Rightarrow> (RSAKey \<Rightarrow> bool) \<Rightarrow> int \<Rightarrow> int \<Rightarrow> key_error + RSAKey" where
  "GenerateWithExponent gen draw validate bits e =
     (let bits' = (if bits = 0 then defaultBits else bits)
      in if e = 0 \<or> e = 65537 then Generate gen bits'
         else generateSmallExponent draw validate bits' e)"


subsection \<open>PEM\<close>

definition privatePEMType :: string where "privatePEMType = ''RSA PRIVATE KEY''"
definition publicPEMType :: string where "publicPEMType = ''RSA PUBLIC KEY''"

record KeyCodec =
  pemEncode :: "string \<Rightarrow> bytes \<Rightarrow> bytes"
  pemDecode :: "bytes \<Rightarrow> (string \<times> bytes) option"
  marshalPrivate :: "RSAKey \<Rightarrow> bytes"
  parsePrivate :: "bytes \<Rightarrow> string + RSAKey"
  marshalPublic :: "nat \<times> int \<Rightarrow> bytes"
  parsePublic :: "bytes \<Rightarrow> string + nat \<times> int"

definition PrivatePEM :: "KeyCodec \<Rightarrow> RSAKey \<Rightarrow> bytes" where
  "PrivatePEM kc k = pemEncode kc privatePEMType (marshalPrivate kc k)"

definition PublicPEM :: "KeyCodec \<Rightarrow> nat \<times> int \<Rightarrow> bytes" where
  "PublicPEM kc pub = pemEncode kc publicPEMType (marshalPublic kc pub)"

definition ParsePrivatePEM :: "KeyCodec \<Rightarrow> bytes \<Rightarrow> key_error + RSAKey" where
  "ParsePrivatePEM kc data =
     (case pemDecode kc data of
        None \<Rightarrow> Inl NotAKeyPEM
      | Some (t, b) \<Rightarrow>
          if t \<noteq> privatePEMType then Inl NotAKeyPEM
          else (case parsePrivate kc b of Inl err \<Rightarrow> Inl (ParseKeyFailed err) | Inr k \<Rightarrow> Inr k))"

definition ParsePublicPEM :: "KeyCodec \<Rightarrow> bytes \<Rightarrow> key_error + nat \<times> int" where
  "ParsePublicPEM kc data =
     (case pemDecode kc data of
        None \<Rightarrow> Inl NotAKeyPEM
      | Some (t, b) \<Rightarrow>
          if t \<noteq> publicPEMType then Inl NotAKeyPEM
          else (case parsePublic kc b of Inl err \<Rightarrow> Inl (ParseKeyFailed err) | Inr k \<Rightarrow> Inr k))"


subsection \<open>The files\<close>

text \<open>
  The part of the file system the code sees: contents and modes by path, and what reading, writing and
  making directories refuse. A path without contents and without a read error does not exist.
  \<open>os.WriteFile\<close> gives the mode to a new file and keeps that of an existing one; a refused write leaves
  the file as it was.
\<close>

record FileSys =
  fsContent :: "string \<rightharpoonup> bytes \<times> nat"
  fsReadErr :: "string \<Rightarrow> string option"
  fsWriteErr :: "string \<Rightarrow> string option"
  fsMkdirErr :: "string \<Rightarrow> string option"

datatype read_result = ReadData bytes | ReadNotExist | ReadError string

definition readFile :: "FileSys \<Rightarrow> string \<Rightarrow> read_result" where
  "readFile fs p =
     (case fsReadErr fs p of
        Some err \<Rightarrow> ReadError err
      | None \<Rightarrow> (case fsContent fs p of None \<Rightarrow> ReadNotExist | Some (d, m) \<Rightarrow> ReadData d))"

definition writeFile :: "FileSys \<Rightarrow> string \<Rightarrow> bytes \<Rightarrow> nat \<Rightarrow> string option \<times> FileSys" where
  "writeFile fs p d m =
     (case fsWriteErr fs p of
        Some err \<Rightarrow> (Some err, fs)
      | None \<Rightarrow>
          (None, fs\<lparr>fsContent := (fsContent fs)(p \<mapsto>
             (d, case fsContent fs p of None \<Rightarrow> m | Some (_, m0) \<Rightarrow> m0))\<rparr>))"

definition LoadOrGenerate ::
  "KeyCodec \<Rightarrow> generator \<Rightarrow> string \<Rightarrow> string \<Rightarrow> int \<Rightarrow> FileSys \<Rightarrow>
     (key_error + RSAKey) \<times> FileSys" where
  "LoadOrGenerate kc gen privatePath publicPath bits fs =
     (case readFile fs privatePath of
        ReadData d \<Rightarrow> (ParsePrivatePEM kc d, fs)
      | ReadError err \<Rightarrow> (Inl (ReadKeyFailed err), fs)
      | ReadNotExist \<Rightarrow>
          (case Generate gen bits of
             Inl err \<Rightarrow> (Inl err, fs)
           | Inr priv \<Rightarrow>
               (case fsMkdirErr fs (Dir privatePath) of
                  Some err \<Rightarrow> (Inl (MkdirFailed err), fs)
                | None \<Rightarrow>
                    (case writeFile fs privatePath (PrivatePEM kc priv) 384 of
                       (Some err, fs1) \<Rightarrow> (Inl (WritePrivateFailed err), fs1)
                     | (None, fs1) \<Rightarrow>
                         if publicPath = '''' then (Inr priv, fs1)
                         else
                           (case writeFile fs1 publicPath
                                   (PublicPEM kc (keyModulus priv, keyPublic priv)) 420 of
                              (Some err, fs2) \<Rightarrow> (Inl (WritePublicFailed err), fs2)
                            | (None, fs2) \<Rightarrow> (Inr priv, fs2))))))"


subsection \<open>Generated keys work\<close>

text \<open>Prime numbers, and Fermat's little theorem from the binomial one.\<close>

definition prime_nat :: "nat \<Rightarrow> bool" where
  "prime_nat p \<longleftrightarrow> 1 < p \<and> (\<forall>m. m dvd p \<longrightarrow> m = 1 \<or> m = p)"

lemma prime_dvd_mult:
  assumes "prime_nat p" "p dvd a * b"
  shows "p dvd a \<or> p dvd b"
proof -
  have "gcd p a = 1 \<or> gcd p a = p"
    using assms(1) by (auto simp: prime_nat_def)
  then show ?thesis
  proof
    assume "gcd p a = 1"
    then have "coprime p a" by (simp add: coprime_iff_gcd_eq_1)
    with assms(2) show ?thesis by (simp add: coprime_dvd_mult_right_iff)
  next
    assume "gcd p a = p"
    then show ?thesis by (metis gcd_dvd2)
  qed
qed

lemma prime_dvd_binomial:
  assumes "prime_nat p" "0 < k" "k < p"
  shows "p dvd (p choose k)"
proof -
  obtain j where k: "k = Suc j" using assms(2) by (cases k) auto
  have "p dvd k * (p choose k)"
    using times_binomial_minus1_eq [OF assms(2), of p] by simp
  moreover have "\<not> p dvd k"
    using assms(2,3) by (auto dest: dvd_imp_le)
  ultimately show ?thesis
    using prime_dvd_mult [OF assms(1)] by blast
qed

lemma fermat:
  assumes "prime_nat p"
  shows "a ^ p mod p = a mod p"
proof (induction a)
  case 0
  have "0 < p" using assms by (auto simp: prime_nat_def)
  then show ?case by (simp add: power_0_left)
next
  case (Suc a)
  obtain q where p: "p = Suc q" using assms by (cases p) (auto simp: prime_nat_def)
  have "Suc a ^ p = (\<Sum>k\<le>p. (p choose k) * a ^ k)"
    using binomial [of a 1 p] by simp
  also have "\<dots> = 1 + (\<Sum>k\<in>{1..<p}. (p choose k) * a ^ k) + a ^ p"
  proof -
    have "{..p} = insert 0 (insert p {1..<p})" using p by auto
    moreover have "0 \<notin> insert p {1..<p}" "p \<notin> {1..<p}" using p by auto
    ultimately show ?thesis by simp
  qed
  finally have e: "Suc a ^ p = 1 + (\<Sum>k\<in>{1..<p}. (p choose k) * a ^ k) + a ^ p" .
  have "p dvd (\<Sum>k\<in>{1..<p}. (p choose k) * a ^ k)"
    using prime_dvd_binomial [OF assms] by (intro dvd_sum) auto
  then obtain z where "(\<Sum>k\<in>{1..<p}. (p choose k) * a ^ k) = p * z" by (auto elim: dvdE)
  with e have "Suc a ^ p mod p = (1 + a ^ p) mod p"
    by (simp add: mod_simps)
  also have "\<dots> = (1 + a ^ p mod p) mod p" by (simp add: mod_simps)
  also have "\<dots> = Suc a mod p" by (simp add: Suc mod_simps)
  finally show ?case .
qed

lemma fermat_power:
  assumes "prime_nat p" "p - 1 dvd k"
  shows "a ^ Suc k mod p = a mod p"
proof -
  obtain j where k: "k = (p - 1) * j" using assms(2) by (auto elim: dvdE)
  have "a ^ Suc ((p - 1) * j) mod p = a mod p"
  proof (induction j)
    case (Suc j)
    have "Suc ((p - 1) * Suc j) = p + (p - 1) * j"
      using assms(1) by (simp add: prime_nat_def)
    then have "a ^ Suc ((p - 1) * Suc j) mod p = (a ^ p mod p * a ^ ((p - 1) * j)) mod p"
      by (simp add: power_add mod_simps)
    also have "\<dots> = (a ^ Suc ((p - 1) * j)) mod p"
      by (simp add: fermat [OF assms(1)] mod_simps)
    finally show ?case using Suc by simp
  qed simp
  with k show ?thesis by simp
qed

text \<open>A modulus that is a product of different primes, with matching exponents.\<close>

lemma primes_coprime: "prime_nat p \<Longrightarrow> prime_nat q \<Longrightarrow> p \<noteq> q \<Longrightarrow> coprime p q"
  by (metis coprime_iff_gcd_eq_1 gcd_dvd1 gcd_dvd2 prime_nat_def)

lemma prime_coprime_prod:
  "prime_nat p \<Longrightarrow> p \<notin> set ps \<Longrightarrow> \<forall>q\<in>set ps. prime_nat q \<Longrightarrow> coprime p (prod_list ps)"
  by (induction ps) (auto intro: primes_coprime)

lemma primes_prod_dvd:
  fixes x :: nat
  assumes "distinct ps" "\<forall>p\<in>set ps. prime_nat p \<and> p dvd x"
  shows "prod_list ps dvd x"
  using assms by (induction ps) (auto intro!: divides_mult prime_coprime_prod)

lemma prod_list_dvd: "p \<in> set ps \<Longrightarrow> p dvd (prod_list ps :: nat)"
  by (induction ps) (auto simp: dvd_mult)

lemma rsa_key_primes:
  assumes "distinct ps" "\<forall>p\<in>set ps. prime_nat p \<and> odd p \<and> p - 1 dvd e * d - 1"
    and "odd e" "0 < d" "ps \<noteq> []"
  shows "rsa_key (prod_list ps) e d"
proof -
  let ?n = "prod_list ps"
  have odd: "odd ?n" using assms(2) by (induction ps) auto
  have "(m ^ d mod ?n) ^ e mod ?n = m" if m: "m < ?n" for m
  proof -
    have ed: "0 < e * d" using assms(3,4) by (cases e) auto
    then have le: "m \<le> m ^ (e * d)" by (cases "m = 0") (simp_all add: self_le_power)
    have "p dvd m ^ (e * d) - m" if p: "p \<in> set ps" for p
    proof -
      have "p - 1 dvd e * d - 1"
        using assms(2) p by blast
      then have "m ^ Suc (e * d - 1) mod p = m mod p"
        using assms(2) p by (intro fermat_power) auto
      then have "m ^ (e * d) mod p = m mod p"
        using ed by (simp only: Suc_diff_1)
      then show ?thesis
        using mod_eq_dvd_iff_nat [OF le] by blast
    qed
    then have "?n dvd m ^ (e * d) - m"
      using assms(1,2) by (intro primes_prod_dvd) auto
    then have "m ^ (e * d) mod ?n = m mod ?n"
      using mod_eq_dvd_iff_nat [OF le] by blast
    then show ?thesis
      using m by (simp add: power_mod power_mult [symmetric] mult.commute)
  qed
  with odd assms(3) show ?thesis by (simp add: rsa_key_def)
qed

lemma modInverse_inverse:
  assumes "modInverse e n = Some d" "1 < n"
  shows "e * int d mod int n = 1" "d < n"
proof -
  let ?x = "nat (e mod int n)"
  have g: "gcd e (int n) = 1" and d: "d = nat (fst (bezw ?x n) mod int n)"
    using assms(1) by (auto simp: modInverse_def split: if_splits)
  have x: "int ?x = e mod int n" using assms(2) by simp
  have "int (gcd ?x n) = gcd (int ?x) (int n)" by (simp only: gcd_int_int_eq)
  also have "\<dots> = 1" using g x by (metis gcd.commute gcd_red_int)
  finally have "fst (bezw ?x n) * int ?x + snd (bezw ?x n) * int n = 1"
    using bezw_aux [of ?x n] by simp
  then have "(fst (bezw ?x n) * int ?x) mod int n = 1 mod int n"
    by (metis mod_mult_self1)
  then have "(fst (bezw ?x n) mod int n * e) mod int n = 1"
    using assms(2) x by (simp add: mod_simps)
  moreover have "int d = fst (bezw ?x n) mod int n"
    using assms(2) d by simp
  ultimately show "e * int d mod int n = 1" "d < n"
    using assms(2) d by (simp_all add: mult.commute nat_less_iff)
qed

lemma smallExponentKey_works:
  assumes "smallExponentKey bits e p q = Some k" "prime_nat p" "prime_nat q" "2 < p" "2 < q" "0 < e"
  shows "rsa_key (keyModulus k) (nat e) (keyPrivate k)" "int (bitLen (keyModulus k)) = bits"
    and "keyPublic k = e" "keyModulus k = p * q"
proof -
  let ?l = "(p - 1) * (q - 1) div gcd (p - 1) (q - 1)"
  obtain d where g: "p \<noteq> q" "gcd e (int p - 1) = 1" and d: "modInverse e ?l = Some d"
    and k: "k = \<lparr>keyModulus = p * q, keyPublic = e, keyPrivate = d, keyPrimes = [p, q]\<rparr>"
    and "int (bitLen (p * q)) = bits"
    using assms(1) by (auto simp: smallExponentKey_def Let_def split: if_splits option.splits)
  then show "int (bitLen (keyModulus k)) = bits" "keyPublic k = e" "keyModulus k = p * q" by simp_all
  have odd: "odd p" "odd q"
    using assms(2-5) by (auto simp: prime_nat_def dest!: spec [of _ 2])
  have l: "?l = lcm (p - 1) (q - 1)" by (simp add: lcm_nat_def)
  then have dvd: "p - 1 dvd ?l" "q - 1 dvd ?l" by simp_all
  have "?l \<noteq> 0" using assms(4,5) l by simp
  with dvd(1) have "p - 1 \<le> ?l" by (simp add: dvd_imp_le)
  then have one: "1 < ?l" using assms(4) by simp
  note inv = modInverse_inverse [OF d one]
  have e: "int (nat e * d) = e * int d" using assms(6) by simp
  have "int (nat e * d mod ?l) = 1" using inv(1) e by (metis of_nat_mod)
  then have m: "nat e * d mod ?l = 1" by linarith
  then have pos: "0 < nat e * d" using one by (cases "nat e * d") auto
  with m one have "?l dvd nat e * d - 1"
    using mod_eq_dvd_iff_nat [of 1 "nat e * d" ?l] by (simp add: Suc_le_eq)
  with dvd have pq: "p - 1 dvd nat e * d - 1" "q - 1 dvd nat e * d - 1"
    by (auto intro: dvd_trans)
  have "even (int p - 1)" using odd by simp
  then have "odd e"
    using g(2) by (metis gcd_greatest odd_one)
  then have "odd (nat e)" using assms(6) by (simp add: even_nat_iff)
  then have "rsa_key (prod_list [p, q]) (nat e) d"
    using g(1) assms(2,3) odd pq pos by (intro rsa_key_primes) auto
  then show "rsa_key (keyModulus k) (nat e) (keyPrivate k)" by (simp add: k)
qed

lemma smallExponentLoop_result:
  assumes "smallExponentLoop draw validate bits e n i = Inr k"
  shows "\<exists>j p q. draw j (bits div 2) = Inr p \<and> draw (Suc j) (bits div 2) = Inr q \<and>
    smallExponentKey bits e p q = Some k \<and> validate k"
  using assms
  by (induction draw validate bits e n i rule: smallExponentLoop.induct)
    (auto split: sum.splits option.splits if_splits)

lemma bitLen_lower: "0 < n \<Longrightarrow> 2 ^ (bitLen n - 1) \<le> n"
proof (induction n rule: bitLen.induct)
  case (1 n)
  show ?case
  proof (cases "n div 2 = 0")
    case True
    with 1 show ?thesis by (simp add: bitLen.simps [of n] bitLen.simps [of 0])
  next
    case False
    with 1 have "2 ^ (bitLen (n div 2) - 1) \<le> n div 2" by simp
    moreover have "bitLen (n div 2) \<noteq> 0" using False by (simp add: bitLen.simps [of "n div 2"])
    ultimately show ?thesis
      using 1(2) by (cases "bitLen (n div 2)") (auto simp: bitLen.simps [of n])
  qed
qed


lemma pad_below:
  assumes "pad msg k = Inr em" "bitLen n = 8 * k"
  shows "be_nat em < n"
proof -
  have "em \<noteq> []" "unat (hd em) \<le> 0x6B" "length em = k"
    using assms(1) by (auto simp: pad_def Let_def split: if_splits)
  then obtain h t where em: "em = h # t" "unat h \<le> 0x6B" "k = Suc (length t)"
    by (cases em) auto
  have n: "0 < n" using assms(2) em(3) by (cases "n = 0") (auto simp: bitLen.simps [of 0])
  have "be_nat em < (unat h + 1) * 256 ^ length t"
    using be_nat_less [of t] em(1) by (simp add: be_nat_Cons)
  also have "\<dots> \<le> 128 * 256 ^ length t"
    using em(2) by (intro mult_right_mono) auto
  also have "\<dots> = 2 ^ (bitLen n - 1)"
    by (simp add: assms(2) em(3) power_add power_mult)
  also have "\<dots> \<le> n" by (rule bitLen_lower [OF n])
  finally show ?thesis .
qed

text \<open>A key whose size is a whole number of bytes carries every message that leaves room for the padding.\<close>

lemma x931_carries:
  assumes "rsa_key n e d" "bitLen n = 8 * k" "3 \<le> k" "length msg + 2 \<le> k"
  shows "\<exists>sig. PrivateEncrypt n d msg = Inr sig \<and> length sig = k \<and> PublicDecrypt n e sig = Inr msg"
proof -
  have k: "rsaSize n = k" using assms(2) by (simp add: rsaSize_def)
  obtain em where em: "pad msg k = Inr em"
    using assms(4) by (auto simp: pad_def Let_def)
  with pad_below [OF em assms(2)] obtain sig where sig: "PrivateEncrypt n d msg = Inr sig" "length sig = k"
    by (auto simp: PrivateEncrypt_def Let_def k)
  with x931_inverts [OF assms(1) _ sig(1)] assms(3) k show ?thesis by auto
qed

lemma generateSmallExponent_first:
  assumes "draw 0 (bits div 2) = Inr p" "draw 1 (bits div 2) = Inr q"
    and "smallExponentKey bits e p q = Some key" "validate key"
  shows "generateSmallExponent draw validate bits e = Inr key"
proof -
  have "(1000 :: nat) = Suc 999" by simp
  then show ?thesis
    unfolding generateSmallExponent_def by (simp only: smallExponentLoop.simps) (simp add: assms [simplified])
qed

text \<open>
  C21: a key pair made for the small exponent of the PS3 client works. If the primes drawn are odd primes
  and the search for a key ends with one, the key has the requested exponent and size and passed the
  library's validation, and every message that leaves two bytes of the modulus free survives encryption
  with the private half and decryption with the public half.
\<close>

theorem generated_key_works:
  assumes "generateSmallExponent draw validate (8 * int k) e = Inr key"
    and "\<forall>i b p. draw i b = Inr p \<longrightarrow> prime_nat p \<and> 2 < p" "0 < e" "3 \<le> k" "length msg + 2 \<le> k"
  shows "keyPublic key = e \<and> bitLen (keyModulus key) = 8 * k \<and> validate key \<and>
    (\<exists>sig. PrivateEncrypt (keyModulus key) (keyPrivate key) msg = Inr sig \<and>
       PublicDecrypt (keyModulus key) (nat (keyPublic key)) sig = Inr msg)"
proof -
  obtain p q where pq: "prime_nat p" "prime_nat q" "2 < p" "2 < q"
    and key: "smallExponentKey (8 * int k) e p q = Some key" "validate key"
    using smallExponentLoop_result [OF assms(1) [unfolded generateSmallExponent_def]] assms(2) by blast
  note w = smallExponentKey_works [OF key(1) pq assms(3)]
  have b: "bitLen (keyModulus key) = 8 * k" using w(2) by linarith
  with x931_carries [OF w(1) b assms(4,5)] w(3) key(2) show ?thesis by auto
qed

lemma prime_check:
  assumes "1 < p" "p < b * b" "\<forall>m\<in>set [2..<b]. \<not> m dvd p"
  shows "prime_nat p"
proof -
  have "m = 1 \<or> m = p" if m: "m dvd p" for m
  proof (rule ccontr)
    assume neg: "\<not> (m = 1 \<or> m = p)"
    obtain c where c: "p = m * c" using m by (auto elim: dvdE)
    have "2 \<le> m" "2 \<le> c"
      using neg c assms(1) by (cases m; cases "m - 1"; cases c; cases "c - 1"; auto)+
    moreover have "m < b \<or> c < b"
      using assms(2) c by (metis leI mult_le_mono not_le)
    ultimately show False
      using assms(3) c by (metis atLeastLessThan_iff dvd_triv_left dvd_triv_right set_upt)
  qed
  with assms(1) show ?thesis by (simp add: prime_nat_def)
qed

theorem generated_key_works_witness:
  "\<exists>key. generateSmallExponent (\<lambda>i b. Inr (if even i then 4091 else 4079)) (\<lambda>_. True) 24 3 = Inr key \<and>
     (\<exists>sig. PrivateEncrypt (keyModulus key) (keyPrivate key) [7] = Inr sig \<and>
        PublicDecrypt (keyModulus key) 3 sig = Inr [7])"
proof -
  let ?draw = "\<lambda>i b :: int. Inr (if even i then 4091 else 4079) :: string + nat"
  have pr: "prime_nat 4091" "prime_nat 4079"
    by (rule prime_check [of _ 64]; simp add: upt_rec)+
  have "bitLen (4091 * 4079) = 24"
    by (simp add: bitLen.simps)
  moreover have "gcd 3 (4090 :: int) = 1" "gcd 3 (4078 :: int) = 1"
    "gcd 3 (int ((4090 * 4078) div gcd 4090 4078)) = 1"
    by (simp_all add: gcd_non_0_int gcd_non_0_nat)
  ultimately obtain key where "smallExponentKey 24 3 4091 4079 = Some key"
    by (simp add: smallExponentKey_def modInverse_def Let_def)
  then have key: "generateSmallExponent ?draw (\<lambda>_. True) 24 3 = Inr key"
    by (intro generateSmallExponent_first [of _ _ 4091 4079]) auto
  have "keyPublic key = 3 \<and> bitLen (keyModulus key) = 8 * 3 \<and> True \<and>
    (\<exists>sig. PrivateEncrypt (keyModulus key) (keyPrivate key) [7] = Inr sig \<and>
       PublicDecrypt (keyModulus key) (nat (keyPublic key)) sig = Inr [7])"
    using key pr by (intro generated_key_works [of ?draw "\<lambda>_. True" 3 3]) auto
  with key show ?thesis by auto
qed

text \<open>An even exponent shares the factor two with every candidate: the search gives up after its thousand rounds.\<close>

lemma even_exponent_fails:
  assumes "\<forall>i b. \<exists>p. draw i b = Inr p \<and> prime_nat p \<and> 2 < p" "even e"
  shows "generateSmallExponent draw validate bits e = Inl NoKeyForExponent"
proof -
  have none: "smallExponentKey bits e p q = None" if "prime_nat p" "2 < p" for p q
  proof -
    have "odd p" using that by (auto simp: prime_nat_def dest!: spec [of _ 2])
    then have "2 dvd int p - 1" by simp
    with assms(2) have "2 dvd gcd e (int p - 1)" by (rule gcd_greatest)
    then have "gcd e (int p - 1) \<noteq> 1" by (metis odd_one)
    then show ?thesis by (simp add: smallExponentKey_def)
  qed
  have "smallExponentLoop draw validate bits e n i = Inl NoKeyForExponent" for n i
  proof (induction n arbitrary: i)
    case (Suc n)
    obtain p where "draw i (bits div 2) = Inr p" "prime_nat p" "2 < p" using assms(1) by blast
    moreover obtain q where "draw (Suc i) (bits div 2) = Inr q" using assms(1) by blast
    ultimately show ?case using Suc none by simp
  qed simp
  then show ?thesis by (simp add: generateSmallExponent_def)
qed


subsection \<open>The key of the first run is the key of every later run\<close>

text \<open>The documented behaviour of encoding/pem and crypto/x509: decoding undoes encoding.\<close>

definition codec_ok :: "KeyCodec \<Rightarrow> bool" where
  "codec_ok kc \<longleftrightarrow>
     (\<forall>t b. pemDecode kc (pemEncode kc t b) = Some (t, b)) \<and>
     (\<forall>k. parsePrivate kc (marshalPrivate kc k) = Inr k) \<and>
     (\<forall>p. parsePublic kc (marshalPublic kc p) = Inr p)"

lemma pem_roundtrip:
  assumes "codec_ok kc"
  shows "ParsePrivatePEM kc (PrivatePEM kc k) = Inr k" "ParsePublicPEM kc (PublicPEM kc p) = Inr p"
  using assms
  by (simp add: codec_ok_def ParsePrivatePEM_def PrivatePEM_def)
    (cases p, use assms in \<open>simp add: codec_ok_def ParsePublicPEM_def PublicPEM_def\<close>)

lemma generated_key_loads:
  assumes "codec_ok kc" "LoadOrGenerate kc gen priv pub bits fs = (Inr k, fs')"
    and "readFile fs priv = ReadNotExist" "priv \<noteq> pub"
  shows "LoadOrGenerate kc gen' priv pub bits' fs' = (Inr k, fs') \<and>
    fsContent fs' priv = Some (PrivatePEM kc k, 384) \<and>
    (pub \<noteq> '''' \<longrightarrow> (\<exists>d m. fsContent fs' pub = Some (d, m) \<and>
       ParsePublicPEM kc d = Inr (keyModulus k, keyPublic k))) \<and>
    (\<forall>p. p \<noteq> priv \<and> p \<noteq> pub \<longrightarrow> fsContent fs' p = fsContent fs p)"
proof -
  have none: "fsContent fs priv = None" "fsReadErr fs priv = None"
    using assms(3) by (auto simp: readFile_def split: option.splits)
  let ?fs1 = "fs\<lparr>fsContent := (fsContent fs)(priv \<mapsto> (PrivatePEM kc k, 384))\<rparr>"
  have "fs' = (if pub = '''' then ?fs1
      else snd (writeFile ?fs1 pub (PublicPEM kc (keyModulus k, keyPublic k)) 420))
    \<and> (pub \<noteq> '''' \<longrightarrow> fsWriteErr fs pub = None)"
    using assms(2) none
    by (auto simp: LoadOrGenerate_def assms(3) writeFile_def split: sum.splits option.splits if_splits)
  then have fs': "fsReadErr fs' = fsReadErr fs" "fsContent fs' priv = Some (PrivatePEM kc k, 384)"
    "pub \<noteq> '''' \<longrightarrow> (\<exists>m. fsContent fs' pub = Some (PublicPEM kc (keyModulus k, keyPublic k), m))"
    "\<forall>p. p \<noteq> priv \<and> p \<noteq> pub \<longrightarrow> fsContent fs' p = fsContent fs p"
    using assms(4) by (auto simp: writeFile_def)
  have "readFile fs' priv = ReadData (PrivatePEM kc k)"
    using fs'(1,2) none by (simp add: readFile_def)
  then have "LoadOrGenerate kc gen' priv pub bits' fs' = (Inr k, fs')"
    by (simp add: LoadOrGenerate_def pem_roundtrip [OF assms(1)])
  with fs'(2-4) show ?thesis
    using pem_roundtrip(2) [OF assms(1)] by blast
qed

text \<open>
  The server keeps its identity. If the first start makes a key, because there was no private key
  file, then the private half is on disk readable by the owner only and the public half, if it has a
  path, is on disk as the file a client is patched with; no other file has changed, and every later
  start, whatever key generator and key size it is given, loads exactly that key and changes nothing.
\<close>

theorem first_key_kept:
  assumes "codec_ok kc" "LoadOrGenerate kc gen priv pub bits fs = (Inr k, fs')"
    and "readFile fs priv = ReadNotExist" "priv \<noteq> pub"
  shows "LoadOrGenerate kc gen' priv pub bits' fs' = (Inr k, fs') \<and>
    fsContent fs' priv = Some (PrivatePEM kc k, 384) \<and>
    (pub \<noteq> '''' \<longrightarrow> (\<exists>d m. fsContent fs' pub = Some (d, m) \<and>
       ParsePublicPEM kc d = Inr (keyModulus k, keyPublic k))) \<and>
    (\<forall>p. p \<noteq> priv \<and> p \<noteq> pub \<longrightarrow> fsContent fs' p = fsContent fs p)"
  by (rule generated_key_loads [OF assms])

text \<open>
  A public key file that could not be written at the first start is never written: the start fails, the
  private half stays, and the next start loads it and succeeds although there is still no public file.
\<close>

lemma public_half_never_retried:
  assumes "codec_ok kc" "readFile fs priv = ReadNotExist" "Generate gen bits = Inr k"
    and "fsMkdirErr fs (Dir priv) = None" "fsWriteErr fs priv = None"
    and "pub \<noteq> ''''" "pub \<noteq> priv" "fsWriteErr fs pub = Some err" "fsContent fs pub = None"
  shows "\<exists>fs'. LoadOrGenerate kc gen priv pub bits fs = (Inl (WritePublicFailed err), fs') \<and>
    LoadOrGenerate kc gen priv pub bits (fs'\<lparr>fsWriteErr := \<lambda>_. None\<rparr>) = (Inr k, fs'\<lparr>fsWriteErr := \<lambda>_. None\<rparr>) \<and>
    fsContent fs' pub = None"
proof -
  have none: "fsContent fs priv = None" "fsReadErr fs priv = None"
    using assms(2) by (auto simp: readFile_def split: option.splits)
  let ?fs' = "fs\<lparr>fsContent := (fsContent fs)(priv \<mapsto> (PrivatePEM kc k, 384))\<rparr>"
  have "LoadOrGenerate kc gen priv pub bits fs = (Inl (WritePublicFailed err), ?fs')"
    using assms none by (simp add: LoadOrGenerate_def writeFile_def)
  moreover have "readFile (?fs'\<lparr>fsWriteErr := \<lambda>_. None\<rparr>) priv = ReadData (PrivatePEM kc k)"
    using none by (simp add: readFile_def)
  ultimately show ?thesis
    using assms(6-9) by (auto simp: LoadOrGenerate_def pem_roundtrip [OF assms(1)])
qed

text \<open>A codec with the documented behaviour: numbers in unary, a tag in front.\<close>

definition unary :: "nat \<Rightarrow> bytes" where "unary n = replicate n 1 @ [0]"

fun unUnary :: "bytes \<Rightarrow> nat \<times> bytes" where
  "unUnary [] = (0, [])"
| "unUnary (b # bs) = (if b = 0 then (0, bs) else apfst Suc (unUnary bs))"

lemma unUnary_unary [simp]: "unUnary (unary n @ rest) = (n, rest)"
  by (induction n) (simp_all add: unary_def)

fun unList :: "nat \<Rightarrow> bytes \<Rightarrow> nat list" where
  "unList 0 bs = []"
| "unList (Suc n) bs = fst (unUnary bs) # unList n (snd (unUnary bs))"

lemma unList_unary: "unList (length xs) (concat (map unary xs) @ rest) = xs"
  by (induction xs) simp_all

definition keyNumbers :: "RSAKey \<Rightarrow> nat list" where
  "keyNumbers k =
     [keyModulus k, nat (keyPublic k), nat (- keyPublic k), keyPrivate k, length (keyPrimes k)]"

definition demo_codec :: KeyCodec where
  "demo_codec =
     \<lparr>pemEncode = (\<lambda>t b. unary (length t) @ map (\<lambda>c. of_nat (of_char c)) t @ b),
      pemDecode = (\<lambda>d. let (n, r) = unUnary d in Some (map (\<lambda>b. char_of (unat b)) (take n r), drop n r)),
      marshalPrivate = (\<lambda>k. concat (map unary (keyNumbers k)) @ concat (map unary (keyPrimes k))),
      parsePrivate = (\<lambda>b. let xs = unList 5 b; ps = unList (5 + xs ! 4) b
         in Inr \<lparr>keyModulus = xs ! 0, keyPublic = int (xs ! 1) - int (xs ! 2), keyPrivate = xs ! 3,
                 keyPrimes = drop 5 ps\<rparr>),
      marshalPublic = (\<lambda>(n, e). concat (map unary [n, nat e, nat (- e)])),
      parsePublic = (\<lambda>b. let xs = unList 3 b in Inr (xs ! 0, int (xs ! 1) - int (xs ! 2)))\<rparr>"

lemma byte_char [simp]: "char_of (unat (of_nat (of_char c) :: byte)) = c"
  by (simp add: unat_of_nat)

lemma demo_codec_ok: "codec_ok demo_codec"
proof -
  have len: "length (keyNumbers k) = 5" "keyNumbers k ! 4 = length (keyPrimes k)" for k
    by (simp_all add: keyNumbers_def)
  have 1: "unList 5 (concat (map unary (keyNumbers k)) @ r) = keyNumbers k" for k r
    using unList_unary [of "keyNumbers k" r] by (simp only: len)
  have 2: "unList (5 + length (keyPrimes k)) (concat (map unary (keyNumbers k)) @ concat (map unary (keyPrimes k)))
      = keyNumbers k @ keyPrimes k" for k
    using unList_unary [of "keyNumbers k @ keyPrimes k" "[]"]
    by (simp only: len length_append map_append concat_append append_Nil2)
  have 3: "unList 3 (concat (map unary [a, b, c])) = [a, b, c]" for a b c
    using unList_unary [of "[a, b, c]" "[]"] by (simp add: numeral_3_eq_3)
  have priv: "parsePrivate demo_codec (marshalPrivate demo_codec k) = Inr k" for k
  proof -
    have "drop 5 (keyNumbers k @ keyPrimes k) = keyPrimes k" by (simp add: len)
    then show ?thesis
      by (simp only: demo_codec_def KeyCodec.simps Let_def 1 len(2) 2) (simp add: keyNumbers_def)
  qed
  have "parsePublic demo_codec (marshalPublic demo_codec (n, e)) = Inr (n, e)" for n e
    by (simp only: demo_codec_def KeyCodec.simps Let_def prod.case 3) simp
  moreover have "pemDecode demo_codec (pemEncode demo_codec t b) = Some (t, b)" for t b
    by (simp add: demo_codec_def comp_def)
  ultimately show ?thesis
    using priv by (simp add: codec_ok_def)
qed

theorem first_key_kept_witness:
  "\<exists>k fs'. LoadOrGenerate demo_codec (\<lambda>_. Inr \<lparr>keyModulus = 33, keyPublic = 3, keyPrivate = 7, keyPrimes = [3, 11]\<rparr>)
       ''k/a'' ''k/b'' 2048 \<lparr>fsContent = Map.empty, fsReadErr = \<lambda>_. None, fsWriteErr = \<lambda>_. None, fsMkdirErr = \<lambda>_. None\<rparr>
       = (Inr k, fs') \<and>
     LoadOrGenerate demo_codec (\<lambda>_. Inl ''no'') ''k/a'' ''k/b'' 0 fs' = (Inr k, fs')"
proof -
  let ?gen = "\<lambda>_ :: int. Inr \<lparr>keyModulus = 33, keyPublic = 3, keyPrivate = 7, keyPrimes = [3, 11]\<rparr> :: string + RSAKey"
  let ?fs = "\<lparr>fsContent = Map.empty, fsReadErr = \<lambda>_. None, fsWriteErr = \<lambda>_. None, fsMkdirErr = \<lambda>_. None\<rparr> :: FileSys"
  obtain k fs' where r: "LoadOrGenerate demo_codec ?gen ''k/a'' ''k/b'' 2048 ?fs = (Inr k, fs')"
    by (simp add: LoadOrGenerate_def readFile_def Generate_def writeFile_def)
  have "readFile ?fs ''k/a'' = ReadNotExist" by (simp add: readFile_def)
  from first_key_kept [OF demo_codec_ok r this, of "\<lambda>_. Inl ''no''" 0] r show ?thesis by auto
qed

end
