(* ===== verification/Client_Emulator.thy ===== *)
theory Client_Emulator
  imports Auth_Service Rsa_Keys
begin

section \<open>The client emulator\<close>

text \<open>
  internal/client/emulator.go: the login query and the four steps of the auth handshake as the client
  does them, and the whole of them joined to the services of the server. \<open>dial\<close> is an argument that gives the
  connection for an address; \<open>ClientLibs\<close> holds the library functions (AES, OAEP encryption, protowire, the
  generated protobuf encoders) and \<open>ClientRand\<close> the random bytes each step draws.
\<close>

record ClientLibs =
  cliAES :: "bytes \<Rightarrow> bytes \<Rightarrow> bytes"
  cliOAEP :: "rand \<Rightarrow> bytes \<Rightarrow> string + bytes"
  cliWire :: protowire
  pbLoginQuery :: "string \<Rightarrow> u64 \<Rightarrow> string + bytes"
  pbHandshake :: "bytes \<Rightarrow> string + bytes"
  pbStatusQuery :: "string \<Rightarrow> u64 \<Rightarrow> string + bytes"

record ClientConfig =
  LoginAddr :: string
  pubN :: nat
  pubE :: nat
  PSNID :: string
  AppVersion :: u64
  Ticket :: bytes

record ClientRand =
  oaepLogin :: rand
  rndCwcKey :: rand
  oaepHandshake :: rand
  ivStatusQuery :: rand
  rndHalf :: rand
  ivHalf :: rand
  ivTicketQuery :: rand

record AuthResult =
  AuthToken :: bytes
  GameKey :: bytes
  GameServerIP :: string
  resPort :: nat

datatype client_error =
    DialFailed string
  | ClientStream stream_error
  | ClientMarshal string
  | ClientRandom string
  | BlobSize nat
  | ClientCwc cwc_error
  | GameKeySize nat
  | InfoSize nat
  | ServerInfo info_error

definition NewRSAClient :: "ClientLibs \<Rightarrow> ClientConfig \<Rightarrow> Cipher" where
  "NewRSAClient l c =
     \<lparr>Encrypt = rsaClient_Encrypt (cliOAEP l), Decrypt = rsaClient_Decrypt (pubN c) (pubE c)\<rparr>"

definition client_send ::
  "rand \<Rightarrow> MessageStream \<Rightarrow> MsgType \<Rightarrow> u32 \<Rightarrow> bytes \<Rightarrow> (client_error + unit) \<times> MessageStream" where
  "client_send rd s t i body =
     (case Send rd s \<lparr>mType = t, mIndex = i, mPayload = body\<rparr> of
        (None, s') \<Rightarrow> (Inr (), s')
      | (Some err, s') \<Rightarrow> (Inl (ClientStream err), s'))"

definition client_recv :: "MessageStream \<Rightarrow> (client_error + TcpMessage) \<times> MessageStream" where
  "client_recv s =
     (case RecvMessage s of (Inl err, s') \<Rightarrow> (Inl (ClientStream err), s') | (Inr m, s') \<Rightarrow> (Inr m, s'))"

text \<open>Send a request and read the reply, as every step does.\<close>

definition exchange ::
  "rand \<Rightarrow> MessageStream \<Rightarrow> MsgType \<Rightarrow> u32 \<Rightarrow> bytes \<Rightarrow> (client_error + TcpMessage) \<times> MessageStream" where
  "exchange rd s t i body =
     (case client_send rd s t i body of (Inl err, s1) \<Rightarrow> (Inl err, s1) | (Inr _, s1) \<Rightarrow> client_recv s1)"

text \<open>\<open>netip.AddrFrom4\<close> and its \<open>String\<close>.\<close>

definition addrString :: "byte \<times> byte \<times> byte \<times> byte \<Rightarrow> string" where
  "addrString = (\<lambda>(p, q, r, s).
     decimal (unat p) @ ''.'' @ decimal (unat q) @ ''.'' @ decimal (unat r) @ ''.'' @ decimal (unat s))"

definition joinHostPort :: "string \<Rightarrow> string \<Rightarrow> string" where
  "joinHostPort host port =
     (if CHR '':'' \<in> set host then ''['' @ host @ '']:'' @ port else host @ '':'' @ port)"

definition parseServerInfoPS3 :: "protowire \<Rightarrow> bytes \<Rightarrow> info_error + (byte \<times> byte \<times> byte \<times> byte) \<times> u16" where
  "parseServerInfoPS3 w b =
     bind_err (serverInfoLoop (Suc (length b)) w b (0, 0, 0)) (\<lambda>(port, ip, seen).
       if seen \<noteq> 3 then Inl (MissingField seen)
       else Inr ((ucast (drop_bit 24 ip), ucast (drop_bit 16 ip), ucast (drop_bit 8 ip), ucast ip), port))"

definition client_login ::
  "ClientLibs \<Rightarrow> ClientConfig \<Rightarrow> ClientRand \<Rightarrow> Stream \<Rightarrow> (client_error + string) \<times> MessageStream" where
  "client_login l c rd conn =
     (let k = NewRSAClient l c;
          s0 = SetCiphers (NewStream conn) (Some k) (Some k)
      in case pbLoginQuery l (PSNID c) (AppVersion c) of
           Inl err \<Rightarrow> (Inl (ClientMarshal err), s0)
         | Inr body \<Rightarrow>
             (case exchange (oaepLogin rd) s0 RequestQueryLoginServerInfo 1 body of
                (Inl err, s1) \<Rightarrow> (Inl err, s1)
              | (Inr reply, s1) \<Rightarrow>
                  (case parseServerInfoPS3 (cliWire l) (mPayload reply) of
                     Inl err \<Rightarrow> (Inl (ServerInfo err), s1)
                   | Inr (ip, port) \<Rightarrow> (Inr (joinHostPort (addrString ip) (decimal (unat port))), s1))))"

text \<open>The four steps of \<open>auth\<close>, each with the index of its message.\<close>

definition clientHandshake ::
  "ClientLibs \<Rightarrow> ClientRand \<Rightarrow> MessageStream \<Rightarrow> (client_error + unit) \<times> MessageStream" where
  "clientHandshake l rd s =
     (case rndCwcKey rd of
        Inl err \<Rightarrow> (Inl (ClientRandom err), s)
      | Inr cwcKey \<Rightarrow>
          (case pbHandshake l cwcKey of
             Inl err \<Rightarrow> (Inl (ClientMarshal err), s)
           | Inr body \<Rightarrow>
               (case client_send (oaepHandshake rd) s RequestHandshake 1 body of
                  (Inl err, s1) \<Rightarrow> (Inl err, s1)
                | (Inr _, s1) \<Rightarrow>
                    (case client_recv (SetCiphers s1 None None) of
                       (Inl err, s2) \<Rightarrow> (Inl err, s2)
                     | (Inr blob, s2) \<Rightarrow>
                         if length (mPayload blob) \<noteq> 27 then (Inl (BlobSize (length (mPayload blob))), s2)
                         else
                           (case NewContext (cliAES l) cwcKey of
                              Inl err \<Rightarrow> (Inl (ClientCwc err), s2)
                            | Inr ctx \<Rightarrow> (Inr (), SetCiphers s2 (Some (cwcCipher ctx)) (Some (cwcCipher ctx))))))))"

definition clientStatus ::
  "ClientLibs \<Rightarrow> ClientConfig \<Rightarrow> ClientRand \<Rightarrow> MessageStream \<Rightarrow> (client_error + unit) \<times> MessageStream" where
  "clientStatus l c rd s =
     (case pbStatusQuery l (PSNID c) (AppVersion c) of
        Inl err \<Rightarrow> (Inl (ClientMarshal err), s)
      | Inr body \<Rightarrow>
          (case exchange (ivStatusQuery rd) s GetServiceStatus 2 body of
             (Inl err, s1) \<Rightarrow> (Inl err, s1) | (Inr _, s1) \<Rightarrow> (Inr (), s1)))"

definition clientKey :: "ClientRand \<Rightarrow> MessageStream \<Rightarrow> (client_error + bytes) \<times> MessageStream" where
  "clientKey rd s =
     (case rndHalf rd of
        Inl err \<Rightarrow> (Inl (ClientRandom err), s)
      | Inr half \<Rightarrow>
          (case exchange (ivHalf rd) s KeyMaterial 3 half of
             (Inl err, s1) \<Rightarrow> (Inl err, s1)
           | (Inr reply, s1) \<Rightarrow>
               if length (mPayload reply) \<noteq> 16 then (Inl (GameKeySize (length (mPayload reply))), s1)
               else (Inr (mPayload reply), s1)))"

definition parseGameServerInfo :: "bytes \<Rightarrow> bytes \<Rightarrow> client_error + AuthResult" where
  "parseGameServerInfo buf gameKey =
     (if length buf \<noteq> 56 then Inl (InfoSize (length buf))
      else
        let ip = slice 8 12 buf
        in Inr \<lparr>AuthToken = take 8 buf, GameKey = gameKey,
                GameServerIP = addrString (ip ! 0, ip ! 1, ip ! 2, ip ! 3),
                resPort = unat (get_be16 (slice 12 14 buf))\<rparr>)"

definition clientTicket ::
  "ClientConfig \<Rightarrow> ClientRand \<Rightarrow> bytes \<Rightarrow> MessageStream \<Rightarrow> (client_error + AuthResult) \<times> MessageStream" where
  "clientTicket c rd gameKey s =
     (case exchange (ivTicketQuery rd) s PSNTicket 4 (gameKey @ Ticket c) of
        (Inl err, s1) \<Rightarrow> (Inl err, s1)
      | (Inr reply, s1) \<Rightarrow> (parseGameServerInfo (mPayload reply) gameKey, s1))"

definition client_auth ::
  "ClientLibs \<Rightarrow> ClientConfig \<Rightarrow> ClientRand \<Rightarrow> Stream \<Rightarrow> (client_error + AuthResult) \<times> MessageStream" where
  "client_auth l c rd conn =
     (let k = NewRSAClient l c
      in case clientHandshake l rd (SetCiphers (NewStream conn) (Some k) (Some k)) of
           (Inl err, s1) \<Rightarrow> (Inl err, s1)
         | (Inr _, s1) \<Rightarrow>
             (case clientStatus l c rd s1 of
                (Inl err, s2) \<Rightarrow> (Inl err, s2)
              | (Inr _, s2) \<Rightarrow>
                  (case clientKey rd s2 of
                     (Inl err, s3) \<Rightarrow> (Inl err, s3)
                   | (Inr gameKey, s3) \<Rightarrow> clientTicket c rd gameKey s3)))"

definition RunLoginAuth ::
  "ClientLibs \<Rightarrow> (string \<Rightarrow> string + Stream) \<Rightarrow> ClientConfig \<Rightarrow> ClientRand \<Rightarrow> client_error + AuthResult" where
  "RunLoginAuth l dial c rd =
     (case dial (LoginAddr c) of
        Inl err \<Rightarrow> Inl (DialFailed err)
      | Inr conn \<Rightarrow>
          (case fst (client_login l c rd conn) of
             Inl err \<Rightarrow> Inl err
           | Inr authAddr \<Rightarrow>
               (case dial authAddr of
                  Inl err \<Rightarrow> Inl (DialFailed err)
                | Inr conn' \<Rightarrow> fst (client_auth l c rd conn'))))"


subsection \<open>Two ends of a connection\<close>

text \<open>
  A stream between two messages, with every component given: its ciphers, what is still to be read, what has been
  written and the packet counter, on a connection whose writes succeed.
\<close>

definition link :: "Cipher option \<Rightarrow> Cipher option \<Rightarrow> bytes \<Rightarrow> bytes list \<Rightarrow> u16 \<Rightarrow> MessageStream" where
  "link e d inp out n =
     \<lparr>pktStream = \<lparr>conn_in = inp, conn_out = out, conn_write = (\<lambda>_. None), sent = n\<rparr>, enc = e, dec = d\<rparr>"

definition wire :: "bytes \<Rightarrow> Stream" where
  "wire inp = \<lparr>conn_in = inp, conn_out = [], conn_write = (\<lambda>_. None), sent = 0\<rparr>"

definition tcpFrame :: "u16 \<Rightarrow> TcpMessage \<Rightarrow> bytes \<Rightarrow> bytes" where
  "tcpFrame n m body = packetFrame n (tcpMessageBytes m body)"

text \<open>What one cipher makes of a payload, and the other takes back.\<close>

definition carries :: "Cipher option \<Rightarrow> Cipher option \<Rightarrow> rand \<Rightarrow> bytes \<Rightarrow> bytes \<Rightarrow> bool" where
  "carries e d rd p b \<longleftrightarrow>
     (case e of None \<Rightarrow> Inr p | Some c \<Rightarrow> Encrypt c rd p) = Inr b \<and>
     (case d of None \<Rightarrow> Inr b | Some c \<Rightarrow> if 0 < length b then Decrypt c b else Inr b) = Inr p \<and>
     length b < 65000"

lemma link_simps [simp]:
  "NewStream (wire inp) = link None None inp [] 0"
  "SetCiphers (link e d inp out n) e' d' = link e' d' inp out n"
  "conn_out (pktStream (link e d inp out n)) = out"
  by (simp_all add: NewStream_def wire_def link_def SetCiphers_def)

lemma Send_link:
  assumes "carries e d' rd (mPayload m) b"
  shows "Send rd (link e d inp out n) m = (None, link e d inp (out @ [tcpFrame (n + 1) m b]) (n + 1))"
  using assms
  by (auto simp: carries_def Send_def encryptBody_def link_def WritePacket_def Let_def length_tcpMessageBytes
      tcp_overhead_def MaxPacketLength_def tcpHeaderSize_def tcpFrame_def split: option.splits)

lemma Recv_link:
  assumes "carries e' d rd (mPayload m) b"
  shows "RecvMessage (link e d (tcpFrame k m b @ rest) out n) = (Inr m, link e d rest out n)"
proof -
  have "RecvMessage (link e d (tcpFrame k m b @ rest) out n) =
      (Inr m, (link e d (tcpFrame k m b @ rest) out n)\<lparr>pktStream :=
        (pktStream (link e d (tcpFrame k m b @ rest) out n))\<lparr>conn_in := rest\<rparr>\<rparr>)"
    using assms
    by (intro RecvMessage_frame [of _ k m b])
      (auto simp: carries_def link_def tcpFrame_def decryptBody_def tcp_overhead_def split: option.splits)
  then show ?thesis by (simp add: link_def)
qed

abbreviation msgFrame :: "u16 \<Rightarrow> MsgType \<Rightarrow> u32 \<Rightarrow> bytes \<Rightarrow> bytes \<Rightarrow> bytes" where
  "msgFrame n t i p b \<equiv> tcpFrame n \<lparr>mType = t, mIndex = i, mPayload = p\<rparr> b"

lemmas Recv_msg = Recv_link [where m = "\<lparr>mType = t, mIndex = i, mPayload = p\<rparr>" for t i p, simplified TcpMessage.simps]
lemmas Send_msg = Send_link [where m = "\<lparr>mType = t, mIndex = i, mPayload = p\<rparr>" for t i p, simplified TcpMessage.simps]

text \<open>The stages of the server and the steps of the client in these terms.\<close>

lemma recv_want_link:
  "carries e' d rd p b \<Longrightarrow>
     recv_want (link e d (msgFrame k t i p b @ rest) out n) t =
       (Inr \<lparr>mType = t, mIndex = i, mPayload = p\<rparr>, link e d rest out n)"
  by (simp add: recv_want_def Recv_msg)

lemma reply_to_link:
  "carries e d' rd p b \<Longrightarrow>
     reply_to rd (link e d inp out n) m p =
       (Inr (), link e d inp (out @ [msgFrame (n + 1) Reply (mIndex m) p b]) (n + 1))"
  by (simp add: reply_to_def Send_msg)

lemma client_send_link:
  "carries e d' rd p b \<Longrightarrow>
     client_send rd (link e d inp out n) t i p =
       (Inr (), link e d inp (out @ [msgFrame (n + 1) t i p b]) (n + 1))"
  by (simp add: client_send_def Send_msg)

lemma client_recv_link:
  "carries e' d rd p b \<Longrightarrow>
     client_recv (link e d (msgFrame k t i p b @ rest) out n) =
       (Inr \<lparr>mType = t, mIndex = i, mPayload = p\<rparr>, link e d rest out n)"
  by (simp add: client_recv_def Recv_msg)

lemma exchange_link:
  "carries e d' rd p b \<Longrightarrow> carries e' d rd' p' b' \<Longrightarrow>
     exchange rd (link e d (msgFrame k t' i' p' b' @ rest) out n) t i p =
       (Inr \<lparr>mType = t', mIndex = i', mPayload = p'\<rparr>, link e d rest (out @ [msgFrame (n + 1) t i p b]) (n + 1))"
  by (simp add: exchange_def client_send_link client_recv_link)

lemma carries_plain: "length p < 65000 \<Longrightarrow> carries None None rd p p"
  by (simp add: carries_def)

lemma carries_cwc:
  assumes "aes_block_size (block ctx)" "iv_ok rd" "p \<noteq> []" "length p < 64000"
  shows "\<exists>b. carries (Some (cwcCipher ctx)) (Some (cwcCipher ctx)) rd p b"
proof -
  obtain b where b: "cwcTCP_Encrypt ctx rd p = Inr b" "length b = length p + 27"
    using cwc_encrypt_any [OF assms(1,2)] by blast
  with tcp_cipher.inverts [OF assms(2) _ b(1)] assms have "cwcTCP_Decrypt ctx b = Inr p" by auto
  with b assms(4) show ?thesis by (auto simp: carries_def cwcCipher_def)
qed

subsection \<open>A whole login\<close>

text \<open>
  What is assumed of the libraries on the two sides: the same AES and protowire, OAEP decryption undoes
  encryption for what fits a 2048-bit key, and the protobuf decoders of the server undo the encoders of
  the client.
\<close>

definition libs_agree :: "AuthLibs \<Rightarrow> ClientLibs \<Rightarrow> bool" where
  "libs_agree l cl \<longleftrightarrow>
     cliAES cl = libAES l \<and> cliWire cl = libWire l \<and> protowire_ok (libWire l) \<and>
     (\<forall>r p. length p \<le> 214 \<longrightarrow>
        (\<exists>ct. cliOAEP cl (Inr r) p = Inr ct \<and> ct \<noteq> [] \<and> length ct < 65000 \<and> libOAEP l ct = Inr p)) \<and>
     (\<forall>k b. pbHandshake cl k = Inr b \<longrightarrow> pbRequestHandshake l b = Inr k) \<and>
     (\<forall>psn v b. pbStatusQuery cl psn v = Inr b \<longrightarrow> pbGetServiceStatus l b = Inr (psn, v)) \<and>
     (\<forall>psn v b. pbLoginQuery cl psn v = Inr b \<longrightarrow> pbQueryLoginServerInfo l b = Inr ())"

text \<open>The client draws: a key for the auth stream, its half of the game key, and what the ciphers need.\<close>

definition client_draws :: "ClientRand \<Rightarrow> bytes \<Rightarrow> bytes \<Rightarrow> bool" where
  "client_draws rd key half \<longleftrightarrow>
     rndCwcKey rd = Inr key \<and> length key = 16 \<and> rndHalf rd = Inr half \<and> length half = 8 \<and>
     (\<exists>r. oaepLogin rd = Inr r) \<and> (\<exists>r. oaepHandshake rd = Inr r) \<and>
     iv_ok (ivStatusQuery rd) \<and> iv_ok (ivHalf rd) \<and> iv_ok (ivTicketQuery rd)"

text \<open>The messages of the client, and that they fit their ciphers.\<close>

definition client_messages :: "ClientLibs \<Rightarrow> ClientConfig \<Rightarrow> bytes \<Rightarrow> bytes \<Rightarrow> bytes \<Rightarrow> bytes \<Rightarrow> bool" where
  "client_messages cl c key lq hs sq \<longleftrightarrow>
     pbLoginQuery cl (PSNID c) (AppVersion c) = Inr lq \<and> length lq \<le> 214 \<and>
     pbHandshake cl key = Inr hs \<and> length hs \<le> 214 \<and>
     pbStatusQuery cl (PSNID c) (AppVersion c) = Inr sq \<and> sq \<noteq> [] \<and> length sq < 64000 \<and>
     length (Ticket c) < 63000"

abbreviation written :: "MessageStream \<Rightarrow> bytes" where
  "written s \<equiv> concat (conn_out (pktStream s))"

lemma carries_oaep:
  assumes "libs_agree l cl" "length p \<le> 214" "rd = Inr r"
  shows "\<exists>b. carries (Some (NewRSAClient cl c)) (Some (NewRSAServer l)) rd p b"
proof -
  obtain ct where "cliOAEP cl rd p = Inr ct" "ct \<noteq> []" "length ct < 65000" "libOAEP l ct = Inr p"
    using assms unfolding libs_agree_def by blast
  then show ?thesis
    by (auto simp: carries_def NewRSAClient_def NewRSAServer_def rsaClient_Encrypt_def rsaServer_Decrypt_def)
qed

lemma carries_x931:
  assumes "rsa_key (keyN l) (pubE c) (keyD l)" "pubN c = keyN l" "bitLen (keyN l) = 8 * k" "3 \<le> k" "k < 65000"
    and "length p + 2 \<le> k"
  shows "\<exists>b. carries (Some (NewRSAServer l)) (Some (NewRSAClient cl c)) rd p b"
proof -
  obtain sig where "PrivateEncrypt (keyN l) (keyD l) p = Inr sig" "length sig = k"
    "PublicDecrypt (keyN l) (pubE c) sig = Inr p"
    using x931_carries [OF assms(1,3,4,6)] by blast
  with assms(2,4,5) show ?thesis
    by (auto simp: carries_def NewRSAClient_def NewRSAServer_def rsaServer_Encrypt_def rsaClient_Decrypt_def)
qed

lemma clientHandshake_link:
  assumes "carries e d' (oaepHandshake rd) hs q" "carries None None rd2 blob rb" "length blob = 27"
    and "rndCwcKey rd = Inr key" "pbHandshake cl key = Inr hs" "NewContext (cliAES cl) key = Inr ctx"
  shows "clientHandshake cl rd (link e d (msgFrame k t j blob rb @ rest) out n) =
    (Inr (), link (Some (cwcCipher ctx)) (Some (cwcCipher ctx)) rest
       (out @ [msgFrame (n + 1) RequestHandshake 1 hs q]) (n + 1))"
  using assms by (simp add: clientHandshake_def client_send_link [OF assms(1)] client_recv_link [OF assms(2)])

lemma doHandshake_link:
  assumes "carries e' d rd1 hs q" "carries None None (Inl '''') (r @ replicate 16 0) rb"
    and "pbRequestHandshake l hs = Inr key" "length key = 16" "rndBlob rd = Inr r"
    and "NewContext (libAES l) key = Inr ctx"
  shows "doHandshake l rd (link e d (msgFrame k RequestHandshake j hs q @ rest) out n) =
    (Inr (), link (Some (cwcCipher ctx)) (Some (cwcCipher ctx)) rest
       (out @ [msgFrame (n + 1) Reply j (r @ replicate 16 0) rb]) (n + 1))"
  using assms
  by (simp add: doHandshake_def recv_want_link [OF assms(1)] reply_to_link [OF assms(2)] NewCWCTCP_def cwcCipher_def)

lemma doServiceStatus_link:
  assumes "carries e' d rd1 sq q" "carries e d' (ivStatus rd) sr rb"
    and "pbGetServiceStatus l sq = Inr (psn, v)" "versionAccepted cfg v" "pbGetServiceStatusResponse l v = Inr sr"
  shows "doServiceStatus l cfg rd (link e d (msgFrame k GetServiceStatus j sq q @ rest) out n) =
    (Inr psn, link e d rest (out @ [msgFrame (n + 1) Reply j sr rb]) (n + 1))"
  using assms by (simp add: doServiceStatus_def recv_want_link [OF assms(1)] reply_to_link [OF assms(2)])

lemma doKeyMaterial_link:
  assumes "carries e' d rd1 half q" "carries e d' (ivKey rd) (half @ srv) rb"
    and "length half = 8" "rndKey rd = Inr srv"
  shows "doKeyMaterial rd (link e d (msgFrame k KeyMaterial j half q @ rest) out n) =
    (Inr (half @ srv), link e d rest (out @ [msgFrame (n + 1) Reply j (half @ srv) rb]) (n + 1))"
  using assms by (simp add: doKeyMaterial_def recv_want_link [OF assms(1)] reply_to_link [OF assms(2)] Let_def)

lemma doPSNTicket_link:
  assumes "carries e' d rd1 tk q" "carries e d' (ivTicket rd) info rb"
    and "16 \<le> length tk" "rndToken rd = Inr token"
    and "encodeGameServerInfo (libIPv6 l) token (serverAddress cfg peer) (word_of_int (GamePort cfg)) = Inr info"
  shows "doPSNTicket l cfg rd t peer (link e d (msgFrame k PSNTicket j tk q @ rest) out n) reg psn key =
    (Inr (), link e d rest (out @ [msgFrame (n + 1) Reply j info rb]) (n + 1), Add t reg token key)"
  using assms
  by (simp add: doPSNTicket_def recv_want_link [OF assms(1)] reply_to_link [OF assms(2)] Noop_Validate_def)

lemma auth_joined:
  assumes agree: "libs_agree l cl" and cd: "client_draws rd key half" and sd: "draws_ok srd srv token"
    and ctx: "NewContext (libAES l) key = Inr ctx" and aes: "aes_block_size (libAES l key)"
    and msg: "client_messages cl c key lq hs sq"
    and resp: "versionAccepted cfg (AppVersion c)" "pbGetServiceStatusResponse l (AppVersion c) = Inr sr"
      "sr \<noteq> []" "length sr < 64000"
    and info: "encodeGameServerInfo (libIPv6 l) token (serverAddress cfg peer) (word_of_int (GamePort cfg)) = Inr info"
  shows "\<exists>cs ss. client_auth cl c rd (wire (written ss)) = (parseGameServerInfo info (half @ srv), cs) \<and>
    auth_handle l cfg srd t peer (wire (written cs)) reg = (Inr (), ss, Add t reg token (half @ srv))"
proof -
  let ?rc = "Some (NewRSAClient cl c)" and ?rs = "Some (NewRSAServer l)" and ?cw = "Some (cwcCipher ctx)"
  let ?tk = "(half @ srv) @ Ticket c"
  have b: "aes_block_size (block ctx)" by (rule NewContext_key(2) [OF ctx aes])
  obtain r where d: "rndBlob srd = Inr r" "length r = 11" "iv_ok (ivStatus srd)" "iv_ok (ivKey srd)"
    "iv_ok (ivTicket srd)" "rndKey srd = Inr srv" "length srv = 8" "rndToken srd = Inr token"
    using sd by (auto simp: draws_ok_def)
  note c = cd [unfolded client_draws_def] and m = msg [unfolded client_messages_def]
  obtain q1 where q1: "carries ?rc ?rs (oaepHandshake rd) hs q1"
    using carries_oaep [OF agree] c m by blast
  obtain q2 where q2: "carries ?cw ?cw (ivStatusQuery rd) sq q2" using carries_cwc [OF b] c m by blast
  obtain q3 where q3: "carries ?cw ?cw (ivHalf rd) half q3" using carries_cwc [OF b, of _ half] c by fastforce
  obtain q4 where q4: "carries ?cw ?cw (ivTicketQuery rd) ?tk q4"
    using carries_cwc [OF b, of _ ?tk] c d m by fastforce
  obtain r2 where r2: "carries ?cw ?cw (ivStatus srd) sr r2" using carries_cwc [OF b] d resp by blast
  obtain r3 where r3: "carries ?cw ?cw (ivKey srd) (half @ srv) r3"
    using carries_cwc [OF b, of _ "half @ srv"] d c by fastforce
  have "length info = 56" by (rule length_gameServerInfo [OF info])
  then obtain r4 where r4: "carries ?cw ?cw (ivTicket srd) info r4"
    using carries_cwc [OF b, of _ info] d by fastforce
  let ?blob = "r @ replicate 16 0"
  have r1: "carries None None (Inl '''') ?blob ?blob" using d by (simp add: carries_plain)
  let ?qs = "[msgFrame 1 RequestHandshake 1 hs q1, msgFrame 2 GetServiceStatus 2 sq q2,
    msgFrame 3 KeyMaterial 3 half q3, msgFrame 4 PSNTicket 4 ?tk q4]"
  let ?ans = "[msgFrame 1 Reply 1 ?blob ?blob, msgFrame 2 Reply 2 sr r2,
    msgFrame 3 Reply 3 (half @ srv) r3, msgFrame 4 Reply 4 info r4]"
  have lib: "pbRequestHandshake l hs = Inr key" "pbGetServiceStatus l sq = Inr (PSNID c, AppVersion c)"
    "cliAES cl = libAES l"
    using agree m by (auto simp: libs_agree_def)
  have client: "client_auth cl c rd (wire (concat ?ans)) =
      (parseGameServerInfo info (half @ srv), link ?cw ?cw [] ?qs 4)"
    using c m d ctx lib
    by (simp add: client_auth_def clientHandshake_link [OF q1 r1] clientStatus_def exchange_link [OF q2 r2]
        clientKey_def exchange_link [OF q3 r3] clientTicket_def exchange_link [OF q4 r4, simplified, where rest = "[]", simplified])
  have server: "auth_handle l cfg srd t peer (wire (concat ?qs)) reg =
      (Inr (), link ?cw ?cw [] ?ans 4, Add t reg token (half @ srv))"
    using c m d ctx lib resp
    by (simp add: auth_handle_def doHandshake_link [OF q1 r1] doServiceStatus_link [OF q2 r2]
        doKeyMaterial_link [OF q3 r3] doPSNTicket_link [OF q4 r4 _ _ info, where rest = "[]", simplified])
  show ?thesis
    by (rule exI [of _ "link ?cw ?cw [] ?qs 4"], rule exI [of _ "link ?cw ?cw [] ?ans 4"])
      (simp only: link_simps client server simp_thms)
qed

lemma parseGameServerInfo_info:
  assumes "length token = 8" "encodeGameServerInfo p6 token ip port = Inr info" "parseV4 p6 ip = Inr oct"
  shows "parseGameServerInfo info key =
    Inr \<lparr>AuthToken = token, GameKey = key, GameServerIP = addrString oct, resPort = unat port\<rparr>"
proof -
  obtain a b c d where "oct = (a, b, c, d)" "length info = 56" "take 8 info = token"
    "slice 8 12 info = [a, b, c, d]" "get_be16 (slice 12 14 info) = port"
    using gameServerInfo_layout [OF assms(1,2)] assms(3) by (auto simp: gameServerInfoSize_def)
  then show ?thesis by (simp add: parseGameServerInfo_def Let_def)
qed

lemma parseServerInfo_reply:
  assumes "protowire_ok w" "encodeServerInfoPS3 w p6 ip port = Inr b" "parseV4 p6 ip = Inr oct"
  shows "parseServerInfoPS3 w b = Inr (oct, port)"
proof -
  obtain p q r s where "oct = (p, q, r, s)" and d: "decodeServerInfoPS3 w b = Inr (V4 p q r s, port)"
    using serverInfo_roundtrip [OF assms(1,2)] assms(3) by auto
  then show ?thesis
    by (auto simp: parseServerInfoPS3_def decodeServerInfoPS3_def bind_err_Inr_iff split: if_splits)
qed

lemma login_empty:
  "login_loop l cfg peer (link e d [] out n) = (StreamFailed ReadFailed, link e d [] out n)"
  by (subst login_loop.simps)
    (simp add: login_step_def recv_want_def RecvMessage_def ReadPacket_def readFull_def link_def)

lemma login_joined:
  assumes agree: "libs_agree l cl" and cd: "client_draws rd key half" and msg: "client_messages cl c key lq hs sq"
    and rsa: "rsa_key (keyN l) (pubE c) (keyD l)" "pubN c = keyN l" "bitLen (keyN l) = 8 * k" "3 \<le> k" "k < 65000"
    and ps3: "cfgPlatform cfg = PlatformPS3" and oct: "parseV4 (libIPv6 l) (serverAddress cfg peer) = Inr oct"
    and reply: "loginReply l cfg peer = Inr body" "length body + 2 \<le> k"
  shows "\<exists>cs ss. client_login cl c rd (wire (written ss)) =
      (Inr (joinHostPort (addrString oct) (decimal (unat (word_of_int (AuthPort cfg) :: u16)))), cs) \<and>
    login_handle l cfg peer (wire (written cs)) = (StreamFailed ReadFailed, ss)"
proof -
  let ?rc = "Some (NewRSAClient cl c)" and ?rs = "Some (NewRSAServer l)"
  note m = msg [unfolded client_messages_def]
  obtain q where q: "carries ?rc ?rs (oaepLogin rd) lq q"
    using carries_oaep [OF agree] cd m unfolding client_draws_def by blast
  obtain a where a: "carries ?rs ?rc (Inl '''') body a"
    using carries_x931 [OF rsa reply(2)] by blast
  have lib: "pbQueryLoginServerInfo l lq = Inr ()" "cliWire cl = libWire l" "protowire_ok (libWire l)"
    using agree m by (auto simp: libs_agree_def)
  have "encodeServerInfoPS3 (libWire l) (libIPv6 l) (serverAddress cfg peer) (word_of_int (AuthPort cfg)) = Inr body"
    using reply(1) ps3 by (simp add: loginReply_def split: sum.splits)
  then have info: "parseServerInfoPS3 (libWire l) body = Inr (oct, word_of_int (AuthPort cfg))"
    by (rule parseServerInfo_reply [OF lib(3) _ oct])
  let ?q = "msgFrame 1 RequestQueryLoginServerInfo 1 lq q" and ?a = "msgFrame 1 Reply 1 body a"
  have client: "client_login cl c rd (wire (concat [?a])) =
      (Inr (joinHostPort (addrString oct) (decimal (unat (word_of_int (AuthPort cfg) :: u16)))), link ?rc ?rc [] [?q] 1)"
    using m lib info by (simp add: client_login_def Let_def exchange_link [OF q a, where rest = "[]", simplified])
  have server: "login_handle l cfg peer (wire (concat [?q])) = (StreamFailed ReadFailed, link ?rs ?rs [] [?a] 1)"
    using lib reply(1)
    by (simp add: login_handle_def Let_def login_loop.simps [of _ _ _ "link ?rs ?rs ?q [] 0"] login_step_def
        recv_want_link [OF q, where rest = "[]", simplified] reply_to_link [OF a] login_empty)
  show ?thesis
    by (rule exI [of _ "link ?rc ?rc [] [?q] 1"], rule exI [of _ "link ?rs ?rs [] [?a] 1"])
      (simp only: link_simps client server simp_thms)
qed

text \<open>
  The two sides can log in: the libraries agree, the draws succeed, the client holds the public half of the
  server's RSA key of whole bytes, the messages fit their ciphers, the server advertises an IPv4 address
  and accepts the client's version.
\<close>

definition login_ready ::
  "AuthLibs \<Rightarrow> ClientLibs \<Rightarrow> ClientConfig \<Rightarrow> Config \<Rightarrow> Addr option \<Rightarrow> ClientRand \<Rightarrow> AuthRand \<Rightarrow>
     bytes \<Rightarrow> bytes \<Rightarrow> bytes \<Rightarrow> byte \<times> byte \<times> byte \<times> byte \<Rightarrow> bool" where
  "login_ready l cl c cfg peer rd srd half srv token oct \<longleftrightarrow>
     libs_agree l cl \<and> (\<forall>key. length key = 16 \<longrightarrow> aes_block_size (libAES l key)) \<and> draws_ok srd srv token \<and>
     (\<exists>key lq hs sq. client_draws rd key half \<and> client_messages cl c key lq hs sq) \<and>
     rsa_key (keyN l) (pubE c) (keyD l) \<and> pubN c = keyN l \<and>
     cfgPlatform cfg = PlatformPS3 \<and> parseV4 (libIPv6 l) (serverAddress cfg peer) = Inr oct \<and>
     (\<exists>k body. bitLen (keyN l) = 8 * k \<and> 3 \<le> k \<and> k < 65000 \<and> loginReply l cfg peer = Inr body \<and>
        length body + 2 \<le> k) \<and>
     versionAccepted cfg (AppVersion c) \<and>
     (\<exists>sr. pbGetServiceStatusResponse l (AppVersion c) = Inr sr \<and> sr \<noteq> [] \<and> length sr < 64000)"

text \<open>Both connections run to their end on each other's bytes, and the client knows what the server registered.\<close>

definition login_run ::
  "AuthLibs \<Rightarrow> ClientLibs \<Rightarrow> ClientConfig \<Rightarrow> Config \<Rightarrow> Addr option \<Rightarrow> ClientRand \<Rightarrow> AuthRand \<Rightarrow> time \<Rightarrow>
     Registry \<Rightarrow> AuthResult \<Rightarrow> Registry \<Rightarrow> bool" where
  "login_run l cl c cfg peer rd srd t reg res reg' \<longleftrightarrow>
     (\<exists>addr cs1 ss1 cs2 ss2.
        client_login cl c rd (wire (written ss1)) = (Inr addr, cs1) \<and>
        login_handle l cfg peer (wire (written cs1)) = (StreamFailed ReadFailed, ss1) \<and>
        client_auth cl c rd (wire (written ss2)) = (Inr res, cs2) \<and>
        auth_handle l cfg srd t peer (wire (written cs2)) reg = (Inr (), ss2, reg') \<and>
        (\<forall>dial. dial (LoginAddr c) = Inr (wire (written ss1)) \<and> dial addr = Inr (wire (written ss2)) \<longrightarrow>
           RunLoginAuth cl dial c rd = Inr res))"

lemma login_completes:
  assumes "login_ready l cl c cfg peer rd srd half srv token oct"
  shows "login_run l cl c cfg peer rd srd t reg
    \<lparr>AuthToken = token, GameKey = half @ srv, GameServerIP = addrString oct,
     resPort = unat (word_of_int (GamePort cfg) :: u16)\<rparr> (Add t reg token (half @ srv))"
proof -
  obtain key lq hs sq k body sr where r: "libs_agree l cl" "aes_block_size (libAES l key)" "draws_ok srd srv token"
    "client_draws rd key half" "client_messages cl c key lq hs sq"
    "rsa_key (keyN l) (pubE c) (keyD l)" "pubN c = keyN l" "bitLen (keyN l) = 8 * k" "3 \<le> k" "k < 65000"
    "cfgPlatform cfg = PlatformPS3" "parseV4 (libIPv6 l) (serverAddress cfg peer) = Inr oct"
    "loginReply l cfg peer = Inr body" "length body + 2 \<le> k" "versionAccepted cfg (AppVersion c)"
    "pbGetServiceStatusResponse l (AppVersion c) = Inr sr" "sr \<noteq> []" "length sr < 64000"
    using assms unfolding login_ready_def client_draws_def by blast
  obtain ctx where ctx: "NewContext (libAES l) key = Inr ctx"
    using r(4) by (auto simp: client_draws_def NewContext_def Let_def)
  have len: "length token = 8" using r(3) by (simp add: draws_ok_def)
  obtain info where info: "encodeGameServerInfo (libIPv6 l) token (serverAddress cfg peer) (word_of_int (GamePort cfg)) = Inr info"
    using r(12) by (cases oct) (simp add: encodeGameServerInfo_def)
  note res = parseGameServerInfo_info [OF len info r(12)]
  show ?thesis
    using login_joined [OF r(1,4-14)] auth_joined [OF r(1,4,3) ctx r(2,5,15-18) info, of t reg]
    unfolding login_run_def res by (fastforce simp: RunLoginAuth_def)
qed

lemma NewContext_16: "length key = 16 \<Longrightarrow> \<exists>ctx. NewContext aes key = Inr ctx"
  by (simp add: NewContext_def Let_def)

subsection \<open>A login that runs\<close>

text \<open>
  A key of 96 bits, the product of nineteen primes whose predecessors divide 5040, with both exponents 71;
  an OAEP that puts a byte in front; requests that carry their fields in unary.
\<close>

definition demo_primes :: "nat list" where
  "demo_primes = [3, 5, 7, 11, 13, 17, 19, 29, 31, 37, 41, 43, 61, 71, 73, 113, 127, 181, 211]"

definition demo_modulus :: nat where "demo_modulus = 49282851194872070313914691315"

lemma demo_primes_prime: "\<forall>p\<in>set demo_primes. prime_nat p \<and> odd p \<and> p - 1 dvd 71 * 71 - 1"
  unfolding demo_primes_def
  by (simp add: prime_check [of 3 2] prime_check [of 5 3] prime_check [of 7 3] prime_check [of 11 4]
      prime_check [of 13 4] prime_check [of _ 15] upt_rec)

lemma demo_rsa_key: "rsa_key demo_modulus 71 71"
proof -
  have "prod_list demo_primes = demo_modulus" "distinct demo_primes" "demo_primes \<noteq> []"
    by (simp_all add: demo_primes_def demo_modulus_def)
  with rsa_key_primes [OF _ demo_primes_prime] show ?thesis by simp
qed

lemma demo_bitLen: "bitLen demo_modulus = 8 * 12"
  by (simp add: demo_modulus_def bitLen.simps)

definition demo_server_libs :: AuthLibs where
  "demo_server_libs = demo_libs\<lparr>libOAEP := (\<lambda>ct. Inr (tl ct)), keyN := demo_modulus, keyD := 71,
     pbGetServiceStatus := (\<lambda>b. let (n, r) = unUnary b; (v, _) = unUnary (drop n r)
        in Inr (map (\<lambda>x. char_of (unat x)) (take n r), of_nat v))\<rparr>"

definition demo_client_libs :: ClientLibs where
  "demo_client_libs =
     \<lparr>cliAES = demo_aes, cliOAEP = (\<lambda>_ p. Inr (0 # p)), cliWire = demo_wire,
      pbLoginQuery = (\<lambda>_ _. Inr [1]), pbHandshake = Inr,
      pbStatusQuery = (\<lambda>psn v. Inr (unary (length psn) @ map (\<lambda>c. of_nat (of_char c)) psn @ unary (unat v)))\<rparr>"

definition demo_emulator :: ClientConfig where
  "demo_emulator =
     \<lparr>LoginAddr = ''login'', pubN = demo_modulus, pubE = 71, PSNID = ''psn'', AppVersion = 5, Ticket = [1, 2, 3]\<rparr>"

definition demo_client_rand :: ClientRand where
  "demo_client_rand =
     \<lparr>oaepLogin = Inr [], rndCwcKey = Inr demo_key, oaepHandshake = Inr [], ivStatusQuery = Inr (replicate 11 1),
      rndHalf = Inr (replicate 8 9), ivHalf = Inr (replicate 11 2), ivTicketQuery = Inr (replicate 11 3)\<rparr>"

lemma demo_agree: "libs_agree demo_server_libs demo_client_libs"
  using demo_wire_ok unUnary_unary [where rest = "[]"]
  by (auto simp: libs_agree_def demo_server_libs_def demo_client_libs_def demo_libs_def comp_def)

lemma demo_octets:
  "parseV4 (libIPv6 demo_server_libs) (serverAddress demo_config None) = Inr (192, 168, 1, 100)"
proof -
  have "ParseAddr (\<lambda>_. None) ''192.168.1.100'' = Some (V4 192 168 1 100)" by code_simp
  then show ?thesis
    by (simp add: demo_server_libs_def demo_libs_def demo_config_def serverAddress_def parseV4_def)
qed

lemma demo_loginReply:
  "\<exists>body. loginReply demo_server_libs demo_config None = Inr body \<and> length body + 2 \<le> 12"
  using demo_octets
  by (simp add: loginReply_def encodeServerInfoPS3_def demo_server_libs_def demo_libs_def demo_config_def
      demo_wire_def VarintType_def leb128.simps Let_def)

lemma demo_login_ready:
  "login_ready demo_server_libs demo_client_libs demo_emulator demo_config None demo_client_rand demo_rand
     (replicate 8 9) (replicate 8 3) (replicate 8 5) (192, 168, 1, 100)"
proof -
  have draws: "client_draws demo_client_rand demo_key (replicate 8 9)"
    by (simp add: client_draws_def demo_client_rand_def iv_ok_def demo_key_def)
  have msgs: "client_messages demo_client_libs demo_emulator demo_key [1] demo_key
      (unary 3 @ map (\<lambda>c. of_nat (of_char c)) ''psn'' @ unary 5)"
    by (simp add: client_messages_def demo_client_libs_def demo_emulator_def demo_key_def unary_def numeral_3_eq_3)
  have "\<exists>k body. bitLen (keyN demo_server_libs) = 8 * k \<and> 3 \<le> k \<and> k < 65000 \<and>
      loginReply demo_server_libs demo_config None = Inr body \<and> length body + 2 \<le> k"
    using demo_loginReply demo_bitLen by (intro exI [of _ 12]) (auto simp: demo_server_libs_def)
  moreover have "\<forall>key. length key = 16 \<longrightarrow> aes_block_size (libAES demo_server_libs key)"
    by (simp add: demo_server_libs_def demo_libs_def aes_block_size_def demo_aes_def)
  moreover have "rsa_key (keyN demo_server_libs) (pubE demo_emulator) (keyD demo_server_libs)" "pubN demo_emulator = keyN demo_server_libs"
    "cfgPlatform demo_config = PlatformPS3" "versionAccepted demo_config (AppVersion demo_emulator)"
    "pbGetServiceStatusResponse demo_server_libs (AppVersion demo_emulator) = Inr [2]"
    using demo_rsa_key
    by (simp_all add: demo_server_libs_def demo_libs_def demo_emulator_def demo_config_def versionAccepted_def)
  moreover have "[2] \<noteq> ([] :: bytes)" "length [2 :: byte] < 64000" by simp_all
  ultimately show ?thesis
    unfolding login_ready_def using demo_agree demo_draws draws msgs demo_octets by blast
qed

end
