(* ===== verification/Config_Load.thy ===== *)
theory Config_Load
  imports Auth_Service Game_State
begin

section \<open>Loading the configuration\<close>

text \<open>
  internal/config: envfile.go, which puts the assignments of a file into the environment, and config.go,
  which overlays the defaults with the environment and validates the result. The environment is a map, the
  file system an argument. \<open>Settings\<close> is the Go struct \<open>Config\<close>, with the fields the auth services and the game
  service read as the records those services have.
\<close>

type_synonym environ = "string \<rightharpoonup> string"

datatype config_error =
    OpenFailed string
  | ReadFailed string
  | ExpectedKeyValue nat
  | EmptyKey nat
  | SetFailed nat string
  | UnknownGame string
  | InvalidAdvertise string
  | InvalidAdvertisePrivate string
  | PortOutOfRange string int
  | UnknownAuthMode string


subsection \<open>The environment file\<close>

datatype opened = NotExist | OpenError | Contents string

definition DefaultEnvFile :: string where "DefaultEnvFile = ''dso.env''"

text \<open>\<open>bufio.Scanner\<close> with its default split function and limit.\<close>

definition maxScanToken :: nat where "maxScanToken = 65536"

definition scanLines :: "string \<Rightarrow> string list" where
  "scanLines content =
     (let ps = splitOn (CHR 0x0A) content in if last ps = [] then butlast ps else ps)"

definition dropCR :: "string \<Rightarrow> string" where
  "dropCR l = (if l \<noteq> [] \<and> last l = CHR 0x0D then butlast l else l)"

text \<open>\<open>strings.Cut(text, "=")\<close>.\<close>

definition cut :: "char \<Rightarrow> string \<Rightarrow> (string \<times> string) option" where
  "cut sep l = (if sep \<in> set l then Some (takeWhile (\<lambda>c. c \<noteq> sep) l, tl (dropWhile (\<lambda>c. c \<noteq> sep) l)) else None)"

definition quotedBy :: "char \<Rightarrow> string \<Rightarrow> bool" where
  "quotedBy q v \<longleftrightarrow> 2 \<le> length v \<and> hd v = q \<and> last v = q"

definition stripComment :: "string \<Rightarrow> string" where
  "stripComment v =
     (let blank = (\<lambda>c. c = CHR '' '' \<or> c = CHR 0x09);
          front = takeWhile (\<lambda>c. \<not> blank c) v; rest = dropWhile (\<lambda>c. \<not> blank c) v
      in if CHR ''#'' \<in> set rest \<and> trimSpace (takeWhile (\<lambda>c. c \<noteq> CHR ''#'') rest) = [] then trimSpace front
         else v)"

definition fileValue :: "string \<Rightarrow> string" where
  "fileValue raw =
     (let v = trimSpace raw
      in if quotedBy (CHR 0x22) v \<or> quotedBy (CHR 0x27) v then butlast (tl v) else stripComment v)"

datatype envLine = Blank | NoAssignment | NoKey | Assign string string

definition parseLine :: "string \<Rightarrow> envLine" where
  "parseLine l =
     (let t = trimSpace l
      in if t = [] \<or> hd t = CHR ''#'' then Blank
         else
           case cut (CHR ''='') t of
             None \<Rightarrow> NoAssignment
           | Some (k, v) \<Rightarrow> if trimSpace k = [] then NoKey else Assign (trimSpace k) (fileValue v))"

text \<open>\<open>os.Setenv\<close> refuses a NUL in either part; a key read from a line has no equals sign.\<close>

definition settable :: "string \<Rightarrow> string \<Rightarrow> bool" where
  "settable k v \<longleftrightarrow> CHR 0x00 \<notin> set k \<and> CHR 0x00 \<notin> set v"

fun loadLines :: "string \<Rightarrow> nat \<Rightarrow> string list \<Rightarrow> environ \<Rightarrow> (config_error + unit) \<times> environ" where
  "loadLines path n [] env = (Inr (), env)"
| "loadLines path n (l # ls) env =
     (if maxScanToken \<le> length l then (Inl (ReadFailed path), env)
      else
        case parseLine (dropCR l) of
          Blank \<Rightarrow> loadLines path (Suc n) ls env
        | NoAssignment \<Rightarrow> (Inl (ExpectedKeyValue n), env)
        | NoKey \<Rightarrow> (Inl (EmptyKey n), env)
        | Assign k v \<Rightarrow>
            if env k \<noteq> None then loadLines path (Suc n) ls env
            else if \<not> settable k v then (Inl (SetFailed n k), env)
            else loadLines path (Suc n) ls (env(k \<mapsto> v)))"

definition LoadEnvFile :: "(string \<Rightarrow> opened) \<Rightarrow> string \<Rightarrow> environ \<Rightarrow> (config_error + unit) \<times> environ" where
  "LoadEnvFile fs path env =
     (case fs path of
        NotExist \<Rightarrow> (Inr (), env)
      | OpenError \<Rightarrow> (Inl (OpenFailed path), env)
      | Contents c \<Rightarrow> loadLines path 1 (scanLines c) env)"


subsection \<open>Variables\<close>

definition envStr :: "environ \<Rightarrow> string \<Rightarrow> string \<Rightarrow> string" where
  "envStr env key d = (case env key of Some v \<Rightarrow> v | None \<Rightarrow> d)"

definition envInt :: "environ \<Rightarrow> string \<Rightarrow> int \<Rightarrow> int" where
  "envInt env key d =
     (case env key of
        Some v \<Rightarrow> (case atoi (trimSpace v) of Some n \<Rightarrow> n | None \<Rightarrow> d)
      | None \<Rightarrow> d)"

definition envUint :: "environ \<Rightarrow> string \<Rightarrow> u64 \<Rightarrow> u64" where
  "envUint env key d =
     (case env key of
        Some v \<Rightarrow> (case parseUint 64 (trimSpace v) of Some n \<Rightarrow> of_nat n | None \<Rightarrow> d)
      | None \<Rightarrow> d)"

definition envUintList :: "environ \<Rightarrow> string \<Rightarrow> u64 list \<Rightarrow> u64 list" where
  "envUintList env key d =
     (case env key of
        None \<Rightarrow> d
      | Some raw \<Rightarrow>
          List.map_filter (\<lambda>f. map_option of_nat (parseUint 64 f))
            (filter (\<lambda>f. f \<noteq> []) (map trimSpace (splitOn (CHR '','') raw))))"

definition envBool :: "environ \<Rightarrow> string \<Rightarrow> bool \<Rightarrow> bool" where
  "envBool env key d =
     (case env key of
        Some v \<Rightarrow> (case parseBool (trimSpace v) of Some b \<Rightarrow> b | None \<Rightarrow> d)
      | None \<Rightarrow> d)"

subsection \<open>The settings\<close>

record Settings =
  Game :: string
  serverConfig :: Config
  gameSettings :: GameConfig
  BindAddress :: string
  LoginPort :: int
  DatabasePath :: string
  KeyDir :: string
  AuthModeValue :: string
  AllowInsecureAuth :: bool
  LogLevel :: string
  LogFormat :: string
  DebugRaw :: bool
  BootstrapHTTPEnabled :: bool
  BootstrapHTTPPort :: int
  BootstrapContentsFile :: string
  BootstrapCalibrationDir :: string
  CalibrationVersion :: string
  DNSEnabled :: bool
  DNSPort :: int
  DNSUpstream :: string
  DNSRedirectHosts :: "string list"

definition platformOf :: "string \<Rightarrow> Platform" where
  "platformOf v = (if v = ''PC'' then PlatformPC else if v = ''PS3'' then PlatformPS3 else PlatformOther v)"

definition DefaultServer :: Config where
  "DefaultServer =
     \<lparr>cfgPlatform = PlatformPS3, AdvertiseAddress = ''127.0.0.1'', AdvertisePrivateAddress = '''',
      AuthPort = 50000, GamePort = 50010, EnforceAppVersion = False, AppVersionMin = 0, AppVersionMax = 0\<rparr>"

definition DefaultGame :: GameConfig where
  "DefaultGame =
     \<lparr>RegulationPushFile = '''', RegulationPushPath = '''', RegulationPushVersionRequired = 0,
      RegulationPushVersionNew = 0, RegulationPushVersionSweep = '''', RegulationPushDelaySeconds = 0,
      RegulationPushGapSeconds = 2, ObeliskText = '''', EventChestRotation = [], EventChestPeriod = '''',
      EventChestEpoch = '''', EventChestThresholdBase = 0, EventChestLotParamFile = '''',
      EventChestOnlineEventFile = '''', DebugForceBreakInReject = False, BreakInRejectPushID = 0,
      ManagementText = '''', ManagementTextLanguage = 1, QuickMatchAutoPair = False\<rparr>"

definition Default :: Settings where
  "Default =
     \<lparr>Game = ''DarkSouls2'', serverConfig = DefaultServer, gameSettings = DefaultGame,
      BindAddress = ''0.0.0.0'', LoginPort = 50011, DatabasePath = ''data/dso.db'', KeyDir = ''data/keys'',
      AuthModeValue = ''noop'', AllowInsecureAuth = True, LogLevel = ''info'', LogFormat = ''text'',
      DebugRaw = False, BootstrapHTTPEnabled = False, BootstrapHTTPPort = 80, BootstrapContentsFile = '''',
      BootstrapCalibrationDir = '''', CalibrationVersion = '''', DNSEnabled = False, DNSPort = 53,
      DNSUpstream = ''8.8.8.8:53'',
      DNSRedirectHosts = [''frpg2-ps3-ope.fromsoftware.jp'',
        ''frpg2-ps3-internal.s3-website-us-west-2.amazonaws.com'']\<rparr>"

text \<open>The overlay of \<open>Load\<close>, for the three parts of the settings.\<close>

definition overlayServer :: "environ \<Rightarrow> Config \<Rightarrow> Config" where
  "overlayServer env c =
     \<lparr>cfgPlatform = (case env ''DSO_PLATFORM'' of None \<Rightarrow> cfgPlatform c | Some v \<Rightarrow> platformOf v),
      AdvertiseAddress = envStr env ''DSO_SERVER_ADVERTISE_ADDRESS'' (AdvertiseAddress c),
      AdvertisePrivateAddress = envStr env ''DSO_SERVER_ADVERTISE_PRIVATE_ADDRESS'' (AdvertisePrivateAddress c),
      AuthPort = envInt env ''DSO_SERVER_AUTH_PORT'' (AuthPort c),
      GamePort = envInt env ''DSO_SERVER_GAME_PORT'' (GamePort c),
      EnforceAppVersion = envBool env ''DSO_AUTH_ENFORCE_APP_VERSION'' (EnforceAppVersion c),
      AppVersionMin = envUint env ''DSO_AUTH_APP_VERSION_MIN'' (AppVersionMin c),
      AppVersionMax = envUint env ''DSO_AUTH_APP_VERSION_MAX'' (AppVersionMax c)\<rparr>"

definition overlayGame :: "environ \<Rightarrow> GameConfig \<Rightarrow> GameConfig" where
  "overlayGame env c =
     \<lparr>RegulationPushFile = envStr env ''DSO_REGULATION_PUSH_FILE'' (RegulationPushFile c),
      RegulationPushPath = envStr env ''DSO_REGULATION_PUSH_PATH'' (RegulationPushPath c),
      RegulationPushVersionRequired = envUint env ''DSO_REGULATION_PUSH_VERSION_REQUIRED'' (RegulationPushVersionRequired c),
      RegulationPushVersionNew = envUint env ''DSO_REGULATION_PUSH_VERSION_NEW'' (RegulationPushVersionNew c),
      RegulationPushVersionSweep = envStr env ''DSO_REGULATION_PUSH_VERSION_SWEEP'' (RegulationPushVersionSweep c),
      RegulationPushDelaySeconds = envUint env ''DSO_REGULATION_PUSH_DELAY_SECONDS'' (RegulationPushDelaySeconds c),
      RegulationPushGapSeconds = envUint env ''DSO_REGULATION_PUSH_GAP_SECONDS'' (RegulationPushGapSeconds c),
      ObeliskText = envStr env ''DSO_OBELISK_TEXT'' (ObeliskText c),
      EventChestRotation = envUintList env ''DSO_EVENT_CHEST_ROTATION'' (EventChestRotation c),
      EventChestPeriod = envStr env ''DSO_EVENT_CHEST_PERIOD'' (EventChestPeriod c),
      EventChestEpoch = envStr env ''DSO_EVENT_CHEST_EPOCH'' (EventChestEpoch c),
      EventChestThresholdBase = envUint env ''DSO_EVENT_CHEST_THRESHOLD_BASE'' (EventChestThresholdBase c),
      EventChestLotParamFile = envStr env ''DSO_EVENT_CHEST_LOT_PARAM_FILE'' (EventChestLotParamFile c),
      EventChestOnlineEventFile = envStr env ''DSO_EVENT_CHEST_ONLINE_EVENT_FILE'' (EventChestOnlineEventFile c),
      DebugForceBreakInReject = envBool env ''DSO_DEBUG_FORCE_BREAKIN_REJECT'' (DebugForceBreakInReject c),
      BreakInRejectPushID = envUint env ''DSO_BREAKIN_REJECT_PUSH_ID'' (BreakInRejectPushID c),
      ManagementText = envStr env ''DSO_MANAGEMENT_TEXT'' (ManagementText c),
      ManagementTextLanguage = envUint env ''DSO_MANAGEMENT_TEXT_LANGUAGE'' (ManagementTextLanguage c),
      QuickMatchAutoPair = envBool env ''DSO_QUICKMATCH_AUTOPAIR'' (QuickMatchAutoPair c)\<rparr>"

definition overlay :: "environ \<Rightarrow> Settings \<Rightarrow> Settings" where
  "overlay env c =
     \<lparr>Game = envStr env ''DSO_GAME'' (Game c),
      serverConfig = overlayServer env (serverConfig c), gameSettings = overlayGame env (gameSettings c),
      BindAddress = envStr env ''DSO_SERVER_BIND_ADDRESS'' (BindAddress c),
      LoginPort = envInt env ''DSO_SERVER_LOGIN_PORT'' (LoginPort c),
      DatabasePath = envStr env ''DSO_DATABASE_PATH'' (DatabasePath c),
      KeyDir = envStr env ''DSO_CRYPTO_KEY_DIR'' (KeyDir c),
      AuthModeValue = envStr env ''DSO_AUTH_MODE'' (AuthModeValue c),
      AllowInsecureAuth = envBool env ''DSO_ALLOW_INSECURE_AUTH'' (AllowInsecureAuth c),
      LogLevel = envStr env ''DSO_LOGGING_LEVEL'' (LogLevel c),
      LogFormat = envStr env ''DSO_LOGGING_FORMAT'' (LogFormat c),
      DebugRaw = envBool env ''DSO_DEBUG_RAW'' (DebugRaw c),
      BootstrapHTTPEnabled = envBool env ''DSO_BOOTSTRAP_HTTP'' (BootstrapHTTPEnabled c),
      BootstrapHTTPPort = envInt env ''DSO_BOOTSTRAP_HTTP_PORT'' (BootstrapHTTPPort c),
      BootstrapContentsFile = envStr env ''DSO_BOOTSTRAP_CONTENTS_FILE'' (BootstrapContentsFile c),
      BootstrapCalibrationDir = envStr env ''DSO_BOOTSTRAP_CALIBRATION_DIR'' (BootstrapCalibrationDir c),
      CalibrationVersion = envStr env ''DSO_CALIBRATION_VERSION'' (CalibrationVersion c),
      DNSEnabled = envBool env ''DSO_DNS'' (DNSEnabled c),
      DNSPort = envInt env ''DSO_DNS_PORT'' (DNSPort c),
      DNSUpstream = envStr env ''DSO_DNS_UPSTREAM'' (DNSUpstream c),
      DNSRedirectHosts = DNSRedirectHosts c\<rparr>"

text \<open>The ports are checked in the order \<open>ord\<close> of a loop over a map.\<close>

definition portOf :: "Settings \<Rightarrow> string \<rightharpoonup> int" where
  "portOf c = [''login'' \<mapsto> LoginPort c, ''auth'' \<mapsto> AuthPort (serverConfig c), ''game'' \<mapsto> GamePort (serverConfig c)]"

fun checkPorts :: "(string \<rightharpoonup> int) \<Rightarrow> string list \<Rightarrow> config_error + unit" where
  "checkPorts ports [] = Inr ()"
| "checkPorts ports (name # ord) =
     (case ports name of
        None \<Rightarrow> checkPorts ports ord
      | Some port \<Rightarrow> if port \<le> 0 \<or> 65535 < port then Inl (PortOutOfRange name port) else checkPorts ports ord)"

definition Validate :: "v6_parser \<Rightarrow> string list \<Rightarrow> Settings \<Rightarrow> config_error + unit" where
  "Validate v6 ord c =
     (let adv = AdvertiseAddress (serverConfig c); priv = AdvertisePrivateAddress (serverConfig c)
      in if Game c \<noteq> ''DarkSouls2'' \<and> Game c \<noteq> ''DarkSouls3'' then Inl (UnknownGame (Game c))
         else if ParseAddr v6 adv = None then Inl (InvalidAdvertise adv)
         else if priv \<noteq> [] \<and> ParseAddr v6 priv = None then Inl (InvalidAdvertisePrivate priv)
         else
           bind_err (checkPorts (portOf c) ord) (\<lambda>_.
             if AuthModeValue c \<notin> {''noop'', ''psn'', ''steam''} then Inl (UnknownAuthMode (AuthModeValue c))
             else Inr ()))"

definition Load ::
  "(string \<Rightarrow> opened) \<Rightarrow> v6_parser \<Rightarrow> string list \<Rightarrow> environ \<Rightarrow> (config_error + Settings) \<times> environ" where
  "Load fs v6 ord env =
     (case LoadEnvFile fs (envStr env ''DSO_ENV_FILE'' DefaultEnvFile) env of
        (Inl err, env1) \<Rightarrow> (Inl err, env1)
      | (Inr _, env1) \<Rightarrow>
          let c = overlay env1 Default
          in (bind_err (Validate v6 ord c) (\<lambda>_. Inr c), env1))"

definition PrivateKeyPath :: "Settings \<Rightarrow> string" where
  "PrivateKeyPath c = KeyDir c @ ''/server.private.pem''"

definition PublicKeyPath :: "Settings \<Rightarrow> string" where
  "PublicKeyPath c = KeyDir c @ ''/server.public.pem''"

subsection \<open>The real environment wins, then the first line\<close>

definition lineAssigns :: "string list \<Rightarrow> (string \<times> string) list" where
  "lineAssigns ls = List.map_filter (\<lambda>l. case parseLine (dropCR l) of Assign k v \<Rightarrow> Some (k, v) | _ \<Rightarrow> None) ls"

lemma lineAssigns_simps [simp]:
  "lineAssigns [] = []"
  "lineAssigns (l # ls) =
     (case parseLine (dropCR l) of Assign k v \<Rightarrow> (k, v) # lineAssigns ls | _ \<Rightarrow> lineAssigns ls)"
  by (simp_all add: lineAssigns_def List.map_filter_simps split: envLine.split)

lemma loadLines_env:
  "loadLines path n ls env = (Inr (), env') \<Longrightarrow> env' = map_of (lineAssigns ls) ++ env"
proof (induction ls arbitrary: n env)
  case Nil
  then show ?case by simp
next
  case (Cons l ls)
  show ?case
  proof (cases "parseLine (dropCR l)")
    case (Assign k v)
    show ?thesis
    proof (cases "env k = None")
      case True
      then have "loadLines path (Suc n) ls (env(k \<mapsto> v)) = (Inr (), env')"
        using Assign Cons.prems by (simp split: if_splits)
      from Cons.IH [OF this] True Assign show ?thesis by (auto simp: map_add_def fun_eq_iff split: option.split)
    next
      case False
      then have "loadLines path (Suc n) ls env = (Inr (), env')"
        using Assign Cons.prems by (simp split: if_splits)
      from Cons.IH [OF this] False Assign show ?thesis by (auto simp: map_add_def fun_eq_iff split: option.split)
    qed
  qed (use Cons in \<open>auto split: if_splits\<close>)
qed

text \<open>
  C29: the environment file only supplies defaults. If a file is read without an error, a variable has
  afterwards the value of the real environment if that sets it, and otherwise the value of the first line
  of the file that assigns it; nothing else changes.
\<close>

theorem env_file_precedence:
  assumes "fs path = Contents c" "LoadEnvFile fs path env = (Inr (), env')"
  shows "env' key = (case env key of Some v \<Rightarrow> Some v | None \<Rightarrow> map_of (lineAssigns (scanLines c)) key)"
proof -
  have "env' = map_of (lineAssigns (scanLines c)) ++ env"
    using assms loadLines_env by (simp add: LoadEnvFile_def)
  then show ?thesis by (simp add: map_add_def)
qed

definition demo_file :: string where
  "demo_file = ''A=1 # one'' @ [CHR 0x0A] @ ''# note'' @ [CHR 0x0A] @ ''A=2'' @ [CHR 0x0D, CHR 0x0A] @
     ''B='' @ [CHR 0x22] @ '' x # y'' @ [CHR 0x22]"

lemma demo_lines: "scanLines demo_file = [''A=1 # one'', ''# note'', ''A=2'' @ [CHR 0x0D], ''B='' @ [CHR 0x22] @ '' x # y'' @ [CHR 0x22]]"
  by (simp add: scanLines_def demo_file_def)

lemma demo_parsed:
  "parseLine (dropCR ''A=1 # one'') = Assign ''A'' ''1''" "parseLine (dropCR ''# note'') = Blank"
  "parseLine (dropCR (''A=2'' @ [CHR 0x0D])) = Assign ''A'' ''2''"
  "parseLine (dropCR (''B='' @ [CHR 0x22] @ '' x # y'' @ [CHR 0x22])) = Assign ''B'' '' x # y''"
  by code_simp+

lemma demo_assigns: "lineAssigns (scanLines demo_file) = [(''A'', ''1''), (''A'', ''2''), (''B'', '' x # y'')]"
  unfolding demo_lines lineAssigns_simps demo_parsed by simp

lemma demo_load: "fst (LoadEnvFile (\<lambda>_. Contents demo_file) ''f'' [''B'' \<mapsto> ''real'']) = Inr ()"
proof -
  have "settable ''A'' ''1''" by (simp add: settable_def)
  then show ?thesis
    unfolding LoadEnvFile_def opened.case demo_lines loadLines.simps demo_parsed by (simp add: maxScanToken_def)
qed

theorem env_file_precedence_witness:
  "let env' = snd (LoadEnvFile (\<lambda>_. Contents demo_file) ''f'' [''B'' \<mapsto> ''real''])
   in env' ''A'' = Some ''1'' \<and> env' ''B'' = Some ''real'' \<and> env' ''C'' = None"
proof -
  let ?fs = "\<lambda>_ :: string. Contents demo_file" and ?env = "[''B'' \<mapsto> ''real''] :: environ"
  have eq: "LoadEnvFile ?fs ''f'' ?env = (Inr (), snd (LoadEnvFile ?fs ''f'' ?env))"
    using demo_load by (metis prod.collapse)
  note p = env_file_precedence [where fs = ?fs, OF refl eq]
  show ?thesis
    using p [of "''A''"] p [of "''B''"] p [of "''C''"] by (simp add: demo_assigns Let_def)
qed


subsection \<open>What validation promises\<close>


lemma checks_passed:
  fixes r :: "'e + unit"
  shows "(if A then Inl x else if B then Inl y else if C then Inl z
      else bind_err r (\<lambda>_. if D then Inl u else Inr ())) = Inr () \<longleftrightarrow> \<not> A \<and> \<not> B \<and> \<not> C \<and> r = Inr () \<and> \<not> D"
  by (cases r) simp_all

lemma Validate_checks:
  "Validate v6 ord c = Inr () \<longleftrightarrow>
    (Game c = ''DarkSouls2'' \<or> Game c = ''DarkSouls3'') \<and>
    ParseAddr v6 (AdvertiseAddress (serverConfig c)) \<noteq> None \<and>
    (AdvertisePrivateAddress (serverConfig c) \<noteq> [] \<longrightarrow>
       ParseAddr v6 (AdvertisePrivateAddress (serverConfig c)) \<noteq> None) \<and>
    checkPorts (portOf c) ord = Inr () \<and> AuthModeValue c \<in> {''noop'', ''psn'', ''steam''}"
  unfolding Validate_def Let_def checks_passed by (simp only: de_Morgan_conj not_not imp_conv_disj)








text \<open>
  Nothing keeps an accepted address from being an IPv6 address, and then the server is unreachable, which
  the comment on validation promises to prevent: with no private address configured the last stage of the
  auth handshake fails for every client, and no token is ever registered.
\<close>

lemma ipv6_advertised_unreachable:
  assumes "ParseAddr (libIPv6 l) addr = Some a" "Unmap a = V6 bs zone"
  defines "c \<equiv> Default\<lparr>serverConfig := DefaultServer\<lparr>AdvertiseAddress := addr\<rparr>\<rparr>"
  shows "Validate (libIPv6 l) [''game'', ''login'', ''auth''] c = Inr () \<and>
    (\<exists>err s'. doPSNTicket l (serverConfig c) rd t peer s reg psn gameKey = (Inl err, s', reg))"
proof
  let ?cfg = "serverConfig c"
  have cfg: "AdvertiseAddress ?cfg = addr" "AdvertisePrivateAddress ?cfg = []"
    by (simp_all add: c_def DefaultServer_def)
  show "Validate (libIPv6 l) [''game'', ''login'', ''auth''] c = Inr ()"
    unfolding Validate_checks cfg using assms(1)
    by (simp add: c_def Default_def DefaultServer_def portOf_def)
  have "serverAddress ?cfg peer = addr"
    using cfg by (simp add: serverAddress_def AdvertisedAddressFor_def split: option.split)
  then have "encodeGameServerInfo (libIPv6 l) tok (serverAddress ?cfg peer) port = Inl (NotIPv4 addr)"
    for tok port
    using assms(1,2) by (simp add: encodeGameServerInfo_def parseV4_def)
  then show "\<exists>err s'. doPSNTicket l ?cfg rd t peer s reg psn gameKey = (Inl err, s', reg)"
    by (auto simp: doPSNTicket_def split: prod.split sum.split)
qed

end
