(* ===== verification/Server_Run.thy ===== *)
theory Server_Run
  imports Config_Load Rsa_Keys
begin

section \<open>Starting, running and stopping the server\<close>

text \<open>
  cmd/dsoserver/main.go, internal/server/core/core.go, the \<open>Serve\<close> methods of the login, auth and game services, and
  the level of internal/logging. The goroutines of \<open>Run\<close> are a step relation: one state per goroutine, the
  error channel as a queue, the cancellation of the context as a flag. What a service does between its start and
  its return is left open.
\<close>

subsection \<open>What a listening service returns\<close>

text \<open>
  The accept loops: a connection is handled and the loop goes on; an error ends it, without a
  complaint if the context is cancelled. The result has the connections handled, and what \<open>Serve\<close> returned, if it
  has.
\<close>

datatype 'c io_event = Arrived 'c | IoFailed string bool

fun acceptLoop :: "string \<Rightarrow> 'c io_event list \<Rightarrow> 'c list \<times> string option option" where
  "acceptLoop what [] = ([], None)"
| "acceptLoop what (Arrived c # es) = (let (cs, r) = acceptLoop what es in (c # cs, r))"
| "acceptLoop what (IoFailed err cancelled # es) =
     ([], Some (if cancelled then None else Some (what @ '': '' @ err)))"

definition hostPort :: "string \<Rightarrow> int \<Rightarrow> string" where
  "hostPort host port = host @ '':'' @ (if port < 0 then ''-'' @ decimal (nat (- port)) else decimal (nat port))"

definition login_Serve :: "Settings \<Rightarrow> (string \<Rightarrow> string option) \<Rightarrow> 'c io_event list \<Rightarrow> 'c list \<times> string option option" where
  "login_Serve cfg listen es =
     (let addr = hostPort (BindAddress cfg) (LoginPort cfg)
      in case listen addr of
           Some err \<Rightarrow> ([], Some (Some (''listen '' @ addr @ '': '' @ err)))
         | None \<Rightarrow> acceptLoop ''accept'' es)"

definition auth_Serve :: "Settings \<Rightarrow> (string \<Rightarrow> string option) \<Rightarrow> 'c io_event list \<Rightarrow> 'c list \<times> string option option" where
  "auth_Serve cfg listen es =
     (let addr = hostPort (BindAddress cfg) (AuthPort (serverConfig cfg))
      in case listen addr of
           Some err \<Rightarrow> ([], Some (Some (''listen '' @ addr @ '': '' @ err)))
         | None \<Rightarrow> acceptLoop ''accept'' es)"

definition game_Serve :: "Settings \<Rightarrow> (string \<Rightarrow> string option) \<Rightarrow> 'c io_event list \<Rightarrow> 'c list \<times> string option option" where
  "game_Serve cfg listen es =
     (let addr = hostPort (BindAddress cfg) (GamePort (serverConfig cfg))
      in case listen addr of
           Some err \<Rightarrow> ([], Some (Some (''listen udp '' @ addr @ '': '' @ err)))
         | None \<Rightarrow> acceptLoop ''read udp'' es)"


subsection \<open>Start-up\<close>

datatype start_error =
    ConfigFailed config_error
  | KeyFailed key_error
  | AuthModeMissing string
  | StoreFailed string

datatype level = LevelDebug | LevelInfo | LevelWarn | LevelError

definition parseLevel :: "string \<Rightarrow> level" where
  "parseLevel s =
     (let v = toLower (trimSpace s)
      in if v = ''debug'' then LevelDebug
         else if v = ''warn'' \<or> v = ''warning'' then LevelWarn
         else if v = ''error'' then LevelError
         else LevelInfo)"

text \<open>The validator is the one of \<open>identity.Noop\<close>, the only one there is.\<close>

definition newValidator ::
  "(bytes \<Rightarrow> bytes) \<Rightarrow> string \<Rightarrow> start_error + (string \<Rightarrow> bytes \<Rightarrow> string + Identity)" where
  "newValidator sha256 mode =
     (if mode = ''noop'' \<or> mode = '''' then Inr (Noop_Validate sha256) else Inl (AuthModeMissing mode))"

record Server =
  srvConfig :: Settings
  srvKey :: RSAKey
  srvTokens :: Registry
  srvServices :: "string list"

definition core_New ::
  "(bytes \<Rightarrow> bytes) \<Rightarrow> KeyCodec \<Rightarrow> generator \<Rightarrow> Settings \<Rightarrow> FileSys \<Rightarrow> (start_error + Server) \<times> FileSys" where
  "core_New sha256 kc gen cfg fs =
     (case LoadOrGenerate kc gen (PrivateKeyPath cfg) (PublicKeyPath cfg) 2048 fs of
        (Inl err, fs1) \<Rightarrow> (Inl (KeyFailed err), fs1)
      | (Inr key, fs1) \<Rightarrow>
          (case newValidator sha256 (AuthModeValue cfg) of
             Inl err \<Rightarrow> (Inl err, fs1)
           | Inr _ \<Rightarrow>
               (Inr \<lparr>srvConfig = cfg, srvKey = key, srvTokens = NewRegistry, srvServices = []\<rparr>, fs1)))"

definition AddService :: "string \<Rightarrow> Server \<Rightarrow> Server" where
  "AddService name srv = srv\<lparr>srvServices := srvServices srv @ [name]\<rparr>"

definition publicKeyFingerprint :: "(bytes \<Rightarrow> bytes) \<Rightarrow> KeyCodec \<Rightarrow> RSAKey \<Rightarrow> string" where
  "publicKeyFingerprint sha256 kc k = hexEncode (take 8 (sha256 (PublicPEM kc (keyModulus k, keyPublic k))))"

text \<open>\<open>run\<close> up to the call of \<open>Run\<close>: the server with its services, or the first error.\<close>

definition startServer ::
  "(string \<Rightarrow> opened) \<Rightarrow> v6_parser \<Rightarrow> string list \<Rightarrow> environ \<Rightarrow> (bytes \<Rightarrow> bytes) \<Rightarrow> KeyCodec \<Rightarrow> generator \<Rightarrow>
     (string \<Rightarrow> string option) \<Rightarrow> FileSys \<Rightarrow> (start_error + Server) \<times> FileSys" where
  "startServer files v6 ord env sha256 kc gen openStore fs =
     (case fst (Load files v6 ord env) of
        Inl err \<Rightarrow> (Inl (ConfigFailed err), fs)
      | Inr cfg \<Rightarrow>
          (case core_New sha256 kc gen cfg fs of
             (Inl err, fs1) \<Rightarrow> (Inl err, fs1)
           | (Inr srv0, fs1) \<Rightarrow>
               let srv1 = AddService ''auth'' (AddService ''login'' srv0)
               in case openStore (DatabasePath cfg) of
                    Some err \<Rightarrow> (Inl (StoreFailed err), fs1)
                  | None \<Rightarrow>
                      let srv2 = AddService ''game'' srv1;
                          srv3 = (if BootstrapHTTPEnabled cfg then AddService ''bootstrap-http'' srv2 else srv2);
                          srv4 = (if DNSEnabled cfg then AddService ''dns'' srv3 else srv3)
                      in (Inr srv4, fs1)))"


subsection \<open>Run\<close>

text \<open>\<open>fmt.Errorf("%s: %w", svc.Name(), err)\<close>.\<close>

definition errText :: "string \<Rightarrow> string \<Rightarrow> string" where
  "errText name err = name @ '': '' @ err"

text \<open>
  A goroutine serves; when \<open>Serve\<close> has failed it puts the error into the channel, cancels the context and leaves;
  when \<open>Serve\<close> has returned nothing it leaves. The main goroutine waits for the context, then for the others.
\<close>

datatype goroutine =
    Serving
  | Failing string
  | Failed string
  | Leaving "string option"
  | Gone "string option"

datatype mainpc = AwaitDone | AwaitGroup | Returned "string option"

record RunState =
  gos :: "goroutine list"
  errCh :: "string list"
  cancelled :: bool
  mainAt :: mainpc

definition runStart :: "string list \<Rightarrow> RunState" where
  "runStart names =
     \<lparr>gos = replicate (length names) Serving, errCh = [], cancelled = False, mainAt = AwaitDone\<rparr>"

inductive run_step :: "string list \<Rightarrow> RunState \<Rightarrow> RunState \<Rightarrow> bool" for names where
  signal: "\<not> cancelled s \<Longrightarrow> run_step names s (s\<lparr>cancelled := True\<rparr>)"
| serve_nil: "i < length (gos s) \<Longrightarrow> gos s ! i = Serving \<Longrightarrow>
    run_step names s (s\<lparr>gos := (gos s)[i := Leaving None]\<rparr>)"
| serve_err: "i < length (gos s) \<Longrightarrow> gos s ! i = Serving \<Longrightarrow>
    run_step names s (s\<lparr>gos := (gos s)[i := Failing err]\<rparr>)"
| send: "i < length (gos s) \<Longrightarrow> gos s ! i = Failing err \<Longrightarrow> length (errCh s) < length names \<Longrightarrow>
    run_step names s (s\<lparr>gos := (gos s)[i := Failed err], errCh := errCh s @ [errText (names ! i) err]\<rparr>)"
| cancel: "i < length (gos s) \<Longrightarrow> gos s ! i = Failed err \<Longrightarrow>
    run_step names s (s\<lparr>gos := (gos s)[i := Leaving (Some err)], cancelled := True\<rparr>)"
| leave: "i < length (gos s) \<Longrightarrow> gos s ! i = Leaving r \<Longrightarrow>
    run_step names s (s\<lparr>gos := (gos s)[i := Gone r]\<rparr>)"
| awake: "mainAt s = AwaitDone \<Longrightarrow> cancelled s \<Longrightarrow>
    run_step names s (s\<lparr>cancelled := True, mainAt := AwaitGroup\<rparr>)"
| collect: "mainAt s = AwaitGroup \<Longrightarrow> \<forall>i<length (gos s). \<exists>r. gos s ! i = Gone r \<Longrightarrow>
    run_step names s (s\<lparr>mainAt := Returned (if errCh s = [] then None else Some (hd (errCh s)))\<rparr>)"

inductive_cases run_stepE: "run_step names s s'"

definition runReach :: "string list \<Rightarrow> RunState \<Rightarrow> bool" where
  "runReach names s \<longleftrightarrow> (run_step names)\<^sup>*\<^sup>* (runStart names) s"


subsection \<open>The invariant of a run\<close>

fun sentErr :: "goroutine \<Rightarrow> string option" where
  "sentErr (Failed e) = Some e"
| "sentErr (Leaving r) = r"
| "sentErr (Gone r) = r"
| "sentErr _ = None"

definition hasSent :: "goroutine \<Rightarrow> bool" where "hasSent g \<longleftrightarrow> sentErr g \<noteq> None"

fun isFailed :: "goroutine \<Rightarrow> bool" where
  "isFailed (Failed e) = True"
| "isFailed _ = False"

definition sentBy :: "string list \<Rightarrow> goroutine list \<Rightarrow> string set" where
  "sentBy names gs = {m. \<exists>i e. i < length names \<and> m = errText (names ! i) e \<and> sentErr (gs ! i) = Some e}"

text \<open>
  The channel has one message per goroutine that has sent one, with the name of its service; who has sent and moved on
  has cancelled; the main goroutine moves only when the context is cancelled and returns when all have left.
\<close>

definition run_inv :: "string list \<Rightarrow> RunState \<Rightarrow> bool" where
  "run_inv names s \<longleftrightarrow>
     length (gos s) = length names \<and>
     length (errCh s) = length (filter hasSent (gos s)) \<and>
     set (errCh s) = sentBy names (gos s) \<and>
     (\<forall>i<length names. hasSent (gos s ! i) \<and> \<not> isFailed (gos s ! i) \<longrightarrow> cancelled s) \<and>
     (mainAt s \<noteq> AwaitDone \<longrightarrow> cancelled s) \<and>
     (\<forall>r. mainAt s = Returned r \<longrightarrow>
        (\<forall>i<length names. \<exists>x. gos s ! i = Gone x) \<and> r = (if errCh s = [] then None else Some (hd (errCh s))))"

lemma length_filter_update:
  "i < length xs \<Longrightarrow>
     length (filter P (xs[i := x])) + (if P (xs ! i) then 1 else 0) = length (filter P xs) + (if P x then 1 else 0)"
proof (induction xs arbitrary: i)
  case (Cons y ys)
  then show ?case by (cases i) auto
qed simp

lemma sentBy_same:
  assumes "i < length gs" "sentErr x = sentErr (gs ! i)"
  shows "sentBy names (gs[i := x]) = sentBy names gs"
proof -
  have "sentErr (gs[i := x] ! j) = sentErr (gs ! j)" for j
    using assms by (cases "i = j") auto
  then show ?thesis by (simp add: sentBy_def)
qed

lemma sentBy_add:
  assumes "i < length gs" "i < length names" "sentErr (gs ! i) = None" "sentErr x = Some err"
  shows "sentBy names (gs[i := x]) = insert (errText (names ! i) err) (sentBy names gs)"
proof -
  have "sentErr (gs[i := x] ! j) = (if j = i then Some err else sentErr (gs ! j))" for j
    using assms by (cases "i = j") auto
  with assms show ?thesis
    by (auto simp: sentBy_def split: if_splits) (metis option.distinct(1))
qed

lemma run_inv_running:
  assumes "run_inv names s" "i < length (gos s)" "\<forall>r. gos s ! i \<noteq> Gone r"
  shows "\<forall>r. mainAt s \<noteq> Returned r" "i < length names"
  using assms unfolding run_inv_def by (metis, metis)

lemma run_inv_move:
  assumes "run_inv names s" "i < length (gos s)" "\<forall>r. gos s ! i \<noteq> Gone r" "sentErr x = sentErr (gos s ! i)"
    and "cancelled s \<longrightarrow> c" "hasSent x \<and> \<not> isFailed x \<longrightarrow> c"
  shows "run_inv names (s\<lparr>gos := (gos s)[i := x], cancelled := c\<rparr>)"
proof -
  have P: "hasSent (gos s ! i) = hasSent x" using assms(4) by (simp add: hasSent_def)
  have "length (filter hasSent ((gos s)[i := x])) = length (filter hasSent (gos s))"
    using length_filter_update [OF assms(2), of hasSent x] P by (simp split: if_splits)
  moreover note sentBy_same [OF assms(2,4), of names] run_inv_running [OF assms(1-3)]
  ultimately show ?thesis
    using assms(1,2,5,6) unfolding run_inv_def
    by (simp add: nth_list_update)
qed

lemma run_inv_send:
  assumes "run_inv names s" "i < length (gos s)" "gos s ! i = Failing err"
  shows "run_inv names (s\<lparr>gos := (gos s)[i := Failed err], errCh := errCh s @ [errText (names ! i) err]\<rparr>)"
proof -
  have "length (filter hasSent ((gos s)[i := Failed err])) = Suc (length (filter hasSent (gos s)))"
    using length_filter_update [OF assms(2), of hasSent "Failed err"] assms(3) by (simp add: hasSent_def)
  moreover have r: "\<forall>r. mainAt s \<noteq> Returned r" "i < length names"
    using run_inv_running [OF assms(1,2)] assms(3) by auto
  moreover note sentBy_add [OF assms(2) r(2), of "Failed err" err]
  ultimately show ?thesis
    using assms unfolding run_inv_def
    by (simp add: nth_list_update)
qed

lemma run_inv_step:
  assumes "run_inv names s" "run_step names s s'"
  shows "run_inv names s'"
  using assms(2)
proof (cases rule: run_step.cases)
  case signal
  with assms(1) show ?thesis by (simp add: run_inv_def)
next
  case (serve_nil i)
  then show ?thesis
    using run_inv_move [OF assms(1), of i "Leaving None" "cancelled s"] by (simp add: hasSent_def)
next
  case (serve_err i err)
  then show ?thesis
    using run_inv_move [OF assms(1), of i "Failing err" "cancelled s"] by (simp add: hasSent_def)
next
  case (send i err)
  then show ?thesis using run_inv_send [OF assms(1)] by simp
next
  case (cancel i err)
  then show ?thesis
    using run_inv_move [OF assms(1), of i "Leaving (Some err)" True] by simp
next
  case (leave i r)
  then have "hasSent (Gone r) \<longrightarrow> cancelled s"
    using assms(1) by (fastforce simp: run_inv_def hasSent_def)
  with leave show ?thesis
    using run_inv_move [OF assms(1), of i "Gone r" "cancelled s"] by simp
next
  case awake
  with assms(1) show ?thesis by (simp add: run_inv_def)
next
  case collect
  with assms(1) show ?thesis by (simp add: run_inv_def)
qed

lemma runReach_inv: "runReach names s \<Longrightarrow> run_inv names s"
  unfolding runReach_def
proof (induction rule: rtranclp_induct)
  case base
  show ?case by (auto simp: run_inv_def runStart_def hasSent_def sentBy_def)
next
  case (step s s')
  then show ?case by (blast intro: run_inv_step)
qed

lemma channel_has_room:
  assumes "run_inv names s" "i < length names" "gos s ! i = Failing err"
  shows "length (errCh s) < length names"
proof -
  have l: "length (gos s) = length names" using assms(1) by (simp add: run_inv_def)
  then have "gos s ! i \<in> set (gos s)" "\<not> hasSent (gos s ! i)"
    using assms(2) nth_mem [of i "gos s"] by (simp, simp add: hasSent_def assms(3))
  then have "length (filter hasSent (gos s)) < length (gos s)"
    by (rule length_filter_less)
  with assms(1) l show ?thesis by (simp add: run_inv_def)
qed

text \<open>
  C20: how the server stops. In every interleaving of the services, the operator's signal and the main
  goroutine: a failing service always finds room in the error channel, so none of them is blocked on it; if
  \<open>Run\<close> has returned then every service has left; it returns nothing exactly if no service failed; and what
  it returns otherwise is the first error that was put into the channel, with the name of the service whose
  error it is. While the context is not cancelled \<open>Run\<close> does not return, and no error has been swallowed.
\<close>

theorem run_outcome:
  assumes "runReach names s"
  shows "(\<forall>i<length names. \<forall>err. gos s ! i = Failing err \<longrightarrow> length (errCh s) < length names) \<and>
    (\<not> cancelled s \<longrightarrow> mainAt s = AwaitDone \<and> (\<forall>i<length names. \<forall>e. gos s ! i \<noteq> Gone (Some e))) \<and>
    (\<forall>r. mainAt s = Returned r \<longrightarrow>
       (\<forall>i<length names. \<exists>x. gos s ! i = Gone x) \<and>
       (r = None \<longleftrightarrow> (\<forall>i<length names. gos s ! i = Gone None)) \<and>
       (\<forall>m. r = Some m \<longrightarrow> errCh s \<noteq> [] \<and> m = hd (errCh s) \<and>
          (\<exists>i e. i < length names \<and> m = errText (names ! i) e \<and> gos s ! i = Gone (Some e))))"
proof -
  have inv: "run_inv names s" by (rule runReach_inv [OF assms])
  let ?S = "sentBy names (gos s)"
  have ret: "(r = None \<longleftrightarrow> (\<forall>i<length names. gos s ! i = Gone None)) \<and>
      (\<forall>m. r = Some m \<longrightarrow> errCh s \<noteq> [] \<and> m = hd (errCh s) \<and>
        (\<exists>i e. i < length names \<and> m = errText (names ! i) e \<and> gos s ! i = Gone (Some e)))"
    if r: "mainAt s = Returned r" for r
  proof -
    have g: "\<forall>i<length names. \<exists>x. gos s ! i = Gone x" and rr: "r = (if errCh s = [] then None else Some (hd (errCh s)))"
      and S: "set (errCh s) = ?S"
      using inv r unfolding run_inv_def by (metis, metis, metis)
    have gone: "gos s ! i = Gone (sentErr (gos s ! i))" if "i < length names" for i
      using g that by fastforce
    have "errCh s = [] \<longleftrightarrow> ?S = {}" using S by (metis set_empty)
    also have "\<dots> \<longleftrightarrow> (\<forall>i<length names. gos s ! i = Gone None)"
      using gone by (auto simp: sentBy_def) (metis not_Some_eq sentErr.simps(3))+
    finally have 1: "r = None \<longleftrightarrow> (\<forall>i<length names. gos s ! i = Gone None)"
      using rr by simp
    have "\<exists>i e. i < length names \<and> hd (errCh s) = errText (names ! i) e \<and> gos s ! i = Gone (Some e)"
      if "errCh s \<noteq> []"
    proof -
      have "hd (errCh s) \<in> ?S" using that S by (metis hd_in_set)
      then obtain i e where "i < length names" "hd (errCh s) = errText (names ! i) e" "sentErr (gos s ! i) = Some e"
        by (auto simp: sentBy_def)
      with gone [of i] show ?thesis by auto
    qed
    with 1 rr show ?thesis by (auto split: if_splits)
  qed
  have "gos s ! i \<noteq> Gone (Some e)" if "\<not> cancelled s" "i < length names" for i e
    using inv that by (force simp: run_inv_def hasSent_def)
  moreover have "\<forall>i<length names. \<exists>x. gos s ! i = Gone x" if "mainAt s = Returned r" for r
    using inv that by (simp add: run_inv_def)
  ultimately show ?thesis
    using channel_has_room [OF inv] ret inv by (auto simp: run_inv_def)
qed

text \<open>Steps one after another, for concrete runs.\<close>

lemma runReach_step: "runReach names s \<Longrightarrow> run_step names s s' \<Longrightarrow> runReach names s'"
  unfolding runReach_def by (rule rtranclp.rtrancl_into_rtrancl)

lemma runReach_start: "runReach names (runStart names)"
  by (simp add: runReach_def)

theorem run_outcome_witness:
  "\<exists>s. runReach [''login'', ''game''] s \<and> mainAt s = Returned (Some (errText ''game'' ''listen'')) \<and>
     (\<forall>i<2. \<exists>x. gos s ! i = Gone x)"
proof -
  let ?n = "[''login'', ''game'']"
  define st where "st g c b m = \<lparr>gos = g, errCh = c, cancelled = b, mainAt = m\<rparr>" for g c b m
  let ?e = "errText ''game'' ''listen''"
  have step: "runReach ?n s \<Longrightarrow> run_step ?n s t \<Longrightarrow> s' = t \<Longrightarrow> runReach ?n s'" for s t s'
    using runReach_step by blast
  have 0: "runReach ?n (st [Serving, Serving] [] False AwaitDone)"
    using runReach_start [of ?n] by (simp add: runStart_def st_def)
  have 1: "runReach ?n (st [Serving, Failing ''listen''] [] False AwaitDone)"
    by (rule step [OF 0 serve_err [of 1 _ _ "''listen''"]]) (simp_all add: st_def)
  have 2: "runReach ?n (st [Serving, Failed ''listen''] [?e] False AwaitDone)"
    by (rule step [OF 1 send [of 1 _ "''listen''"]]) (simp_all add: st_def)
  have 3: "runReach ?n (st [Serving, Leaving (Some ''listen'')] [?e] True AwaitDone)"
    by (rule step [OF 2 cancel [of 1 _ "''listen''"]]) (simp_all add: st_def)
  have 4: "runReach ?n (st [Serving, Leaving (Some ''listen'')] [?e] True AwaitGroup)"
    by (rule step [OF 3 awake]) (simp_all add: st_def)
  have 5: "runReach ?n (st [Leaving None, Leaving (Some ''listen'')] [?e] True AwaitGroup)"
    by (rule step [OF 4 serve_nil [of 0]]) (simp_all add: st_def)
  have 6: "runReach ?n (st [Gone None, Leaving (Some ''listen'')] [?e] True AwaitGroup)"
    by (rule step [OF 5 leave [of 0 _ None]]) (simp_all add: st_def)
  have 7: "runReach ?n (st [Gone None, Gone (Some ''listen'')] [?e] True AwaitGroup)"
    by (rule step [OF 6 leave [of 1 _ "Some ''listen''"]]) (simp_all add: st_def)
  have 8: "runReach ?n (st [Gone None, Gone (Some ''listen'')] [?e] True (Returned (Some ?e)))"
    by (rule step [OF 7 collect]) (auto simp: st_def less_Suc_eq)
  have "mainAt (st [Gone None, Gone (Some ''listen'')] [?e] True (Returned (Some ?e))) = Returned (Some ?e)"
    by (simp add: st_def)
  with run_outcome [OF 8] 8 show ?thesis by (auto simp: numeral_2_eq_2)
qed


subsection \<open>A cancelled server stops\<close>

text \<open>Every step of a goroutine and of the main goroutine moves it forward.\<close>

fun goRank :: "goroutine \<Rightarrow> nat" where
  "goRank Serving = 4"
| "goRank (Failing e) = 3"
| "goRank (Failed e) = 2"
| "goRank (Leaving r) = 1"
| "goRank (Gone r) = 0"

fun mainRank :: "mainpc \<Rightarrow> nat" where
  "mainRank AwaitDone = 2"
| "mainRank AwaitGroup = 1"
| "mainRank (Returned r) = 0"

definition runRank :: "RunState \<Rightarrow> nat" where
  "runRank s = sum_list (map goRank (gos s)) + mainRank (mainAt s) + (if cancelled s then 0 else 1)"

lemma sum_list_update_less:
  "i < length xs \<Longrightarrow> goRank x < goRank (xs ! i) \<Longrightarrow> sum_list (map goRank (xs[i := x])) < sum_list (map goRank xs)"
proof (induction xs arbitrary: i)
  case (Cons y ys)
  then show ?case by (cases i) auto
qed simp

lemma runRank_step: "run_step names s s' \<Longrightarrow> runRank s' < runRank s"
proof (induction rule: run_step.induct)
  case (serve_nil i s)
  then show ?case using sum_list_update_less [of i "gos s" "Leaving None"] by (simp add: runRank_def)
next
  case (serve_err i s err)
  then show ?case using sum_list_update_less [of i "gos s" "Failing err"] by (simp add: runRank_def)
next
  case (send i s err)
  then show ?case using sum_list_update_less [of i "gos s" "Failed err"] by (simp add: runRank_def)
next
  case (cancel i s err)
  then show ?case using sum_list_update_less [of i "gos s" "Leaving (Some err)"] by (simp add: runRank_def)
next
  case (leave i s r)
  then show ?case using sum_list_update_less [of i "gos s" "Gone r"] by (simp add: runRank_def)
qed (simp_all add: runRank_def)

text \<open>With nobody serving and the context cancelled, there is always a next step.\<close>

lemma run_progress:
  assumes "run_inv names s" "cancelled s" "\<forall>i<length names. gos s ! i \<noteq> Serving" "\<forall>r. mainAt s \<noteq> Returned r"
  shows "\<exists>s'. run_step names s s' \<and> cancelled s' \<and> (\<forall>i<length names. gos s' ! i \<noteq> Serving)"
proof (cases "\<forall>i<length names. \<exists>r. gos s ! i = Gone r")
  case True
  have l: "length (gos s) = length names" using assms(1) by (simp add: run_inv_def)
  show ?thesis
  proof (cases "mainAt s")
    case AwaitDone
    then show ?thesis using run_step.awake [OF AwaitDone assms(2)] assms(2,3) by fastforce
  next
    case AwaitGroup
    then show ?thesis using run_step.collect [OF AwaitGroup, of names] True l assms(2,3) by fastforce
  next
    case (Returned r)
    with assms(4) show ?thesis by blast
  qed
next
  case False
  have l: "length (gos s) = length names" using assms(1) by (simp add: run_inv_def)
  from False obtain i where i: "i < length names" "\<forall>r. gos s ! i \<noteq> Gone r" by blast
  have keep: "\<forall>j<length names. (gos s)[i := x] ! j \<noteq> Serving" if "x \<noteq> Serving" for x
    using assms(3) that l i by (auto simp: nth_list_update split: if_splits)
  show ?thesis
  proof (cases "gos s ! i")
    case (Failing err)
    with run_step.send [of i s err names] channel_has_room [OF assms(1) i(1) Failing] i l assms(2) keep [of "Failed err"]
    show ?thesis by fastforce
  next
    case (Failed err)
    with run_step.cancel [of i s err names] i l keep [of "Leaving (Some err)"] show ?thesis by fastforce
  next
    case (Leaving r)
    with run_step.leave [of i s r names] i l assms(2) keep [of "Gone r"] show ?thesis by fastforce
  qed (use i assms(3) in auto)
qed

text \<open>
  C35: the server stops when it is told to. A run has at most four steps per service and three more, in any
  interleaving; and from every reachable state in which the context is cancelled, by a signal or by a
  failing service, and every service has returned from \<open>Serve\<close>, the remaining goroutines bring \<open>Run\<close> to its return.
\<close>

theorem run_stops:
  "(\<forall>n s. (run_step names ^^ n) (runStart names) s \<longrightarrow> n \<le> 4 * length names + 3) \<and>
   (\<forall>s. runReach names s \<and> cancelled s \<and> (\<forall>i<length names. gos s ! i \<noteq> Serving) \<longrightarrow>
      (\<exists>s' r. (run_step names)\<^sup>*\<^sup>* s s' \<and> mainAt s' = Returned r))"
proof (intro conjI allI impI)
  fix n s assume "(run_step names ^^ n) (runStart names) s"
  then have "n + runRank s \<le> runRank (runStart names)"
  proof (induction n arbitrary: s)
    case (Suc n)
    then obtain u where "(run_step names ^^ n) (runStart names) u" "run_step names u s" by auto
    with Suc.IH [of u] runRank_step [of names u s] show ?case by simp
  qed simp
  moreover have "runRank (runStart names) = 4 * length names + 3"
    by (simp add: runRank_def runStart_def sum_list_replicate)
  ultimately show "n \<le> 4 * length names + 3" by simp
next
  fix s assume "runReach names s \<and> cancelled s \<and> (\<forall>i<length names. gos s ! i \<noteq> Serving)"
  then have "run_inv names s" "cancelled s" "\<forall>i<length names. gos s ! i \<noteq> Serving"
    by (auto intro: runReach_inv)
  then show "\<exists>s' r. (run_step names)\<^sup>*\<^sup>* s s' \<and> mainAt s' = Returned r"
  proof (induction "runRank s" arbitrary: s rule: less_induct)
    case less
    show ?case
    proof (cases "\<exists>r. mainAt s = Returned r")
      case False
      with run_progress [OF less.prems] obtain u where
        "run_step names s u" "cancelled u" "\<forall>i<length names. gos u ! i \<noteq> Serving" by blast
      with less.hyps [of u] runRank_step run_inv_step less.prems(1) show ?thesis
        by (meson converse_rtranclp_into_rtranclp)
    qed blast
  qed
qed

theorem run_stops_witness:
  "\<exists>s' r. (run_step [''login''])\<^sup>*\<^sup>* \<lparr>gos = [Leaving None], errCh = [], cancelled = True, mainAt = AwaitDone\<rparr> s' \<and>
     mainAt s' = Returned r"
proof -
  let ?n = "[''login'']"
  have 1: "runReach ?n \<lparr>gos = [Leaving None], errCh = [], cancelled = False, mainAt = AwaitDone\<rparr>"
    using runReach_step [OF runReach_start serve_nil [of 0 "runStart ?n"]] by (simp add: runStart_def)
  have "runReach ?n \<lparr>gos = [Leaving None], errCh = [], cancelled = True, mainAt = AwaitDone\<rparr>"
    using runReach_step [OF 1 signal] by simp
  with run_stops [of ?n] show ?thesis by fastforce
qed

subsection \<open>A restart gives the same server\<close>

lemma key_paths_differ: "PrivateKeyPath cfg \<noteq> PublicKeyPath cfg"
  by (simp add: PrivateKeyPath_def PublicKeyPath_def)

lemma LoadOrGenerate_again:
  assumes "codec_ok kc" "LoadOrGenerate kc gen (PrivateKeyPath cfg) (PublicKeyPath cfg) bits fs = (Inr k, fs')"
  shows "LoadOrGenerate kc gen' (PrivateKeyPath cfg) (PublicKeyPath cfg) bits' fs' = (Inr k, fs')"
proof (cases "readFile fs (PrivateKeyPath cfg)")
  case (ReadData d)
  with assms(2) show ?thesis by (auto simp: LoadOrGenerate_def)
next
  case ReadNotExist
  with generated_key_loads [OF assms ReadNotExist key_paths_differ] show ?thesis by blast
next
  case (ReadError err)
  with assms(2) show ?thesis by (simp add: LoadOrGenerate_def)
qed

text \<open>
  A server that has come up has a validated configuration with the no-op ticket check and runs the login,
  the auth and the game service and, as configured, the HTTP and the DNS service, in this order; started again with
  the same environment it comes up as the same server, with the same key, and changes no file.
\<close>

lemma restart_same_server:
  assumes "codec_ok kc" "startServer files v6 ord env sha256 kc gen openStore fs = (Inr srv, fs')"
  shows "fst (Load files v6 ord env) = Inr (srvConfig srv)" "AuthModeValue (srvConfig srv) \<in> {''noop'', ''''}"
    and "srvServices srv = [''login'', ''auth'', ''game''] @
      (if BootstrapHTTPEnabled (srvConfig srv) then [''bootstrap-http''] else []) @
      (if DNSEnabled (srvConfig srv) then [''dns''] else [])"
    and "startServer files v6 ord env sha256 kc gen' openStore fs' = (Inr srv, fs')"
proof -
  obtain cfg key where cfg: "fst (Load files v6 ord env) = Inr cfg" and st: "openStore (DatabasePath cfg) = None"
    and key: "LoadOrGenerate kc gen (PrivateKeyPath cfg) (PublicKeyPath cfg) 2048 fs = (Inr key, fs')"
    and mode: "AuthModeValue cfg = ''noop'' \<or> AuthModeValue cfg = ''''"
    and srv: "srv = \<lparr>srvConfig = cfg, srvKey = key, srvTokens = NewRegistry, srvServices =
      [''login'', ''auth'', ''game''] @ (if BootstrapHTTPEnabled cfg then [''bootstrap-http''] else []) @
      (if DNSEnabled cfg then [''dns''] else [])\<rparr>"
    using assms(2)
    by (auto simp: startServer_def core_New_def newValidator_def AddService_def Let_def
        split: sum.splits prod.splits option.splits if_splits)
  show "fst (Load files v6 ord env) = Inr (srvConfig srv)" "AuthModeValue (srvConfig srv) \<in> {''noop'', ''''}"
    "srvServices srv = [''login'', ''auth'', ''game''] @
      (if BootstrapHTTPEnabled (srvConfig srv) then [''bootstrap-http''] else []) @
      (if DNSEnabled (srvConfig srv) then [''dns''] else [])"
    using cfg mode by (auto simp: srv)
  show "startServer files v6 ord env sha256 kc gen' openStore fs' = (Inr srv, fs')"
    using cfg st mode LoadOrGenerate_again [OF assms(1) key, of gen']
    by (auto simp: startServer_def core_New_def newValidator_def AddService_def Let_def srv)
qed

text \<open>
  The modes psn and steam pass validation but have no validator: such a server makes and stores its key and
  then does not start.
\<close>

lemma unimplemented_mode_never_starts:
  assumes "fst (Load files v6 ord env) = Inr cfg" "AuthModeValue cfg \<in> {''psn'', ''steam''}"
  shows "\<exists>err. fst (startServer files v6 ord env sha256 kc gen openStore fs) = Inl err"
  using assms
  by (auto simp: startServer_def core_New_def newValidator_def split: sum.splits prod.splits)

text \<open>A listening service that returns without an error was cancelled; a service that is still running has failed nothing.\<close>

lemma accept_nil_cancelled:
  "snd (acceptLoop what es) = Some None \<Longrightarrow> \<exists>err. IoFailed err True \<in> set es"
  by (induction what es rule: acceptLoop.induct) (auto simp: Let_def split: prod.splits if_splits)

end
