(* ===== verification/Edge_Services.thy ===== *)
theory Edge_Services
  imports Server_Run
begin

section \<open>The HTTP bootstrap and the DNS redirector\<close>

text \<open>
  internal/server/bootstrap/bootstrap.go (which file of the disk answers a request for a calibration) and
  internal/server/dnsredirect/dnsredirect.go (which queries are answered with the address of the server). Of the
  file system \<open>os.Stat\<close>, \<open>os.ReadFile\<close> and the modification time are arguments; of the package miekg/dns the function
  \<open>Fqdn\<close> and the exchange with the upstream server. Parsing and writing of HTTP and DNS messages is left out.
\<close>

subsection \<open>Calibration files\<close>

definition calibrationDir :: "Settings \<Rightarrow> string" where
  "calibrationDir cfg =
     (if BootstrapCalibrationDir cfg \<noteq> '''' then BootstrapCalibrationDir cfg
      else if BootstrapContentsFile cfg \<noteq> '''' then Dir (BootstrapContentsFile cfg)
      else '''')"

text \<open>The expression \<open>^contents_(\d{4})\.bin$\<close>.\<close>

definition contentsName :: "string \<Rightarrow> bool" where
  "contentsName n \<longleftrightarrow>
     length n = 17 \<and> take 9 n = ''contents_'' \<and> list_all (\<lambda>c. digitVal c \<noteq> None) (take 4 (drop 9 n)) \<and>
     drop 13 n = ''.bin''"

definition servedName :: "Settings \<Rightarrow> string \<Rightarrow> string" where
  "servedName cfg name =
     (if CalibrationVersion cfg \<noteq> '''' \<and> contentsName name
      then ''contents_'' @ CalibrationVersion cfg @ ''.bin'' else name)"

definition resolve :: "(string \<Rightarrow> bool) \<Rightarrow> Settings \<Rightarrow> string \<Rightarrow> string option" where
  "resolve stat cfg urlPath =
     (let dir = calibrationDir cfg
      in if dir = '''' then None
         else
           let name = Base urlPath
           in if name = '''' \<or> name = ''.'' \<or> name = [slash] \<or> slash \<in> set name \<or> CHR 0x5C \<in> set name then None
              else
                let name' = servedName cfg name;
                    candidate = Join2 dir name'
                in if stat candidate then Some candidate
                   else
                     let cf = BootstrapContentsFile cfg
                     in if cf \<noteq> '''' \<and> name' = Base cf then Some cf else None)"

record HttpResponse =
  hStatus :: nat
  hType :: string
  hModified :: "string option"
  hBody :: bytes

definition notFound :: HttpResponse where
  "notFound =
     \<lparr>hStatus = 404, hType = ''text/plain; charset=utf-8'', hModified = None,
      hBody = map (\<lambda>c. of_nat (of_char c)) (''404 page not found'' @ [CHR 0x0A])\<rparr>"

definition bootstrap_handle ::
  "(string \<Rightarrow> string option) \<Rightarrow> (string \<Rightarrow> string + bytes) \<Rightarrow> Settings \<Rightarrow> string \<Rightarrow> HttpResponse" where
  "bootstrap_handle modTime read cfg urlPath =
     (case resolve (\<lambda>f. modTime f \<noteq> None) cfg urlPath of
        None \<Rightarrow> notFound
      | Some f \<Rightarrow>
          (case read f of
             Inl err \<Rightarrow> notFound
           | Inr data \<Rightarrow>
               \<lparr>hStatus = 200, hType = ''application/octet-stream'', hModified = modTime f, hBody = data\<rparr>))"

text \<open>\<open>Serve\<close>: a port that cannot be bound is logged and the rest of the server goes on.\<close>

definition bootstrap_Serve ::
  "Settings \<Rightarrow> (string \<Rightarrow> string option) \<Rightarrow> string option \<Rightarrow> string option" where
  "bootstrap_Serve cfg listen served =
     (let adv = AdvertiseAddress (serverConfig cfg);
          bindHost = (if adv = '''' then BindAddress cfg else adv)
      in case listen (hostPort bindHost (BootstrapHTTPPort cfg)) of
           Some err \<Rightarrow> None
         | None \<Rightarrow> (case served of None \<Rightarrow> None | Some err \<Rightarrow> if err = ''http: Server closed'' then None else Some err))"


subsection \<open>Names\<close>

definition ParseIP :: "v6_parser \<Rightarrow> string \<Rightarrow> Addr option" where
  "ParseIP v6 s =
     (case ParseAddr v6 s of
        Some (V6 bs zone) \<Rightarrow> if zone \<noteq> '''' then None else Some (V6 bs zone)
      | r \<Rightarrow> r)"

text \<open>The overrides: every host maps to the advertised address, which may not have parsed.\<close>

definition dns_New :: "(string \<Rightarrow> string) \<Rightarrow> v6_parser \<Rightarrow> Settings \<Rightarrow> (string \<rightharpoonup> Addr option)" where
  "dns_New fqdn v6 cfg =
     foldl (\<lambda>ov h. ov(fqdn (toLower h) \<mapsto> ParseIP v6 (AdvertiseAddress (serverConfig cfg))))
       Map.empty (DNSRedirectHosts cfg)"

definition TypeA :: u16 where "TypeA = 1"

datatype 'm dns_reply =
    Redirected string "(string \<times> (byte \<times> byte \<times> byte \<times> byte)) list"
  | Upstream 'm
  | ServerFailure

definition forward :: "(string \<Rightarrow> 'q \<Rightarrow> string + 'm option) \<Rightarrow> Settings \<Rightarrow> 'q \<Rightarrow> 'm dns_reply" where
  "forward upstream cfg r =
     (case upstream (DNSUpstream cfg) r of
        Inr (Some resp) \<Rightarrow> Upstream resp
      | _ \<Rightarrow> ServerFailure)"

definition dns_handle ::
  "(string \<rightharpoonup> Addr option) \<Rightarrow> (string \<Rightarrow> (string \<times> u16) list \<Rightarrow> string + 'm option) \<Rightarrow> Settings \<Rightarrow>
     (string \<times> u16) list \<Rightarrow> 'm dns_reply" where
  "dns_handle ov upstream cfg qs =
     (case qs of
        [(name, qtype)] \<Rightarrow>
          (case ov (toLower name) of
             Some ip \<Rightarrow>
               Redirected name
                 (if qtype = TypeA
                  then (case map_option Unmap ip of Some (V4 a b c d) \<Rightarrow> [(name, (a, b, c, d))] | _ \<Rightarrow> [])
                  else [])
           | None \<Rightarrow> forward upstream cfg qs)
      | _ \<Rightarrow> forward upstream cfg qs)"

definition dns_Serve :: "Settings \<Rightarrow> string option \<Rightarrow> string option" where
  "dns_Serve cfg failed = None"


subsection \<open>Only calibration files are served\<close>

lemma servedName_plain:
  assumes "plainName n" "slash \<notin> set (CalibrationVersion cfg)"
  shows "plainName (servedName cfg n)"
  using assms by (auto simp: servedName_def plainName_def)

lemma resolve_cases:
  assumes "resolve stat cfg url = Some f" "slash \<notin> set (CalibrationVersion cfg)"
  shows "(plainName (Base url) \<and> f = under (Clean (calibrationDir cfg)) (servedName cfg (Base url)) \<and> stat f) \<or>
    (f = BootstrapContentsFile cfg \<and> f \<noteq> '''' \<and> servedName cfg (Base url) = Base f) \<or>
    (Base url = ''..'' \<and> f = Join2 (calibrationDir cfg) ''..'')"
proof -
  let ?n = "Base url"
  have d: "calibrationDir cfg \<noteq> []" and n: "?n \<noteq> []" "?n \<noteq> ''.''" "slash \<notin> set ?n"
    using assms(1) by (auto simp: resolve_def Let_def split: if_splits)
  have f: "(stat f \<and> f = Join2 (calibrationDir cfg) (servedName cfg ?n)) \<or>
      (f = BootstrapContentsFile cfg \<and> f \<noteq> '''' \<and> servedName cfg ?n = Base f)"
    using assms(1) by (auto simp: resolve_def Let_def split: if_splits)
  show ?thesis
  proof (cases "?n = ''..''")
    case True
    then have "servedName cfg ?n = ''..''" by (simp add: servedName_def contentsName_def)
    with f True show ?thesis by auto
  next
    case False
    with n have "plainName ?n" by (simp add: plainName_def)
    with f Join2_plain [OF d servedName_plain [OF _ assms(2)]] show ?thesis by auto
  qed
qed

text \<open>
  C22: the HTTP service gives away calibration files and nothing else. Whatever path is asked for, with dots,
  slashes or anything else in it, an answer with status 200 has as body exactly the contents of a file: an
  entry of the calibration directory itself, under the last component of the path or, for a manifest, the
  name of the configured version, or else the configured manifest. Everything else is answered 404. What
  is assumed is that a directory cannot be read as a file, and that the version the operator configured has
  no slash in it, which nothing validates.
\<close>

theorem only_calibration_served:
  assumes "slash \<notin> set (CalibrationVersion cfg)" "\<exists>err. read (Join2 (calibrationDir cfg) ''..'') = Inl err"
  shows "hStatus (bootstrap_handle modTime read cfg url) = 404 \<or>
    (\<exists>f. hStatus (bootstrap_handle modTime read cfg url) = 200 \<and> read f = Inr (hBody (bootstrap_handle modTime read cfg url)) \<and>
       (f = under (Clean (calibrationDir cfg)) (servedName cfg (Base url)) \<and> plainName (servedName cfg (Base url)) \<or>
        f = BootstrapContentsFile cfg \<and> f \<noteq> '''' \<and> servedName cfg (Base url) = Base f))"
proof (cases "resolve (\<lambda>f. modTime f \<noteq> None) cfg url")
  case None
  then show ?thesis by (simp add: bootstrap_handle_def notFound_def)
next
  case (Some f)
  show ?thesis
  proof (cases "read f")
    case (Inl err)
    with Some show ?thesis by (simp add: bootstrap_handle_def notFound_def)
  next
    case (Inr data)
    then have r: "hStatus (bootstrap_handle modTime read cfg url) = 200"
      "read f = Inr (hBody (bootstrap_handle modTime read cfg url))"
      using Some by (simp_all add: bootstrap_handle_def)
    from resolve_cases [OF Some assms(1)] have
      "f = under (Clean (calibrationDir cfg)) (servedName cfg (Base url)) \<and> plainName (servedName cfg (Base url)) \<or>
        f = BootstrapContentsFile cfg \<and> f \<noteq> '''' \<and> servedName cfg (Base url) = Base f"
      using servedName_plain [OF _ assms(1)] assms(2) Inr by auto
    with r show ?thesis by blast
  qed
qed

definition demo_settings :: Settings where
  "demo_settings = Default\<lparr>BootstrapCalibrationDir := ''data/cal'', CalibrationVersion := ''0114''\<rparr>"

text \<open>A disk with one manifest.\<close>

definition demo_read :: "string \<Rightarrow> string + bytes" where
  "demo_read f = (if f = ''data/cal/contents_0114.bin'' then Inr [1, 2] else Inl ''none'')"

definition demo_mtime :: "string \<Rightarrow> string option" where
  "demo_mtime f = (if f = ''data/cal/contents_0114.bin'' then Some ''2015'' else None)"

theorem only_calibration_served_witness:
  "bootstrap_handle demo_mtime demo_read demo_settings ''/x/../contents_0101.bin'' =
     \<lparr>hStatus = 200, hType = ''application/octet-stream'', hModified = Some ''2015'', hBody = [1, 2]\<rparr> \<and>
   (\<exists>f. demo_read f = Inr [1, 2] \<and> (f = under ''data/cal'' ''contents_0114.bin'' \<or> f = BootstrapContentsFile demo_settings))"
proof -
  have r: "bootstrap_handle demo_mtime demo_read demo_settings ''/x/../contents_0101.bin'' =
     \<lparr>hStatus = 200, hType = ''application/octet-stream'', hModified = Some ''2015'', hBody = [1, 2]\<rparr>"
    by code_simp
  have n: "servedName demo_settings (Base ''/x/../contents_0101.bin'') = ''contents_0114.bin''"
    "Clean (calibrationDir demo_settings) = ''data/cal''" "slash \<notin> set (CalibrationVersion demo_settings)"
    "demo_read (Join2 (calibrationDir demo_settings) ''..'') = Inl ''none''"
    by code_simp+
  with only_calibration_served [of demo_settings demo_read demo_mtime "''/x/../contents_0101.bin''"] r
  show ?thesis by auto
qed

text \<open>
  Two dots pass the test for a plain name: the request for them is resolved to the parent of the
  calibration directory, and only the failing read turns it into a 404.
\<close>

lemma parent_resolved:
  assumes "calibrationDir cfg \<noteq> ''''" "stat (Join2 (calibrationDir cfg) ''..'')"
  shows "resolve stat cfg ''/..'' = Some (Join2 (calibrationDir cfg) ''..'')"
proof -
  have "Base ''/..'' = ''..''" by code_simp
  then show ?thesis
    using assms by (simp add: resolve_def servedName_def contentsName_def Let_def)
qed

text \<open>With a version configured, a manifest of any version is answered as the manifest of that one.\<close>

lemma version_pinned:
  assumes "CalibrationVersion cfg \<noteq> ''''" "contentsName (Base url)" "contentsName (Base url')"
    and "CHR 0x5C \<notin> set (Base url)" "CHR 0x5C \<notin> set (Base url')"
  shows "resolve stat cfg url = resolve stat cfg url'"
proof -
  have "slash \<notin> set n \<and> n \<noteq> [] \<and> n \<noteq> ''.'' \<and> n \<noteq> [slash]" if "contentsName n" "n = Base u" for n u
  proof -
    have "length (Base u) = 17" using that by (simp add: contentsName_def)
    then have "Base u \<noteq> [slash]" "Base u \<noteq> ''.''" by auto
    with Base_no_slash [of u] that show ?thesis by simp
  qed
  then show ?thesis
    using assms by (simp add: resolve_def servedName_def Let_def)
qed


subsection \<open>Which names are redirected\<close>

lemma dns_New_lookup:
  "dns_New fqdn v6 cfg n =
     (if \<exists>h\<in>set (DNSRedirectHosts cfg). fqdn (toLower h) = n
      then Some (ParseIP v6 (AdvertiseAddress (serverConfig cfg))) else None)"
proof -
  let ?ip = "ParseIP v6 (AdvertiseAddress (serverConfig cfg))"
  have "foldl (\<lambda>ov h. ov(fqdn (toLower h) \<mapsto> ?ip)) ov hs n =
      (if \<exists>h\<in>set hs. fqdn (toLower h) = n then Some ?ip else ov n)" for ov hs
    by (induction hs arbitrary: ov) auto
  then show ?thesis by (simp add: dns_New_def)
qed

text \<open>
  A console that asks this server for names reaches it and everything else. A query for a configured host,
  in any mixture of upper and lower case, is never sent upstream: asked for an address it is answered
  with exactly the advertised IPv4 address, under the name as it was asked, and asked for anything else it
  is answered with no records. A query for any other name gets the upstream server's answer, or a server failure
  if there is none.
\<close>

theorem dns_answers:
  assumes "ov = dns_New fqdn v6 cfg" "ParseIP v6 (AdvertiseAddress (serverConfig cfg)) = Some (V4 a b c d)"
  shows "if \<exists>h\<in>set (DNSRedirectHosts cfg). fqdn (toLower h) = toLower name
    then \<forall>up. dns_handle ov up cfg [(name, qtype)] =
      Redirected name (if qtype = TypeA then [(name, (a, b, c, d))] else [])
    else (\<forall>up resp. up (DNSUpstream cfg) [(name, qtype)] = Inr (Some resp) \<longrightarrow>
        dns_handle ov up cfg [(name, qtype)] = Upstream resp) \<and>
      (\<forall>up err. up (DNSUpstream cfg) [(name, qtype)] = Inl err \<longrightarrow>
        dns_handle ov up cfg [(name, qtype)] = ServerFailure)"
  using assms by (simp add: dns_handle_def dns_New_lookup forward_def)

theorem dns_answers_witness:
  "dns_handle (dns_New (\<lambda>h. h @ ''.'') (\<lambda>_. None) Default) (\<lambda>_ _. Inl ''down'') Default
     [(''FRPG2-ps3-ope.fromsoftware.jp.'', TypeA)] =
   (Redirected ''FRPG2-ps3-ope.fromsoftware.jp.'' [(''FRPG2-ps3-ope.fromsoftware.jp.'', (127, 0, 0, 1))] :: nat dns_reply)"
proof -
  have ip: "ParseIP (\<lambda>_. None) (AdvertiseAddress (serverConfig Default)) = Some (V4 127 0 0 1)"
    by code_simp
  have "\<exists>h\<in>set (DNSRedirectHosts Default). toLower h @ ''.'' = toLower ''FRPG2-ps3-ope.fromsoftware.jp.''"
    by code_simp
  with dns_answers [OF refl ip, of "\<lambda>h. h @ ''.''" "''FRPG2-ps3-ope.fromsoftware.jp.''" TypeA, where ?'a = nat]
  show ?thesis by simp
qed

end
