(* ===== verification/Capture_Proto.thy ===== *)
theory Capture_Proto
  imports Go_Strings Server_Core
begin

section \<open>Protocol buffers without a schema\<close>

text \<open>
  The wire-level part of cmd/corpus/main.go: the varint reader, the test whether bytes are a complete protocol
  buffer message, the search for the end of a group, and the rendering of a message as text. The loops
  count in Go's 64-bit \<open>int\<close>: a length read from the input is added to the offset with wrap-around. So a loop
  may go back and run forever, and it may slice with a negative offset. The loops are partial
  functions: \<open>None\<close> is a loop that does not end, \<open>Some Panic\<close> a run-time panic.
\<close>

datatype 'a outcome = Value 'a | Panic

definition andThen :: "'a outcome option \<Rightarrow> ('a \<Rightarrow> 'b outcome option) \<Rightarrow> 'b outcome option" where
  "andThen r k = (case r of None \<Rightarrow> None | Some Panic \<Rightarrow> Some Panic | Some (Value x) \<Rightarrow> k x)"

lemma andThen_simps [simp]:
  "andThen None k = None" "andThen (Some Panic) k = Some Panic" "andThen (Some (Value x)) k = k x"
  by (simp_all add: andThen_def)

text \<open>The value a Go \<open>int\<close> of 64 bits has after an operation with this result.\<close>

definition goInt :: "int \<Rightarrow> int" where
  "goInt x = signed_take_bit 63 x"

lemma goInt_id: "- (2 ^ 63) \<le> x \<Longrightarrow> x < 2 ^ 63 \<Longrightarrow> goInt x = x"
  by (simp add: goInt_def signed_take_bit_int_eq_self)

lemma goInt_nonneg: "0 \<le> x \<Longrightarrow> x < 9223372036854775808 \<Longrightarrow> goInt x = x"
  by (rule goInt_id) simp_all


subsection \<open>Varints\<close>

fun uvarintFrom :: "bytes \<Rightarrow> nat \<Rightarrow> u64 \<Rightarrow> nat \<Rightarrow> u64 \<times> nat" where
  "uvarintFrom [] i v s = (0, 0)"
| "uvarintFrom (c # cs) i v s =
     (if 9 < i then (0, 0)
      else
        let v' = v OR push_bit s (ucast (c AND 0x7F))
        in if c AND 0x80 = 0 then (v', i + 1) else uvarintFrom cs (i + 1) v' (s + 7))"

definition uvarint :: "bytes \<Rightarrow> u64 \<times> nat" where
  "uvarint b = uvarintFrom b 0 0 0"


subsection \<open>Is it a message?\<close>

text \<open>
  What both scanning loops do with a field of wire type 0, 1, 2, 3 or 5 whose tag ends at offset \<open>i\<close>: the
  offset after its value and the depth of open groups, or nothing if there is no such wire type or no value.
\<close>

definition skipValue :: "bytes \<Rightarrow> int \<Rightarrow> u64 \<Rightarrow> int \<Rightarrow> (int \<times> int) option" where
  "skipValue b i wire depth =
     (if wire = 0
      then (let (v, n) = uvarint (drop (nat i) b) in if n = 0 then None else Some (goInt (i + int n), depth))
      else if wire = 1 then Some (goInt (i + 8), depth)
      else if wire = 5 then Some (goInt (i + 4), depth)
      else if wire = 2
      then (let (ln, n) = uvarint (drop (nat i) b)
            in if n = 0 then None else Some (goInt (i + goInt (int n + sint ln)), depth))
      else if wire = 3 then Some (i, depth + 1)
      else None)"

partial_function (option) fieldsLoop :: "bytes \<Rightarrow> int \<Rightarrow> nat \<Rightarrow> int \<Rightarrow> bool outcome option" where
  "fieldsLoop b i seen depth =
     (if i < int (length b) then
        if i < 0 then Some Panic
        else
          let (tag, n) = uvarint (drop (nat i) b)
          in if n = 0 \<or> drop_bit 3 tag = 0 then Some (Value False)
             else
               let i1 = goInt (i + int n); wire = tag AND 7
               in case (if wire = 4 then if depth - 1 < 0 then None else Some (i1, depth - 1)
                        else skipValue b i1 wire depth) of
                    None \<Rightarrow> Some (Value False)
                  | Some (i2, depth2) \<Rightarrow>
                      if int (length b) < i2 then Some (Value False)
                      else fieldsLoop b i2 (seen + 1) depth2
      else Some (Value (0 < seen \<and> depth = 0)))"

definition parsesCleanly :: "bytes \<Rightarrow> bool outcome option" where
  "parsesCleanly b = (if b = [] then Some (Value False) else fieldsLoop b 0 0 0)"


subsection \<open>A message as text\<close>

partial_function (option) groupLoop :: "bytes \<Rightarrow> u64 \<Rightarrow> int \<Rightarrow> int \<Rightarrow> int option outcome option" where
  "groupLoop b field i depth =
     (if i < int (length b) then
        if i < 0 then Some Panic
        else
          let (tag, n) = uvarint (drop (nat i) b); wire = tag AND 7; i1 = goInt (i + int n)
          in if n = 0 then Some (Value None)
             else if wire = 4 then
               if depth - 1 = 0
               then Some (Value (if drop_bit 3 tag \<noteq> field then None else Some i))
               else groupLoop b field i1 (depth - 1)
             else
               case skipValue b i1 wire depth of
                 None \<Rightarrow> Some (Value None)
               | Some (i2, depth2) \<Rightarrow>
                   if int (length b) < i2 then Some (Value None) else groupLoop b field i2 depth2
      else Some (Value None))"

definition groupEnd :: "bytes \<Rightarrow> int \<Rightarrow> u64 \<Rightarrow> int option outcome option" where
  "groupEnd b start field = groupLoop b field start 1"

definition looksNested :: "bytes \<Rightarrow> bool" where
  "looksNested b \<longleftrightarrow>
     2 \<le> length b \<and>
     (let (tag, n) = uvarint b; field = drop_bit 3 tag in 0 < n \<and> 0 < field \<and> field < 40 \<and> tag AND 7 \<le> 5)"

definition isPrintable :: "bytes \<Rightarrow> bool" where
  "isPrintable b \<longleftrightarrow> b \<noteq> [] \<and> list_all (\<lambda>c. 0x20 \<le> c \<and> c \<le> 0x7E) b"

definition shortHex :: "bytes \<Rightarrow> string" where
  "shortHex b = (if 48 < length b then hexEncode (take 48 b) @ ''...'' else hexEncode b)"

text \<open>\<open>%q\<close> of printable ASCII.\<close>

definition quoted :: "bytes \<Rightarrow> string" where
  "quoted b =
     CHR 0x22 #
     concat (map (\<lambda>c. let x = char_of (unat c) in if x = CHR 0x22 \<or> x = CHR 0x5C then [CHR 0x5C, x] else [x]) b) @
     [CHR 0x22]"

definition newline :: char where "newline = CHR 0x0A"

definition fieldLine :: "string \<Rightarrow> u64 \<Rightarrow> string \<Rightarrow> string" where
  "fieldLine indent field t = indent @ ''field '' @ decimal (unat field) @ ''  '' @ t @ [newline]"

definition le_nat :: "bytes \<Rightarrow> nat" where
  "le_nat bs = be_nat (rev bs)"

partial_function (option) describeLoop :: "bytes \<Rightarrow> string \<Rightarrow> int \<Rightarrow> string \<Rightarrow> string outcome option" where
  "describeLoop b indent i sb =
     (if i < int (length b) then
        let (tag, n) = uvarint (drop (nat i) b); field = drop_bit 3 tag; wire = tag AND 7; i1 = i + int n
        in if n = 0
           then Some (Value (sb @ indent @ ''<undecodable tail '' @ decimal (nat (int (length b) - i)) @ '' bytes>'' @ [newline]))
           else if wire = 0 then
             let (v, m) = uvarint (drop (nat i1) b)
             in if m = 0 then Some (Value sb)
                else describeLoop b indent (i1 + int m) (sb @ fieldLine indent field (''varint  '' @ decimal (unat v)))
           else if wire = 2 then
             let (ln, m) = uvarint (drop (nat i1) b); lo = i1 + int m; hi = goInt (lo + sint ln)
             in if m = 0 \<or> int (length b) < hi then Some (Value sb)
                else if hi < lo then Some Panic
                else
                  let val = slice (nat lo) (nat hi) b
                  in if isPrintable val
                     then describeLoop b indent hi (sb @ fieldLine indent field (''string  '' @ quoted val))
                     else if val = []
                     then describeLoop b indent hi (sb @ fieldLine indent field ''bytes   (empty)'')
                     else
                       Option.bind (describeLoop val (indent @ ''    '') 0 '''') (\<lambda>r.
                         case r of
                           Panic \<Rightarrow> Some Panic
                         | Value sub \<Rightarrow>
                             describeLoop b indent hi
                               (sb @ fieldLine indent field (''bytes   '' @ decimal (length val) @ '': '' @ shortHex val) @
                                (if newline \<in> set sub \<and> looksNested val then sub else '''')))
           else if wire = 5 then
             if int (length b) < i1 + 4 then Some (Value sb)
             else describeLoop b indent (i1 + 4)
                    (sb @ fieldLine indent field (''fixed32 '' @ decimal (le_nat (slice (nat i1) (nat i1 + 4) b))))
           else if wire = 1 then
             if int (length b) < i1 + 8 then Some (Value sb)
             else describeLoop b indent (i1 + 8)
                    (sb @ fieldLine indent field (''fixed64 '' @ decimal (le_nat (slice (nat i1) (nat i1 + 8) b))))
           else if wire = 3 then
             Option.bind (groupEnd b i1 field) (\<lambda>g.
               case g of
                 Panic \<Rightarrow> Some Panic
               | Value None \<Rightarrow> Some (Value (sb @ fieldLine indent field ''group   <unterminated>''))
               | Value (Some fin) \<Rightarrow>
                   if fin < i1 then Some Panic
                   else
                     Option.bind (describeLoop (slice (nat i1) (nat fin) b) (indent @ ''    '') 0 '''') (\<lambda>r.
                       case r of
                         Panic \<Rightarrow> Some Panic
                       | Value sub \<Rightarrow>
                           describeLoop b indent (fin + int (snd (uvarint (drop (nat fin) b))))
                             (sb @ fieldLine indent field ''group'' @ sub)))
           else if wire = 4 then Some (Value sb)
           else Some (Value (sb @ indent @ ''<wire type '' @ decimal (unat wire) @ '', stopping>'' @ [newline]))
      else Some (Value sb))"

definition describeProto :: "bytes \<Rightarrow> string \<Rightarrow> string outcome option" where
  "describeProto b indent = describeLoop b indent 0 ''''"

declare fieldsLoop.simps [code] groupLoop.simps [code] describeLoop.simps [code]


subsection \<open>Reading what was written\<close>

lemma septet_bytes:
  assumes "m < 128"
  shows "(word_of_nat (m + 128) :: byte) AND 0x80 \<noteq> 0" "(word_of_nat m :: byte) AND 0x80 = 0"
    and "(ucast ((word_of_nat (m + 128) :: byte) AND 0x7F) :: u64) = word_of_nat m"
    and "(ucast ((word_of_nat m :: byte) AND 0x7F) :: u64) = word_of_nat m"
proof -
  have m7: "0x7F = (mask 7 :: byte)" and m8: "0x80 = (push_bit 7 1 :: byte)" by (simp_all add: mask_eq_exp_minus_1)
  have u: "unat (word_of_nat m :: byte) = m" "unat (word_of_nat (m + 128) :: byte) = m + 128"
    using assms by (simp_all add: unat_of_nat del: of_nat_add)
  have low: "\<not> bit m 7"
    using assms by (simp add: bit_iff_odd_drop_bit drop_bit_eq_div)
  have "(m + 128) div 128 = 1" using assms div_add_self2 [of 128 m] by simp
  then have high: "bit (m + 128) (7 :: nat)"
    by (simp add: bit_iff_odd_drop_bit drop_bit_eq_div)
  then have "bit ((word_of_nat (m + 128) :: byte) AND 0x80) 7"
    by (simp add: m8 bit_simps del: of_nat_add push_bit_of_1)
  then show "(word_of_nat (m + 128) :: byte) AND 0x80 \<noteq> 0" by (metis bit_0_eq bot_apply bot_bool_def)
  show "(word_of_nat m :: byte) AND 0x80 = 0"
  proof (rule bit_word_eqI)
    fix k assume "k < LENGTH(8)"
    then have "7 \<le> k \<Longrightarrow> k = 7" by simp
    with low show "bit ((word_of_nat m :: byte) AND 0x80) k = bit (0 :: byte) k"
      by (auto simp: m8 bit_simps simp del: push_bit_of_1)
  qed
  have "take_bit 7 m = m" "take_bit 7 (m + 128) = m"
    using assms by (simp_all add: take_bit_eq_mod)
  then have "take_bit 7 (word_of_nat m :: byte) = word_of_nat m" "take_bit 7 (word_of_nat (m + 128) :: byte) = word_of_nat m"
    by (metis of_nat_take_bit)+
  then show "(ucast ((word_of_nat (m + 128) :: byte) AND 0x7F) :: u64) = word_of_nat m"
    "(ucast ((word_of_nat m :: byte) AND 0x7F) :: u64) = word_of_nat m"
    using assms by (simp_all add: m7 unsigned_of_nat take_bit_eq_mod flip: take_bit_eq_mask del: of_nat_add)
qed

lemma push_septets:
  "push_bit s (word_of_nat (n mod 128) :: u64) OR push_bit (s + 7) (word_of_nat (n div 128)) =
     push_bit s (word_of_nat n)"
proof -
  have "n mod 128 = take_bit 7 n" "n div 128 = drop_bit 7 n"
    by (simp_all add: take_bit_eq_mod drop_bit_eq_div)
  note septets = this
  show ?thesis
  proof (rule bit_word_eqI)
    fix k
    have "\<not> k - s < 7 \<Longrightarrow> 7 + (k - (s + 7)) = k - s" by simp
    then show "bit (push_bit s (word_of_nat (n mod 128) :: u64) OR push_bit (s + 7) (word_of_nat (n div 128))) k =
        bit (push_bit s (word_of_nat n :: u64)) k"
      unfolding septets by (cases "k - s < 7") (auto simp: bit_simps)
  qed
qed

lemma uvarintFrom_leb128:
  "n < 2 ^ (64 - 7 * i) \<Longrightarrow> i \<le> 9 \<Longrightarrow>
     uvarintFrom (leb128 n @ rest) i v (7 * i) = (v OR push_bit (7 * i) (word_of_nat n), i + length (leb128 n))"
proof (induction n arbitrary: i v rule: leb128.induct)
  case (1 n)
  show ?case
  proof (cases "n < 128")
    case True
    then show ?thesis
      using 1(3) by (simp add: leb128.simps [of n] septet_bytes Let_def)
  next
    case False
    have "i \<noteq> 9" using 1(2) False by auto
    with 1(3) have i: "Suc i \<le> 9" by simp
    have e: "64 - 7 * i = (64 - 7 * Suc i) + 7" using i by simp
    have "n < 2 ^ (64 - 7 * Suc i) * 2 ^ 7" using 1(2) unfolding e power_add .
    then have "n div 128 < 2 ^ (64 - 7 * Suc i)" by (intro less_mult_imp_div_less) simp
    then have step: "uvarintFrom (leb128 (n div 128) @ rest) (Suc i) v' (7 * i + 7) =
       (v' OR push_bit (7 * i + 7) (word_of_nat (n div 128)), Suc i + length (leb128 (n div 128)))" for v'
      using 1(1) [OF False _ i, of v'] by (simp only: mult_Suc_right add.commute [of 7])
    have "uvarintFrom (leb128 n @ rest) i v (7 * i) =
      uvarintFrom (leb128 (n div 128) @ rest) (Suc i) (v OR push_bit (7 * i) (word_of_nat (n mod 128))) (7 * i + 7)"
      using False 1(3) septet_bytes(1,3) [of "n mod 128"] by (simp add: leb128.simps [of n] Let_def del: of_nat_add)
    also have "\<dots> = (v OR push_bit (7 * i) (word_of_nat n), Suc i + length (leb128 (n div 128)))"
      by (simp add: step or.assoc push_septets)
    finally show ?thesis using False by (simp add: leb128.simps [of n])
  qed
qed

lemma uvarint_leb128 [simp]: "uvarint (leb128 (unat v) @ rest) = (v, length (leb128 (unat v)))"
  using uvarintFrom_leb128 [of "unat v" 0 rest 0] unsigned_less [of v, where 'a = nat]
  by (simp add: uvarint_def)

text \<open>
  The protocol buffer wire format: a message is a sequence of fields, each a tag with the number of the field
  and its wire type, followed by its value. A group is a start field, fields, and an end field.
\<close>

datatype wfield =
    WVarint nat u64 | WFixed64 nat bytes | WFixed32 nat bytes | WBytes nat bytes | WStart nat | WEnd nat

fun wnumber :: "wfield \<Rightarrow> nat" where
  "wnumber (WVarint n _) = n" | "wnumber (WFixed64 n _) = n" | "wnumber (WFixed32 n _) = n"
| "wnumber (WBytes n _) = n" | "wnumber (WStart n) = n" | "wnumber (WEnd n) = n"

fun wtype :: "wfield \<Rightarrow> nat" where
  "wtype (WVarint _ _) = 0" | "wtype (WFixed64 _ _) = 1" | "wtype (WBytes _ _) = 2"
| "wtype (WStart _) = 3" | "wtype (WEnd _) = 4" | "wtype (WFixed32 _ _) = 5"

fun wvalue :: "wfield \<Rightarrow> bytes" where
  "wvalue (WVarint _ v) = leb128 (unat v)" | "wvalue (WFixed64 _ bs) = bs" | "wvalue (WFixed32 _ bs) = bs"
| "wvalue (WBytes _ bs) = leb128 (length bs) @ bs" | "wvalue (WStart _) = []" | "wvalue (WEnd _) = []"

definition wencode :: "wfield \<Rightarrow> bytes" where
  "wencode f = leb128 (8 * wnumber f + wtype f) @ wvalue f"

definition wencodeAll :: "wfield list \<Rightarrow> bytes" where
  "wencodeAll fs = concat (map wencode fs)"

fun wfield_ok :: "wfield \<Rightarrow> bool" where
  "wfield_ok (WFixed64 n bs) \<longleftrightarrow> 0 < n \<and> n < 2 ^ 29 \<and> length bs = 8"
| "wfield_ok (WFixed32 n bs) \<longleftrightarrow> 0 < n \<and> n < 2 ^ 29 \<and> length bs = 4"
| "wfield_ok f \<longleftrightarrow> 0 < wnumber f \<and> wnumber f < 2 ^ 29"

fun wdepth :: "wfield \<Rightarrow> int \<Rightarrow> int" where
  "wdepth (WStart _) d = d + 1" | "wdepth (WEnd _) d = d - 1" | "wdepth _ d = d"

text \<open>Every group that is ended was started, and every group that is started is ended.\<close>

fun balanced :: "int \<Rightarrow> wfield list \<Rightarrow> bool" where
  "balanced d [] \<longleftrightarrow> d = 0"
| "balanced d (f # fs) \<longleftrightarrow> 0 \<le> wdepth f d \<and> balanced (wdepth f d) fs"

definition wtag :: "wfield \<Rightarrow> u64" where
  "wtag f = word_of_nat (8 * wnumber f + wtype f)"

lemma wtag_parts:
  assumes "wfield_ok f"
  shows "unat (wtag f) = 8 * wnumber f + wtype f" "drop_bit 3 (wtag f) \<noteq> 0" "wtag f AND 7 = word_of_nat (wtype f)"
proof -
  have n: "0 < wnumber f" "wnumber f < 2 ^ 29" "wtype f < 8" using assms by (cases f; simp)+
  then show u: "unat (wtag f) = 8 * wnumber f + wtype f"
    by (simp add: wtag_def unat_of_nat del: of_nat_add of_nat_mult)
  have "unat (drop_bit 3 (wtag f)) = wnumber f"
    using n u by (simp add: drop_bit_eq_div unat_div_distrib)
  with n(1) show "drop_bit 3 (wtag f) \<noteq> 0" by (metis less_irrefl unat_0)
  have "(7 :: u64) = mask 3" by (simp add: mask_eq_exp_minus_1)
  moreover have "unat (take_bit 3 (wtag f)) = unat (word_of_nat (wtype f) :: u64)"
    using n u by (simp add: take_bit_eq_mod unat_mod_distrib unat_of_nat)
  ultimately show "wtag f AND 7 = word_of_nat (wtype f)"
    by (metis take_bit_eq_mask word_unat_eq_iff)
qed

lemma wencode_tag: "wfield_ok f \<Longrightarrow> wencode f = leb128 (unat (wtag f)) @ wvalue f"
  by (simp add: wencode_def wtag_parts)

lemma leb128_nonempty: "leb128 n \<noteq> []"
  by (subst leb128.simps) simp

text \<open>What the scanning loops do at the start of a well-formed field.\<close>

lemma skipValue_field:
  assumes "length (pre @ tg @ wvalue f @ rest) < 2 ^ 62" "wtype f \<noteq> 4" "wfield_ok f"
  shows "skipValue (pre @ tg @ wvalue f @ rest) (int (length pre) + int (length tg)) (word_of_nat (wtype f)) d =
    Some (int (length pre) + int (length tg) + int (length (wvalue f)), wdepth f d)"
proof (cases f)
  case (WBytes n bs)
  then have "length bs < 2 ^ 62" using assms(1) by simp
  then have u: "unat (word_of_nat (length bs) :: u64) = length bs" by (simp add: unat_of_nat)
  then have "sint (word_of_nat (length bs) :: u64) = int (length bs)"
    using \<open>length bs < 2 ^ 62\<close> by (simp add: sint_uint uint_nat signed_take_bit_int_eq_self)
  moreover have "uvarint (leb128 (length bs) @ bs @ rest) = (word_of_nat (length bs), length (leb128 (length bs)))"
    using uvarint_leb128 [of "word_of_nat (length bs)" "bs @ rest"] u by simp
  ultimately show ?thesis
    using WBytes assms(1) leb128_nonempty [of "length bs"]
    by (simp add: skipValue_def goInt_id nat_add_distrib)
qed (use assms leb128_nonempty in \<open>auto simp: skipValue_def goInt_id nat_add_distrib\<close>)

lemma fieldsLoop_field:
  assumes "wfield_ok f" "length (pre @ wencode f @ rest) < 2 ^ 62" "0 \<le> d"
  shows "fieldsLoop (pre @ wencode f @ rest) (int (length pre)) k d =
    (if 0 \<le> wdepth f d then fieldsLoop (pre @ wencode f @ rest) (int (length (pre @ wencode f))) (Suc k) (wdepth f d)
     else Some (Value False))"
proof -
  define tg where "tg = leb128 (unat (wtag f))"
  have enc: "wencode f = tg @ wvalue f" "tg \<noteq> []"
    using wencode_tag [OF assms(1)] leb128_nonempty by (simp_all add: tg_def)
  have uv: "uvarint (tg @ wvalue f @ rest) = (wtag f, length tg)" by (simp add: tg_def)
  have len: "length (pre @ tg @ wvalue f @ rest) < 2 ^ 62" using assms(2) enc by simp
  then have i1: "goInt (int (length pre) + int (length tg)) = int (length pre) + int (length tg)"
    by (simp add: goInt_id)
  note parts = wtag_parts(2,3) [OF assms(1)]
  have pos: "0 < int (length tg)" using enc(2) by simp
  then have in_b: "0 < int (length tg) + int (length rest)"
    "0 < int (length tg) + (int (length (wvalue f)) + int (length rest))" by linarith+
  show ?thesis
  proof (cases "wtype f = 4")
    case True
    then obtain n where "f = WEnd n" by (cases f) simp_all
    with assms(3) parts uv i1 enc in_b show ?thesis
      by (subst fieldsLoop.simps) (simp add: Let_def)
  next
    case False
    moreover have "0 \<le> wdepth f d" "(word_of_nat (wtype f) :: u64) \<noteq> 4"
      using False assms(3) by (cases f; simp)+
    moreover note skipValue_field [OF len False assms(1), of d]
    ultimately show ?thesis
      using parts uv i1 enc in_b by (subst fieldsLoop.simps) (simp add: Let_def add.assoc)
  qed
qed

lemma fieldsLoop_fields:
  "list_all wfield_ok fs \<Longrightarrow> length (pre @ wencodeAll fs) < 2 ^ 62 \<Longrightarrow> 0 \<le> d \<Longrightarrow>
     fieldsLoop (pre @ wencodeAll fs) (int (length pre)) k d = Some (Value (balanced d fs \<and> 0 < k + length fs))"
proof (induction fs arbitrary: pre k d)
  case Nil
  then show ?case by (subst fieldsLoop.simps) (simp add: wencodeAll_def conj_commute)
next
  case (Cons f fs)
  then show ?case
    using fieldsLoop_field [of f pre "wencodeAll fs" d k] Cons.IH [of "pre @ wencode f" "wdepth f d" "Suc k"]
    by (simp add: wencodeAll_def)
qed

subsection \<open>When the test for a message ends\<close>

text \<open>
  No run of bytes in \<open>b\<close> reads as a varint of \<open>2\<close> to the \<open>61\<close> or more: what is true of every capture of real
  traffic.
\<close>

definition tame :: "bytes \<Rightarrow> bool" where
  "tame b \<longleftrightarrow> length b < 2 ^ 62 \<and> (\<forall>k. uint (fst (uvarint (drop k b))) < 2 ^ 61)"

lemma uvarintFrom_bound: "snd (uvarintFrom b i v s) \<le> i + length b \<and> snd (uvarintFrom b i v s) \<le> 10"
  by (induction b i v s rule: uvarintFrom.induct) (auto simp: Let_def)

lemma uvarint_bound: "snd (uvarint b) \<le> length b" "snd (uvarint b) \<le> 10"
  using uvarintFrom_bound [of b 0 0 0] by (simp_all add: uvarint_def)

lemma sint_of_len: "uint (w :: u64) < 2 ^ 61 \<Longrightarrow> sint w = uint w"
proof -
  assume "uint w < 2 ^ 61"
  then have "uint w < 2 ^ 63" by simp
  moreover have "- (2 ^ 63) \<le> uint w" by (rule order_trans [of _ 0]) simp_all
  ultimately have "signed_take_bit 63 (uint w) = uint w" by (intro signed_take_bit_int_eq_self)
  then show ?thesis by (simp add: sint_uint)
qed

lemma tame_bounds:
  assumes "tame b" "uvarint (drop k b) = (v, n)"
  shows "int n \<le> 10" "0 \<le> uint v" "uint v < 2305843009213693952" "int (length b) < 4611686018427387904" "sint v = uint v"
proof -
  have v: "uint v < 2 ^ 61" and "length b < 2 ^ 62"
    using assms by (auto simp: tame_def dest: spec [of _ k])
  moreover have "n \<le> 10" using uvarint_bound(2) [of "drop k b"] assms(2) by simp
  ultimately show "int n \<le> 10" "0 \<le> uint v" "uint v < 2305843009213693952" "int (length b) < 4611686018427387904"
    "sint v = uint v"
    using sint_of_len [OF v] by simp_all
qed

lemma skipValue_forward:
  assumes "tame b" "0 \<le> i" "i \<le> int (length b)" "skipValue b i wire d = Some (i', d')"
  shows "i \<le> i'"
proof -
  obtain v n where uv: "uvarint (drop (nat i) b) = (v, n)" by fastforce
  note bounds = tame_bounds [OF assms(1) uv]
  have "goInt (int n + uint v) = int n + uint v" "goInt (i + (int n + uint v)) = i + (int n + uint v)"
    "goInt (i + int n) = i + int n" "goInt (i + 8) = i + 8" "goInt (i + 4) = i + 4"
    by (intro goInt_nonneg; use bounds assms(2,3) in linarith)+
  with assms(4) uv bounds show ?thesis by (auto simp: skipValue_def split: if_splits)
qed

lemma offset_after:
  assumes "tame b" "0 \<le> i" "i < int (length b)" "uvarint (drop (nat i) b) = (v, n)"
  shows "i + int n \<le> int (length b)" "goInt (i + int n) = i + int n"
proof -
  have "n \<le> length b - nat i" using uvarint_bound(1) [of "drop (nat i) b"] assms(4) by simp
  then show le: "i + int n \<le> int (length b)" using assms(2,3) by linarith
  show "goInt (i + int n) = i + int n"
    using assms(1,2) le by (simp add: tame_def goInt_id)
qed

lemma fieldsLoop_ends:
  assumes "tame b" "0 \<le> i" "i \<le> int (length b)"
  shows "\<exists>r. fieldsLoop b i k d = Some (Value r)"
  using assms(2,3)
proof (induction "nat (int (length b) - i)" arbitrary: i k d rule: less_induct)
  case less
  show ?case
  proof (cases "i < int (length b)")
    case True
    obtain tag n where uv: "uvarint (drop (nat i) b) = (tag, n)" by fastforce
    note off = offset_after [OF assms(1) less.prems(1) True uv]
    have next_ok: "\<exists>r. fieldsLoop b i' (Suc k) d' = Some (Value r)"
      if "0 < n" "i + int n \<le> i'" "i' \<le> int (length b)" for i' d'
      using that less.prems True by (intro less.hyps) auto
    have "i + int n \<le> i'" if "skipValue b (i + int n) w d = Some (i', d')" for w i' d'
      using skipValue_forward [OF assms(1) _ off(1) that] less.prems by simp
    with uv off less.prems True next_ok show ?thesis
      by (subst fieldsLoop.simps) (auto simp: Let_def not_less split: option.split)
  qed (subst fieldsLoop.simps, simp)
qed

lemma fields_recognised:
  assumes "list_all wfield_ok fs" "length (wencodeAll fs) < 2 ^ 62"
  shows "parsesCleanly (wencodeAll fs) = Some (Value (fs \<noteq> [] \<and> balanced 0 fs))"
proof -
  have "fs \<noteq> [] \<Longrightarrow> wencodeAll fs \<noteq> []"
    using leb128_nonempty by (cases fs) (auto simp: wencodeAll_def wencode_def)
  then show ?thesis
    using fieldsLoop_fields [of fs "[]" 0 0] assms
    by (cases "fs = []") (auto simp: parsesCleanly_def wencodeAll_def)
qed

text \<open>
  C36: the test whether bytes are a protocol buffer message is right about every message. On the encoding of
  any sequence of fields, of all wire types including nested groups, it ends and says yes exactly if
  there is a field and the groups are balanced. On other bytes it ends with an answer as well, as long as
  no varint in them is of the order of \<open>2\<close> to the \<open>61\<close>.
\<close>

theorem recognises_messages:
  assumes "list_all wfield_ok fs" "length (wencodeAll fs) < 2 ^ 62" "tame junk"
  shows "parsesCleanly (wencodeAll fs) = Some (Value (fs \<noteq> [] \<and> balanced 0 fs)) \<and>
    (\<exists>r. parsesCleanly junk = Some (Value r))"
  using fields_recognised [OF assms(1,2)] fieldsLoop_ends [OF assms(3), of 0 0 0] by (auto simp: parsesCleanly_def)

definition demo_fields :: "wfield list" where
  "demo_fields = [WVarint 1 300, WStart 2, WBytes 3 [0x41], WEnd 2]"

theorem recognises_messages_witness:
  "parsesCleanly [0x08, 0xAC, 0x02, 0x13, 0x1A, 0x01, 0x41, 0x14] = Some (Value True) \<and>
   (\<exists>r. parsesCleanly [0x0F] = Some (Value r))"
proof -
  have "wencodeAll demo_fields = [0x08, 0xAC, 0x02, 0x13, 0x1A, 0x01, 0x41, 0x14]"
    by (simp add: demo_fields_def wencodeAll_def wencode_def leb128.simps)
  moreover have "list_all wfield_ok demo_fields" "demo_fields \<noteq> []" "balanced 0 demo_fields"
    by (simp_all add: demo_fields_def)
  moreover have "tame [0x0F]"
    by (auto simp: tame_def uvarint_def drop_Cons' Let_def)
  ultimately show ?thesis
    using recognises_messages [of demo_fields "[0x0F]"] by simp
qed

text \<open>
  A length that is negative as an \<open>int\<close> takes the loop back. Eleven bytes before the end of its own varint it
  is the start of the field again, and the test never ends; one byte further back the slice expression
  panics.
\<close>

definition backwards :: "byte \<Rightarrow> bytes" where
  "backwards low = [0x0A, low, 0xFF, 0xFF, 0xFF, 0xFF, 0xFF, 0xFF, 0xFF, 0xFF, 0x01]"

lemma backwards_step:
  "uvarint (backwards low) = (0x0A, 1)"
  "uvarint (tl (backwards 0xF5)) = (0xFFFFFFFFFFFFFFF5, 10)" "uvarint (tl (backwards 0xF4)) = (0xFFFFFFFFFFFFFFF4, 10)"
  by (simp_all add: backwards_def uvarint_def)

lemma backwards_loops:
  "fieldsLoop b i k d = Some r \<Longrightarrow> \<not> (b = backwards 0xF5 \<and> i = 0)"
proof (induction b i k d r rule: fieldsLoop.raw_induct [rotated, consumes 1, case_names step])
  case 1: (step loop b i k d r)
  show ?case
  proof
    assume at: "b = backwards 0xF5 \<and> i = 0"
    have "drop (nat 1) (backwards 0xF5) = tl (backwards 0xF5)" by (simp add: backwards_def)
    moreover have "goInt 1 = 1" "goInt (1 + goInt (10 + sint (0xFFFFFFFFFFFFFFF5 :: u64))) = 0"
      by (simp_all add: goInt_def)
    moreover have "0 < int (length (backwards 0xF5))" by (simp add: backwards_def)
    ultimately have "loop (backwards 0xF5) 0 (k + 1) d = Some r"
      using at 1(2) by (simp add: backwards_step skipValue_def Let_def)
    with 1(1) show False by blast
  qed
qed

lemma parse_may_hang_or_panic:
  "parsesCleanly (backwards 0xF5) = None \<and> parsesCleanly (backwards 0xF4) = Some Panic"
proof
  show "parsesCleanly (backwards 0xF5) = None"
    using backwards_loops [of "backwards 0xF5" 0 0 0]
    by (cases "fieldsLoop (backwards 0xF5) 0 0 0") (simp_all add: parsesCleanly_def backwards_def)
  show "parsesCleanly (backwards 0xF4) = Some Panic"
    by code_simp
qed

subsection \<open>Rendering ends\<close>

lemma uvarintFrom_take: "uvarintFrom (take m b) i v s \<in> {uvarintFrom b i v s, (0, 0)}"
proof (induction b i v s arbitrary: m rule: uvarintFrom.induct)
  case (2 c cs i v s)
  show ?case
  proof (cases m)
    case (Suc m')
    with 2 [of "v OR push_bit s (ucast (c AND 0x7F))" m'] show ?thesis by (simp add: Let_def)
  qed simp
qed simp

lemma tame_slice:
  assumes "tame b"
  shows "tame (slice lo hi b)"
proof -
  have "uint (fst (uvarint (drop k (slice lo hi b)))) < 2 ^ 61" for k
  proof -
    have "drop k (slice lo hi b) = take (hi - lo - k) (drop (lo + k) b)"
      by (simp add: slice_def drop_take add.commute)
    then have "uvarint (drop k (slice lo hi b)) \<in> {uvarint (drop (lo + k) b), (0, 0)}"
      using uvarintFrom_take [of "hi - lo - k" "drop (lo + k) b" 0 0 0] by (simp add: uvarint_def)
    with assms show ?thesis by (auto simp: tame_def)
  qed
  with assms show ?thesis by (auto simp: tame_def length_slice min_def)
qed

lemma groupLoop_ends:
  assumes "tame b" "0 \<le> i" "i \<le> int (length b)"
  shows "\<exists>g. groupLoop b f i d = Some (Value g) \<and> (\<forall>e. g = Some e \<longrightarrow> i \<le> e \<and> e \<le> int (length b))"
  using assms(2,3)
proof (induction "nat (int (length b) - i)" arbitrary: i d rule: less_induct)
  case less
  show ?case
  proof (cases "i < int (length b)")
    case True
    obtain tag n where uv: "uvarint (drop (nat i) b) = (tag, n)" by fastforce
    note off = offset_after [OF assms(1) less.prems(1) True uv]
    have next_ok: "\<exists>g. groupLoop b f i' d' = Some (Value g) \<and> (\<forall>e. g = Some e \<longrightarrow> i \<le> e \<and> e \<le> int (length b))"
      if "0 < n" "i + int n \<le> i'" "i' \<le> int (length b)" for i' d'
      using less.hyps [of i' d'] that less.prems True by fastforce
    have "i + int n \<le> i'" if "skipValue b (i + int n) w d = Some (i', d')" for w i' d'
      using skipValue_forward [OF assms(1) _ off(1) that] less.prems by simp
    with uv off less.prems True next_ok show ?thesis
      by (subst groupLoop.simps) (auto simp: Let_def not_less split: option.split)
  qed (subst groupLoop.simps, simp)
qed

lemma describeLoop_ends:
  assumes "tame b" "0 \<le> i"
  shows "\<exists>t. describeLoop b indent i sb = Some (Value t)"
  using assms
proof (induction "nat (int (length b) - i)" arbitrary: b i indent sb rule: less_induct)
  case less
  note tm = \<open>tame b\<close> and nn = \<open>0 \<le> i\<close>
  show ?case
  proof (cases "i < int (length b)")
    case True
    obtain tag n where uv: "uvarint (drop (nat i) b) = (tag, n)" by fastforce
    note off = offset_after(1) [OF tm nn True uv]
    obtain v m where uv1: "uvarint (drop (nat (i + int n)) b) = (v, m)" by fastforce
    have onwards: "\<exists>t. describeLoop b indent' i' sb' = Some (Value t)" if "0 < n" "i + int n \<le> i'" for i' indent' sb'
      using that nn True by (intro less.hyps [OF _ tm]) auto
    have nested: "\<exists>t. describeLoop (slice (nat lo) (nat hi) b) indent' 0 sb' = Some (Value t)"
      if "0 < n" "i + int n \<le> lo" for lo hi indent' sb'
      using that nn True by (intro less.hyps [OF _ tame_slice [OF tm]]) (auto simp: length_slice)
    have grp: "\<exists>g. groupEnd b (i + int n) f = Some (Value g) \<and> (\<forall>e. g = Some e \<longrightarrow> i + int n \<le> e \<and> e \<le> int (length b))" for f
      unfolding groupEnd_def using nn off by (intro groupLoop_ends [OF tm]) auto
    have len: "goInt (i + int n + int m + sint v) = i + int n + int m + uint v"
      unfolding tame_bounds(5) [OF tm uv1] using tame_bounds [OF tm uv1] nn off by (intro goInt_nonneg) linarith+
    consider "n = 0" | "0 < n" "tag AND 7 = 3" | "0 < n" "tag AND 7 = 2" | "0 < n" "tag AND 7 \<noteq> 2" "tag AND 7 \<noteq> 3" by blast
    then show ?thesis
    proof cases
      case 1
      with True uv show ?thesis by (subst describeLoop.simps) simp
    next
      case 2
      obtain g where g: "groupEnd b (i + int n) (drop_bit 3 tag) = Some (Value g)"
        "\<And>e. g = Some e \<Longrightarrow> i + int n \<le> e \<and> e \<le> int (length b)" using grp by blast
      show ?thesis
      proof (cases g)
        case None
        with True uv 2 g show ?thesis by (subst describeLoop.simps) (simp add: Let_def)
      next
        case (Some e)
        obtain sub where "describeLoop (slice (nat (i + int n)) (nat e) b) (indent @ ''    '') 0 '''' = Some (Value sub)"
          using nested [OF 2(1), of "i + int n" e] by blast
        with True uv 2 g Some onwards [OF 2(1), of "e + int (snd (uvarint (drop (nat e) b)))"] show ?thesis
          by (subst describeLoop.simps) (simp add: Let_def)
      qed
    next
      case 3
      let ?lo = "i + int n + int m" and ?hi = "i + int n + int m + uint v"
      obtain sub where "describeLoop (slice (nat ?lo) (nat ?hi) b) (indent @ ''    '') 0 '''' = Some (Value sub)"
        using nested [OF 3(1), of ?lo ?hi] by auto
      with True uv uv1 3 len onwards [OF 3(1), of ?hi] show ?thesis
        by (subst describeLoop.simps) (simp add: Let_def)
    next
      case 4
      with True uv uv1 onwards show ?thesis
        by (subst describeLoop.simps) (simp add: Let_def)
    qed
  qed (subst describeLoop.simps, simp)
qed

lemma describeProto_ends: "tame b \<Longrightarrow> \<exists>t. describeProto b indent = Some (Value t)"
  unfolding describeProto_def by (rule describeLoop_ends) simp_all

end
