(* ===== verification/Capture_Tools.thy ===== *)
theory Capture_Tools
  imports Capture_Proto Rudp_Message Config_Load Rsa_Keys
begin

section \<open>Reading captured game traffic\<close>

text \<open>
  The offline tools that read a capture: cmd/corpus (decrypt every datagram, reassemble and inflate the
  messages, file each under its opcode), cmd/decodecap (print the datagrams) and cmd/verifykey (find the key that
  decrypts a datagram). AES is a parameter as elsewhere; so are zlib, \<open>strconv.ParseFloat\<close> and the printing of times:
  capture times are of a type \<open>'t\<close> of their own.
\<close>

subsection \<open>Hexadecimal\<close>

text \<open>\<open>hex.DecodeString\<close>: pairs of digits of either case.\<close>

definition hexVal :: "char \<Rightarrow> nat option" where
  "hexVal c =
     (let n = of_char c in
      if 48 \<le> n \<and> n \<le> 57 then Some (n - 48)
      else if 97 \<le> n \<and> n \<le> 102 then Some (n - 87)
      else if 65 \<le> n \<and> n \<le> 70 then Some (n - 55)
      else None)"

fun hexDecode :: "string \<Rightarrow> bytes option" where
  "hexDecode [] = Some []"
| "hexDecode [c] = None"
| "hexDecode (a # b # cs) =
     (case (hexVal a, hexVal b) of
        (Some x, Some y) \<Rightarrow> map_option (Cons (word_of_nat (16 * x + y))) (hexDecode cs)
      | _ \<Rightarrow> None)"

text \<open>\<open>%x\<close> of a number, and \<open>%#04x\<close>: at least four digits after the prefix.\<close>

fun hexOf :: "nat \<Rightarrow> string" where
  "hexOf n = (if n < 16 then [hexDigit n] else hexOf (n div 16) @ [hexDigit (n mod 16)])"

declare hexOf.simps [simp del]

definition padLeft :: "nat \<Rightarrow> string \<Rightarrow> string" where
  "padLeft k s = replicate (k - length s) (CHR ''0'') @ s"

definition opcodeHex :: "u32 \<Rightarrow> string" where
  "opcodeHex op = ''0x'' @ padLeft 4 (hexOf (unat op))"


subsection \<open>Opcodes by name\<close>

definition opcodeNames :: "(u32 \<times> string) list" where
  "opcodeNames =
     [(0x0320, ''RequestSendMessageToPlayers''), (0x0386, ''RequestWaitForUserLogin''),
      (0x0389, ''ManagementTextMessage''), (0x038B, ''RegulationFileUpdatePushMessage''),
      (0x038C, ''PlayerInfoUploadConfigPushMessage''), (0x038D, ''ServerPing''),
      (0x0391, ''RequestCreateBloodstain''), (0x0392, ''RequestGetBloodstainList''),
      (0x0393, ''RequestGetDeadingGhost''), (0x0394, ''RequestCreateSign''), (0x0395, ''RequestUpdateSign''),
      (0x0396, ''RequestRemoveSign''), (0x0397, ''RequestGetSignList''), (0x0398, ''RequestSummonSign''),
      (0x039A, ''RequestRejectSign''), (0x039B, ''PushRequestSummonSign''),
      (0x039C, ''PushRequestRejectSign''), (0x039D, ''PushRequestRemoveSign''),
      (0x039E, ''RequestCreateMirrorKnightSign''), (0x039F, ''RequestUpdateMirrorKnightSign''),
      (0x03A0, ''RequestRemoveMirrorKnightSign''), (0x03A1, ''RequestGetMirrorKnightSignList''),
      (0x03A2, ''RequestSummonMirrorKnightSign''), (0x03A3, ''RequestBenchmarkThroughput''),
      (0x03A4, ''RequestRejectMirrorKnightSign''), (0x03A5, ''PushRequestSummonMirrorKnightSign''),
      (0x03A6, ''PushRequestRejectMirrorKnightSign''), (0x03A7, ''PushRequestRemoveMirrorKnightSign''),
      (0x03A8, ''RequestUpdatePlayerCharacter''), (0x03A9, ''RequestGetPlayerCharacter''),
      (0x03AA, ''PushRequestEvaluateBloodMessage''), (0x03AB, ''RequestCreateBloodMessage''),
      (0x03AC, ''RequestRemoveBloodMessage''), (0x03AD, ''RequestReentryBloodMessage''),
      (0x03AE, ''RequestGetBloodMessageList''), (0x03AF, ''RequestEvaluateBloodMessage''),
      (0x03B0, ''RequestGetBloodMessageEvaluation''), (0x03B1, ''RequestCreateGhostData''),
      (0x03B2, ''RequestGetGhostDataList''), (0x03B3, ''RequestGetLoginPlayerCharacter''),
      (0x03B6, ''RequestUpdateLoginPlayerCharacter''), (0x03B8, ''RequestUpdatePlayerStatus''),
      (0x03C6, ''RequestGetAnnounceMessageList''), (0x03C9, ''PushRequestNotifyRingBell''),
      (0x03CD, ''RequestNotifyKillEnemy''), (0x03CF, ''PushRequestVisit''),
      (0x03D0, ''PushRequestRejectVisit''), (0x03D1, ''PushRequestRemoveVisitor''),
      (0x03D2, ''RequestGetBreakInTargetList''), (0x03D3, ''RequestBreakInTarget''),
      (0x03D4, ''RequestRejectBreakInTarget''), (0x03D5, ''RequestGetVisitorList''),
      (0x03D6, ''RequestVisit''), (0x03D7, ''RequestRejectVisit''), (0x03D8, ''RequestNotifyMirrorKnight''),
      (0x03D9, ''RequestRegisterQuickMatch''), (0x03DA, ''RequestUnregisterQuickMatch''),
      (0x03DB, ''RequestUpdateQuickMatch''), (0x03DC, ''RequestSearchQuickMatch''),
      (0x03DD, ''RequestJoinQuickMatch''), (0x03DE, ''RequestRejectQuickMatch''),
      (0x03E1, ''PushRequestJoinQuickMatch''), (0x03E3, ''PushRequestRejectQuickMatch''),
      (0x03E5, ''PushRequestAllowQuickMatch''), (0x03E7, ''PushRequestRemoveQuickMatch''),
      (0x03E8, ''RequestNotifyJoinGuestPlayer''), (0x03E9, ''RequestNotifyLeaveGuestPlayer''),
      (0x03EA, ''RequestNotifyJoinSession''), (0x03EB, ''RequestNotifyLeaveSession''),
      (0x03EC, ''RequestGetAnnounceMessageList''), (0x03ED, ''RequestNotifyKillPlayer''),
      (0x03EE, ''RequestNotifyRingBell''), (0x03EF, ''PushRequestNotifyRingBell''),
      (0x03F0, ''RequestGetTotalDeathCount''), (0x03F1, ''RequestNotifyDeath''),
      (0x03F2, ''RequestNotifyOfflineDeathCount''), (0x03F3, ''RequestRegisterPowerStoneData''),
      (0x03F4, ''RequestGetPowerStoneRanking''), (0x03F5, ''RequestGetPowerStoneMyRanking''),
      (0x03F6, ''RequestNotifyKillEnemy''), (0x03F7, ''RequestNotifyBuyItem''),
      (0x03F8, ''RequestGetPowerStoneRankingRecordCount''), (0x03F9, ''RequestNotifyDisconnectSession''),
      (0x03FA, ''RequestGetRightMatchingArea''), (0x03FB, ''PushRequestBreakInTarget''),
      (0x03FC, ''PushRequestRejectBreakInTarget''), (0x03FD, ''PushRequestAllowBreakInTarget''),
      (0x03FF, ''RequestGetAreaBloodMessageList''), (0x0400, ''RequestGetAreaBloodstainList'')]"

definition opcodeName :: "u32 \<Rightarrow> string" where
  "opcodeName op = (case map_of opcodeNames op of Some n \<Rightarrow> n | None \<Rightarrow> ''unknown'')"

subsection \<open>Where the protocol buffer begins\<close>

definition pushIndex :: u32 where "pushIndex = 0xFFFFFFFF"
definition pushWrapperOpcode :: u32 where "pushWrapperOpcode = 0x0320"

definition pushID :: "bytes \<Rightarrow> u32 option" where
  "pushID body =
     (let b = (if 4 \<le> length body \<and> take 4 body = [0xFF, 0xFF, 0xFF, 0xFF] then drop 4 body else body)
      in if length b < 2 \<or> b ! 0 \<noteq> 0x08 then None
         else
           let (v, n) = uvarint (drop 1 b)
           in if n = 0 \<or> v = 0 \<or> 0xFFFF < v then None else Some (ucast v))"

fun probeOffsets :: "bytes \<Rightarrow> nat list \<Rightarrow> nat option outcome option" where
  "probeOffsets whole [] = Some (Value None)"
| "probeOffsets whole (off # offs) =
     (if length whole \<le> off then Some (Value None)
      else andThen (parsesCleanly (drop off whole)) (\<lambda>ok.
             if ok then Some (Value (Some off)) else probeOffsets whole offs))"

definition protoStart :: "bytes \<Rightarrow> nat option outcome option" where
  "protoStart whole =
     (let probe = probeOffsets whole [12, 28, 16, 20, 24, 32, 36, 40]
      in if msgHeaderSize \<le> length whole \<and> unat (get_be32 (slice 0 4 whole)) = msgHeaderSize then
           let off = (if get_be32 (slice 4 8 whole) = 0 then msgHeaderSize + msgRespHeaderSize else msgHeaderSize)
           in if off = length whole then Some (Value (Some off))
              else if off < length whole
              then andThen (parsesCleanly (drop off whole)) (\<lambda>ok. if ok then Some (Value (Some off)) else probe)
              else probe
         else probe)"


subsection \<open>Lines and fragments\<close>

definition parseTagged :: "(string \<Rightarrow> 't option) \<Rightarrow> 't \<Rightarrow> string \<Rightarrow> (string \<times> 't \<times> bytes) option" where
  "parseTagged parseFloat zero line =
     (case cut (CHR '' '') (trimSpace line) of
        None \<Rightarrow> None
      | Some (dir, rest) \<Rightarrow>
          let (ts, hx) =
            (case cut (CHR '' '') rest of
               None \<Rightarrow> (zero, rest)
             | Some (maybeTS, tail) \<Rightarrow>
                 (case parseFloat maybeTS of None \<Rightarrow> (zero, rest) | Some v \<Rightarrow> (v, tail)))
          in map_option (\<lambda>raw. (dir, ts, raw)) (hexDecode hx))"

record 't partial =
  pBuf :: bytes
  pTotal :: nat
  pGot :: nat
  pCompressed :: bool
  pInflated :: u32
  pTsFirst :: 't
  pTsLast :: 't

type_synonym 't assembler = "u16 \<rightharpoonup> 't partial"

definition newPartial :: "nat \<Rightarrow> bool \<Rightarrow> 't \<Rightarrow> 't partial" where
  "newPartial tot compressed ts =
     \<lparr>pBuf = [], pTotal = tot, pGot = 0, pCompressed = compressed, pInflated = 0, pTsFirst = ts, pTsLast = ts\<rparr>"

definition partialFor :: "'t partial option \<Rightarrow> bool \<Rightarrow> nat \<Rightarrow> bool \<Rightarrow> 't \<Rightarrow> 't partial" where
  "partialFor known isFirst tot compressed ts =
     (case known of
        None \<Rightarrow> newPartial tot compressed ts
      | Some p \<Rightarrow> if isFirst then newPartial tot compressed ts else p)\<lparr>pTsLast := ts\<rparr>"

text \<open>The part of \<open>push\<close> after the header: append the bytes there are, and complete.\<close>

definition asm_body ::
  "inflater \<Rightarrow> 't assembler \<Rightarrow> u16 \<Rightarrow> 't partial \<Rightarrow> bytes \<Rightarrow> (bytes \<times> 't \<times> 't) option \<times> 't assembler" where
  "asm_body inflate a ident p chunk =
     (if chunk = [] then (None, a(ident \<mapsto> p))
      else
        let q = p\<lparr>pBuf := pBuf p @ chunk, pGot := pGot p + length chunk\<rparr>
        in if pGot q < pTotal q then (None, a(ident \<mapsto> q))
           else if pCompressed q then
             (case inflate (pBuf q) of
                Inl err \<Rightarrow> (None, a(ident := None))
              | Inr out \<Rightarrow> (Some (out, pTsFirst q, pTsLast q), a(ident := None)))
           else (Some (pBuf q, pTsFirst q, pTsLast q), a(ident := None)))"

definition asm_push :: "inflater \<Rightarrow> 't assembler \<Rightarrow> bytes \<Rightarrow> 't \<Rightarrow> (bytes \<times> 't \<times> 't) option \<times> 't assembler" where
  "asm_push inflate a body ts =
     (if length body < 12 then (None, a)
      else
        let ident = get_be16 (slice 0 2 body); compressed = (body ! 2 \<noteq> 0);
            tot = unat (get_be16 (slice 6 8 body)); idx = body ! 9;
            fragLen = unat (get_be16 (slice 10 12 body));
            p = partialFor (a ident) (idx = 0) tot compressed ts;
            sized = (compressed \<and> idx = 0)
        in if sized \<and> length body < 16 then (None, a(ident \<mapsto> p))
           else if sized
           then asm_body inflate a ident (p\<lparr>pInflated := get_be32 (slice 12 16 body)\<rparr>) (slice 16 (16 + fragLen) body)
           else asm_body inflate a ident p (slice 12 (12 + fragLen) body))"


subsection \<open>The corpus\<close>

record 't capmsg =
  capDir :: string
  capOpcode :: u32
  capPayload :: bytes
  capOff :: nat
  capClean :: bool
  capPush :: bool
  capFirst :: 't
  capLast :: 't
  capIndex :: u32
  capHasIndex :: bool
  capRepliesTo :: u32

record 't corpus =
  cpC2S :: "'t assembler"
  cpS2C :: "'t assembler"
  cpMsgs :: "'t capmsg list"
  cpDecrypted :: nat
  cpFailed :: nat
  cpNotRUDP :: nat

record 't CapLibs =
  capInflate :: inflater
  capParseFloat :: "string \<Rightarrow> 't option"
  capZero :: 't
  capTimes :: "'t \<Rightarrow> 't \<Rightarrow> string"

definition newCorpus :: "'t corpus" where
  "newCorpus = \<lparr>cpC2S = Map.empty, cpS2C = Map.empty, cpMsgs = [], cpDecrypted = 0, cpFailed = 0, cpNotRUDP = 0\<rparr>"

definition openCaptured :: "Context \<Rightarrow> string \<Rightarrow> bytes \<Rightarrow> cipher_error + bytes \<times> bool" where
  "openCaptured ctx dir raw =
     (if dir = ''c2s'' then openClientToServer ctx raw else openServerToClient ctx raw)"

definition capMessage :: "string \<Rightarrow> bytes \<Rightarrow> nat option \<Rightarrow> 't \<Rightarrow> 't \<Rightarrow> 't capmsg" where
  "capMessage dir whole start t0 t1 =
     (let off = (case start of Some o' \<Rightarrow> o' | None \<Rightarrow> 8);
          m = \<lparr>capDir = dir, capOpcode = get_be32 (slice 4 8 whole), capPayload = drop off whole, capOff = off,
               capClean = (start \<noteq> None), capPush = False, capFirst = t0, capLast = t1,
               capIndex = (if 12 \<le> length whole then get_le32 (slice 8 12 whole) else 0),
               capHasIndex = (12 \<le> length whole), capRepliesTo = 0\<rparr>
      in case pushID (capPayload m) of
           Some ident \<Rightarrow> if capOpcode m = pushWrapperOpcode then m\<lparr>capOpcode := ident, capPush := True\<rparr> else m
         | None \<Rightarrow> m)"

text \<open>
  One line of the capture. The assemblers are a map with the two keys \<open>c2s\<close> and \<open>s2c\<close>: for another direction it
  yields a nil pointer, which \<open>push\<close> dereferences unless the fragment is too short.
\<close>

definition corpusPacket :: "'t CapLibs \<Rightarrow> string \<Rightarrow> 't \<Rightarrow> bytes \<Rightarrow> 't corpus \<Rightarrow> 't corpus outcome option" where
  "corpusPacket libs dir ts body st =
     (if dir \<noteq> ''c2s'' \<and> dir \<noteq> ''s2c''
      then if length body < 12 then Some (Value st) else Some Panic
      else
        let (r, a) = asm_push (capInflate libs) (if dir = ''c2s'' then cpC2S st else cpS2C st) body ts;
            st2 = (if dir = ''c2s'' then st\<lparr>cpC2S := a\<rparr> else st\<lparr>cpS2C := a\<rparr>)
        in case r of
             None \<Rightarrow> Some (Value st2)
           | Some (whole, t0, t1) \<Rightarrow>
               if length whole < 8 then Some (Value st2)
               else andThen (protoStart whole) (\<lambda>start.
                      Some (Value (st2\<lparr>cpMsgs := cpMsgs st2 @ [capMessage dir whole start t0 t1]\<rparr>))))"

definition corpusLine :: "'t CapLibs \<Rightarrow> Context \<Rightarrow> string \<Rightarrow> 't corpus \<Rightarrow> 't corpus outcome option" where
  "corpusLine libs ctx line st =
     (case parseTagged (capParseFloat libs) (capZero libs) line of
        None \<Rightarrow> Some (Value st)
      | Some (dir, ts, raw) \<Rightarrow>
          case openCaptured ctx dir raw of
            Inl err \<Rightarrow> Some (Value (st\<lparr>cpFailed := cpFailed st + 1\<rparr>))
          | Inr (pt, _) \<Rightarrow>
              let st1 = st\<lparr>cpDecrypted := cpDecrypted st + 1\<rparr>
              in if length pt < 7 \<or> pt ! 0 \<noteq> 0xF5 \<or> pt ! 1 \<noteq> 0x02
                 then Some (Value (st1\<lparr>cpNotRUDP := cpNotRUDP st1 + 1\<rparr>))
                 else corpusPacket libs dir ts (drop 7 pt) st1)"

fun corpusLines :: "'t CapLibs \<Rightarrow> Context \<Rightarrow> string list \<Rightarrow> 't corpus \<Rightarrow> 't corpus outcome option" where
  "corpusLines libs ctx [] st = Some (Value st)"
| "corpusLines libs ctx (l # ls) st = andThen (corpusLine libs ctx l st) (corpusLines libs ctx ls)"

text \<open>A response is paired with the last request before it that has its index.\<close>

fun pairReplies :: "(u32 \<rightharpoonup> u32) \<Rightarrow> 't capmsg list \<Rightarrow> 't capmsg list" where
  "pairReplies req [] = []"
| "pairReplies req (m # ms) =
     (if \<not> capHasIndex m then m # pairReplies req ms
      else if capDir m = ''c2s'' \<and> capOpcode m \<noteq> 0 then m # pairReplies (req(capIndex m \<mapsto> capOpcode m)) ms
      else if capDir m = ''s2c'' \<and> capOpcode m = 0 \<and> capIndex m \<noteq> pushIndex
      then (case req (capIndex m) of Some op \<Rightarrow> m\<lparr>capRepliesTo := op\<rparr> | None \<Rightarrow> m) # pairReplies req ms
      else m # pairReplies req ms)"

text \<open>The file of a message, and what is in it; \<open>capTimes\<close> prints the two lines with its capture times, if it has any.\<close>

definition capFile :: "string \<Rightarrow> string \<Rightarrow> nat \<Rightarrow> 't capmsg \<Rightarrow> string \<times> string" where
  "capFile outDir session i m =
     (let dir = Join2 outDir ((if capPush m then ''PUSH_'' else '''') @ opcodeHex (capOpcode m) @ ''_'' @ opcodeName (capOpcode m))
      in (dir, Join2 dir (session @ ''_'' @ capDir m @ ''_'' @ padLeft 4 (decimal i) @ ''.txt'')))"

definition capText :: "'t CapLibs \<Rightarrow> string \<Rightarrow> 't capmsg \<Rightarrow> string \<Rightarrow> string" where
  "capText libs session m tree =
     ''session:   '' @ session @ [newline] @ ''direction: '' @ capDir m @ [newline] @
     ''opcode:    '' @ opcodeHex (capOpcode m) @ ''  '' @ opcodeName (capOpcode m) @ [newline] @
     ''bytes:     '' @ decimal (length (capPayload m)) @ [newline] @
     ''proto-off: '' @ decimal (capOff m) @
     (if capClean m then '''' else ''  (NO CLEAN PARSE '' @ [CHR 0xE2, CHR 0x80, CHR 0x94] @ '' offset is a fallback)'') @
     [newline] @
     (if capHasIndex m then ''index:     '' @ decimal (unat (capIndex m)) @ [newline] else '''') @
     (if capRepliesTo m \<noteq> 0
      then ''replies-to: '' @ opcodeHex (capRepliesTo m) @ ''  '' @ opcodeName (capRepliesTo m) @ [newline] else '''') @
     capTimes libs (capFirst m) (capLast m) @ [newline] @
     ''hex:'' @ [newline] @ hexEncode (capPayload m) @ [newline, newline] @
     ''protobuf:'' @ [newline] @ tree @ [newline]"

definition textBytes :: "string \<Rightarrow> bytes" where
  "textBytes t = map (\<lambda>c. word_of_nat (of_char c)) t"

datatype corpus_exit = KeyRefused | Fatal string | CorpusDone

fun corpusWrite ::
  "'t CapLibs \<Rightarrow> string \<Rightarrow> string \<Rightarrow> nat \<Rightarrow> 't capmsg list \<Rightarrow> FileSys \<Rightarrow> (corpus_exit \<times> FileSys) outcome option" where
  "corpusWrite libs outDir session i [] fs = Some (Value (CorpusDone, fs))"
| "corpusWrite libs outDir session i (m # ms) fs =
     (let (dir, f) = capFile outDir session i m
      in case fsMkdirErr fs dir of
           Some err \<Rightarrow> Some (Value (Fatal err, fs))
         | None \<Rightarrow>
             andThen (describeProto (capPayload m) ''  '') (\<lambda>tree.
               case writeFile fs f (textBytes (capText libs session m tree)) 420 of
                 (Some err, fs') \<Rightarrow> Some (Value (Fatal err, fs'))
               | (None, fs') \<Rightarrow> corpusWrite libs outDir session (Suc i) ms fs'))"

definition maxCaptureLine :: nat where "maxCaptureLine = 1048576"

definition captureLines :: "string \<Rightarrow> string list" where
  "captureLines input = map dropCR (takeWhile (\<lambda>l. length l < maxCaptureLine) (scanLines input))"

definition corpus_main ::
  "'t CapLibs \<Rightarrow> (bytes \<Rightarrow> bytes \<Rightarrow> bytes) \<Rightarrow> string \<Rightarrow> string \<Rightarrow> string \<Rightarrow> string \<Rightarrow> FileSys \<Rightarrow>
     (corpus_exit \<times> FileSys) outcome option" where
  "corpus_main libs aes outDir session keyHex input fs =
     (case hexDecode (trimSpace keyHex) of
        None \<Rightarrow> Some (Value (KeyRefused, fs))
      | Some key \<Rightarrow>
          if length key \<noteq> 16 then Some (Value (KeyRefused, fs))
          else
            case NewContext aes key of
              Inl err \<Rightarrow> Some (Value (Fatal ''cwc'', fs))
            | Inr ctx \<Rightarrow>
                andThen (corpusLines libs ctx (captureLines input) newCorpus) (\<lambda>st.
                  corpusWrite libs outDir session 0 (pairReplies Map.empty (cpMsgs st)) fs))"


subsection \<open>Printing datagrams\<close>

definition bellNote :: "u32 \<Rightarrow> string" where
  "bellNote op =
     (if op = 0x03EE then ''      *** BELL RING (client->server) ***'' @ [newline]
      else if op = 0x03EF then ''      *** BELL TOLL PUSH (server->client) ***'' @ [newline]
      else if op = 0x038B then ''      *** REGULATION FILE UPDATE PUSH ***'' @ [newline]
      else '''')"

definition describe :: "string \<Rightarrow> bytes \<Rightarrow> bool \<Rightarrow> bool \<Rightarrow> string" where
  "describe dir pt synPrefix showAll =
     (if length pt < 7 then
        if showAll then dir @ ''  short ('' @ decimal (length pt) @ '' bytes): '' @ hexEncode pt @ [newline] else ''''
      else if pt ! 0 \<noteq> 0xF5 \<or> pt ! 1 \<noteq> 0x02
      then dir @ ''  NOT RUDP ('' @ decimal (length pt) @ '' bytes): '' @ hexEncode pt @ [newline]
      else
        let body = drop 7 pt;
            n = (if 64 < length body \<and> \<not> showAll then 64 else length body);
            op = get_be32 (slice 16 20 body)
        in dir @ ''  type=0x'' @ padLeft 2 (hexOf (unat (pt ! 2))) @ ''  '' @ decimal (length body) @ '' bytes'' @
           (if synPrefix then ''  [SYN/connection-prefix]'' else '''') @ [newline] @
           (if 0 < n then ''      '' @ hexEncode (take n body) @ [newline] else '''') @
           (if 20 \<le> length body then
              (case map_of opcodeNames op of
                 Some name \<Rightarrow> ''      opcode '' @ opcodeHex op @ ''  '' @ name @ [newline]
               | None \<Rightarrow> ''      field@16 0x'' @ padLeft 8 (hexOf (unat op)) @ [newline]) @
              bellNote op
            else ''''))"

definition containsStr :: "string \<Rightarrow> string \<Rightarrow> bool" where
  "containsStr s t \<longleftrightarrow> list_ex (\<lambda>i. take (length t) (drop i s) = t) [0..<Suc (length s)]"

datatype decoded = Ignored | Undecryptable | Decoded string

definition decodeLine :: "Context \<Rightarrow> string \<Rightarrow> bool \<Rightarrow> string \<Rightarrow> decoded" where
  "decodeLine ctx pattern showAll text =
     (let line = trimSpace text
      in if line = '''' \<or> hd line = CHR ''#'' then Ignored
         else
           case cut (CHR '' '') line of
             None \<Rightarrow> Ignored
           | Some (dir, rest) \<Rightarrow>
               case hexDecode (trimSpace rest) of
                 None \<Rightarrow> Ignored
               | Some raw \<Rightarrow>
                   case openCaptured ctx dir raw of
                     Inl err \<Rightarrow> Undecryptable
                   | Inr (pt, synPrefix) \<Rightarrow>
                       Decoded (if pattern \<noteq> '''' \<and> \<not> containsStr (hexEncode pt) (toLower pattern) then ''''
                                else describe dir pt synPrefix showAll))"

text \<open>What the program prints, how many datagrams it could decrypt and how many not; nothing for a bad key.\<close>

definition decodecap_main ::
  "(bytes \<Rightarrow> bytes \<Rightarrow> bytes) \<Rightarrow> string \<Rightarrow> string \<Rightarrow> bool \<Rightarrow> string \<Rightarrow> (string \<times> nat \<times> nat) option" where
  "decodecap_main aes keyHex pattern showAll input =
     (case hexDecode (trimSpace keyHex) of
        None \<Rightarrow> None
      | Some key \<Rightarrow>
          if length key \<noteq> 16 then None
          else
            case NewContext aes key of
              Inl err \<Rightarrow> None
            | Inr ctx \<Rightarrow>
                let rs = map (decodeLine ctx pattern showAll) (captureLines input)
                in Some (concat (map (\<lambda>r. case r of Decoded t \<Rightarrow> t | _ \<Rightarrow> '''') rs),
                         length (filter (\<lambda>r. case r of Decoded t \<Rightarrow> True | _ \<Rightarrow> False) rs),
                         length (filter (\<lambda>r. r = Undecryptable) rs)))"


subsection \<open>Finding the key\<close>

definition openWith :: "(bytes \<Rightarrow> bytes \<Rightarrow> bytes) \<Rightarrow> bytes \<Rightarrow> bytes \<Rightarrow> string \<Rightarrow> string + bytes \<times> bool" where
  "openWith aes key raw dir =
     (if dir = ''s2c'' then
        (case NewContext aes key of
           Inl err \<Rightarrow> Inl ''cwc''
         | Inr ctx \<Rightarrow> (case openServerToClient ctx raw of Inl err \<Rightarrow> Inl ''open'' | Inr r \<Rightarrow> Inr r))
      else if TokenFromDatagram raw = None then Inl ''datagram too short to carry an 8-byte auth token''
      else
        (case NewContext aes key of
           Inl err \<Rightarrow> Inl ''cwc''
         | Inr ctx \<Rightarrow> (case openClientToServer ctx raw of Inl err \<Rightarrow> Inl ''open'' | Inr r \<Rightarrow> Inr r)))"

text \<open>\<open>strings.Fields\<close>: the words between white space.\<close>

definition wordsOf :: "string \<Rightarrow> string list" where
  "wordsOf t = filter (\<lambda>w. w \<noteq> '''') (splitOn (CHR '' '') (map (\<lambda>c. if isSpace c then CHR '' '' else c) t))"

definition loadKeys :: "string option \<Rightarrow> string + string list" where
  "loadKeys content =
     (case content of
        None \<Rightarrow> Inl ''open''
      | Some text \<Rightarrow>
          if list_ex (\<lambda>l. maxScanToken \<le> length l) (scanLines text) then Inl ''token too long''
          else
            let out = rev (remdups (rev
              (filter (\<lambda>w. length w = 32 \<and> hexDecode w \<noteq> None) (concat (map (\<lambda>l. wordsOf (dropCR l)) (scanLines text))))))
            in if out = [] then Inl ''no 16-byte hex keys found'' else Inr out)"

definition unspaced :: "string \<Rightarrow> string" where
  "unspaced t = filter (\<lambda>c. c \<noteq> CHR '' '') t"

datatype verify_exit = Usage | VerifyFatal string | NoKeyVerified | Verified nat string bytes bool

fun tryKeys :: "(bytes \<Rightarrow> bytes \<Rightarrow> bytes) \<Rightarrow> bytes \<Rightarrow> string \<Rightarrow> nat \<Rightarrow> string list \<Rightarrow> verify_exit" where
  "tryKeys aes raw dir i [] = NoKeyVerified"
| "tryKeys aes raw dir i (ks # kss) =
     (case hexDecode (unspaced ks) of
        None \<Rightarrow> tryKeys aes raw dir (Suc i) kss
      | Some key \<Rightarrow>
          if length key \<noteq> 16 then tryKeys aes raw dir (Suc i) kss
          else
            case openWith aes key raw dir of
              Inl err \<Rightarrow> tryKeys aes raw dir (Suc i) kss
            | Inr (pt, connPrefix) \<Rightarrow> Verified (Suc i) ks pt connPrefix)"

text \<open>The program, given its two flags, the contents of the file of keys and the remaining arguments.\<close>

definition verifykey_main ::
  "(bytes \<Rightarrow> bytes \<Rightarrow> bytes) \<Rightarrow> (string \<Rightarrow> string option) \<Rightarrow> string \<Rightarrow> string \<Rightarrow> string list \<Rightarrow> verify_exit" where
  "verifykey_main aes read keysFile datagram args =
     (case (if keysFile \<noteq> '''' then map_option (\<lambda>ks. (ks, args)) (case loadKeys (read keysFile) of Inl err \<Rightarrow> None | Inr ks \<Rightarrow> Some ks)
            else case args of [] \<Rightarrow> None | a # rest \<Rightarrow> Some ([a], rest)) of
        None \<Rightarrow> if keysFile \<noteq> '''' then VerifyFatal ''keys'' else Usage
      | Some (keys, args1) \<Rightarrow>
          case (if datagram \<noteq> '''' then Some (datagram, args1)
                else case args1 of [] \<Rightarrow> None | a # rest \<Rightarrow> Some (a, rest)) of
            None \<Rightarrow> Usage
          | Some (dg, args2) \<Rightarrow>
              let dir = (case args2 of [] \<Rightarrow> ''s2c'' | a # _ \<Rightarrow> toLower a)
              in if dir \<noteq> ''s2c'' \<and> dir \<noteq> ''c2s'' then VerifyFatal ''direction''
                 else case hexDecode (unspaced dg) of
                        None \<Rightarrow> VerifyFatal ''datagram is not hex''
                      | Some raw \<Rightarrow> tryKeys aes raw dir 0 keys)"

subsection \<open>Reassembly of captured fragments\<close>

lemma hexVal_digit: "n < 16 \<Longrightarrow> hexVal (hexDigit n) = Some n"
proof -
  have "list_all (\<lambda>n. hexVal (hexDigit n) = Some n) [0..<16]" by code_simp
  then show "n < 16 \<Longrightarrow> hexVal (hexDigit n) = Some n" by (simp add: list_all_iff)
qed

lemma hexDecode_encode [simp]: "hexDecode (hexEncode bs) = Some bs"
proof (induction bs)
  case (Cons b bs)
  have "unat b div 16 < 16" "unat b mod 16 < 16" using unat_lt_256 [of b] by auto
  moreover have "(word_of_nat (16 * (unat b div 16) + unat b mod 16) :: byte) = b"
    by (simp only: mult_div_mod_eq) simp
  ultimately show ?case using Cons by (simp add: hexEncode_def hexVal_digit del: of_nat_add of_nat_mult)
qed (simp add: hexEncode_def)

text \<open>The fragments of one message share the bytes of its counter, which the tool reads as its identifier.\<close>

definition bodyId :: "bytes \<Rightarrow> u16" where
  "bodyId b = get_be16 (slice 0 2 b)"

definition fragmentId :: "u16 \<Rightarrow> u16" where
  "fragmentId c = get_be16 (put_le16 c)"

definition underway :: "bytes \<Rightarrow> nat \<Rightarrow> 't \<Rightarrow> 't \<Rightarrow> 't partial" where
  "underway p i t0 t1 =
     \<lparr>pBuf = take (i * 900) p, pTotal = length p, pGot = i * 900, pCompressed = False, pInflated = 0,
      pTsFirst = t0, pTsLast = t1\<rparr>"

lemma fragment_parts:
  assumes "i < 256"
  shows "bodyId (fragment p c i) = fragmentId c" "fragment p c i ! 2 = 0" "fragment p c i ! 9 = 0 \<longleftrightarrow> i = 0"
    "12 \<le> length (fragment p c i)"
    "unat (get_be16 (slice 6 8 (fragment p c i))) = length p mod 65536"
    "slice 12 (12 + unat (get_be16 (slice 10 12 (fragment p c i)))) (fragment p c i) =
       slice (i * 900) (min (i * 900 + 900) (length p)) p"
proof -
  define ch where "ch = slice (i * 900) (min (i * 900 + 900) (length p)) p"
  have fr: "fragment p c i = fragmentHeader c (length p) i (length ch) @ ch"
    by (simp add: fragment_def Let_def ch_def maxFragmentLength_def)
  have "length ch \<le> 900" unfolding ch_def by (rule length_chunk)
  then have u: "unat (word_of_nat (length ch) :: u16) = length ch" by (simp add: unat_of_nat)
  show "bodyId (fragment p c i) = fragmentId c"
    by (simp add: fr bodyId_def fragmentId_def fragmentHeader_def slice_def)
  show "fragment p c i ! 2 = 0" "12 \<le> length (fragment p c i)"
    by (simp_all add: fr fragmentHeader_fields)
  have "(word_of_nat i :: byte) = 0 \<longleftrightarrow> i = 0"
    using assms by (auto simp: word_of_nat_eq_0_iff dest: dvd_imp_le)
  moreover have "fragment p c i ! 9 = word_of_nat i"
    by (simp add: fr fragmentHeader_def nth_append put_le16_def put_be16_def)
  ultimately show "fragment p c i ! 9 = 0 \<longleftrightarrow> i = 0" by simp
  show "unat (get_be16 (slice 6 8 (fragment p c i))) = length p mod 65536"
    by (simp add: fr fragmentHeader_fields unat_of_nat)
  have "unat (get_be16 (slice 10 12 (fragment p c i))) = length ch"
    using u by (simp add: fr fragmentHeader_fields)
  moreover have "slice 12 (12 + length ch) (fragment p c i) = ch"
    by (simp add: fr slice_def)
  ultimately show "slice 12 (12 + unat (get_be16 (slice 10 12 (fragment p c i)))) (fragment p c i) =
       slice (i * 900) (min (i * 900 + 900) (length p)) p"
    by (simp add: ch_def)
qed

lemma asm_fragment:
  assumes "length p < 65536" "i * 900 < length p" "i = 0 \<or> a (fragmentId c) = Some (underway p i t0 t1)"
    and "t0' = (if i = 0 then ts else t0)"
  shows "asm_push inflate a (fragment p c i) ts =
    (if Suc i * 900 < length p then (None, a(fragmentId c \<mapsto> underway p (Suc i) t0' ts))
     else (Some (p, t0', ts), a(fragmentId c := None)))"
proof -
  define ch where "ch = slice (i * 900) (min (i * 900 + 900) (length p)) p"
  have i: "i < 256" using assms(1,2) by simp
  have len: "length ch = min 900 (length p - i * 900)" "length ch \<noteq> 0"
    using assms(2) by (auto simp: ch_def length_slice min_def)
  have buf: "take (i * 900) p @ ch = take (Suc i * 900) p"
    unfolding ch_def using assms(2) by (intro take_slice) simp
  note parts = fragment_parts [OF i, where p = p and c = c, folded ch_def, unfolded bodyId_def]
  have p1: "partialFor (a (fragmentId c)) (i = 0) (length p) False ts = underway p i t0' ts"
    using assms(3,4) by (cases "i = 0") (auto simp: partialFor_def underway_def newPartial_def split: option.split)
  have "asm_push inflate a (fragment p c i) ts = asm_body inflate a (fragmentId c) (underway p i t0' ts) ch"
    using parts p1 assms(1) by (simp add: asm_push_def Let_def)
  also have "\<dots> = (if Suc i * 900 < length p then (None, a(fragmentId c \<mapsto> underway p (Suc i) t0' ts))
     else (Some (p, t0', ts), a(fragmentId c := None)))"
    using len buf assms(2) by (auto simp: asm_body_def underway_def Let_def)
  finally show ?thesis .
qed

lemma asm_body_other: "k \<noteq> ident \<Longrightarrow> snd (asm_body inflate a ident p chunk) k = a k"
  by (simp add: asm_body_def Let_def split: sum.split)

lemma asm_other: "12 \<le> length b \<and> bodyId b = k \<or> snd (asm_push inflate a b ts) k = a k"
  by (cases "length b < 12") (auto simp: asm_push_def Let_def bodyId_def asm_body_other)

text \<open>
  A run of the reassembly over the fragments of a whole direction, with the messages that come out and
  the identifier each comes out under.
\<close>

fun asm_run :: "inflater \<Rightarrow> 't assembler \<Rightarrow> (bytes \<times> 't) list \<Rightarrow> (u16 \<times> bytes \<times> 't \<times> 't) list" where
  "asm_run inflate a [] = []"
| "asm_run inflate a ((b, ts) # xs) =
     (case asm_push inflate a b ts of
        (None, a') \<Rightarrow> asm_run inflate a' xs
      | (Some out, a') \<Rightarrow> (bodyId b, out) # asm_run inflate a' xs)"

definition belongs :: "u16 \<Rightarrow> bytes \<times> 't \<Rightarrow> bool" where
  "belongs k x \<longleftrightarrow> 12 \<le> length (fst x) \<and> bodyId (fst x) = k"

lemma asm_short: "asm_push inflate a b ts = (Some out, a') \<Longrightarrow> 12 \<le> length b"
  by (cases "length b < 12") (simp_all add: asm_push_def)

lemma asm_run_none: "filter (belongs k) xs = [] \<Longrightarrow> filter (\<lambda>x. fst x = k) (asm_run inflate a xs) = []"
proof (induction xs arbitrary: a)
  case (Cons x xs)
  obtain b ts where x: "x = (b, ts)" by fastforce
  obtain r a' where r: "asm_push inflate a b ts = (r, a')" by fastforce
  with Cons x asm_short [of inflate a b ts _ a'] show ?case
    by (auto simp: belongs_def split: if_splits option.split)
qed simp

lemma asm_interleaved:
  assumes "length p < 65536" "i < fragmentCount p" "p \<noteq> []" "length tss = fragmentCount p"
    and "filter (belongs (fragmentId c)) xs = map (\<lambda>j. (fragment p c j, tss ! j)) [i..<fragmentCount p]"
    and "i = 0 \<or> a (fragmentId c) = Some (underway p i (hd tss) t1)"
  shows "filter (\<lambda>x. fst x = fragmentId c) (asm_run inflate a xs) = [(fragmentId c, p, hd tss, last tss)]"
  using assms(2,5,6)
proof (induction xs arbitrary: i a t1)
  case Nil
  then show ?case by simp
next
  case (Cons x xs)
  obtain b ts where x: "x = (b, ts)" by fastforce
  obtain r a' where r: "asm_push inflate a b ts = (r, a')" by fastforce
  show ?case
  proof (cases "belongs (fragmentId c) x")
    case False
    then have "a' (fragmentId c) = a (fragmentId c)" and out: "bodyId b \<noteq> fragmentId c \<or> r = None"
      using asm_other [of b "fragmentId c" inflate a ts] asm_short [of inflate a b ts _ a'] r
      by (cases r; auto simp: belongs_def x)+
    moreover have "filter (\<lambda>x. fst x = fragmentId c) (asm_run inflate a' xs) = [(fragmentId c, p, hd tss, last tss)]"
      using Cons.prems False calculation(1) by (intro Cons.IH) auto
    ultimately show ?thesis by (cases r) (auto simp: x r)
  next
    case True
    have more: "i * 900 < length p"
      using last_fragment [OF assms(3), of "i - 1"] Cons.prems(1) assms(3) by (cases i) auto
    from True Cons.prems(1,2) have b: "b = fragment p c i" "ts = tss ! i"
      and rest: "filter (belongs (fragmentId c)) xs = map (\<lambda>j. (fragment p c j, tss ! j)) [Suc i..<fragmentCount p]"
      by (auto simp: x upt_conv_Cons)
    have hd: "(if i = 0 then ts else hd tss) = hd tss"
      using b(2) assms(4) Cons.prems(1) by (cases tss) auto
    note push = asm_fragment [where a = a and c = c and ts = ts and inflate = inflate, OF assms(1) more Cons.prems(3) hd [symmetric]]
    show ?thesis
    proof (cases "Suc i < fragmentCount p")
      case again: True
      then have "r = None" "a' = a(fragmentId c \<mapsto> underway p (Suc i) (hd tss) ts)"
        using push r b last_fragment [OF assms(3), of i] by simp_all
      with Cons.IH [OF again rest] show ?thesis by (simp add: x r)
    next
      case over: False
      then have "r = Some (p, hd tss, ts)"
        using push r b last_fragment [OF assms(3), of i] by simp
      moreover have "i = length tss - 1" "tss \<noteq> []" using over Cons.prems(1) assms(4) by auto
      then have "ts = last tss" using b(2) by (simp add: last_conv_nth)
      moreover have "filter (\<lambda>x. fst x = fragmentId c) (asm_run inflate a' xs) = []"
        using rest over by (intro asm_run_none) simp
      moreover have "bodyId b = fragmentId c" using True by (simp add: belongs_def x)
      ultimately show ?thesis using r by (simp add: x)
    qed
  qed
qed

subsection \<open>From a sent message to a file of the corpus\<close>

text \<open>A datagram of the capture: a packet of the transport sealed by the side it came from.\<close>

definition captured :: "Context \<Rightarrow> string \<Rightarrow> packet \<Rightarrow> bytes \<Rightarrow> bool" where
  "captured ctx dir pk dg \<longleftrightarrow>
     (\<exists>iv. length iv = 11 \<and>
       (dir = ''s2c'' \<and> sealServerToClient ctx (Inr iv) (encode pk) = Inr dg \<or>
        dir = ''c2s'' \<and> (\<exists>tok. length tok = 8 \<and> clientSeal ctx tok (Inr iv) (encode pk, False) = Inr dg)))"

definition taggedLine :: "string \<Rightarrow> string \<Rightarrow> bytes \<Rightarrow> string" where
  "taggedLine dir t dg = dir @ '' '' @ t @ '' '' @ hexEncode dg"

lemma captured_opens:
  assumes "captured ctx dir pk dg" "aes_block_size (block ctx)"
  shows "openCaptured ctx dir dg = Inr (encode pk, False)" "dir = ''s2c'' \<or> dir = ''c2s''" "dg \<noteq> []"
proof -
  have ne: "encode pk \<noteq> []" by (simp add: encode_def)
  from assms(1) obtain iv where iv: "iv_ok (Inr iv)" and c: "dir = ''s2c'' \<and> sealServerToClient ctx (Inr iv) (encode pk) = Inr dg \<or>
     dir = ''c2s'' \<and> (\<exists>tok. length tok = 8 \<and> clientSeal ctx tok (Inr iv) (encode pk, False) = Inr dg)"
    by (auto simp: captured_def iv_ok_def)
  have s: "openServerToClient ctx dg = Inr (encode pk, False) \<and> dg \<noteq> []"
    if "sealServerToClient ctx (Inr iv) (encode pk) = Inr dg"
    using server_udp.inverts [OF iv, of ctx "(encode pk, False)"] server_udp.encrypts [OF iv, of ctx "(encode pk, False)"]
      that assms(2) ne by auto
  moreover have t: "openClientToServer ctx dg = Inr (encode pk, False) \<and> dg \<noteq> []"
    if "clientSeal ctx tok (Inr iv) (encode pk, False) = Inr dg" "length tok = 8" for tok
    using client_udp.inverts [OF iv, of ctx tok "(encode pk, False)"] client_udp.encrypts [OF iv, of ctx tok "(encode pk, False)"]
      that assms(2) ne by auto
  ultimately show "openCaptured ctx dir dg = Inr (encode pk, False)" "dir = ''s2c'' \<or> dir = ''c2s''" "dg \<noteq> []"
    using c by (auto simp: openCaptured_def)
qed

lemma hexDigit_ink: "n < 16 \<Longrightarrow> \<not> isSpace (hexDigit n) \<and> hexDigit n \<noteq> CHR '' ''"
proof -
  have "list_all (\<lambda>n. \<not> isSpace (hexDigit n) \<and> hexDigit n \<noteq> CHR '' '') [0..<16]" by code_simp
  then show "n < 16 \<Longrightarrow> \<not> isSpace (hexDigit n) \<and> hexDigit n \<noteq> CHR '' ''" by (simp add: list_all_iff)
qed

lemma hexEncode_ink: "c \<in> set (hexEncode bs) \<Longrightarrow> \<not> isSpace c \<and> c \<noteq> CHR '' ''"
proof -
  have "unat b div 16 < 16" for b :: byte using unat_lt_256 [of b] by auto
  then show "c \<in> set (hexEncode bs) \<Longrightarrow> \<not> isSpace c \<and> c \<noteq> CHR '' ''"
    by (auto simp: hexEncode_def hexDigit_ink)
qed

lemma trimSpace_id: "l = [] \<or> \<not> isSpace (hd l) \<and> \<not> isSpace (last l) \<Longrightarrow> trimSpace l = l"
proof -
  assume a: "l = [] \<or> \<not> isSpace (hd l) \<and> \<not> isSpace (last l)"
  have "dropWhile isSpace l = l" "dropWhile isSpace (rev l) = rev l"
    using a by (subst dropWhile_eq_self_iff, auto simp: hd_rev)+
  then show ?thesis by (simp add: trimSpace_def)
qed

lemma cut_first: "sep \<notin> set x \<Longrightarrow> cut sep (x @ sep # y) = Some (x, y)"
  by (subst cut_def, subst takeWhile_append2, auto, subst dropWhile_append2, auto)

lemma parse_taggedLine:
  assumes "dir = ''s2c'' \<or> dir = ''c2s''" "CHR '' '' \<notin> set t" "dg \<noteq> []" "pf t = Some ts"
  shows "parseTagged pf z (taggedLine dir t dg) = Some (dir, ts, dg)"
proof -
  have hx: "hexEncode dg \<noteq> []" using assms(3) by (cases dg) (simp_all add: hexEncode_def)
  then have "\<not> isSpace (last (hexEncode dg))" using hexEncode_ink last_in_set by blast
  moreover have "hd (taggedLine dir t dg) \<in> {CHR ''s'', CHR ''c''}" "last (taggedLine dir t dg) = last (hexEncode dg)"
    using assms(1) hx by (auto simp: taggedLine_def)
  ultimately have "trimSpace (taggedLine dir t dg) = taggedLine dir t dg"
    by (intro trimSpace_id) (auto simp: isSpace_def)
  moreover have "cut (CHR '' '') (taggedLine dir t dg) = Some (dir, t @ CHR '' '' # hexEncode dg)"
    using cut_first [of "CHR '' ''" dir] assms(1) by (auto simp: taggedLine_def)
  moreover have "cut (CHR '' '') (t @ CHR '' '' # hexEncode dg) = Some (t, hexEncode dg)"
    using cut_first [OF assms(2)] by simp
  ultimately show ?thesis using assms(4) by (simp add: parseTagged_def)
qed

definition dirAsm :: "string \<Rightarrow> 't corpus \<Rightarrow> 't assembler" where
  "dirAsm dir st = (if dir = ''c2s'' then cpC2S st else cpS2C st)"

definition setDirAsm :: "string \<Rightarrow> 't assembler \<Rightarrow> 't corpus \<Rightarrow> 't corpus" where
  "setDirAsm dir a st = (if dir = ''c2s'' then st\<lparr>cpC2S := a\<rparr> else st\<lparr>cpS2C := a\<rparr>)"

lemma corpusLine_packet:
  assumes "captured ctx dir pk dg" "aes_block_size (block ctx)" "CHR '' '' \<notin> set t" "capParseFloat libs t = Some ts"
  shows "corpusLine libs ctx (taggedLine dir t dg) st =
    corpusPacket libs dir ts (payload pk) (st\<lparr>cpDecrypted := cpDecrypted st + 1\<rparr>)"
proof -
  note c = captured_opens [OF assms(1,2)]
  have "drop 7 (encode pk) = payload pk" "7 \<le> length (encode pk)" "encode pk ! 0 = 0xF5" "encode pk ! 1 = 2"
    by (simp_all add: encode_def magic0_def magic1_def)
  with c parse_taggedLine [where ts = ts and pf = "capParseFloat libs", OF c(2) assms(3) c(3) assms(4)]
  show ?thesis by (simp add: corpusLine_def)
qed

lemma corpusPacket_push:
  assumes "dir = ''s2c'' \<or> dir = ''c2s''" "asm_push (capInflate libs) (dirAsm dir st) body ts = (r, a)"
  shows "corpusPacket libs dir ts body st =
    (case r of
       None \<Rightarrow> Some (Value (setDirAsm dir a st))
     | Some (whole, t0, t1) \<Rightarrow>
         if length whole < 8 then Some (Value (setDirAsm dir a st))
         else andThen (protoStart whole) (\<lambda>start.
                Some (Value ((setDirAsm dir a st)\<lparr>cpMsgs := cpMsgs st @ [capMessage dir whole start t0 t1]\<rparr>))))"
  using assms by (elim disjE) (simp_all add: corpusPacket_def dirAsm_def setDirAsm_def split: option.split)

lemma protoStart_message:
  assumes "msg_ok m" "length (encodeMessage m) < 65536" "Payload m = wencodeAll fs" "list_all wfield_ok fs" "balanced 0 fs"
  shows "protoStart (encodeMessage m) = Some (Value (Some (if IsReply m then 28 else 12)))"
proof -
  let ?b = "encodeMessage m" and ?off = "if IsReply m then 28 else 12 :: nat"
  have hdr: "slice 0 4 ?b = put_be32 (word_of_nat msgHeaderSize)" "slice 4 8 ?b = put_be32 (Type m)"
    by (simp_all add: encodeMessage_def wire_simps slice_def)
  have len: "length ?b = ?off + length (Payload m)" by (simp add: length_encodeMessage)
  have pay: "drop ?off ?b = Payload m" by (simp add: encodeMessage_def)
  have "IsReply m \<longleftrightarrow> Type m = 0" using assms(1) by (simp add: msg_ok_def MsgReply_def)
  then have off: "(if get_be32 (slice 4 8 ?b) = 0 then msgHeaderSize + msgRespHeaderSize else msgHeaderSize) = ?off"
    by (simp add: hdr msgHeaderSize_def msgRespHeaderSize_def)
  have "length (wencodeAll fs) < 2 ^ 62" using assms(2,3) len by simp
  then have clean: "parsesCleanly (Payload m) = Some (Value (fs \<noteq> []))"
    using fields_recognised assms(3-5) by simp
  have "fs = [] \<Longrightarrow> Payload m = []" using assms(3) by (simp add: wencodeAll_def)
  then show ?thesis
    using clean len by (cases "fs = []"; cases "Payload m = []")
      (simp_all add: protoStart_def off hdr(1) Let_def pay msgHeaderSize_def)
qed

text \<open>The lines of one message in a capture, from fragment \<open>i\<close> on: per datagram the packet, the time as text and as value.\<close>

definition fragment_lines ::
  "'t CapLibs \<Rightarrow> Context \<Rightarrow> string \<Rightarrow> bytes \<Rightarrow> u16 \<Rightarrow> nat \<Rightarrow> (packet \<times> string \<times> 't \<times> bytes) list \<Rightarrow> bool" where
  "fragment_lines libs ctx dir p c i xs \<longleftrightarrow>
     length xs = fragmentCount p - i \<and>
     (\<forall>j<length xs. case xs ! j of (pk, t, ts, dg) \<Rightarrow>
        payload pk = fragment p c (i + j) \<and> captured ctx dir pk dg \<and> CHR '' '' \<notin> set t \<and> capParseFloat libs t = Some ts)"

definition lineOf :: "string \<Rightarrow> packet \<times> string \<times> 't \<times> bytes \<Rightarrow> string" where
  "lineOf dir x = (case x of (pk, t, ts, dg) \<Rightarrow> taggedLine dir t dg)"

definition timeOf :: "packet \<times> string \<times> 't \<times> bytes \<Rightarrow> 't" where
  "timeOf x = fst (snd (snd x))"

lemma fragment_lines_Cons:
  "fragment_lines libs ctx dir p c i (x # xs) \<Longrightarrow>
     (case x of (pk, t, ts, dg) \<Rightarrow>
        payload pk = fragment p c i \<and> captured ctx dir pk dg \<and> CHR '' '' \<notin> set t \<and> capParseFloat libs t = Some ts) \<and>
     fragment_lines libs ctx dir p c (Suc i) xs"
  by (auto simp: fragment_lines_def All_less_Suc2)

lemma dirAsm_simps [simp]:
  "dirAsm dir (st\<lparr>cpDecrypted := n\<rparr>) = dirAsm dir st" "dirAsm dir (setDirAsm dir a st) = a"
  "cpMsgs (setDirAsm dir a st) = cpMsgs st" "cpDecrypted (setDirAsm dir a st) = cpDecrypted st"
  "cpFailed (setDirAsm dir a st) = cpFailed st" "cpNotRUDP (setDirAsm dir a st) = cpNotRUDP st"
  by (simp_all add: dirAsm_def setDirAsm_def)

lemma corpus_fragments:
  assumes "aes_block_size (block ctx)" "length p < 65536" "p \<noteq> []" "dir = ''s2c'' \<or> dir = ''c2s''" "8 \<le> length p"
    and "protoStart p = Some (Value start)"
    and "fragment_lines libs ctx dir p c i xs" "i < fragmentCount p"
    and "if i = 0 then t0 = timeOf (hd xs) else dirAsm dir st (fragmentId c) = Some (underway p i t0 t1)"
  shows "\<exists>st'. corpusLines libs ctx (map (lineOf dir) xs) st = Some (Value st') \<and>
    cpMsgs st' = cpMsgs st @ [capMessage dir p start t0 (timeOf (last xs))] \<and>
    cpDecrypted st' = cpDecrypted st + length xs \<and> cpFailed st' = cpFailed st \<and> cpNotRUDP st' = cpNotRUDP st"
  using assms(7-9)
proof (induction xs arbitrary: i st t1)
  case Nil
  then show ?case by (simp add: fragment_lines_def)
next
  case (Cons x xs)
  obtain pk t ts dg where x: "x = (pk, t, ts, dg)" by (cases x) auto
  note fl = fragment_lines_Cons [OF Cons.prems(1), unfolded x prod.case]
  let ?st = "st\<lparr>cpDecrypted := cpDecrypted st + 1\<rparr>"
  have more: "i * 900 < length p"
    using last_fragment [OF assms(3), of "i - 1"] Cons.prems(2) assms(3) by (cases i) auto
  have was: "i = 0 \<or> dirAsm dir ?st (fragmentId c) = Some (underway p i t0 t1)"
    and t0: "t0 = (if i = 0 then ts else t0)"
    using Cons.prems(3) by (auto simp: x timeOf_def split: if_splits)
  note push = asm_fragment [where a = "dirAsm dir ?st" and c = c and ts = ts and inflate = "capInflate libs", OF assms(2) more was t0]
  have line: "corpusLine libs ctx (lineOf dir x) st = corpusPacket libs dir ts (fragment p c i) ?st"
    using corpusLine_packet [of ctx dir pk dg t libs ts st] fl assms(1) by (simp add: lineOf_def x)
  show ?case
  proof (cases "Suc i < fragmentCount p")
    case True
    let ?a = "(dirAsm dir ?st)(fragmentId c \<mapsto> underway p (Suc i) t0 ts)"
    from True have "asm_push (capInflate libs) (dirAsm dir ?st) (fragment p c i) ts = (None, ?a)"
      using push last_fragment [OF assms(3), of i] by simp
    from corpusPacket_push [OF assms(4) this]
    have l: "corpusLine libs ctx (lineOf dir x) st = Some (Value (setDirAsm dir ?a ?st))"
      using line by simp
    have "xs \<noteq> []" using fl True by (auto simp: fragment_lines_def)
    with Cons.IH [of "Suc i" "setDirAsm dir ?a ?st" ts] fl True l show ?thesis by auto
  next
    case False
    then have "asm_push (capInflate libs) (dirAsm dir ?st) (fragment p c i) ts =
        (Some (p, t0, ts), (dirAsm dir ?st)(fragmentId c := None))"
      using push last_fragment [OF assms(3), of i] by simp
    from corpusPacket_push [OF assms(4) this] line assms(5,6)
    have "corpusLine libs ctx (lineOf dir x) st =
        Some (Value ((setDirAsm dir ((dirAsm dir ?st)(fragmentId c := None)) ?st)\<lparr>cpMsgs := cpMsgs st @ [capMessage dir p start t0 ts]\<rparr>))"
      by simp
    moreover have "xs = []" using fl False Cons.prems(2) by (auto simp: fragment_lines_def)
    ultimately show ?thesis by (simp add: x timeOf_def)
  qed
qed

lemma capMessage_parts:
  assumes "slice 4 8 b = put_be32 ty" "slice 8 12 b = put_le32 ix" "drop off b = pay" "12 \<le> length b"
  shows "capDir (capMessage dir b (Some off) t0 t1) = dir" "capPayload (capMessage dir b (Some off) t0 t1) = pay"
    "capClean (capMessage dir b (Some off) t0 t1)" "capHasIndex (capMessage dir b (Some off) t0 t1)"
    "capIndex (capMessage dir b (Some off) t0 t1) = ix"
    "capFirst (capMessage dir b (Some off) t0 t1) = t0" "capLast (capMessage dir b (Some off) t0 t1) = t1"
    "(capOpcode (capMessage dir b (Some off) t0 t1), capPush (capMessage dir b (Some off) t0 t1)) =
       (case pushID pay of Some ident \<Rightarrow> if ty = MsgPush then (ident, True) else (ty, False) | None \<Rightarrow> (ty, False))"
  using assms by (simp_all add: capMessage_def Let_def MsgPush_def pushWrapperOpcode_def split: option.split)

text \<open>
  C23: what was sent is what is filed. Take any message of the game protocol, request, reply or push, whose
  payload is a well-formed protocol buffer, sent as the transport sends it: encoded, cut into fragments, each
  fragment in a packet, each packet sealed by its side. Reading its lines from the capture under the session
  key, whatever was read before, adds exactly one message to the corpus: with the direction, the payload
  byte for byte, the index, the opcode or, for a push, the identifier inside, and the capture times of
  the first and the last datagram. Nothing is counted as failed.
\<close>

theorem capture_faithful:
  assumes "NewContext aes key = Inr ctx" "aes_block_size (aes key)" "dir = ''s2c'' \<or> dir = ''c2s''"
    and "msg_ok m" "length (encodeMessage m) < 65536" "Payload m = wencodeAll fs" "list_all wfield_ok fs" "balanced 0 fs"
    and "fragment_lines libs ctx dir (encodeMessage m) c 0 xs"
  shows "\<exists>st' cm. corpusLines libs ctx (map (lineOf dir) xs) st = Some (Value st') \<and> cpMsgs st' = cpMsgs st @ [cm] \<and>
    cpDecrypted st' = cpDecrypted st + length xs \<and> cpFailed st' = cpFailed st \<and> cpNotRUDP st' = cpNotRUDP st \<and>
    capDir cm = dir \<and> capPayload cm = Payload m \<and> capClean cm \<and> capHasIndex cm \<and> capIndex cm = Index m \<and>
    (capOpcode cm, capPush cm) =
      (case pushID (Payload m) of
         Some ident \<Rightarrow> if Type m = MsgPush then (ident, True) else (Type m, False)
       | None \<Rightarrow> (Type m, False)) \<and>
    capFirst cm = timeOf (hd xs) \<and> capLast cm = timeOf (last xs)"
proof -
  let ?b = "encodeMessage m" and ?off = "if IsReply m then 28 else 12 :: nat"
  have ne: "8 \<le> length ?b" "12 \<le> length ?b" by (simp_all add: length_encodeMessage)
  then have ne1: "?b \<noteq> []" by auto
  have "0 < fragmentCount ?b" using ne1 by (simp add: fragmentCount_eq)
  then obtain st' where st': "corpusLines libs ctx (map (lineOf dir) xs) st = Some (Value st')"
    "cpMsgs st' = cpMsgs st @ [capMessage dir ?b (Some ?off) (timeOf (hd xs)) (timeOf (last xs))]"
    "cpDecrypted st' = cpDecrypted st + length xs" "cpFailed st' = cpFailed st" "cpNotRUDP st' = cpNotRUDP st"
    using corpus_fragments [OF NewContext_key(2) [OF assms(1,2)] assms(5) ne1 assms(3) ne(1)
        protoStart_message [OF assms(4-8)] assms(9), of "timeOf (hd xs)" st] by auto
  have "slice 4 8 ?b = put_be32 (Type m)" "slice 8 12 ?b = put_le32 (Index m)" "drop ?off ?b = Payload m"
    by (simp_all add: encodeMessage_def wire_simps)
  note cm = capMessage_parts [OF this ne(2), of dir "timeOf (hd xs)" "timeOf (last xs)"]
  show ?thesis
    using st' cm by (intro exI [of _ st'] exI [of _ "capMessage dir ?b (Some ?off) (timeOf (hd xs)) (timeOf (last xs))"]) simp
qed

definition demo_caplibs :: "nat CapLibs" where
  "demo_caplibs =
     \<lparr>capInflate = (\<lambda>_. Inl ''corrupt''), capParseFloat = (\<lambda>t. if t = ''1.5'' then Some 15 else None), capZero = 0,
      capTimes = (\<lambda>_ _. '''')\<rparr>"

definition demo_toll :: Message where
  "demo_toll = \<lparr>Type = MsgPush, Index = PushIndex, IsReply = False, Payload = [0x08, 0xEF, 0x07], ackSeq = 0\<rparr>"

theorem capture_faithful_witness:
  "\<exists>ctx dg st' cm. NewContext demo_aes demo_key = Inr ctx \<and>
     corpusLines demo_caplibs ctx [taggedLine ''s2c'' ''1.5'' dg] newCorpus = Some (Value st') \<and> cpMsgs st' = [cm] \<and>
     capPush cm \<and> capOpcode cm = 0x03EF \<and> capPayload cm = [0x08, 0xEF, 0x07] \<and> capFirst cm = 15"
proof -
  obtain ctx where ctx: "NewContext demo_aes demo_key = Inr ctx"
    by (simp add: NewContext_def demo_key_def Let_def)
  have aes: "aes_block_size (demo_aes demo_key)" by (rule demo_aes_block)
  define b where "b = encodeMessage demo_toll"
  define pk where "pk = mk_packet OpDAT 1 0 (fragment b 0 0)"
  obtain dg where "sealServerToClient ctx (Inr (replicate 11 0)) (encode pk) = Inr dg"
    using server_udp.encrypts [of "Inr (replicate 11 0)" ctx "(encode pk, False)"] NewContext_key(2) [OF ctx aes]
    by (auto simp: iv_ok_def encode_def)
  then have cap: "captured ctx ''s2c'' pk dg" by (auto simp: captured_def intro: exI [of _ "replicate 11 0"])
  have len: "length b = 15" by (simp add: b_def length_encodeMessage demo_toll_def)
  then have "fragmentCount b = 1" by (simp add: fragmentCount_def maxFragmentLength_def)
  with cap have fl: "fragment_lines demo_caplibs ctx ''s2c'' b 0 0 [(pk, ''1.5'', 15, dg)]"
    by (simp add: fragment_lines_def pk_def demo_caplibs_def)
  have "Payload demo_toll = wencodeAll [WVarint 1 0x03EF]"
    by (simp add: demo_toll_def wencodeAll_def wencode_def leb128.simps)
  moreover have "pushID (Payload demo_toll) = Some 0x03EF"
    by (simp add: demo_toll_def pushID_def uvarint_def Let_def)
  moreover have "msg_ok demo_toll" by (simp add: msg_ok_def demo_toll_def MsgPush_def MsgReply_def)
  ultimately show ?thesis
    using capture_faithful [OF ctx aes, of "''s2c''" demo_toll "[WVarint 1 0x03EF]" demo_caplibs 0 "[(pk, ''1.5'', 15, dg)]" newCorpus]
      fl len ctx
    by (auto simp: b_def lineOf_def timeOf_def newCorpus_def demo_toll_def)
qed

subsection \<open>Requests and their responses\<close>

definition isRequest :: "'t capmsg \<Rightarrow> bool" where
  "isRequest m \<longleftrightarrow> capHasIndex m \<and> capDir m = ''c2s'' \<and> capOpcode m \<noteq> 0"

definition isResponse :: "'t capmsg \<Rightarrow> bool" where
  "isResponse m \<longleftrightarrow> capHasIndex m \<and> capDir m = ''s2c'' \<and> capOpcode m = 0 \<and> capIndex m \<noteq> pushIndex"

text \<open>The opcode of the last request with an index.\<close>

fun lastRequest :: "u32 option \<Rightarrow> u32 \<Rightarrow> 't capmsg list \<Rightarrow> u32 option" where
  "lastRequest known ix [] = known"
| "lastRequest known ix (m # ms) =
     lastRequest (if isRequest m \<and> capIndex m = ix then Some (capOpcode m) else known) ix ms"

lemma pairReplies_nth:
  assumes "i < length ms"
  shows "pairReplies req ms ! i =
    (if isResponse (ms ! i)
     then case lastRequest (req (capIndex (ms ! i))) (capIndex (ms ! i)) (take i ms) of
            Some op \<Rightarrow> (ms ! i)\<lparr>capRepliesTo := op\<rparr>
          | None \<Rightarrow> ms ! i
     else ms ! i)"
  using assms
proof (induction ms arbitrary: req i)
  case (Cons m ms)
  show ?case
  proof (cases i)
    case 0
    then show ?thesis by (auto simp: isResponse_def split: option.split)
  next
    case (Suc j)
    have "pairReplies req (m # ms) ! i = tl (pairReplies req (m # ms)) ! j" unfolding Suc by (simp add: nth_tl)
    also have "\<dots> = pairReplies (if isRequest m then req(capIndex m \<mapsto> capOpcode m) else req) ms ! j"
      by (simp add: isRequest_def)
    finally show ?thesis using Cons.IH [of j "if isRequest m then req(capIndex m \<mapsto> capOpcode m) else req"] Cons.prems Suc
      by (simp add: fun_upd_apply eq_commute [of "capIndex m"] cong: option.case_cong if_cong)
  qed
qed simp


subsection \<open>What goes wrong\<close>

text \<open>
  The assembler does not know the transport's sequence numbers. A packet that was retransmitted is in the
  capture twice, and a fragment after the first counts twice: of a message of three fragments the second
  is taken for the third, and the message is filed with the wrong end.
\<close>

lemma retransmission_corrupts:
  assumes "1800 < length p" "length p \<le> 2700"
  shows "asm_run inflate Map.empty [(fragment p c 0, t0), (fragment p c 1, t1), (fragment p c 1, t2), (fragment p c 2, t3)] =
    [(fragmentId c, take 1800 p @ slice 900 1800 p, t0, t2)]"
proof -
  let ?k = "fragmentId c" and ?ch = "slice 900 1800 p"
  have one: "asm_push inflate Map.empty (fragment p c 0) t0 = (None, [?k \<mapsto> underway p 1 t0 t0])"
    using asm_fragment [where i = 0 and a = Map.empty and c = c and ts = t0 and t0' = t0 and p = p and inflate = inflate] assms
    by (cases p) simp_all
  have two: "asm_push inflate [?k \<mapsto> underway p 1 t0 t0] (fragment p c 1) t1 = (None, [?k \<mapsto> underway p 2 t0 t1])"
    using asm_fragment [where i = 1 and a = "[?k \<mapsto> underway p 1 t0 t0]" and c = c and ts = t1 and t0' = t0 and p = p and inflate = inflate] assms
    by (simp add: numeral_2_eq_2)
  note f1 = fragment_parts [of 1 p c, unfolded bodyId_def, simplified]
  have len: "min 1800 (length p) = 1800" "length ?ch = 900" "length p mod 65536 = length p"
    using assms by (simp_all add: length_slice)
  have "asm_push inflate [?k \<mapsto> underway p 2 t0 t1] (fragment p c 1) t2 =
      asm_body inflate [?k \<mapsto> underway p 2 t0 t1] ?k (underway p 2 t0 t2) ?ch"
    using f1 len by (simp add: asm_push_def Let_def partialFor_def underway_def)
  also have "\<dots> = (Some (take 1800 p @ ?ch, t0, t2), Map.empty)"
    using assms len by (auto simp: asm_body_def underway_def Let_def)
  finally have three: "asm_push inflate [?k \<mapsto> underway p 2 t0 t1] (fragment p c 1) t2 = (Some (take 1800 p @ ?ch, t0, t2), Map.empty)" .
  note f2 = fragment_parts [of 2 p c, unfolded bodyId_def, simplified]
  have "fst (asm_push inflate Map.empty (fragment p c 2) t3) = None"
    using f2 assms by (simp add: asm_push_def Let_def partialFor_def newPartial_def asm_body_def length_slice)
  then obtain a where four: "asm_push inflate Map.empty (fragment p c 2) t3 = (None, a)" by (cases "asm_push inflate Map.empty (fragment p c 2) t3") simp
  have "bodyId (fragment p c 1) = ?k" using fragment_parts(1) [of 1 p c] by simp
  with one two three four show ?thesis by (simp del: One_nat_def)
qed

text \<open>
  decodecap takes everything after the direction for the datagram. The capture script writes a time in between,
  and so the program passes over every line it writes.
\<close>

lemma hexDecode_not_hex: "c \<in> set s \<Longrightarrow> hexVal c = None \<Longrightarrow> hexDecode s = None"
  by (induction s rule: hexDecode.induct) (auto split: option.split)

lemma decodecap_ignores_times:
  assumes "dir = ''s2c'' \<or> dir = ''c2s''" "t \<noteq> []" "\<forall>c\<in>set t. \<not> isSpace c" "dg \<noteq> []"
  shows "decodeLine ctx pattern showAll (taggedLine dir t dg) = Ignored"
proof -
  have hx: "hexEncode dg \<noteq> []" using assms(4) by (cases dg) (simp_all add: hexEncode_def)
  then have last: "\<not> isSpace (last (hexEncode dg))" using hexEncode_ink last_in_set by blast
  have nosp: "CHR '' '' \<notin> set t" using assms(3) by (auto simp: isSpace_def)
  let ?rest = "t @ CHR '' '' # hexEncode dg"
  have "hd (taggedLine dir t dg) \<in> {CHR ''s'', CHR ''c''}" "last (taggedLine dir t dg) = last (hexEncode dg)"
    using assms(1) hx by (auto simp: taggedLine_def)
  with last have l: "trimSpace (taggedLine dir t dg) = taggedLine dir t dg" "hd (taggedLine dir t dg) \<noteq> CHR ''#''"
    "taggedLine dir t dg \<noteq> []"
    by (intro trimSpace_id, auto simp: isSpace_def taggedLine_def)
  have c: "cut (CHR '' '') (taggedLine dir t dg) = Some (dir, ?rest)"
    using cut_first [of "CHR '' ''" dir] assms(1) by (auto simp: taggedLine_def)
  have "trimSpace ?rest = ?rest" using last hx assms(2,3) by (intro trimSpace_id) auto
  moreover have "hexDecode ?rest = None"
    by (rule hexDecode_not_hex [of "CHR '' ''"]) (simp_all add: hexVal_def)
  ultimately show ?thesis using l c by (simp add: decodeLine_def Let_def)
qed

text \<open>The key that verifies is the first that opens the datagram, and what is printed is what it opens to.\<close>

lemma tryKeys_outcome:
  "case tryKeys aes raw dir i kss of
     Verified j ks pt pre \<Rightarrow>
       i < j \<and> j \<le> i + length kss \<and> kss ! (j - Suc i) = ks \<and>
       (\<exists>key. hexDecode (unspaced ks) = Some key \<and> length key = 16 \<and> openWith aes key raw dir = Inr (pt, pre))
   | NoKeyVerified \<Rightarrow>
       (\<forall>ks\<in>set kss. \<forall>key r. hexDecode (unspaced ks) = Some key \<and> length key = 16 \<longrightarrow> openWith aes key raw dir \<noteq> Inr r)
   | _ \<Rightarrow> False"
proof (induction kss arbitrary: i)
  case (Cons ks kss)
  show ?case
  proof (cases "\<exists>key r. hexDecode (unspaced ks) = Some key \<and> length key = 16 \<and> openWith aes key raw dir = Inr r")
    case True
    then show ?thesis by (auto split: prod.split)
  next
    case False
    then have "tryKeys aes raw dir i (ks # kss) = tryKeys aes raw dir (Suc i) kss"
      by (auto split: option.split sum.split)
    with Cons.IH [of "Suc i"] False show ?thesis
      by (auto split: verify_exit.splits simp: Suc_le_eq nth_Cons')
  qed
qed simp

end
