(* ===== verification/Key_Tool.thy ===== *)
theory Key_Tool
  imports Capture_Tools
begin

section \<open>The key and patch tool\<close>

text \<open>
  cmd/dsotool/main.go: making a key pair, and writing the emulator patch that puts the public half in place of the
  key in the client. The random primes, the PEM codec and the file system are those of \<open>Rsa_Keys\<close>.
\<close>

subsection \<open>Arguments\<close>

definition hasDashes :: "string \<Rightarrow> bool" where
  "hasDashes a \<longleftrightarrow> take 2 a = ''--''"

fun flagLoop :: "string list \<Rightarrow> (string \<rightharpoonup> string) \<Rightarrow> (string \<rightharpoonup> string)" where
  "flagLoop [] m = m"
| "flagLoop [a] m = (if hasDashes a then m(drop 2 a \<mapsto> ''true'') else m)"
| "flagLoop (a # b # rest) m =
     (if hasDashes a
      then if \<not> hasDashes b then flagLoop rest (m(drop 2 a \<mapsto> b))
           else flagLoop (b # rest) (m(drop 2 a \<mapsto> ''true''))
      else flagLoop (b # rest) m)"

definition parseFlags :: "string list \<Rightarrow> (string \<rightharpoonup> string)" where
  "parseFlags args = flagLoop args Map.empty"

definition flagOf :: "(string \<rightharpoonup> string) \<Rightarrow> string \<Rightarrow> string" where
  "flagOf f k = (case f k of Some v \<Rightarrow> v | None \<Rightarrow> '''')"

text \<open>\<open>strconv.ParseUint(s, 16, 64)\<close> and \<open>strconv.ParseInt(s, 16, 64)\<close>.\<close>

fun hexNum :: "nat \<Rightarrow> string \<Rightarrow> nat option" where
  "hexNum acc [] = Some acc"
| "hexNum acc (c # cs) = (case hexVal c of None \<Rightarrow> None | Some d \<Rightarrow> hexNum (16 * acc + d) cs)"

definition parseHex :: "string \<Rightarrow> nat option" where
  "parseHex s =
     (if s = [] then None else case hexNum 0 s of None \<Rightarrow> None | Some n \<Rightarrow> if n < 2 ^ 64 then Some n else None)"

definition parseHexInt :: "string \<Rightarrow> int option" where
  "parseHexInt s =
     (let (neg, rest) = (case s of c # cs \<Rightarrow> if c = CHR ''-'' then (True, cs) else if c = CHR ''+'' then (False, cs)
                                             else (False, s)
                                 | [] \<Rightarrow> (False, []))
      in if rest = [] then None
         else case hexNum 0 rest of
                None \<Rightarrow> None
              | Some n \<Rightarrow>
                  let i = (if neg then - int n else int n)
                  in if - (2 ^ 63) \<le> i \<and> i < 2 ^ 63 then Some i else None)"

definition atoiDefault :: "string \<Rightarrow> int \<Rightarrow> int" where
  "atoiDefault s d =
     (if s = '''' then d
      else
        case (if take 2 s = ''0x'' then parseHexInt (drop 2 s) else None) of
          Some v \<Rightarrow> v
        | None \<Rightarrow> (case atoi s of Some v \<Rightarrow> v | None \<Rightarrow> d))"

definition trimHexPrefix :: "string \<Rightarrow> string" where
  "trimHexPrefix s = (if take 2 s = ''0x'' then drop 2 s else s)"


subsection \<open>Making a key\<close>

definition privateName :: "string \<Rightarrow> string" where "privateName out = out @ ''/server.private.pem''"
definition publicName :: "string \<Rightarrow> string" where "publicName out = out @ ''/server.public.pem''"

definition cmdKeygen ::
  "KeyCodec \<Rightarrow> generator \<Rightarrow> (nat \<Rightarrow> int \<Rightarrow> string + nat) \<Rightarrow> (RSAKey \<Rightarrow> bool) \<Rightarrow> string list \<Rightarrow> FileSys \<Rightarrow>
     (key_error option + RSAKey) \<times> FileSys" where
  "cmdKeygen kc gen draw validate args fs =
     (let f = parseFlags args; out = flagOf f ''out''
      in if out = '''' then (Inl None, fs)
         else
           let bits = atoiDefault (flagOf f ''bits'') 2048; e = atoiDefault (flagOf f ''exponent'') 65537
           in case GenerateWithExponent gen draw validate bits e of
                Inl err \<Rightarrow> (Inl (Some err), fs)
              | Inr priv \<Rightarrow>
                  (case fsMkdirErr fs out of
                     Some err \<Rightarrow> (Inl (Some (MkdirFailed err)), fs)
                   | None \<Rightarrow>
                       (case writeFile fs (privateName out) (PrivatePEM kc priv) 384 of
                          (Some err, fs1) \<Rightarrow> (Inl (Some (WritePrivateFailed err)), fs1)
                        | (None, fs1) \<Rightarrow>
                            (case writeFile fs1 (publicName out) (PublicPEM kc (keyModulus priv, keyPublic priv)) 420 of
                               (Some err, fs2) \<Rightarrow> (Inl (Some (WritePublicFailed err)), fs2)
                             | (None, fs2) \<Rightarrow> (Inr priv, fs2)))))"


subsection \<open>The patch\<close>

definition yamlEscape :: "byte \<Rightarrow> bytes" where
  "yamlEscape c =
     (if c = 0x0A then [0x5C, 0x6E] else if c = 0x0D then [0x5C, 0x72] else if c = 0x09 then [0x5C, 0x74]
      else if c = 0x22 then [0x5C, 0x22] else if c = 0x5C then [0x5C, 0x5C] else [c])"

definition yamlQuote :: "bytes \<Rightarrow> bytes" where
  "yamlQuote b = [0x22] @ concat (map yamlEscape b) @ [0x22]"

definition defaultLoginKeyVaddr :: string where "defaultLoginKeyVaddr = ''0x17FB338''"

definition upperHex :: "nat \<Rightarrow> string" where
  "upperHex n = map (\<lambda>c. let k = of_char c :: nat in if 97 \<le> k \<and> k \<le> 102 then char_of (k - 32) else c) (hexOf n)"

definition patchHead :: "string \<Rightarrow> string \<Rightarrow> nat \<Rightarrow> nat \<Rightarrow> int \<Rightarrow> string" where
  "patchHead ppu title vaddr len origLen =
     ''Version: 1.2'' @ [newline, newline] @ ppu @ '':'' @ [newline] @
     ''  '' @ [CHR 0x22] @ ''dso login key redirect'' @ [CHR 0x22] @ '':'' @ [newline] @
     ''    Games:'' @ [newline] @
     ''      '' @ [CHR 0x22] @ ''DARK SOULS II'' @ [CHR 0x22] @ '':'' @ [newline] @
     ''        '' @ title @ '': [ All ]'' @ [newline] @
     ''    Author: '' @ [CHR 0x22] @ ''dso'' @ [CHR 0x22] @ [newline] @
     ''    Patch Version: '' @ [CHR 0x22] @ ''1.0'' @ [CHR 0x22] @ [newline] @
     ''    Notes: |'' @ [newline] @
     ''      Replaces the login server RSA public key at 0x'' @ upperHex vaddr @ '' with the dso server'' @ [CHR 0x27] @ ''s'' @ [newline] @
     ''      public key so the client'' @ [CHR 0x27] @ ''s login/auth handshake targets this server.'' @ [newline] @
     ''      Our PEM is '' @ decimal len @ '' bytes; original field is '' @
       (if origLen < 0 then ''-'' @ decimal (nat (- origLen)) else decimal (nat origLen)) @ '' bytes.'' @ [newline] @
     ''    Patch:'' @ [newline]"

definition patchLine :: "nat \<Rightarrow> bytes \<Rightarrow> bytes" where
  "patchLine vaddr pem = textBytes (''      - [ utf8, 0x'' @ upperHex vaddr @ '', '') @ yamlQuote pem @ textBytes ('' ]'' @ [newline])"

datatype patch_error = KeyRequired | BadVaddr | ReadPatchKey | BadPatchKey key_error | TooLarge nat int

definition cmdPS3Patch :: "KeyCodec \<Rightarrow> string list \<Rightarrow> FileSys \<Rightarrow> patch_error + bytes" where
  "cmdPS3Patch kc args fs =
     (let f = parseFlags args; keyFile = flagOf f ''key''
      in if keyFile = '''' then Inl KeyRequired
         else
           let vaddrStr = (if flagOf f ''vaddr'' = '''' then defaultLoginKeyVaddr else flagOf f ''vaddr'')
           in case parseHex (trimHexPrefix vaddrStr) of
                None \<Rightarrow> Inl BadVaddr
              | Some vaddr \<Rightarrow>
                  let ppu = (if flagOf f ''ppu-hash'' = '''' then ''PPU-XXXXXXXXXXXXXXXXXXXXXXXXXXXXXXXXXXXXXXXX''
                             else flagOf f ''ppu-hash'');
                      title = (if flagOf f ''title'' = '''' then ''BLUS41045'' else flagOf f ''title'')
                  in case readFile fs keyFile of
                       ReadData pem \<Rightarrow>
                         (case ParsePublicPEM kc pem of
                            Inl err \<Rightarrow> Inl (BadPatchKey err)
                          | Inr _ \<Rightarrow>
                              let origLen = atoiDefault (flagOf f ''orig-len'') (int (length pem))
                              in if origLen < int (length pem) then Inl (TooLarge (length pem) origLen)
                                 else Inr (textBytes (patchHead ppu title vaddr (length pem) origLen) @ patchLine vaddr pem))
                     | _ \<Rightarrow> Inl ReadPatchKey)"

datatype tool_result = ToolUsage | ToolFailed | ToolDone bytes

text \<open>What the program does with its arguments; what keygen prints is left out.\<close>

definition dsotool ::
  "KeyCodec \<Rightarrow> generator \<Rightarrow> (nat \<Rightarrow> int \<Rightarrow> string + nat) \<Rightarrow> (RSAKey \<Rightarrow> bool) \<Rightarrow> string list \<Rightarrow> FileSys \<Rightarrow>
     tool_result \<times> FileSys" where
  "dsotool kc gen draw validate args fs =
     (case args of
        [] \<Rightarrow> (ToolUsage, fs)
      | cmd # rest \<Rightarrow>
          if cmd = ''keygen'' then
            (case cmdKeygen kc gen draw validate rest fs of (Inl _, fs') \<Rightarrow> (ToolFailed, fs') | (Inr _, fs') \<Rightarrow> (ToolDone [], fs'))
          else if cmd = ''ps3-patch'' then
            (case cmdPS3Patch kc rest fs of Inl _ \<Rightarrow> (ToolFailed, fs) | Inr out \<Rightarrow> (ToolDone out, fs))
          else (ToolUsage, fs))"

subsection \<open>What the patch says\<close>

text \<open>Reading a double-quoted YAML scalar with the escapes the tool writes.\<close>

definition yamlMeaning :: "byte \<Rightarrow> byte option" where
  "yamlMeaning e =
     (if e = 0x6E then Some 0x0A else if e = 0x72 then Some 0x0D else if e = 0x74 then Some 0x09
      else if e = 0x22 \<or> e = 0x5C then Some e else None)"

fun yamlUnescape :: "bytes \<Rightarrow> bytes option" where
  "yamlUnescape [] = Some []"
| "yamlUnescape [c] = (if c = 0x5C \<or> c = 0x22 then None else Some [c])"
| "yamlUnescape (c # e # cs) =
     (if c = 0x5C
      then (case yamlMeaning e of None \<Rightarrow> None | Some x \<Rightarrow> map_option (Cons x) (yamlUnescape cs))
      else if c = 0x22 then None
      else map_option (Cons c) (yamlUnescape (e # cs)))"

definition yamlUnquote :: "bytes \<Rightarrow> bytes option" where
  "yamlUnquote q = (if 2 \<le> length q \<and> hd q = 0x22 \<and> last q = 0x22 then yamlUnescape (butlast (tl q)) else None)"

lemma yamlUnescape_step: "yamlUnescape (yamlEscape c @ rest) = map_option (Cons c) (yamlUnescape rest)"
  by (cases rest) (auto simp: yamlEscape_def yamlMeaning_def)

lemma yamlUnquote_quote: "yamlUnquote (yamlQuote b) = Some b"
proof -
  have "yamlUnescape (concat (map yamlEscape b)) = Some b"
    by (induction b) (simp_all add: yamlUnescape_step)
  then show ?thesis by (simp add: yamlUnquote_def yamlQuote_def)
qed

lemma publicName_plain: "\<not> hasDashes d \<Longrightarrow> \<not> hasDashes (publicName d)"
  by (cases d rule: list.exhaust; cases "tl d") (auto simp: hasDashes_def publicName_def)

lemma keygen_files:
  assumes "cmdKeygen kc gen draw validate args fs = (Inr key, fs')" "d = flagOf (parseFlags args) ''out''"
  shows "d \<noteq> ''''" "fsReadErr fs' = fsReadErr fs"
    "\<exists>m. fsContent fs' (privateName d) = Some (PrivatePEM kc key, m)"
    "\<exists>m. fsContent fs' (publicName d) = Some (PublicPEM kc (keyModulus key, keyPublic key), m)"
    "p \<noteq> privateName d \<Longrightarrow> p \<noteq> publicName d \<Longrightarrow> fsContent fs' p = fsContent fs p"
  using assms
  by (auto simp: cmdKeygen_def Let_def writeFile_def privateName_def publicName_def split: if_splits sum.splits option.splits)

text \<open>The lines of a text, and those of them that are entries of a list of patches, however far they are indented.\<close>

fun byteLines :: "bytes \<Rightarrow> bytes list" where
  "byteLines [] = [[]]"
| "byteLines (c # cs) = (if c = 0x0A then [] # byteLines cs else (c # hd (byteLines cs)) # tl (byteLines cs))"

definition patchEntries :: "bytes \<Rightarrow> bytes list" where
  "patchEntries out = filter (\<lambda>l. take 3 (dropWhile (\<lambda>c. c = 0x20) l) = textBytes ''- ['') (byteLines out)"

lemma byteLines_line: "0x0A \<notin> set l \<Longrightarrow> byteLines (l @ 0x0A # rest) = l # byteLines rest"
  by (induction l) auto

lemma textBytes_append [simp]: "textBytes (a @ b) = textBytes a @ textBytes b"
  by (simp add: textBytes_def)

lemma textBytes_newline [simp]: "textBytes (newline # t) = 0x0A # textBytes t"
  by (simp add: textBytes_def newline_def)

lemma char_byte_inj: "(word_of_nat (of_char c) :: byte) = word_of_nat (of_char d) \<Longrightarrow> c = d"
proof -
  assume "(word_of_nat (of_char c) :: byte) = word_of_nat (of_char d)"
  then have "unat (word_of_nat (of_char c) :: byte) = unat (word_of_nat (of_char d) :: byte)" by simp
  then show "c = d" by (simp add: unat_of_nat)
qed

lemma textBytes_inj: "textBytes a = textBytes b \<longleftrightarrow> a = b"
  unfolding textBytes_def using char_byte_inj by (intro inj_eq [OF inj_mapI] injI)

lemma textBytes_line: "newline \<notin> set l \<Longrightarrow> 0x0A \<notin> set (textBytes l)"
  using char_byte_inj [of _ newline] by (auto simp: textBytes_def newline_def)

definition isEntry :: "string \<Rightarrow> bool" where
  "isEntry l \<longleftrightarrow> take 3 (dropWhile (\<lambda>c. c = CHR '' '') l) = ''- [''"

lemma textBytes_entry: "take 3 (dropWhile (\<lambda>c. c = 0x20) (textBytes l)) = textBytes ''- ['' \<longleftrightarrow> isEntry l"
proof -
  have "(word_of_nat (of_char c) :: byte) = 0x20 \<longleftrightarrow> c = CHR '' ''" for c
    using char_byte_inj [of c "CHR '' ''"] by auto
  then have "dropWhile (\<lambda>c. c = 0x20) (textBytes l) = textBytes (dropWhile (\<lambda>c. c = CHR '' '') l)"
    by (simp add: textBytes_def dropWhile_map comp_def)
  moreover have "take 3 (textBytes t) = textBytes (take 3 t)" for t by (simp add: textBytes_def take_map)
  ultimately show ?thesis by (simp add: textBytes_inj isEntry_def)
qed

lemma isEntry_bracket: "isEntry l \<Longrightarrow> CHR ''['' \<in> set l"
proof -
  assume "isEntry l"
  then have "CHR ''['' \<in> set (take 3 (dropWhile (\<lambda>c. c = CHR '' '') l))" by (simp add: isEntry_def)
  then show ?thesis by (blast dest: in_set_takeD set_dropWhileD)
qed

lemma patchEntries_head:
  assumes "\<forall>l\<in>set ls. newline \<notin> set l \<and> \<not> isEntry l"
  shows "patchEntries (textBytes (concat (map (\<lambda>l. l @ [newline]) ls)) @ rest) = patchEntries rest"
  using assms
proof (induction ls)
  case Nil
  then show ?case by (simp add: textBytes_def)
next
  case (Cons l ls)
  with textBytes_line [of l] textBytes_entry [of l] show ?case
    by (simp add: patchEntries_def byteLines_line)
qed

text \<open>The line of the title has a bracket, but not where an entry has it.\<close>

lemma title_no_entry:
  assumes "CHR ''['' \<notin> set title"
  shows "\<not> isEntry (''        '' @ title @ '': [ All ]'')"
proof -
  define u where "u = dropWhile (\<lambda>c. c = CHR '' '') title"
  have "CHR ''['' \<notin> set u" using assms unfolding u_def by (blast dest: set_dropWhileD)
  moreover have "dropWhile (\<lambda>c. c = CHR '' '') (''        '' @ title @ '': [ All ]'') =
      (if u = [] then '': [ All ]'' else u @ '': [ All ]'')"
    by (auto simp: u_def dropWhile_append dropWhile_eq_Nil_conv)
  ultimately show ?thesis
    by (cases u; cases "tl u"; cases "tl (tl u)") (auto simp: isEntry_def)
qed

lemma digits_line: "newline \<notin> set (decimal n)"
proof (induction n rule: decimal.induct)
  case (1 n)
  have "list_all (\<lambda>d. digit d \<noteq> newline) [0..<10]" by code_simp
  then have "digit d \<noteq> newline" if "d < 10" for d using that by (simp add: list_all_iff)
  from this [of n] this [of "n mod 10"] 1 show ?case by (subst decimal.simps) auto
qed

lemma loginKey_hex: "upperHex 0x17FB338 = ''17FB338''"
  by (simp add: upperHex_def hexOf.simps hexDigit_def) code_simp

lemma patchHead_entries:
  assumes "newline \<notin> set ppu" "newline \<notin> set title" "CHR ''['' \<notin> set ppu" "CHR ''['' \<notin> set title"
  shows "patchEntries (textBytes (patchHead ppu title 0x17FB338 len origLen) @ rest) = patchEntries rest"
proof -
  let ?q = "[CHR 0x22]" and ?a = "[CHR 0x27]"
  let ?num = "if origLen < 0 then ''-'' @ decimal (nat (- origLen)) else decimal (nat origLen)"
  let ?ls = "[''Version: 1.2'', [], ppu @ '':'', ''  '' @ ?q @ ''dso login key redirect'' @ ?q @ '':'',
    ''    Games:'', ''      '' @ ?q @ ''DARK SOULS II'' @ ?q @ '':'', ''        '' @ title @ '': [ All ]'',
    ''    Author: '' @ ?q @ ''dso'' @ ?q, ''    Patch Version: '' @ ?q @ ''1.0'' @ ?q, ''    Notes: |'',
    ''      Replaces the login server RSA public key at 0x'' @ ''17FB338'' @ '' with the dso server'' @ ?a @ ''s'',
    ''      public key so the client'' @ ?a @ ''s login/auth handshake targets this server.'',
    ''      Our PEM is '' @ decimal len @ '' bytes; original field is '' @ ?num @ '' bytes.'', ''    Patch:'']"
  have head: "patchHead ppu title 0x17FB338 len origLen = concat (map (\<lambda>l. l @ [newline]) ?ls)"
    unfolding patchHead_def loginKey_hex by simp
  have "\<not> isEntry (ppu @ '':'')" using isEntry_bracket [of "ppu @ '':''"] assms(3) by auto
  moreover have "newline \<notin> set ?num" using digits_line by (simp add: newline_def)
  ultimately have "\<forall>l\<in>set ?ls. newline \<notin> set l \<and> \<not> isEntry l"
    using assms(1,2) digits_line [of len] title_no_entry [OF assms(4)]
    by (simp add: newline_def) (simp add: isEntry_def)
  then show ?thesis unfolding head by (rule patchEntries_head)
qed

lemma yamlQuote_line: "0x0A \<notin> set (yamlQuote pem)"
  by (auto simp: yamlQuote_def yamlEscape_def)

lemma patchLine_entry:
  "patchEntries (patchLine 0x17FB338 pem) = [textBytes ''      - [ utf8, 0x17FB338, '' @ yamlQuote pem @ textBytes '' ]'']"
proof -
  let ?l = "textBytes ''      - [ utf8, 0x17FB338, '' @ yamlQuote pem @ textBytes '' ]''"
  have "patchLine 0x17FB338 pem = ?l @ 0x0A # []"
    unfolding patchLine_def loginKey_hex textBytes_append textBytes_newline by (simp add: textBytes_def)
  moreover have "0x0A \<notin> set ?l"
    using yamlQuote_line [of pem] textBytes_line [of "''      - [ utf8, 0x17FB338, ''"] textBytes_line [of "'' ]''"]
    by (simp add: newline_def)
  ultimately have "byteLines (patchLine 0x17FB338 pem) = [?l, []]" using byteLines_line [of ?l "[]"] by simp
  moreover have "take 3 (dropWhile (\<lambda>c. c = 0x20) ?l) = textBytes ''- [''" by (simp add: textBytes_def)
  ultimately show ?thesis by (simp add: patchEntries_def textBytes_def)
qed

lemma keygen_then_patch:
  assumes "codec_ok kc" "cmdKeygen kc gen draw validate args fs = (Inr key, fs')" "fsReadErr fs = (\<lambda>_. None)"
    and "d = flagOf (parseFlags args) ''out''" "flagOf (parseFlags pargs) ''key'' = publicName d"
    and "flagOf (parseFlags pargs) ''vaddr'' = ''''" "flagOf (parseFlags pargs) ''orig-len'' = ''''"
  defines "pem \<equiv> PublicPEM kc (keyModulus key, keyPublic key)"
    and "ppu \<equiv> if flagOf (parseFlags pargs) ''ppu-hash'' = '''' then ''PPU-XXXXXXXXXXXXXXXXXXXXXXXXXXXXXXXXXXXXXXXX''
        else flagOf (parseFlags pargs) ''ppu-hash''"
    and "title \<equiv> if flagOf (parseFlags pargs) ''title'' = '''' then ''BLUS41045'' else flagOf (parseFlags pargs) ''title''"
  shows "cmdPS3Patch kc pargs fs' =
    Inr (textBytes (patchHead ppu title 0x17FB338 (length pem) (int (length pem))) @ patchLine 0x17FB338 pem)"
proof -
  note files = keygen_files [OF assms(2,4)]
  have read: "readFile fs' (publicName d) = ReadData pem"
    using files(2,4) assms(3) by (auto simp: readFile_def pem_def)
  have va: "parseHex (trimHexPrefix defaultLoginKeyVaddr) = Some 0x17FB338"
    by (simp add: parseHex_def trimHexPrefix_def defaultLoginKeyVaddr_def hexVal_def)
  have parse: "ParsePublicPEM kc pem = Inr (keyModulus key, keyPublic key)"
    using pem_roundtrip(2) [OF assms(1)] unfolding pem_def by blast
  have "publicName d \<noteq> ''''" by (simp add: publicName_def)
  then show ?thesis
    unfolding cmdPS3Patch_def assms(5,6,7) Let_def
    by (simp add: read va parse ppu_def title_def atoiDefault_def)
qed

text \<open>
  C37: a key made by the tool is the key the client will be patched with and the server will run with. With
  files that can be read and a PEM codec that reads back what it writes: if keygen, with whatever options,
  succeeds on a directory, then ps3-patch, called on the public half it wrote without the options vaddr and
  orig-len, and with a program hash and a title (if given) without newlines and opening brackets, emits a text
  with exactly one patch entry, which writes a string at 0x17FB338, the address of the login key in the game;
  the string reads back as exactly the file, which parses to the public half of the key. And the server,
  started on the same two files, loads the private half and writes nothing.
\<close>

theorem patch_carries_key:
  assumes "codec_ok kc" "cmdKeygen kc gen draw validate args fs = (Inr key, fs')" "fsReadErr fs = (\<lambda>_. None)"
    and "d = flagOf (parseFlags args) ''out''" "flagOf (parseFlags pargs) ''key'' = publicName d"
    and "flagOf (parseFlags pargs) ''vaddr'' = ''''" "flagOf (parseFlags pargs) ''orig-len'' = ''''"
    and "newline \<notin> set (flagOf (parseFlags pargs) ''title'') \<and> CHR ''['' \<notin> set (flagOf (parseFlags pargs) ''title'')"
    and "newline \<notin> set (flagOf (parseFlags pargs) ''ppu-hash'') \<and> CHR ''['' \<notin> set (flagOf (parseFlags pargs) ''ppu-hash'')"
  shows "\<exists>out pem m. cmdPS3Patch kc pargs fs' = Inr out \<and> fsContent fs' (publicName d) = Some (pem, m) \<and>
    patchEntries out = [textBytes ''      - [ utf8, 0x17FB338, '' @ yamlQuote pem @ textBytes '' ]''] \<and>
    yamlUnquote (yamlQuote pem) = Some pem \<and> ParsePublicPEM kc pem = Inr (keyModulus key, keyPublic key) \<and>
    LoadOrGenerate kc gen' (privateName d) (publicName d) bits fs' = (Inr key, fs')"
proof -
  note files = keygen_files [OF assms(2,4)]
  let ?pem = "PublicPEM kc (keyModulus key, keyPublic key)"
  obtain ppu title where out: "cmdPS3Patch kc pargs fs' =
      Inr (textBytes (patchHead ppu title 0x17FB338 (length ?pem) (int (length ?pem))) @ patchLine 0x17FB338 ?pem)"
    and plain: "newline \<notin> set ppu" "newline \<notin> set title" "CHR ''['' \<notin> set ppu" "CHR ''['' \<notin> set title"
    using keygen_then_patch [OF assms(1-7)] assms(8,9) by (auto simp: newline_def split: if_splits)
  obtain m1 m2 where priv: "fsContent fs' (privateName d) = Some (PrivatePEM kc key, m1)"
    and pub: "fsContent fs' (publicName d) = Some (?pem, m2)"
    using files(3,4) by blast
  have "readFile fs' (privateName d) = ReadData (PrivatePEM kc key)"
    using priv files(2) assms(3) by (simp add: readFile_def)
  then have "LoadOrGenerate kc gen' (privateName d) (publicName d) bits fs' = (Inr key, fs')"
    by (simp add: LoadOrGenerate_def pem_roundtrip [OF assms(1)])
  with out pub pem_roundtrip(2) [OF assms(1)] yamlUnquote_quote [of ?pem] show ?thesis
    by (simp add: patchHead_entries [OF plain] patchLine_entry)
qed

text \<open>
  The size of the field in the client is only known from \<open>--orig-len\<close>. Without it the new key is compared with itself,
  and a key of any length is accepted.
\<close>

lemma unsized_patch_never_refused:
  assumes "flagOf (parseFlags args) ''orig-len'' = ''''"
  shows "cmdPS3Patch kc args fs \<noteq> Inl (TooLarge n k)"
  using assms by (auto simp: cmdPS3Patch_def Let_def atoiDefault_def split: if_splits option.splits sum.splits read_result.splits)

theorem patch_carries_key_witness:
  "\<exists>key fs' out pem. cmdPS3Patch demo_codec [''--key'', ''k/server.public.pem'', ''--title'', ''BLES01959''] fs' = Inr out \<and>
     patchEntries out = [textBytes ''      - [ utf8, 0x17FB338, '' @ yamlQuote pem @ textBytes '' ]''] \<and>
     ParsePublicPEM demo_codec pem = Inr (33, 65537) \<and>
     LoadOrGenerate demo_codec (\<lambda>_. Inl ''no'') ''k/server.private.pem'' ''k/server.public.pem'' 0 fs' = (Inr key, fs')"
proof -
  let ?key = "\<lparr>keyModulus = 33, keyPublic = 65537, keyPrivate = 3, keyPrimes = [3, 11]\<rparr>"
  let ?gen = "\<lambda>_ :: int. Inr ?key :: string + RSAKey"
  let ?fs = "\<lparr>fsContent = Map.empty, fsReadErr = \<lambda>_. None, fsWriteErr = \<lambda>_. None, fsMkdirErr = \<lambda>_. None\<rparr> :: FileSys"
  let ?args = "[''--out'', ''k'', ''--exponent'', ''65537'']"
  let ?pargs = "[''--key'', ''k/server.public.pem'', ''--title'', ''BLES01959'']"
  have e: "atoiDefault ''65537'' 65537 = 65537" "atoiDefault '''' 2048 = 2048"
    by (simp_all add: atoiDefault_def atoi_def digitVal_def)
  obtain fs' where r: "cmdKeygen demo_codec ?gen (\<lambda>_ _. Inl '''') (\<lambda>_. True) ?args ?fs = (Inr ?key, fs')"
    by (simp add: cmdKeygen_def parseFlags_def hasDashes_def flagOf_def e GenerateWithExponent_def Generate_def writeFile_def Let_def)
  have names: "publicName ''k'' = ''k/server.public.pem''" "privateName ''k'' = ''k/server.private.pem''"
    by (simp_all add: publicName_def privateName_def)
  have d: "''k'' = flagOf (parseFlags ?args) ''out''"
    by (simp add: parseFlags_def hasDashes_def flagOf_def)
  have flags: "flagOf (parseFlags ?pargs) ''key'' = publicName ''k''" "flagOf (parseFlags ?pargs) ''vaddr'' = ''''"
    "flagOf (parseFlags ?pargs) ''orig-len'' = ''''"
    "newline \<notin> set (flagOf (parseFlags ?pargs) ''title'') \<and> CHR ''['' \<notin> set (flagOf (parseFlags ?pargs) ''title'')"
    "newline \<notin> set (flagOf (parseFlags ?pargs) ''ppu-hash'') \<and> CHR ''['' \<notin> set (flagOf (parseFlags ?pargs) ''ppu-hash'')"
    unfolding names by (simp_all add: parseFlags_def hasDashes_def flagOf_def newline_def)
  from patch_carries_key [OF demo_codec_ok r _ d flags, of "\<lambda>_. Inl ''no''" 0] show ?thesis
    unfolding names by auto
qed

end
