(* ===== verification/Memory_Tools.thy ===== *)
theory Memory_Tools
  imports Key_Tool
begin

section \<open>Searching the memory of a process\<close>

text \<open>
  tools/memscan/main_windows.go and the search of tools/keydump/main_windows.go. The Windows calls are parameters:
  \<open>query\<close> is \<open>VirtualQueryEx\<close>, \<open>read\<close> is \<open>ReadProcessMemory\<close> with the bytes it delivers, or nothing if it fails; a
  snapshot of the processes is the list of its entries. Addresses are 64-bit words and wrap as \<open>uintptr\<close> does.
\<close>

type_synonym memory_read = "u64 \<Rightarrow> nat \<Rightarrow> bytes option"

subsection \<open>Occurrences in a piece of memory\<close>

definition matchesIn :: "bytes \<Rightarrow> bytes \<Rightarrow> nat list" where
  "matchesIn pat chunk = filter (\<lambda>i. take (length pat) (drop i chunk) = pat) [0..<Suc (length chunk) - length pat]"

record memInfo =
  BaseAddress :: u64
  RegionSize :: u64
  memState :: u32
  memProtect :: u32

definition memCommit :: u32 where "memCommit = 0x1000"
definition pageNoAccess :: u32 where "pageNoAccess = 0x01"
definition pageGuard :: u32 where "pageGuard = 0x100"

definition readable :: "memInfo \<Rightarrow> bool" where
  "readable mi \<longleftrightarrow> memState mi = memCommit \<and> memProtect mi AND pageNoAccess = 0 \<and> memProtect mi AND pageGuard = 0"

definition scanBuffer :: nat where "scanBuffer = 4194304"

text \<open>The hits in a region from an offset on: the address, the piece it was found in and where there.\<close>

function regionHits :: "memory_read \<Rightarrow> bytes \<Rightarrow> u64 \<Rightarrow> nat \<Rightarrow> nat \<Rightarrow> (u64 \<times> bytes \<times> nat) list" where
  "regionHits read pat base extent off =
     (if extent \<le> off then []
      else
        let n = min scanBuffer (extent - off);
            here = (case read (base + word_of_nat off) n of
                      None \<Rightarrow> []
                    | Some chunk \<Rightarrow>
                        map (\<lambda>i. (base + word_of_nat off + word_of_nat i, chunk, i)) (matchesIn pat chunk))
        in if n < length pat then here
           else here @ regionHits read pat base extent (off + (n - length pat + 1)))"
  by pat_completeness auto
termination by (relation "measure (\<lambda>(read, pat, base, extent, off). extent - off)") auto

declare regionHits.simps [simp del]

text \<open>The walk over the address space ends because it goes up.\<close>

function walkRegions :: "(u64 \<Rightarrow> memInfo option) \<Rightarrow> u64 \<Rightarrow> memInfo list" where
  "walkRegions query addr =
     (case query addr of
        None \<Rightarrow> []
      | Some mi \<Rightarrow>
          let next = BaseAddress mi + RegionSize mi
          in if next \<le> addr then [] else mi # walkRegions query next)"
  by pat_completeness auto
termination
proof (relation "measure (\<lambda>(query, addr). 2 ^ 64 - unat addr)")
  fix query addr and mi :: memInfo and "next" :: u64
  assume up: "\<not> next \<le> addr"
  have "unat next < 2 ^ 64" using unsigned_less [of "next", where 'a = nat] by simp
  with up show "((query, next), query, addr) \<in> measure (\<lambda>(query, addr). 2 ^ 64 - unat addr)"
    by (simp add: word_less_nat_alt not_le)
qed simp

declare walkRegions.simps [simp del]

definition memscanHits ::
  "(u64 \<Rightarrow> memInfo option) \<Rightarrow> memory_read \<Rightarrow> bytes \<Rightarrow> int \<Rightarrow> (u64 \<times> bytes \<times> nat) list" where
  "memscanHits query read pat limit =
     take (max 1 (nat limit))
       (concat (map (\<lambda>mi. regionHits read pat (BaseAddress mi) (unat (RegionSize mi)) 0)
         (filter readable (walkRegions query 0))))"


subsection \<open>Patterns, addresses and dumps\<close>

definition encodeUTF16 :: "string \<Rightarrow> bool \<Rightarrow> bytes" where
  "encodeUTF16 s bigEndian =
     concat (map (\<lambda>r. if 0xFFFF < r then []
                      else if bigEndian then [word_of_nat (r div 256), word_of_nat r]
                      else [word_of_nat r, word_of_nat (r div 256)]) (runes s))"

fun decodeUTF16BE :: "bytes \<Rightarrow> string" where
  "decodeUTF16BE (a # b # bs) =
     (let c = get_be16 [a, b] in if 0x20 \<le> c \<and> c < 0x7F then char_of (unat c) else CHR ''.'') # decodeUTF16BE bs"
| "decodeUTF16BE bs = ''''"

definition parseAddr :: "string \<Rightarrow> u64 option" where
  "parseAddr s = map_option word_of_nat (parseHex (trimHexPrefix (filter (\<lambda>c. c \<noteq> CHR ''_'') (trimSpace s))))"

datatype pattern_flags = PatternFlags string string string string

text \<open>The pattern of the first flag that is set, in the order of the code; \<open>Inl\<close> is the complaint.\<close>

definition patternOf :: "pattern_flags \<Rightarrow> string + bytes" where
  "patternOf f =
     (case f of PatternFlags hexPat utf16be utf16le ascii \<Rightarrow>
        let r = (if hexPat \<noteq> ''''
                 then (case hexDecode (filter (\<lambda>c. c \<noteq> CHR '' '') hexPat) of None \<Rightarrow> Inl ''-hex is not valid hex'' | Some b \<Rightarrow> Inr b)
                 else if utf16be \<noteq> '''' then Inr (encodeUTF16 utf16be True)
                 else if utf16le \<noteq> '''' then Inr (encodeUTF16 utf16le False)
                 else if ascii \<noteq> '''' then Inr (textBytes ascii)
                 else Inl ''give one of -hex, -utf16be, -utf16le, -ascii or -read'')
        in case r of Inl err \<Rightarrow> Inl err | Inr pat \<Rightarrow> if pat = [] then Inl ''empty pattern'' else Inr pat)"

text \<open>The bytes printed around a hit: their first address, the address after them, and the bytes.\<close>

definition hitContext :: "bytes \<Rightarrow> nat \<Rightarrow> u64 \<Rightarrow> int \<Rightarrow> u64 \<times> u64 \<times> bytes" where
  "hitContext chunk i at n =
     (let lo = nat (max 0 (int i - n)); hi = nat (min (int (length chunk)) (int i + n))
      in (at - word_of_int (int i - int lo), at + word_of_int (int hi - int i), slice lo hi chunk))"

fun wordsText :: "bytes \<Rightarrow> string" where
  "wordsText (a # b # c # d # rest) = padLeft 8 (hexOf (unat (get_be32 [a, b, c, d]))) @ '' '' @ wordsText rest"
| "wordsText bs = ''''"

function dump :: "bytes \<Rightarrow> u64 \<Rightarrow> bool \<Rightarrow> nat \<Rightarrow> string" where
  "dump b addr asWords i =
     (if length b \<le> i then ''''
      else
        let line = slice i (i + 16) b
        in padLeft 8 (hexOf (unat (ucast addr + word_of_nat i :: u32))) @ '' +'' @ padLeft 3 (hexOf i) @ ''  '' @
           (if asWords then wordsText line
            else hexEncode line @ replicate (32 - length (hexEncode line)) (CHR '' '') @ '' '') @
           '' '' @ decodeUTF16BE line @ [newline] @ dump b addr asWords (i + 16))"
  by pat_completeness auto
termination by (relation "measure (\<lambda>(b, addr, w, i). length b - i)") auto

declare dump.simps [simp del]

text \<open>Reading at an address; a length of zero or less is a panic.\<close>

definition memscanRead :: "memory_read \<Rightarrow> string \<Rightarrow> u64 \<Rightarrow> int \<Rightarrow> bool \<Rightarrow> (string + string) outcome" where
  "memscanRead read readAt base len asWords =
     (case parseAddr readAt of
        None \<Rightarrow> Value (Inl ''-read'')
      | Some addr \<Rightarrow>
          if len \<le> 0 then Panic
          else
            case read (addr + base) (nat len) of
              None \<Rightarrow> Value (Inl ''ReadProcessMemory'')
            | Some buf \<Rightarrow> if buf = [] then Value (Inl ''ReadProcessMemory'') else Value (Inr (dump buf addr asWords 0)))"


subsection \<open>Processes\<close>

fun exeUnits :: "bytes \<Rightarrow> u16 list" where
  "exeUnits (a # b # bs) = (let c = get_le16 [a, b] in if c = 0 then [] else c # exeUnits bs)"
| "exeUnits bs = []"

text \<open>The entries of the snapshot are structures of 568 bytes; \<open>utf16\<close> is \<open>syscall.UTF16ToString\<close>.\<close>

fun findProcess :: "(u16 list \<Rightarrow> string) \<Rightarrow> string \<Rightarrow> bytes list \<Rightarrow> u32 option" where
  "findProcess utf16 name [] = None"
| "findProcess utf16 name (entry # entries) =
     (if equalFold (utf16 (exeUnits (drop 44 entry))) name then Some (get_le32 (slice 8 12 entry))
      else findProcess utf16 name entries)"


subsection \<open>The signature of the key setup\<close>

definition sigCWCInit :: bytes where "sigCWCInit = [0xA9, 0xE7, 0xFF, 0xFF, 0xFF]"
definition sigEntryDelta :: u64 where "sigEntryDelta = 0x22"
definition sigChunk :: nat where "sigChunk = 1048576"

function sigMatches :: "memory_read \<Rightarrow> u64 \<Rightarrow> nat \<Rightarrow> nat \<Rightarrow> u64 list" where
  "sigMatches read base extent off =
     (if extent \<le> off then []
      else
        let n = (if extent < off + sigChunk then extent - off else sigChunk);
            here = (case read (base + word_of_nat off) n of
                      None \<Rightarrow> []
                    | Some buf \<Rightarrow> map (\<lambda>i. base + word_of_nat off + word_of_nat i) (matchesIn sigCWCInit buf))
        in here @ sigMatches read base extent (off + (sigChunk - (length sigCWCInit - 1))))"
  by pat_completeness auto
termination
  by (relation "measure (\<lambda>(read, base, extent, off). extent - off)") (auto simp: sigChunk_def sigCWCInit_def)

declare sigMatches.simps [simp del]

definition scanForSignature :: "memory_read \<Rightarrow> u64 \<Rightarrow> (string + u64) outcome" where
  "scanForSignature read base =
     (case read base 0x1000 of
        None \<Rightarrow> Value (Inl ''read PE header'')
      | Some hdr \<Rightarrow>
          if length hdr < 2 then Panic
          else if hdr ! 0 \<noteq> 0x4D \<or> hdr ! 1 \<noteq> 0x5A then Value (Inl ''no MZ magic'')
          else if length hdr < 0x40 then Panic
          else
            let ntOff = unat (get_le32 (slice 0x3C 0x40 hdr))
            in if length hdr < ntOff + 0x58 then Value (Inl ''PE header is past the first page'')
               else
                 let extent = unat (get_le32 (slice (ntOff + 0x50) (ntOff + 0x54) hdr))
                 in case sigMatches read base extent 0 of
                      [] \<Rightarrow> Value (Inl ''signature not found'')
                    | hit # _ \<Rightarrow> Value (Inr hit))"

subsection \<open>The search in pieces finds everything once\<close>

definition occursAt :: "bytes \<Rightarrow> bytes \<Rightarrow> nat \<Rightarrow> bool" where
  "occursAt pat m i \<longleftrightarrow> take (length pat) (drop i m) = pat"

text \<open>A region of memory that can be read: every read inside it delivers the bytes there.\<close>

definition backs :: "memory_read \<Rightarrow> u64 \<Rightarrow> bytes \<Rightarrow> bool" where
  "backs read base m \<longleftrightarrow>
     (\<forall>off n. off + n \<le> length m \<longrightarrow> read (base + word_of_nat off) n = Some (take n (drop off m)))"

lemma matches_window:
  assumes "off + n \<le> length m"
  shows "map (\<lambda>i. off + i) (matchesIn pat (take n (drop off m))) =
    filter (occursAt pat m) [off..<off + (Suc n - length pat)]"
proof -
  have n: "length (take n (drop off m)) = n" using assms by simp
  have "take (length pat) (drop i (take n (drop off m))) = take (length pat) (drop (off + i) m)"
    if "i < Suc n - length pat" for i
    using that by (simp add: drop_take min_def add.commute)
  then have "matchesIn pat (take n (drop off m)) = filter (\<lambda>i. occursAt pat m (off + i)) [0..<Suc n - length pat]"
    unfolding matchesIn_def n occursAt_def by (intro filter_cong) auto
  also have "map (\<lambda>i. off + i) \<dots> = filter (occursAt pat m) (map (\<lambda>i. off + i) [0..<Suc n - length pat])"
    by (simp add: filter_map o_def)
  also have "map (\<lambda>i. off + i) [0..<Suc n - length pat] = [off..<off + (Suc n - length pat)]"
    using map_add_upt [of off "Suc n - length pat"] by (simp add: add.commute)
  finally show ?thesis .
qed

lemma filter_upt_split:
  "a \<le> b \<Longrightarrow> b \<le> c \<Longrightarrow> filter P [a..<b] @ filter P [b..<c] = filter P [a..<c]"
  by (metis filter_append le_Suc_ex upt_add_eq_append)

lemma regionHits_from:
  assumes "backs read base m" "pat \<noteq> []" "length pat \<le> scanBuffer"
  shows "map fst (regionHits read pat base (length m) off) =
    map (\<lambda>i. base + word_of_nat i) (filter (occursAt pat m) [off..<Suc (length m) - length pat])"
proof (induction "length m - off" arbitrary: off rule: less_induct)
  case less
  show ?case
  proof (cases "length m \<le> off")
    case True
    with assms(2) show ?thesis by (subst regionHits.simps) (cases pat; simp)
  next
    case False
    define n where "n = min scanBuffer (length m - off)"
    have n: "off + n \<le> length m" "0 < n" using False by (auto simp: n_def scanBuffer_def)
    let ?win = "filter (occursAt pat m) [off..<off + (Suc n - length pat)]"
    have "read (base + word_of_nat off) n = Some (take n (drop off m))"
      using assms(1) n(1) by (simp add: backs_def)
    then have hits: "map fst (regionHits read pat base (length m) off) =
        map (\<lambda>i. base + word_of_nat i) ?win @
        (if n < length pat then [] else map fst (regionHits read pat base (length m) (off + (n - length pat + 1))))"
      using False matches_window [OF n(1), of pat, symmetric]
      by (subst regionHits.simps) (simp add: n_def [symmetric] Let_def o_def add.assoc)
    show ?thesis
    proof (cases "n < length pat")
      case True
      then have "n = length m - off" using assms(3) by (auto simp: n_def)
      with True hits False show ?thesis by simp
    next
      case more: False
      let ?off = "off + (n - length pat + 1)"
      have off: "?off = off + (Suc n - length pat)" using more by simp
      have "map fst (regionHits read pat base (length m) ?off) =
          map (\<lambda>i. base + word_of_nat i) (filter (occursAt pat m) [?off..<Suc (length m) - length pat])"
        using False by (intro less.hyps) auto
      moreover have "?win @ filter (occursAt pat m) [?off..<Suc (length m) - length pat] =
          filter (occursAt pat m) [off..<Suc (length m) - length pat]"
        unfolding off using n(1) more by (intro filter_upt_split) auto
      ultimately show ?thesis using hits more by (simp flip: map_append)
    qed
  qed
qed

lemma sigMatches_from:
  assumes "backs read base m"
  shows "sigMatches read base (length m) off =
    map (\<lambda>i. base + word_of_nat i) (filter (occursAt sigCWCInit m) [off..<Suc (length m) - length sigCWCInit])"
proof (induction "length m - off" arbitrary: off rule: less_induct)
  case less
  show ?case
  proof (cases "length m \<le> off")
    case True
    then show ?thesis by (subst sigMatches.simps) (simp add: sigCWCInit_def)
  next
    case False
    define n where "n = (if length m < off + sigChunk then length m - off else sigChunk)"
    have n: "off + n \<le> length m" using False by (auto simp: n_def)
    let ?off = "off + (sigChunk - (length sigCWCInit - 1))"
    let ?win = "filter (occursAt sigCWCInit m) [off..<off + (Suc n - length sigCWCInit)]"
    have "read (base + word_of_nat off) n = Some (take n (drop off m))"
      using assms n by (simp add: backs_def)
    then have hits: "sigMatches read base (length m) off =
        map (\<lambda>i. base + word_of_nat i) ?win @ sigMatches read base (length m) ?off"
      using False matches_window [OF n, of sigCWCInit, symmetric]
      by (subst sigMatches.simps) (simp add: n_def [symmetric] Let_def o_def add.assoc)
    have "sigMatches read base (length m) ?off =
        map (\<lambda>i. base + word_of_nat i) (filter (occursAt sigCWCInit m) [?off..<Suc (length m) - length sigCWCInit])"
      using False by (intro less.hyps) (auto simp: sigChunk_def sigCWCInit_def)
    moreover have "?win @ filter (occursAt sigCWCInit m) [?off..<Suc (length m) - length sigCWCInit] =
        filter (occursAt sigCWCInit m) [off..<Suc (length m) - length sigCWCInit]"
    proof (cases "n = sigChunk")
      case True
      then have "?off = off + (Suc n - length sigCWCInit)" by (simp add: sigChunk_def sigCWCInit_def)
      with n True show ?thesis
        by (simp only:) (intro filter_upt_split, auto simp: sigChunk_def sigCWCInit_def)
    next
      case last: False
      then have "off + n = length m" "Suc (length m) - length sigCWCInit \<le> ?off"
        using False by (auto simp: n_def sigChunk_def sigCWCInit_def split: if_splits)
      moreover from this have "[off..<off + (Suc n - length sigCWCInit)] = [off..<Suc (length m) - length sigCWCInit]"
        by (cases "length sigCWCInit \<le> Suc n") (auto simp flip: \<open>off + n = length m\<close>)
      ultimately show ?thesis by simp
    qed
    ultimately show ?thesis using hits by (simp flip: map_append)
  qed
qed

text \<open>
  C38: reading memory in pieces misses nothing and reports nothing twice. In a region that can be read, the
  addresses memscan reports are exactly those at which the pattern occurs, in order, whatever piece
  boundaries lie inside an occurrence; and the matches the signature search of keydump collects are exactly the
  occurrences of the signature in the image. The pattern must fit the buffer of 4 MB.
\<close>

theorem search_exact:
  assumes "backs read base m" "pat \<noteq> []" "length pat \<le> scanBuffer"
  shows "map fst (regionHits read pat base (length m) 0) =
      map (\<lambda>i. base + word_of_nat i) (filter (occursAt pat m) [0..<Suc (length m) - length pat]) \<and>
    sigMatches read base (length m) 0 =
      map (\<lambda>i. base + word_of_nat i) (filter (occursAt sigCWCInit m) [0..<Suc (length m) - length sigCWCInit])"
  using regionHits_from [OF assms, of 0] sigMatches_from [OF assms(1), of 0] by simp

definition demo_image :: bytes where
  "demo_image = [1, 2, 0xA9, 0xE7, 0xFF, 0xFF, 0xFF, 2, 1, 2]"

definition demo_memory :: memory_read where
  "demo_memory a n = Some (take n (drop (unat (a - 0x1000)) demo_image))"

theorem search_exact_witness:
  "map fst (regionHits demo_memory [1, 2] 0x1000 10 0) = [0x1000, 0x1008] \<and>
   sigMatches demo_memory 0x1000 10 0 = [0x1002]"
proof -
  have "backs demo_memory 0x1000 demo_image"
    by (auto simp: backs_def demo_memory_def demo_image_def unat_of_nat)
  moreover have "length demo_image = 10" by (simp add: demo_image_def)
  moreover have "filter (occursAt [1, 2] demo_image) [0..<9] = [0, 8]" "filter (occursAt sigCWCInit demo_image) [0..<6] = [2]"
    by (simp_all add: occursAt_def demo_image_def sigCWCInit_def upt_rec)
  ultimately show ?thesis
    using search_exact [where read = demo_memory and base = "0x1000" and m = demo_image and pat = "[1, 2]"] by (simp add: scanBuffer_def sigCWCInit_def)
qed

text \<open>
  What lies across two regions is not found, even if they are adjacent: each is searched by itself. And an address is
  always read as hexadecimal.
\<close>

lemma across_regions_missed:
  assumes "backs read base m" "backs read base' m'" "length pat \<le> scanBuffer" "pat \<noteq> []"
    and "\<forall>i. \<not> occursAt pat m i" "\<forall>i. \<not> occursAt pat m' i" "\<exists>i. occursAt pat (m @ m') i"
  shows "regionHits read pat base (length m) 0 = [] \<and> regionHits read pat base' (length m') 0 = []"
  using regionHits_from [OF assms(1,4,3), where off = 0] regionHits_from [OF assms(2,4,3), where off = 0] assms(5,6) by simp

lemma decimal_address_read_as_hex: "parseAddr ''100'' = Some 256"
  by (simp add: parseAddr_def trimSpace_def isSpace_def trimHexPrefix_def parseHex_def hexVal_def)

end
