(* ===== verification/Key_Dump.thy ===== *)
theory Key_Dump
  imports Memory_Tools
begin

section \<open>The key dumper as a debugger\<close>

text \<open>
  tools/keydump/main_windows.go: the debug loop that plants a breakpoint at the key setup of the client, reads the
  key off the registers of each thread that hits it, restores the instruction, and plants the breakpoint again a
  moment later. The state has the loop's variables together with the memory of the debugged process and
  the instruction pointers of its threads. An iteration of the loop takes the answers of the Windows calls it
  makes: the time, the debug event if there is one, which reads and writes succeed, the registers.
\<close>

definition dbgContinue :: u32 where "dbgContinue = 0x00010002"
definition dbgExceptionNotHandled :: u32 where "dbgExceptionNotHandled = 0x80010001"
definition exceptionBreakpoint :: u32 where "exceptionBreakpoint = 0x80000003"
definition exceptionSingleStep :: u32 where "exceptionSingleStep = 0x80000004"
definition rearmDelay :: nat where "rearmDelay = 150"

datatype dbg_event = CreateProcess u64 | Exception u32 u64 u32 | ExitProcess | OtherEvent

record KdIo =
  ioNow :: nat
  ioEvent :: "dbg_event option"
  ioLater :: nat
  ioReadable :: "u64 \<Rightarrow> nat \<Rightarrow> bool"
  ioWritable :: "u64 \<Rightarrow> byte \<Rightarrow> bool"
  ioContext :: "u32 \<Rightarrow> (u64 \<times> u64) option"
  ioSetContext :: "u32 \<Rightarrow> bool"

record KeyDump =
  kdMem :: "u64 \<Rightarrow> byte"
  kdRip :: "u32 \<Rightarrow> u64"
  kdProcess :: bool
  kdImageBase :: u64
  kdBp :: u64
  kdOrig :: byte
  kdArmed :: bool
  kdNeedScan :: bool
  kdRearmAt :: "nat option"
  kdHits :: nat
  kdKeys :: "(bytes \<times> u64) list"
  kdReplies :: "u32 list"

datatype kd_exit = Looping | Detached | TargetExited | KdFailed string

definition memBytes :: "KeyDump \<Rightarrow> u64 \<Rightarrow> nat \<Rightarrow> bytes" where
  "memBytes s a n = map (\<lambda>k. kdMem s (a + word_of_nat k)) [0..<n]"

definition readBytes :: "KdIo \<Rightarrow> KeyDump \<Rightarrow> u64 \<Rightarrow> nat \<Rightarrow> bytes option" where
  "readBytes io s a n = (if ioReadable io a n then Some (memBytes s a n) else None)"

definition writeByte :: "KdIo \<Rightarrow> u64 \<Rightarrow> byte \<Rightarrow> KeyDump \<Rightarrow> bool \<times> KeyDump" where
  "writeByte io a b s = (if ioWritable io a b then (True, s\<lparr>kdMem := (kdMem s)(a := b)\<rparr>) else (False, s))"

definition setBreakpoint :: "KdIo \<Rightarrow> u64 \<Rightarrow> KeyDump \<Rightarrow> byte option \<times> KeyDump" where
  "setBreakpoint io addr s =
     (case readBytes io s addr 1 of
        None \<Rightarrow> (None, s)
      | Some orig \<Rightarrow>
          (case writeByte io addr 0xCC s of
             (False, s') \<Rightarrow> (None, s')
           | (True, s') \<Rightarrow> (Some (hd orig), s')))"

text \<open>The key at the address in RCX, and the context pointer in R8.\<close>

definition readKeyAt :: "KdIo \<Rightarrow> u32 \<Rightarrow> KeyDump \<Rightarrow> (bytes \<times> u64) option" where
  "readKeyAt io tid s =
     (case ioContext io tid of
        None \<Rightarrow> None
      | Some (rcx, r8) \<Rightarrow> map_option (\<lambda>key. (key, r8)) (readBytes io s rcx 16))"

definition rewindRIP :: "KdIo \<Rightarrow> u32 \<Rightarrow> u64 \<Rightarrow> KeyDump \<Rightarrow> bool \<times> KeyDump" where
  "rewindRIP io tid addr s =
     (if ioContext io tid = None \<or> \<not> ioSetContext io tid then (False, s)
      else (True, s\<lparr>kdRip := (kdRip s)(tid := addr)\<rparr>))"

definition replyTo :: "u32 \<Rightarrow> KeyDump \<Rightarrow> KeyDump" where
  "replyTo st s = s\<lparr>kdReplies := kdReplies s @ [st]\<rparr>"

text \<open>Our own breakpoint.\<close>

definition breakpointHit :: "KdIo \<Rightarrow> nat \<Rightarrow> u32 \<Rightarrow> KeyDump \<Rightarrow> kd_exit \<times> KeyDump" where
  "breakpointHit io wantKeys tid s =
     (let s1 = (case readKeyAt io tid s of
                  None \<Rightarrow> s
                | Some k \<Rightarrow> s\<lparr>kdHits := kdHits s + 1, kdKeys := kdKeys s @ [k]\<rparr>)
      in case writeByte io (kdBp s1) (kdOrig s1) s1 of
           (False, s2) \<Rightarrow> (KdFailed ''restore byte'', s2)
         | (True, s2) \<Rightarrow>
             (case rewindRIP io tid (kdBp s2) (s2\<lparr>kdArmed := False\<rparr>) of
                (False, s3) \<Rightarrow> (KdFailed ''rewind rip (game left running)'', s3)
              | (True, s3) \<Rightarrow>
                  if 0 < wantKeys \<and> wantKeys \<le> kdHits s3 then (Detached, replyTo dbgContinue s3)
                  else (Looping, replyTo dbgContinue (s3\<lparr>kdRearmAt := Some (ioLater io + rearmDelay)\<rparr>))))"

definition handleEvent :: "KdIo \<Rightarrow> nat \<Rightarrow> dbg_event \<Rightarrow> KeyDump \<Rightarrow> kd_exit \<times> KeyDump" where
  "handleEvent io wantKeys ev s =
     (case ev of
        CreateProcess base \<Rightarrow>
          (Looping, replyTo dbgContinue (s\<lparr>kdProcess := True, kdImageBase := base, kdNeedScan := True\<rparr>))
      | Exception exCode exAddr tid \<Rightarrow>
          if exCode = exceptionBreakpoint \<and> kdArmed s \<and> exAddr = kdBp s then breakpointHit io wantKeys tid s
          else if exCode = exceptionBreakpoint \<or> exCode = exceptionSingleStep then (Looping, replyTo dbgContinue s)
          else (Looping, replyTo dbgExceptionNotHandled s)
      | ExitProcess \<Rightarrow> (TargetExited, replyTo dbgContinue s)
      | OtherEvent \<Rightarrow> (Looping, replyTo dbgContinue s))"

text \<open>After the first event the image is searched and the breakpoint planted.\<close>

definition scanAndArm :: "KdIo \<Rightarrow> KeyDump \<Rightarrow> kd_exit \<times> KeyDump" where
  "scanAndArm io s =
     (if \<not> kdNeedScan s then (Looping, s)
      else
        let s0 = s\<lparr>kdNeedScan := False\<rparr>
        in case scanForSignature (readBytes io s0) (kdImageBase s0) of
             Panic \<Rightarrow> (KdFailed ''panic'', s0)
           | Value (Inl err) \<Rightarrow> (KdFailed err, s0)
           | Value (Inr hit) \<Rightarrow>
               let s1 = s0\<lparr>kdBp := hit - sigEntryDelta\<rparr>
               in (case setBreakpoint io (kdBp s1) s1 of
                     (None, s2) \<Rightarrow> (KdFailed ''set breakpoint'', s2)
                   | (Some b, s2) \<Rightarrow> (Looping, s2\<lparr>kdOrig := b, kdArmed := True\<rparr>)))"

definition rearm :: "KdIo \<Rightarrow> KeyDump \<Rightarrow> kd_exit \<times> KeyDump" where
  "rearm io s =
     (case kdRearmAt s of
        Some t \<Rightarrow>
          if t < ioNow io then
            (case setBreakpoint io (kdBp s) s of
               (None, s1) \<Rightarrow> (KdFailed ''re-arm'', s1)
             | (Some b, s1) \<Rightarrow> (Looping, s1\<lparr>kdOrig := b, kdArmed := True, kdRearmAt := None\<rparr>))
          else (Looping, s)
      | None \<Rightarrow> (Looping, s))"

text \<open>One iteration of the loop.\<close>

definition debugLoop :: "KdIo \<Rightarrow> nat \<Rightarrow> KeyDump \<Rightarrow> kd_exit \<times> KeyDump" where
  "debugLoop io wantKeys s =
     (case rearm io s of
        (Looping, s1) \<Rightarrow>
          (case ioEvent io of
             None \<Rightarrow> (Looping, s1)
           | Some ev \<Rightarrow>
               (case handleEvent io wantKeys ev s1 of
                  (Looping, s2) \<Rightarrow> scanAndArm io s2
                | r \<Rightarrow> r))
      | r \<Rightarrow> r)"

text \<open>Ctrl-C, between two iterations.\<close>

definition interrupted :: "KdIo \<Rightarrow> KeyDump \<Rightarrow> KeyDump" where
  "interrupted io s = (if kdArmed s \<and> kdProcess s then snd (writeByte io (kdBp s) (kdOrig s) s) else s)"

definition kdStart :: "(u64 \<Rightarrow> byte) \<Rightarrow> (u32 \<Rightarrow> u64) \<Rightarrow> KeyDump" where
  "kdStart mem rip =
     \<lparr>kdMem = mem, kdRip = rip, kdProcess = False, kdImageBase = 0, kdBp = 0, kdOrig = 0, kdArmed = False,
      kdNeedScan = False, kdRearmAt = None, kdHits = 0, kdKeys = [], kdReplies = []\<rparr>"

text \<open>What drainAndDetach answers to the events still in flight.\<close>

fun drainReply :: "dbg_event \<Rightarrow> u32" where
  "drainReply (Exception exCode exAddr tid) =
     (if exCode \<noteq> exceptionBreakpoint \<and> exCode \<noteq> exceptionSingleStep then dbgExceptionNotHandled else dbgContinue)"
| "drainReply _ = dbgContinue"

subsection \<open>The code of the game is left as it was\<close>

text \<open>
  The runs of the dumper. The game runs between the iterations and changes whatever memory it likes but its
  code. A process is created once.
\<close>

inductive kd_reach :: "(u64 \<Rightarrow> byte) \<Rightarrow> u64 set \<Rightarrow> nat \<Rightarrow> kd_exit \<Rightarrow> KeyDump \<Rightarrow> bool" for orig code want where
  start: "\<forall>a\<in>code. mem a = orig a \<Longrightarrow> kd_reach orig code want Looping (kdStart mem rip)"
| game: "kd_reach orig code want Looping s \<Longrightarrow> \<forall>a\<in>code. mem a = kdMem s a \<Longrightarrow>
    kd_reach orig code want Looping (s\<lparr>kdMem := mem, kdRip := rip\<rparr>)"
| loop: "kd_reach orig code want Looping s \<Longrightarrow> \<forall>base. ioEvent io = Some (CreateProcess base) \<longrightarrow> \<not> kdProcess s \<Longrightarrow>
    debugLoop io want s = (r, s') \<Longrightarrow> kd_reach orig code want r s'"

definition codeKept :: "(u64 \<Rightarrow> byte) \<Rightarrow> u64 set \<Rightarrow> KeyDump \<Rightarrow> bool" where
  "codeKept orig code s \<longleftrightarrow>
     (\<forall>a\<in>code. kdMem s a = (if kdArmed s \<and> a = kdBp s then 0xCC else orig a)) \<and>
     (kdArmed s \<and> kdBp s \<in> code \<longrightarrow> kdOrig s = orig (kdBp s))"

definition idle :: "nat \<Rightarrow> KeyDump \<Rightarrow> bool" where
  "idle want s \<longleftrightarrow>
     (kdRearmAt s \<noteq> None \<longrightarrow> \<not> kdArmed s) \<and> (\<not> kdProcess s \<longrightarrow> \<not> kdArmed s \<and> kdRearmAt s = None) \<and>
     (0 < want \<longrightarrow> kdHits s < want)"

definition keysTaken :: "KeyDump \<Rightarrow> bool" where
  "keysTaken s \<longleftrightarrow> kdHits s = length (kdKeys s) \<and> (\<forall>k\<in>set (kdKeys s). length (fst k) = 16)"

lemmas kd_inv_defs = codeKept_def idle_def keysTaken_def

lemma setBreakpoint_cases:
  obtains "setBreakpoint io addr s = (None, s)"
  | "setBreakpoint io addr s = (Some (kdMem s addr), s\<lparr>kdMem := (kdMem s)(addr := 0xCC)\<rparr>)"
  by (cases "ioReadable io addr 1"; cases "ioWritable io addr 0xCC")
    (auto simp: setBreakpoint_def readBytes_def writeByte_def memBytes_def)

lemma arm_kept:
  assumes "codeKept orig code s" "\<not> kdArmed s" "setBreakpoint io (kdBp s) s = (Some b, s1)"
  shows "codeKept orig code (s1\<lparr>kdOrig := b, kdArmed := True\<rparr>)"
  using assms by (cases rule: setBreakpoint_cases [of io "kdBp s" s]) (auto simp: codeKept_def)

lemma rearm_kept:
  assumes "codeKept orig code s" "idle want s" "keysTaken s" "rearm io s = (r, s')"
  shows "codeKept orig code s' \<and> keysTaken s' \<and> kdProcess s' = kdProcess s \<and> kdHits s' = kdHits s \<and>
    (r = Looping \<and> idle want s' \<and> kdNeedScan s' = kdNeedScan s \<or> r = KdFailed ''re-arm'' \<and> \<not> kdArmed s')"
proof (cases "\<exists>t. kdRearmAt s = Some t \<and> t < ioNow io")
  case True
  then have na: "\<not> kdArmed s" using assms(2) by (auto simp: idle_def)
  show ?thesis
  proof (cases rule: setBreakpoint_cases [of io "kdBp s" s])
    case 1
    with True na assms show ?thesis by (auto simp: rearm_def)
  next
    case 2
    note kept = arm_kept [OF assms(1) na 2]
    from 2 True assms(4) have "r = Looping"
      "s' = s\<lparr>kdMem := (kdMem s)(kdBp s := 0xCC), kdOrig := kdMem s (kdBp s), kdArmed := True, kdRearmAt := None\<rparr>"
      by (auto simp: rearm_def)
    with kept True assms(2,3) show ?thesis by (auto simp: kd_inv_defs)
  qed
next
  case False
  with assms show ?thesis by (auto simp: rearm_def split: option.splits)
qed

lemma breakpointHit_kept:
  assumes "codeKept orig code s" "idle want s" "keysTaken s" "kdArmed s" "breakpointHit io want tid s = (r, s')"
  shows "codeKept orig code s' \<and> keysTaken s' \<and> kdProcess s' = kdProcess s \<and> kdNeedScan s' = kdNeedScan s \<and>
    (r = Looping \<and> idle want s' \<or>
     r = Detached \<and> \<not> kdArmed s' \<and> kdRip s' tid = kdBp s' \<and> kdHits s' = want \<or>
     r = KdFailed ''rewind rip (game left running)'' \<and> \<not> kdArmed s' \<and> (0 < want \<longrightarrow> kdHits s' \<le> want) \<or>
     r = KdFailed ''restore byte'' \<and> (0 < want \<longrightarrow> kdHits s' \<le> want))"
proof -
  define s1 where "s1 = (case readKeyAt io tid s of
      None \<Rightarrow> s | Some k \<Rightarrow> s\<lparr>kdHits := kdHits s + 1, kdKeys := kdKeys s @ [k]\<rparr>)"
  have same: "kdMem s1 = kdMem s" "kdArmed s1 = kdArmed s" "kdBp s1 = kdBp s" "kdOrig s1 = kdOrig s"
    "kdProcess s1 = kdProcess s" "kdNeedScan s1 = kdNeedScan s" "kdRearmAt s1 = kdRearmAt s"
    by (simp_all add: s1_def split: option.split)
  have keys: "keysTaken s1" and hits: "0 < want \<longrightarrow> kdHits s1 \<le> want"
    using assms(2,3) by (auto simp: s1_def kd_inv_defs readKeyAt_def readBytes_def memBytes_def split: option.split)
  show ?thesis
  proof (cases "ioWritable io (kdBp s1) (kdOrig s1)")
    case False
    with assms(5) have "r = KdFailed ''restore byte''" "s' = s1"
      by (auto simp: breakpointHit_def s1_def [symmetric] writeByte_def)
    with same keys hits assms(1) show ?thesis by (simp add: codeKept_def)
  next
    case True
    let ?s2 = "s1\<lparr>kdMem := (kdMem s1)(kdBp s1 := kdOrig s1), kdArmed := False\<rparr>"
    have kept: "codeKept orig code ?s2"
      using assms(1,4) same by (auto simp: codeKept_def)
    show ?thesis
    proof (cases "ioContext io tid = None \<or> \<not> ioSetContext io tid")
      case fails: True
      with True assms(5) have "r = KdFailed ''rewind rip (game left running)''" "s' = ?s2"
        by (auto simp: breakpointHit_def s1_def [symmetric] writeByte_def rewindRIP_def)
      with kept keys hits same show ?thesis by (simp add: keysTaken_def)
    next
      case False
      with True assms(5) have "(r, s') = (if 0 < want \<and> want \<le> kdHits s1
          then (Detached, replyTo dbgContinue (?s2\<lparr>kdRip := (kdRip ?s2)(tid := kdBp ?s2)\<rparr>))
          else (Looping, replyTo dbgContinue (?s2\<lparr>kdRip := (kdRip ?s2)(tid := kdBp ?s2), kdRearmAt := Some (ioLater io + rearmDelay)\<rparr>)))"
        by (cases "0 < want \<and> want \<le> kdHits s1") (auto simp: breakpointHit_def s1_def [symmetric] writeByte_def rewindRIP_def)
      moreover have "kdProcess s" using assms(2,4) by (auto simp: idle_def)
      ultimately show ?thesis
        using kept keys hits same by (auto simp: kd_inv_defs replyTo_def split: if_splits)
    qed
  qed
qed

lemma replyTo_kept [simp]:
  "codeKept orig code (replyTo st s) = codeKept orig code s" "idle want (replyTo st s) = idle want s"
  "keysTaken (replyTo st s) = keysTaken s" "kdArmed (replyTo st s) = kdArmed s" "kdProcess (replyTo st s) = kdProcess s"
  "kdNeedScan (replyTo st s) = kdNeedScan s" "kdRearmAt (replyTo st s) = kdRearmAt s" "kdHits (replyTo st s) = kdHits s"
  "kdMem (replyTo st s) = kdMem s" "kdBp (replyTo st s) = kdBp s" "kdRip (replyTo st s) = kdRip s" "kdKeys (replyTo st s) = kdKeys s"
  by (simp_all add: kd_inv_defs replyTo_def)

lemma handleEvent_kept:
  assumes "codeKept orig code s" "idle want s" "keysTaken s" "\<not> kdNeedScan s" "handleEvent io want ev s = (r, s')"
    and "\<forall>base. ev = CreateProcess base \<longrightarrow> \<not> kdProcess s"
  shows "codeKept orig code s' \<and> keysTaken s' \<and>
    (r = Looping \<and> idle want s' \<and> (kdNeedScan s' \<longrightarrow> \<not> kdArmed s' \<and> kdRearmAt s' = None \<and> kdProcess s') \<or>
     r = Detached \<and> \<not> kdArmed s' \<and> (\<exists>tid. kdRip s' tid = kdBp s') \<and> kdHits s' = want \<or>
     r = TargetExited \<and> (0 < want \<longrightarrow> kdHits s' \<le> want) \<or>
     (\<exists>err. r = KdFailed err \<and> (err \<noteq> ''restore byte'' \<longrightarrow> \<not> kdArmed s')) \<and> (0 < want \<longrightarrow> kdHits s' \<le> want))"
proof (cases ev)
  case (Exception c a tid)
  show ?thesis
  proof (cases "c = exceptionBreakpoint \<and> kdArmed s \<and> a = kdBp s")
    case True
    then have "breakpointHit io want tid s = (r, s')" using assms(5) Exception by (simp add: handleEvent_def)
    from breakpointHit_kept [OF assms(1-3) _ this] True assms(4) show ?thesis by auto
  next
    case False
    with Exception assms(5) have "r = Looping \<and> (\<exists>st. s' = replyTo st s)"
      by (auto simp: handleEvent_def split: if_splits)
    with assms(1-4) show ?thesis by auto
  qed
next
  case (CreateProcess base)
  with assms(5) have "r = Looping"
    "s' = replyTo dbgContinue (s\<lparr>kdProcess := True, kdImageBase := base, kdNeedScan := True\<rparr>)"
    by (simp_all add: handleEvent_def)
  moreover have "\<not> kdProcess s" using assms(6) CreateProcess by simp
  ultimately show ?thesis using assms(1-3) by (simp add: kd_inv_defs)
next
  case ExitProcess
  with assms(5) have "r = TargetExited \<and> s' = replyTo dbgContinue s" by (simp add: handleEvent_def)
  with assms(1-3) show ?thesis by (simp add: idle_def) linarith
next
  case OtherEvent
  with assms(5) have "r = Looping \<and> s' = replyTo dbgContinue s" by (simp add: handleEvent_def)
  with assms(1-4) show ?thesis by simp
qed

lemma scanAndArm_kept:
  assumes "codeKept orig code s" "idle want s" "keysTaken s"
    and "kdNeedScan s \<longrightarrow> \<not> kdArmed s \<and> kdRearmAt s = None \<and> kdProcess s" "scanAndArm io s = (r, s')"
  shows "codeKept orig code s' \<and> keysTaken s' \<and> \<not> kdNeedScan s' \<and> (0 < want \<longrightarrow> kdHits s' \<le> want) \<and>
    (r = Looping \<and> idle want s' \<or> (\<exists>err. r = KdFailed err) \<and> \<not> kdArmed s')"
proof (cases "kdNeedScan s")
  case True
  let ?s0 = "s\<lparr>kdNeedScan := False\<rparr>"
  show ?thesis
  proof (cases "\<exists>hit. scanForSignature (readBytes io ?s0) (kdImageBase ?s0) = Value (Inr hit)")
    case False
    with True assms have "s' = ?s0 \<and> (\<exists>err. r = KdFailed err)"
      by (auto simp: scanAndArm_def Let_def split: outcome.splits sum.splits)
    with True assms show ?thesis by (auto simp: kd_inv_defs)
  next
    case found: True
    then obtain hit where hit: "scanForSignature (readBytes io ?s0) (kdImageBase ?s0) = Value (Inr hit)" by blast
    let ?s1 = "?s0\<lparr>kdBp := hit - sigEntryDelta\<rparr>"
    have kept: "codeKept orig code ?s1" "\<not> kdArmed ?s1" using True assms(1,4) by (auto simp: codeKept_def)
    show ?thesis
    proof (cases rule: setBreakpoint_cases [of io "kdBp ?s1" ?s1])
      case 1
      with True assms(5) hit have "r = KdFailed ''set breakpoint''" "s' = ?s1" by (auto simp: scanAndArm_def)
      with kept assms(2,3) show ?thesis by (auto simp: kd_inv_defs)
    next
      case 2
      with True assms(5) hit have "r = Looping"
        "s' = ?s1\<lparr>kdMem := (kdMem ?s1)(kdBp ?s1 := 0xCC), kdOrig := kdMem ?s1 (kdBp ?s1), kdArmed := True\<rparr>"
        by (auto simp: scanAndArm_def)
      with arm_kept [OF kept 2] assms(2-4) True show ?thesis by (auto simp: kd_inv_defs)
    qed
  qed
qed (use assms in \<open>auto simp: scanAndArm_def idle_def\<close>)

lemma kd_reach_kept:
  "kd_reach orig code want r s \<Longrightarrow>
     codeKept orig code s \<and> keysTaken s \<and> (0 < want \<longrightarrow> kdHits s \<le> want) \<and>
     (r = Looping \<longrightarrow> idle want s \<and> \<not> kdNeedScan s) \<and>
     (r = Detached \<longrightarrow> \<not> kdArmed s \<and> (\<exists>tid. kdRip s tid = kdBp s) \<and> kdHits s = want) \<and>
     (\<forall>err. r = KdFailed err \<and> err \<noteq> ''restore byte'' \<longrightarrow> \<not> kdArmed s)"
proof (induction rule: kd_reach.induct)
  case (start mem rip)
  then show ?case by (auto simp: kd_inv_defs kdStart_def)
next
  case (game s mem rip)
  then show ?case by (auto simp: kd_inv_defs)
next
  case (loop s io r s')
  then have inv: "codeKept orig code s" "idle want s" "keysTaken s" "\<not> kdNeedScan s" by auto
  obtain r1 s1 where a: "rearm io s = (r1, s1)" by fastforce
  note k1 = rearm_kept [OF inv(1-3) a]
  show ?case
  proof (cases "r1 = Looping")
    case False
    with a k1 loop.hyps(3) have "r = r1" "s' = s1" by (auto simp: debugLoop_def split: kd_exit.splits)
    with False k1 show ?thesis using inv(2) a by (auto simp: idle_def)
  next
    case True
    show ?thesis
    proof (cases "ioEvent io")
      case None
      with True a k1 loop.hyps(3) inv(4) show ?thesis by (auto simp: debugLoop_def idle_def)
    next
      case (Some ev)
      obtain r2 s2 where h: "handleEvent io want ev s1 = (r2, s2)" by fastforce
      have once: "\<forall>base. ev = CreateProcess base \<longrightarrow> \<not> kdProcess s1" using loop.hyps(2) Some k1 by simp
      have "codeKept orig code s1" "idle want s1" "keysTaken s1" "\<not> kdNeedScan s1" using k1 True inv(4) by auto
      note k2 = handleEvent_kept [OF this h once]
      show ?thesis
      proof (cases "r2 = Looping")
        case False
        with a True Some h loop.hyps(3) have "r = r2" "s' = s2"
          by (auto simp: debugLoop_def split: kd_exit.splits)
        with False k2 show ?thesis by auto
      next
        case go: True
        with a True Some h loop.hyps(3) have "scanAndArm io s2 = (r, s')" by (simp add: debugLoop_def)
        from scanAndArm_kept [OF _ _ _ _ this] k2 go show ?thesis by auto
      qed
    qed
  qed
qed

text \<open>
  C24: the dumper leaves the code of the game as it found it. In every run, with the game changing its own data
  between the iterations and any Windows call failing: the bytes of the code are the original ones but for the INT3 at
  the breakpoint while it is armed. When the dumper detaches with the keys asked for, or gives up on any
  error but that the byte could not be written back, all the code is original, and at a detach the thread that hit
  the breakpoint resumes on it. Ctrl-C between two iterations restores the byte if it can be written. There are as many
  keys as hits, all of 16 bytes, and never more than asked for.
\<close>

theorem code_restored:
  assumes "kd_reach orig code want r s"
  shows "(\<forall>a\<in>code. kdArmed s \<and> a = kdBp s \<or> kdMem s a = orig a) \<and>
    (r = Detached \<longrightarrow> (\<forall>a\<in>code. kdMem s a = orig a) \<and> (\<exists>tid. kdRip s tid = kdBp s) \<and> kdHits s = want) \<and>
    (\<forall>err. r = KdFailed err \<and> err \<noteq> ''restore byte'' \<longrightarrow> (\<forall>a\<in>code. kdMem s a = orig a)) \<and>
    (\<forall>io. r = Looping \<and> ioWritable io (kdBp s) (kdOrig s) \<longrightarrow> (\<forall>a\<in>code. kdMem (interrupted io s) a = orig a)) \<and>
    length (kdKeys s) = kdHits s \<and> (\<forall>k\<in>set (kdKeys s). length (fst k) = 16) \<and> (0 < want \<longrightarrow> kdHits s \<le> want)"
proof -
  note kept = kd_reach_kept [OF assms]
  then have code: "\<forall>a\<in>code. kdMem s a = (if kdArmed s \<and> a = kdBp s then 0xCC else orig a)"
    "kdArmed s \<and> kdBp s \<in> code \<longrightarrow> kdOrig s = orig (kdBp s)"
    by (auto simp: codeKept_def)
  have "\<forall>a\<in>code. kdMem (interrupted io s) a = orig a" if "r = Looping" "ioWritable io (kdBp s) (kdOrig s)" for io
  proof -
    have "kdArmed s \<longrightarrow> kdProcess s" using kept that(1) by (auto simp: idle_def)
    with code that(2) show ?thesis by (auto simp: interrupted_def writeByte_def)
  qed
  with kept code(1) show ?thesis by (auto simp: keysTaken_def)
qed

text \<open>
  A second thread that ran into the INT3 before the byte was restored is not served: its breakpoint event is
  swallowed because the breakpoint is not armed any more, and its instruction pointer stays one byte past the start of
  the instruction, wherever the byte is by then.
\<close>

lemma second_thread_not_rewound:
  assumes "kdArmed s" "breakpointHit io want tid s = (Looping, s')" "tid' \<noteq> tid"
  shows "handleEvent io' want (Exception exceptionBreakpoint (kdBp s) tid') s' = (Looping, replyTo dbgContinue s') \<and>
    kdRip (replyTo dbgContinue s') tid' = kdRip s tid'"
proof -
  have "\<not> kdArmed s' \<and> kdRip s' tid' = kdRip s tid'"
    using assms(2,3)
    by (auto simp: breakpointHit_def writeByte_def rewindRIP_def replyTo_def Let_def split: option.splits if_splits bool.splits prod.splits)
  then show ?thesis by (simp add: handleEvent_def)
qed

text \<open>A session with a small image: its signature is at 0x44, so that the function starts at 0x22.\<close>

definition demo_game :: "u64 \<Rightarrow> byte" where
  "demo_game a =
     (if a = 0 then 0x4D else if a = 1 then 0x5A else if a = 0x50 then 0x60 else if a = 0x22 then 0x48
      else if a = 0x44 then 0xA9 else if a = 0x45 then 0xE7 else if 0x46 \<le> a \<and> a \<le> 0x48 then 0xFF else 0)"

definition demo_kdio :: "dbg_event \<Rightarrow> KdIo" where
  "demo_kdio ev =
     \<lparr>ioNow = 0, ioEvent = Some ev, ioLater = 0, ioReadable = (\<lambda>_ _. True), ioWritable = (\<lambda>_ _. True),
      ioContext = (\<lambda>_. Some (0x44, 0x1000)), ioSetContext = (\<lambda>_. True)\<rparr>"

definition demo_armed :: "KeyDump" where
  "demo_armed = (kdStart demo_game (\<lambda>_. 0))
     \<lparr>kdMem := demo_game(0x22 := 0xCC), kdProcess := True, kdBp := 0x22, kdOrig := 0x48, kdArmed := True,
      kdReplies := [dbgContinue]\<rparr>"

lemma memBytes_slice: "i \<le> j \<Longrightarrow> j \<le> n \<Longrightarrow> slice i j (memBytes s a n) = map (\<lambda>k. kdMem s (a + word_of_nat k)) [i..<j]"
  by (simp add: slice_def memBytes_def take_map drop_map drop_upt take_upt)

lemma demo_scan: "scanForSignature (\<lambda>a n. Some (memBytes s a n)) 0 = Value (Inr 0x44)" if "kdMem s = demo_game"
proof -
  have "matchesIn sigCWCInit (memBytes s 0 96) = [0x44]"
    unfolding memBytes_def that by code_simp
  then have "sigMatches (\<lambda>a n. Some (memBytes s a n)) 0 96 0 = [0x44]"
    by (subst sigMatches.simps, subst sigMatches.simps) (simp add: sigChunk_def sigCWCInit_def)
  moreover have "memBytes s 0 4096 ! 0 = 0x4D" "memBytes s 0 4096 ! 1 = 0x5A" "length (memBytes s 0 4096) = 4096"
    by (simp_all add: memBytes_def that demo_game_def)
  moreover have "get_le32 (map (\<lambda>k. kdMem s (0 + word_of_nat k)) [60..<64]) = 0"
    "get_le32 (map (\<lambda>k. kdMem s (0 + word_of_nat k)) [80..<84]) = 96"
    unfolding that by code_simp+
  ultimately show ?thesis
    by (simp add: scanForSignature_def memBytes_slice Let_def)
qed

lemma demo_first: "debugLoop (demo_kdio (CreateProcess 0)) 1 (kdStart demo_game (\<lambda>_. 0)) = (Looping, demo_armed)"
proof -
  let ?io = "demo_kdio (CreateProcess 0)"
  have io: "ioEvent ?io = Some (CreateProcess 0)" "ioWritable ?io a b"
    "readBytes ?io s = (\<lambda>a n. Some (memBytes s a n))" for s a b
    by (simp_all add: fun_eq_iff readBytes_def demo_kdio_def)
  have "memBytes s 0x22 1 = [0x48]" if "kdMem s = demo_game" for s
    by (simp add: memBytes_def that demo_game_def)
  then show ?thesis
    by (simp add: io debugLoop_def rearm_def handleEvent_def scanAndArm_def kdStart_def demo_scan replyTo_def Let_def
        setBreakpoint_def writeByte_def sigEntryDelta_def demo_armed_def)
qed

definition demo_done :: KeyDump where
  "demo_done = snd (debugLoop (demo_kdio (Exception exceptionBreakpoint 0x22 7)) 1 demo_armed)"

lemma demo_second:
  "debugLoop (demo_kdio (Exception exceptionBreakpoint 0x22 7)) 1 demo_armed = (Detached, demo_done)"
  unfolding demo_done_def by (intro prod_eqI) (simp_all add: debugLoop_def rearm_def demo_armed_def kdStart_def
    demo_kdio_def handleEvent_def breakpointHit_def readKeyAt_def readBytes_def writeByte_def rewindRIP_def Let_def)

theorem code_restored_witness:
  "kd_reach demo_game UNIV 1 Detached demo_done \<and> kdMem demo_done = demo_game \<and> length (kdKeys demo_done) = 1"
proof -
  have "kd_reach demo_game UNIV 1 Looping (kdStart demo_game (\<lambda>_. 0))" by (rule kd_reach.start) simp
  then have "kd_reach demo_game UNIV 1 Looping demo_armed"
    by (rule kd_reach.loop [OF _ _ demo_first]) (simp add: kdStart_def)
  then have run: "kd_reach demo_game UNIV 1 Detached demo_done"
    by (rule kd_reach.loop [OF _ _ demo_second]) (simp add: demo_kdio_def)
  from code_restored [OF run] have "kdMem demo_done = demo_game" "length (kdKeys demo_done) = 1" by auto
  with run show ?thesis by simp
qed

subsection \<open>The dumped keys and the key checker\<close>

text \<open>
  The line written for a key, and the file that a sequence of hits leaves; \<open>hms\<close> is the time as \<open>15:04:05\<close>.
\<close>

definition keyLine :: "string \<Rightarrow> nat \<Rightarrow> bytes \<Rightarrow> u64 \<Rightarrow> string" where
  "keyLine hms n key ctx =
     ''['' @ hms @ ''] key #'' @ decimal n @ ''  '' @ hexEncode key @ ''  ctx=0x'' @ hexOf (unat ctx)"

fun sinkText :: "nat \<Rightarrow> (string \<times> bytes \<times> u64) list \<Rightarrow> string" where
  "sinkText n [] = ''''"
| "sinkText n ((hms, key, ctx) # hits) = keyLine hms (Suc n) key ctx @ [newline] @ sinkText (Suc n) hits"

definition ink :: "string \<Rightarrow> bool" where
  "ink w \<longleftrightarrow> (\<forall>c\<in>set w. \<not> isSpace c)"

lemma ink_append [simp]: "ink (v @ w) \<longleftrightarrow> ink v \<and> ink w"
  by (auto simp: ink_def)

lemma decimal_ink: "ink (decimal n)"
proof (induction n rule: decimal.induct)
  case (1 n)
  have "\<not> isSpace (digit d)" if "d < 10" for d using that by (auto simp: isSpace_def digit_def Let_def)
  with 1 show ?case by (subst decimal.simps) (simp add: ink_def)
qed

lemma hexOf_ink: "ink (hexOf n)"
proof (induction n rule: hexOf.induct)
  case (1 n)
  with hexDigit_ink show ?case by (subst hexOf.simps) (simp add: ink_def)
qed

lemma hex_ink: "ink (hexEncode bs)"
  using hexEncode_ink by (auto simp: ink_def)

lemma length_decimal: "n < 10 ^ Suc k \<Longrightarrow> length (decimal n) \<le> Suc k"
proof (induction k arbitrary: n)
  case (Suc k)
  show ?case using Suc.IH [of "n div 10"] Suc.prems by (subst decimal.simps) auto
qed (subst decimal.simps, simp)

lemma length_hexOf: "n < 16 ^ Suc k \<Longrightarrow> length (hexOf n) \<le> Suc k"
proof (induction k arbitrary: n)
  case (Suc k)
  show ?case using Suc.IH [of "n div 16"] Suc.prems by (subst hexOf.simps) auto
qed (subst hexOf.simps, simp)

lemma length_hexEncode [simp]: "length (hexEncode bs) = 2 * length bs"
  by (induction bs) (simp_all add: hexEncode_def)

lemma wordsOf_word: "ink w \<Longrightarrow> w \<noteq> [] \<Longrightarrow> wordsOf (w @ CHR '' '' # t) = w # wordsOf t"
  and wordsOf_last: "ink w \<Longrightarrow> w \<noteq> [] \<Longrightarrow> wordsOf w = [w]"
  and wordsOf_blank: "wordsOf (CHR '' '' # t) = wordsOf t"
proof -
  have id: "map (\<lambda>c. if isSpace c then CHR '' '' else c) w = w \<and> CHR '' '' \<notin> set w" if "ink w" for w
    using that by (auto simp: ink_def isSpace_def intro: map_idI)
  show "ink w \<Longrightarrow> w \<noteq> [] \<Longrightarrow> wordsOf (w @ CHR '' '' # t) = w # wordsOf t"
    using id [of w] by (simp add: wordsOf_def splitOn_append_sep splitOn_none)
  show "ink w \<Longrightarrow> w \<noteq> [] \<Longrightarrow> wordsOf w = [w]"
    using id [of w] by (simp add: wordsOf_def splitOn_none)
  show "wordsOf (CHR '' '' # t) = wordsOf t"
    by (simp add: wordsOf_def)
qed

lemma wordsOf_keyLine:
  assumes "ink hms" "key \<noteq> []"
  shows "wordsOf (keyLine hms n key ctx) =
    [''['' @ hms @ '']'', ''key'', ''#'' @ decimal n, hexEncode key, ''ctx=0x'' @ hexOf (unat ctx)]"
proof -
  have line: "keyLine hms n key ctx = (''['' @ hms @ '']'') @ CHR '' '' # ''key'' @ CHR '' '' # (''#'' @ decimal n) @ CHR '' '' #
      CHR '' '' # hexEncode key @ CHR '' '' # CHR '' '' # ''ctx=0x'' @ hexOf (unat ctx)"
    by (simp add: keyLine_def)
  have "hexEncode key \<noteq> []" using assms(2) length_hexEncode [of key] by (metis length_0_conv mult_eq_0_iff zero_neq_numeral)
  note word = wordsOf_word [OF hex_ink this] and last = wordsOf_last [of "''ctx=0x'' @ hexOf (unat ctx)"]
  have "ink (''['' @ hms @ '']'')" "ink ''key''" "ink (''#'' @ decimal n)" "ink (''ctx=0x'' @ hexOf (unat ctx))"
    using assms(1) decimal_ink [of n] hexOf_ink [of "unat ctx"] by (simp_all add: ink_def isSpace_def)
  then show ?thesis
    unfolding line by (simp only: wordsOf_word wordsOf_blank word last append_is_Nil_conv list.distinct simp_thms)
qed

definition dumpedHit :: "string \<times> bytes \<times> u64 \<Rightarrow> bool" where
  "dumpedHit h \<longleftrightarrow> length (fst h) = 8 \<and> ink (fst h) \<and> length (fst (snd h)) = 16"

definition keyWords :: "string \<Rightarrow> string list" where
  "keyWords l = filter (\<lambda>w. length w = 32 \<and> hexDecode w \<noteq> None) (wordsOf (dropCR l))"

lemma keyLine_facts:
  assumes "length hms = 8" "ink hms" "length key = 16" "n < 10 ^ 19"
  shows "keyWords (keyLine hms n key ctx) = [hexEncode key]" "length (keyLine hms n key ctx) < maxScanToken"
    "newline \<notin> set (keyLine hms n key ctx)"
proof -
  have hex: "length (hexOf (unat ctx)) \<le> 16" using length_hexOf [of "unat ctx" 15] unsigned_less [of ctx] by simp
  have dec: "length (decimal n) \<le> 19" using length_decimal [of n 18] assms(4) by simp
  let ?l = "keyLine hms n key ctx"
  have nl: "isSpace newline" "isSpace (CHR 0x0D)" by (simp_all add: isSpace_def newline_def)
  have chars: "c = CHR '' '' \<or> \<not> isSpace c" if "c \<in> set ?l" for c
    using that assms(2) decimal_ink [of n] hex_ink [of key] hexOf_ink [of "unat ctx"]
    by (auto simp: keyLine_def ink_def isSpace_def)
  from chars [of newline] nl show "newline \<notin> set ?l" by (auto simp: newline_def)
  from chars [of "CHR 0x0D"] nl have "CHR 0x0D \<notin> set ?l" by auto
  then have "dropCR ?l = ?l" by (auto simp: dropCR_def dest: last_in_set)
  moreover have "hexDecode (''['' @ hms @ '']'') = None" "hexDecode (''#'' @ decimal n) = None" "hexDecode (''ctx=0x'' @ hexOf (unat ctx)) = None"
    by (rule hexDecode_not_hex [of "CHR ''[''"], simp, simp add: hexVal_def)
      (rule hexDecode_not_hex [of "CHR ''#''"], simp, simp add: hexVal_def,
       rule hexDecode_not_hex [of "CHR ''=''"], simp, simp add: hexVal_def)
  moreover have "wordsOf ?l = [''['' @ hms @ '']'', ''key'', ''#'' @ decimal n, hexEncode key, ''ctx=0x'' @ hexOf (unat ctx)]"
    using assms(3) by (intro wordsOf_keyLine assms(2)) auto
  moreover have "length (hexEncode key) = 32" "length ''key'' \<noteq> 32" using assms(3) by simp_all
  ultimately show "keyWords ?l = [hexEncode key]"
    by (simp only: keyWords_def filter.simps hexDecode_encode option.distinct simp_thms if_True if_False)
  show "length ?l < maxScanToken" using assms(1,3) hex dec by (simp add: keyLine_def maxScanToken_def)
qed

lemma sinkText_lines:
  assumes "\<forall>h\<in>set hits. dumpedHit h" "n + length hits < 10 ^ 19"
  shows "splitOn newline (sinkText n hits) = scanLines (sinkText n hits) @ [[]] \<and>
    (\<forall>l\<in>set (scanLines (sinkText n hits)). length l < maxScanToken) \<and>
    concat (map keyWords (scanLines (sinkText n hits))) = map (\<lambda>h. hexEncode (fst (snd h))) hits"
  using assms
proof (induction n hits rule: sinkText.induct)
  case (1 n)
  then show ?case by (simp add: scanLines_def)
next
  case (2 n hms key ctx hits)
  let ?l = "keyLine hms (Suc n) key ctx" and ?t = "sinkText (Suc n) hits"
  from 2 have IH: "splitOn newline ?t = scanLines ?t @ [[]]" "\<forall>l\<in>set (scanLines ?t). length l < maxScanToken"
    "concat (map keyWords (scanLines ?t)) = map (\<lambda>h. hexEncode (fst (snd h))) hits" by simp_all
  have facts: "keyWords ?l = [hexEncode key]" "length ?l < maxScanToken" "newline \<notin> set ?l"
    using keyLine_facts [of hms key "Suc n" ctx] 2(2,3) by (auto simp: dumpedHit_def)
  have split: "splitOn newline (?l @ newline # ?t) = ?l # scanLines ?t @ [[]]"
    using splitOn_none [OF facts(3)] IH(1) by (simp add: splitOn_append_sep)
  then have "scanLines (?l @ newline # ?t) = ?l # scanLines ?t"
    unfolding newline_def by (simp add: scanLines_def)
  with split IH facts(1,2) show ?case by simp
qed

lemma loadKeys_sink:
  assumes "\<forall>h\<in>set hits. dumpedHit h" "length hits < 10 ^ 19" "hits \<noteq> []"
  shows "loadKeys (Some (sinkText 0 hits)) = Inr (rev (remdups (rev (map (\<lambda>h. hexEncode (fst (snd h))) hits))))"
proof -
  let ?ls = "scanLines (sinkText 0 hits)"
  have lines: "\<forall>l\<in>set ?ls. length l < maxScanToken" "concat (map keyWords ?ls) = map (\<lambda>h. hexEncode (fst (snd h))) hits"
    using sinkText_lines [of hits 0] assms by auto
  have "filter (\<lambda>w. length w = 32 \<and> hexDecode w \<noteq> None) (concat (map (\<lambda>l. wordsOf (dropCR l)) ?ls)) = concat (map keyWords ?ls)"
    by (simp add: filter_concat keyWords_def [abs_def] o_def)
  moreover have "\<not> list_ex (\<lambda>l. maxScanToken \<le> length l) ?ls" using lines(1) by (auto simp: list_ex_iff)
  ultimately show ?thesis using assms(3) lines(2) by (simp add: loadKeys_def)
qed

lemma tryKeys_verifies:
  assumes "ks \<in> set kss" "hexDecode (unspaced ks) = Some key" "length key = 16" "openWith aes key raw dir = Inr r"
  shows "\<exists>j ks' key' pt pre. tryKeys aes raw dir i kss = Verified j ks' pt pre \<and> ks' \<in> set kss \<and>
    hexDecode (unspaced ks') = Some key' \<and> openWith aes key' raw dir = Inr (pt, pre)"
proof (cases "tryKeys aes raw dir i kss")
  case (Verified j ks' pt pre)
  have "i < j" "j \<le> i + length kss" "kss ! (j - Suc i) = ks'"
    "\<exists>key'. hexDecode (unspaced ks') = Some key' \<and> openWith aes key' raw dir = Inr (pt, pre)"
    using tryKeys_outcome [where aes = aes and raw = raw and dir = dir and i = i and kss = kss] Verified by auto
  moreover from this have "ks' \<in> set kss" using nth_mem [of "j - Suc i" kss] by auto
  ultimately show ?thesis using Verified by blast
next
  case NoKeyVerified
  with tryKeys_outcome [where aes = aes and raw = raw and dir = dir and i = i and kss = kss] assms show ?thesis by (cases r) auto
qed (use tryKeys_outcome [where aes = aes and raw = raw and dir = dir and i = i and kss = kss] in auto)

lemma captured_openWith:
  assumes "captured ctx dir pk dg" "NewContext aes key = Inr ctx" "aes_block_size (aes key)"
  shows "openWith aes key dg dir = Inr (encode pk, False)"
proof -
  have "aes_block_size (block ctx)" using NewContext_key(2) [OF assms(2,3)] .
  note opens = captured_opens [OF assms(1) this]
  then have "dir = ''c2s'' \<Longrightarrow> TokenFromDatagram dg \<noteq> None"
    by (auto simp: openCaptured_def openClientToServer_def TokenFromDatagram_def split: if_splits)
  with opens assms(2) show ?thesis
    by (auto simp: openCaptured_def openWith_def split: sum.splits if_splits)
qed

text \<open>
  C39: the file keydump writes is what verifykey reads. Whatever the times and contexts on the lines, loading it yields
  exactly the captured keys, each once and in the order they were first captured; and a datagram of the capture that
  was sealed, in either direction, with a captured key is verified, by a captured key that opens it.
\<close>

theorem dumped_keys_verify:
  assumes "\<forall>h\<in>set hits. dumpedHit h" "length hits < 10 ^ 19"
    and "(hms, key, c) \<in> set hits" "NewContext aes key = Inr ctx" "aes_block_size (aes key)" "captured ctx dir pk dg"
  shows "loadKeys (Some (sinkText 0 hits)) = Inr (rev (remdups (rev (map (\<lambda>h. hexEncode (fst (snd h))) hits)))) \<and>
    (\<exists>j key' pt pre. verifykey_main aes (\<lambda>_. Some (sinkText 0 hits)) ''keys.txt'' (hexEncode dg) [dir] =
        Verified j (hexEncode key') pt pre \<and>
      key' \<in> (\<lambda>h. fst (snd h)) ` set hits \<and> openWith aes key' dg dir = Inr (pt, pre))"
proof -
  let ?keys = "rev (remdups (rev (map (\<lambda>h. hexEncode (fst (snd h))) hits)))"
  have load: "loadKeys (Some (sinkText 0 hits)) = Inr ?keys" using loadKeys_sink assms(1-3) by fastforce
  have "dir = ''s2c'' \<or> dir = ''c2s''" "dg \<noteq> []"
    using captured_opens [OF assms(6) NewContext_key(2) [OF assms(4,5)]] by auto
  moreover have hexs: "unspaced (hexEncode bs) = hexEncode bs" for bs
    using hexEncode_ink by (auto simp: unspaced_def filter_id_conv)
  moreover have "hexEncode dg \<noteq> []" using \<open>dg \<noteq> []\<close> by (cases dg) (simp_all add: hexEncode_def)
  moreover have "toLower ''s2c'' = ''s2c''" "toLower ''c2s'' = ''c2s''" by code_simp+
  ultimately have main: "verifykey_main aes (\<lambda>_. Some (sinkText 0 hits)) ''keys.txt'' (hexEncode dg) [dir] = tryKeys aes dg dir 0 ?keys"
    using load by (auto simp: verifykey_main_def)
  have "length key = 16" using assms(1,3) by (force simp: dumpedHit_def)
  moreover have "hexEncode key \<in> set ?keys" using assms(3) by (force simp: image_iff)
  moreover have "hexDecode (unspaced (hexEncode key)) = Some key" using hexs by simp
  ultimately obtain j ks pt pre k where found: "tryKeys aes dg dir 0 ?keys = Verified j ks pt pre" "ks \<in> set ?keys"
    "hexDecode (unspaced ks) = Some k" "openWith aes k dg dir = Inr (pt, pre)"
    using tryKeys_verifies [where i = 0, OF _ _ _ captured_openWith [OF assms(6,4,5)]] by blast
  then obtain h where h: "h \<in> set hits" "ks = hexEncode (fst (snd h))" by auto
  with found(3) hexs have "k = fst (snd h)" by simp
  with found(1,4) h main have "verifykey_main aes (\<lambda>_. Some (sinkText 0 hits)) ''keys.txt'' (hexEncode dg) [dir] =
      Verified j (hexEncode k) pt pre" "k \<in> (\<lambda>h. fst (snd h)) ` set hits" by simp_all
  with load found(4) show ?thesis by blast
qed

theorem dumped_keys_verify_witness:
  "\<exists>dg j pt. verifykey_main demo_aes (\<lambda>_. Some (sinkText 0 [(''15:04:05'', demo_key, 0x1000)])) ''keys.txt'' (hexEncode dg) [''s2c''] =
     Verified j (hexEncode demo_key) pt False"
proof -
  obtain ctx where ctx: "NewContext demo_aes demo_key = Inr ctx" by (simp add: NewContext_def demo_key_def Let_def)
  have aes: "aes_block_size (demo_aes demo_key)" by (rule demo_aes_block)
  define pk where "pk = mk_packet OpHBT 1 0 []"
  obtain dg where "sealServerToClient ctx (Inr (replicate 11 0)) (encode pk) = Inr dg"
    using server_udp.encrypts [of "Inr (replicate 11 0)" ctx "(encode pk, False)"] NewContext_key(2) [OF ctx aes]
    by (auto simp: iv_ok_def encode_def)
  then have cap: "captured ctx ''s2c'' pk dg" by (auto simp: captured_def intro: exI [of _ "replicate 11 0"])
  have "dumpedHit (''15:04:05'', demo_key, 0x1000)" by (simp add: dumpedHit_def ink_def isSpace_def demo_key_def)
  with captured_openWith [OF cap ctx aes] show ?thesis
    using dumped_keys_verify [OF _ _ _ ctx aes cap, of "[(''15:04:05'', demo_key, 0x1000)]" "''15:04:05''" "0x1000"] by fastforce
qed

end
