(* ===== verification/Store_Migration.thy ===== *)
theory Store_Migration
  imports Sqlite_Store Capture_Tools "HOL-Library.Sublist"
begin

section \<open>The upgrade of old leaderboard tables\<close>

text \<open>
  internal/server/store/store.go: what opening a database does to the tables of the leaderboard. An early version
  of the table had the slot number of the character alone as its key; \<open>migratePowerStoneKey\<close> recognises it by the
  text of its definition and rebuilds it. A table is the text that defines it, whether its key is the slot alone, and
  its rows, of which the time of the last update, which nothing reads, is left out. The statements of one \<open>ExecContext\<close> are carried out one after the other, each of them wholly or not at all, and
  the first that fails ends the call. Which statements fail is a script, as in \<open>Sqlite_Store\<close>; a server
  that is killed between two statements leaves what a failure there leaves.
\<close>

type_synonym ps_row = "(u32 \<times> u32) \<times> int \<times> bytes"

record PsTable =
  tblSql :: string
  tblPerSlot :: bool
  tblRows :: "ps_row list"

record PsDb =
  psTable :: "PsTable option"
  psOld :: "PsTable option"
  psIndexOn :: "string option"
  psScript :: "bool list"

definition rankingsSql :: string where
  "rankingsSql =
     ''CREATE TABLE power_stone_rankings ('' @ [newline] @
     ''    player_id    INTEGER NOT NULL,'' @ [newline] @
     ''    character_id INTEGER NOT NULL,'' @ [newline] @
     ''    score        INTEGER NOT NULL DEFAULT 0,'' @ [newline] @
     ''    data         BLOB    NOT NULL,'' @ [newline] @
     ''    updated_at   INTEGER NOT NULL DEFAULT (unixepoch()),'' @ [newline] @
     ''    PRIMARY KEY (player_id, character_id)'' @ [newline] @ '')''"

definition newRankings :: PsTable where
  "newRankings = \<lparr>tblSql = rankingsSql, tblPerSlot = False, tblRows = []\<rparr>"

fun psExec :: "string \<Rightarrow> (PsDb \<Rightarrow> PsDb option) list \<Rightarrow> PsDb \<Rightarrow> (string + unit) \<times> PsDb" where
  "psExec what [] db = (Inr (), db)"
| "psExec what (f # fs) db =
     (let db1 = db\<lparr>psScript := tl (psScript db)\<rparr>
      in if psScript db \<noteq> [] \<and> hd (psScript db) then (Inl what, db1)
         else case f db1 of None \<Rightarrow> (Inl what, db1) | Some db2 \<Rightarrow> psExec what fs db2)"

text \<open>The statements. A key of the new table is a player with a slot, and no two rows may share it.\<close>

definition ensureTable :: "PsDb \<Rightarrow> PsDb option" where
  "ensureTable db = Some (if psTable db = None then db\<lparr>psTable := Some newRankings\<rparr> else db)"

definition ensureIndex :: "PsDb \<Rightarrow> PsDb option" where
  "ensureIndex db =
     (if psIndexOn db \<noteq> None then Some db
      else if psTable db = None then None
      else Some (db\<lparr>psIndexOn := Some ''power_stone_rankings''\<rparr>))"

definition renameTable :: "PsDb \<Rightarrow> PsDb option" where
  "renameTable db =
     (if psTable db = None \<or> psOld db \<noteq> None then None
      else Some (db\<lparr>psTable := None, psOld := psTable db,
                    psIndexOn := map_option (\<lambda>t. if t = ''power_stone_rankings'' then ''power_stone_rankings_old'' else t)
                      (psIndexOn db)\<rparr>))"

definition createTable :: "PsDb \<Rightarrow> PsDb option" where
  "createTable db = (if psTable db \<noteq> None then None else Some (db\<lparr>psTable := Some newRankings\<rparr>))"

definition copyRows :: "PsDb \<Rightarrow> PsDb option" where
  "copyRows db =
     (case (psTable db, psOld db) of
        (Some t, Some old) \<Rightarrow>
          let rows = tblRows t @ tblRows old
          in if distinct (map (if tblPerSlot t then (\<lambda>r. (0, snd (fst r))) else fst) rows)
             then Some (db\<lparr>psTable := Some (t\<lparr>tblRows := rows\<rparr>)\<rparr>) else None
      | _ \<Rightarrow> None)"

definition dropOld :: "PsDb \<Rightarrow> PsDb option" where
  "dropOld db =
     (if psOld db = None then None
      else Some (db\<lparr>psOld := None,
                    psIndexOn := (if psIndexOn db = Some ''power_stone_rankings_old'' then None else psIndexOn db)\<rparr>))"

definition rebuild :: "(PsDb \<Rightarrow> PsDb option) list" where
  "rebuild = [renameTable, createTable, copyRows, dropOld, ensureIndex]"

definition oldKeyText :: string where "oldKeyText = ''character_id INTEGER PRIMARY KEY''"

definition migratePowerStoneKey :: "PsDb \<Rightarrow> (string + unit) \<times> PsDb" where
  "migratePowerStoneKey db =
     (case psExec ''inspect power_stone_rankings'' [Some] db of
        (Inl err, db1) \<Rightarrow> (Inl err, db1)
      | (Inr _, db1) \<Rightarrow>
          (case psTable db1 of
             None \<Rightarrow> (Inr (), db1)
           | Some t \<Rightarrow>
               if \<not> containsStr (tblSql t) oldKeyText then (Inr (), db1)
               else psExec ''rebuild power_stone_rankings key'' rebuild db1))"

text \<open>
  Opening the database, as far as the leaderboard goes: the schema, the four statements that seed the sequences, and
  the rebuild.
\<close>

definition openRankings :: "PsDb \<Rightarrow> (string + unit) \<times> PsDb" where
  "openRankings db =
     (case psExec ''migrate'' [ensureTable, ensureIndex] db of
        (Inl err, db1) \<Rightarrow> (Inl err, db1)
      | (Inr _, db1) \<Rightarrow>
          (case psExec ''seed sequences'' [Some, Some, Some, Some] db1 of
             (Inl err, db2) \<Rightarrow> (Inl err, db2)
           | (Inr _, db2) \<Rightarrow> migratePowerStoneKey db2))"

definition boardRows :: "PsDb \<Rightarrow> ps_row list" where
  "boardRows db = (case psTable db of None \<Rightarrow> [] | Some t \<Rightarrow> tblRows t)"

subsection \<open>Nothing is lost\<close>

text \<open>A database of the early version, and where the rows of it can be while it is upgraded.\<close>

definition oldVersion :: "PsTable \<Rightarrow> bool" where
  "oldVersion t \<longleftrightarrow> containsStr (tblSql t) oldKeyText \<and> tblPerSlot t \<and> distinct (map (\<lambda>r. snd (fst r)) (tblRows t))"

definition upgradeState :: "PsTable \<Rightarrow> PsDb \<Rightarrow> bool" where
  "upgradeState t db \<longleftrightarrow>
     psTable db = Some t \<and> psOld db = None \<and> psIndexOn db \<in> {None, Some ''power_stone_rankings''} \<or>
     psTable db \<in> {None, Some newRankings, Some (newRankings\<lparr>tblRows := tblRows t\<rparr>)} \<and> psOld db = Some t \<or>
     psTable db = Some (newRankings\<lparr>tblRows := tblRows t\<rparr>) \<and> psOld db = None"

lemma containsStr_iff: "containsStr s t \<longleftrightarrow> (\<exists>i\<le>length s. prefix t (drop i s))"
proof -
  have "prefix t xs \<longleftrightarrow> take (length t) xs = t" for xs :: string
    by (metis append_take_drop_id prefixI take_is_prefix prefixE append_eq_conv_conj)
  then show ?thesis by (auto simp: containsStr_def list_ex_iff less_Suc_eq_le simp del: upt_Suc)
qed

lemma containsStr_Nil: "containsStr [] t \<longleftrightarrow> t = []"
  by (simp add: containsStr_iff)

lemma containsStr_Cons: "containsStr (c # s) t \<longleftrightarrow> prefix t (c # s) \<or> containsStr s t"
proof
  assume "containsStr (c # s) t"
  then obtain i where "i \<le> Suc (length s)" "prefix t (drop i (c # s))" by (auto simp: containsStr_iff)
  then show "prefix t (c # s) \<or> containsStr s t" by (cases i) (auto simp: containsStr_iff)
next
  have "prefix t (drop (Suc i) (c # s)) \<Longrightarrow> i \<le> length s \<Longrightarrow> containsStr (c # s) t" for i
    unfolding containsStr_iff by (intro exI [of _ "Suc i"]) simp
  moreover have "prefix t (drop 0 (c # s)) \<Longrightarrow> containsStr (c # s) t"
    unfolding containsStr_iff by (intro exI [of _ 0]) simp
  ultimately show "prefix t (c # s) \<or> containsStr s t \<Longrightarrow> containsStr (c # s) t"
    by (auto simp: containsStr_iff [of s])
qed

lemma new_not_old: "\<not> containsStr rankingsSql oldKeyText"
  unfolding rankingsSql_def oldKeyText_def newline_def append_Cons append_Nil
  by (simp add: containsStr_Cons containsStr_Nil)

text \<open>
  A sequence of statements that takes the database through stages \<open>J 0\<close>, \<open>J 1\<close>, \<dots>, each statement succeeding in its stage
  unless the script says otherwise: it ends in the last stage, or fails in one before.
\<close>

lemma psExec_stages:
  fixes J :: "nat \<Rightarrow> PsDb \<Rightarrow> bool"
  assumes "J 0 db" "\<And>i d sc. J i d \<Longrightarrow> J i (d\<lparr>psScript := sc\<rparr>)"
    and "\<And>i d. i < length fs \<Longrightarrow> J i d \<Longrightarrow> \<exists>d'. (fs ! i) d = Some d' \<and> J (Suc i) d' \<and> psScript d' = psScript d"
    and "psExec what fs db = (r, db')"
  shows "set (psScript db') \<subseteq> set (psScript db) \<and>
    (r = Inr () \<and> J (length fs) db' \<or> r = Inl what \<and> True \<in> set (psScript db) \<and> (\<exists>i<length fs. J i db'))"
  using assms
proof (induction fs arbitrary: db J)
  case (Cons f fs)
  let ?db1 = "db\<lparr>psScript := tl (psScript db)\<rparr>"
  have tl: "set (tl (psScript db)) \<subseteq> set (psScript db)" by (cases "psScript db") auto
  have J1: "J 0 ?db1" using Cons.prems(1,2) by blast
  show ?case
  proof (cases "psScript db \<noteq> [] \<and> hd (psScript db)")
    case True
    with Cons.prems(4) have "r = Inl what" "db' = ?db1" by simp_all
    moreover have "True \<in> set (psScript db)" using True by (metis (full_types) list.set_sel(1))
    ultimately show ?thesis using J1 tl by auto
  next
    case False
    obtain d' where d': "f ?db1 = Some d'" "J (Suc 0) d'" "psScript d' = tl (psScript db)"
      using Cons.prems(3) [of 0 ?db1] J1 by auto
    with False Cons.prems(4) have "psExec what fs d' = (r, db')" by (auto simp: Let_def)
    moreover have "\<exists>d'. (fs ! i) d = Some d' \<and> J (Suc (Suc i)) d' \<and> psScript d' = psScript d"
      if "i < length fs" "J (Suc i) d" for i d
      using Cons.prems(3) [of "Suc i" d] that by simp
    ultimately have "set (psScript db') \<subseteq> set (psScript d') \<and> (r = Inr () \<and> J (Suc (length fs)) db' \<or>
       r = Inl what \<and> True \<in> set (psScript d') \<and> (\<exists>i<length fs. J (Suc i) db'))"
      using Cons.IH [where J = "\<lambda>i. J (Suc i)" and db = d', OF d'(2) Cons.prems(2)] by blast
    with d'(3) tl show ?thesis by auto
  qed
qed auto

text \<open>A table that is already of the new form is left alone.\<close>

definition settled :: "PsTable \<Rightarrow> PsTable option \<Rightarrow> PsDb \<Rightarrow> bool" where
  "settled u old db \<longleftrightarrow> psTable db = Some u \<and> psOld db = old"

lemma open_phases:
  fixes J :: "nat \<Rightarrow> PsDb \<Rightarrow> bool"
  assumes "J 0 db" "\<And>i d sc. J i d \<Longrightarrow> J i (d\<lparr>psScript := sc\<rparr>)"
    and "\<And>d. J 0 d \<Longrightarrow> \<exists>d'. ensureTable d = Some d' \<and> J 1 d' \<and> psScript d' = psScript d"
    and "\<And>d. J 1 d \<Longrightarrow> \<exists>d'. ensureIndex d = Some d' \<and> J 2 d' \<and> psScript d' = psScript d"
    and "openRankings db = (r, db')"
  shows "(\<exists>err i. r = Inl err \<and> True \<in> set (psScript db) \<and> J i db') \<or>
    (\<exists>db2. set (psScript db2) \<subseteq> set (psScript db) \<and> J 2 db2 \<and> migratePowerStoneKey db2 = (r, db'))"
proof -
  obtain r1 db1 where e1: "psExec ''migrate'' [ensureTable, ensureIndex] db = (r1, db1)" by fastforce
  obtain r2 db2 where e2: "psExec ''seed sequences'' [Some, Some, Some, Some] db1 = (r2, db2)" by fastforce
  have step: "\<exists>d'. ([ensureTable, ensureIndex] ! i) d = Some d' \<and> J (Suc i) d' \<and> psScript d' = psScript d"
    if "i < length [ensureTable, ensureIndex]" "J i d" for i d
    using that assms(3,4) by (cases i) (auto simp: numeral_2_eq_2)
  note one = psExec_stages [OF assms(1,2) step e1]
  have two: "set (psScript db2) \<subseteq> set (psScript db1) \<and>
      (r2 = Inr () \<and> J 2 db2 \<or> r2 = Inl ''seed sequences'' \<and> True \<in> set (psScript db1) \<and> J 2 db2)" if "J 2 db1"
  proof -
    have "([Some, Some, Some, Some] ! i) d = Some d" if "i < length [Some, Some, Some, Some]" for i and d :: PsDb
      using that by (auto simp: less_Suc_eq)
    with psExec_stages [where J = "\<lambda>_. J 2", OF that assms(2) _ e2] show ?thesis by auto
  qed
  show ?thesis
  proof (cases r1)
    case (Inl err)
    with one e1 assms(5) show ?thesis by (auto simp: openRankings_def)
  next
    case (Inr u)
    with one have "J 2 db1" "set (psScript db1) \<subseteq> set (psScript db)" by (auto simp: numeral_2_eq_2)
    with two Inr e1 e2 assms(5) show ?thesis by (cases r2) (auto simp: openRankings_def)
  qed
qed

lemma settled_script [simp]: "settled u old (d\<lparr>psScript := sc\<rparr>) = settled u old d"
  by (simp add: settled_def)

lemma inspect_quiet: "migratePowerStoneKey db = (r, db') \<Longrightarrow>
   r = Inl ''inspect power_stone_rankings'' \<and> True \<in> set (psScript db) \<and> (\<exists>sc. db' = db\<lparr>psScript := sc\<rparr>) \<or>
   (\<exists>sc. set sc \<subseteq> set (psScript db) \<and>
     (case psTable db of
        None \<Rightarrow> r = Inr () \<and> db' = db\<lparr>psScript := sc\<rparr>
      | Some t \<Rightarrow>
          if containsStr (tblSql t) oldKeyText
          then psExec ''rebuild power_stone_rankings key'' rebuild (db\<lparr>psScript := sc\<rparr>) = (r, db')
          else r = Inr () \<and> db' = db\<lparr>psScript := sc\<rparr>))"
proof -
  assume m: "migratePowerStoneKey db = (r, db')"
  have tl: "set (tl (psScript db)) \<subseteq> set (psScript db)" by (cases "psScript db") auto
  show ?thesis
  proof (cases "psScript db \<noteq> [] \<and> hd (psScript db)")
    case True
    moreover from this have "True \<in> set (psScript db)" by (metis (full_types) list.set_sel(1))
    ultimately show ?thesis using m by (auto simp: migratePowerStoneKey_def Let_def)
  next
    case False
    then have "psExec ''inspect power_stone_rankings'' [Some] db = (Inr (), db\<lparr>psScript := tl (psScript db)\<rparr>)"
      by (auto simp: Let_def)
    with m tl show ?thesis
      by (intro disjI2 exI [of _ "tl (psScript db)"]) (simp add: migratePowerStoneKey_def split: option.splits if_splits)
  qed
qed

lemma open_settled:
  assumes "settled u old db" "\<not> containsStr (tblSql u) oldKeyText" "openRankings db = (r, db')"
  shows "settled u old db' \<and> (True \<notin> set (psScript db) \<longrightarrow> r = Inr ())"
proof -
  have "\<exists>d'. ensureTable d = Some d' \<and> settled u old d' \<and> psScript d' = psScript d"
    "\<exists>d'. ensureIndex d = Some d' \<and> settled u old d' \<and> psScript d' = psScript d" if "settled u old d" for d
    using that by (auto simp: ensureTable_def ensureIndex_def settled_def)
  then have "(\<exists>err i :: nat. r = Inl err \<and> True \<in> set (psScript db) \<and> settled u old db') \<or>
    (\<exists>db2. set (psScript db2) \<subseteq> set (psScript db) \<and> settled u old db2 \<and> migratePowerStoneKey db2 = (r, db'))"
    by (intro open_phases [where J = "\<lambda>_. settled u old", OF assms(1) _ _ _ assms(3)]) auto
  then show ?thesis
  proof
    assume "\<exists>db2. set (psScript db2) \<subseteq> set (psScript db) \<and> settled u old db2 \<and> migratePowerStoneKey db2 = (r, db')"
    then obtain db2 where db2: "set (psScript db2) \<subseteq> set (psScript db)" "settled u old db2" "migratePowerStoneKey db2 = (r, db')"
      by blast
    then have "psTable db2 = Some u" by (simp add: settled_def)
    with inspect_quiet [OF db2(3)] assms(2) db2(1,2) show ?thesis by auto
  qed auto
qed

text \<open>The stages of the rebuild.\<close>

fun stage_of :: "PsTable \<Rightarrow> nat \<Rightarrow> PsDb \<Rightarrow> bool" where
  "stage_of t 0 db \<longleftrightarrow> settled t None db \<and> psIndexOn db \<in> {None, Some ''power_stone_rankings''}"
| "stage_of t (Suc 0) db \<longleftrightarrow> psTable db = None \<and> psOld db = Some t \<and> psIndexOn db \<in> {None, Some ''power_stone_rankings_old''}"
| "stage_of t (Suc (Suc 0)) db \<longleftrightarrow> settled newRankings (Some t) db \<and> psIndexOn db \<in> {None, Some ''power_stone_rankings_old''}"
| "stage_of t (Suc (Suc (Suc 0))) db \<longleftrightarrow> settled (newRankings\<lparr>tblRows := tblRows t\<rparr>) (Some t) db \<and>
     psIndexOn db \<in> {None, Some ''power_stone_rankings_old''}"
| "stage_of t (Suc (Suc (Suc (Suc 0)))) db \<longleftrightarrow> settled (newRankings\<lparr>tblRows := tblRows t\<rparr>) None db \<and> psIndexOn db = None"
| "stage_of t n db \<longleftrightarrow> settled (newRankings\<lparr>tblRows := tblRows t\<rparr>) None db \<and> psIndexOn db = Some ''power_stone_rankings''"

lemma stage_script: "stage_of t i d \<Longrightarrow> stage_of t i (d\<lparr>psScript := sc\<rparr>)"
  by (induction t i d rule: stage_of.induct) simp_all

lemma rebuild_step:
  assumes "oldVersion t" "i < length rebuild" "stage_of t i d"
  shows "\<exists>d'. (rebuild ! i) d = Some d' \<and> stage_of t (Suc i) d' \<and> psScript d' = psScript d"
proof -
  have "distinct (map fst (tblRows t))"
    using assms(1) by (auto simp: oldVersion_def distinct_map inj_on_def)
  then show ?thesis
    using assms(2,3)
    by (auto simp: rebuild_def less_Suc_eq settled_def renameTable_def createTable_def copyRows_def dropOld_def ensureIndex_def
        newRankings_def)
qed

lemma stage_kept: "stage_of t i db \<Longrightarrow> upgradeState t db"
  by (induction t i db rule: stage_of.induct) (auto simp: upgradeState_def settled_def)

lemma rebuild_outcome:
  assumes "oldVersion t" "stage_of t 0 db" "openRankings db = (r, db')"
  shows "r = Inr () \<and> stage_of t 5 db' \<or> (\<exists>err i. r = Inl err \<and> True \<in> set (psScript db) \<and> i < 5 \<and> stage_of t i db')"
proof -
  have "\<exists>d'. ensureTable d = Some d' \<and> stage_of t 0 d' \<and> psScript d' = psScript d"
    "\<exists>d'. ensureIndex d = Some d' \<and> stage_of t 0 d' \<and> psScript d' = psScript d" if "stage_of t 0 d" for d
    using that by (auto simp: ensureTable_def ensureIndex_def settled_def)
  then have "(\<exists>err i :: nat. r = Inl err \<and> True \<in> set (psScript db) \<and> stage_of t 0 db') \<or>
    (\<exists>db2. set (psScript db2) \<subseteq> set (psScript db) \<and> stage_of t 0 db2 \<and> migratePowerStoneKey db2 = (r, db'))"
    by (intro open_phases [where J = "\<lambda>_. stage_of t 0", OF assms(2) _ _ _ assms(3)]) (auto intro: stage_script)
  then show ?thesis
  proof
    assume "\<exists>db2. set (psScript db2) \<subseteq> set (psScript db) \<and> stage_of t 0 db2 \<and> migratePowerStoneKey db2 = (r, db')"
    then obtain db2 where db2: "set (psScript db2) \<subseteq> set (psScript db)" "stage_of t 0 db2" "migratePowerStoneKey db2 = (r, db')"
      by blast
    from inspect_quiet [OF db2(3)] show ?thesis
    proof (elim disjE conjE exE)
      fix sc assume "r = Inl ''inspect power_stone_rankings''" "True \<in> set (psScript db2)" "db' = db2\<lparr>psScript := sc\<rparr>"
      with db2 stage_script [OF db2(2), of sc] show ?thesis by (intro disjI2 exI [of _ "''inspect power_stone_rankings''"] exI [of _ 0]) auto
    next
      fix sc assume sub: "set sc \<subseteq> set (psScript db2)"
        and c: "case psTable db2 of None \<Rightarrow> r = Inr () \<and> db' = db2\<lparr>psScript := sc\<rparr>
          | Some t \<Rightarrow> if containsStr (tblSql t) oldKeyText
              then psExec ''rebuild power_stone_rankings key'' rebuild (db2\<lparr>psScript := sc\<rparr>) = (r, db')
              else r = Inr () \<and> db' = db2\<lparr>psScript := sc\<rparr>"
      have "psTable db2 = Some t" "containsStr (tblSql t) oldKeyText"
        using db2(2) assms(1) by (auto simp: settled_def oldVersion_def)
      with c have "psExec ''rebuild power_stone_rankings key'' rebuild (db2\<lparr>psScript := sc\<rparr>) = (r, db')" by simp
      from psExec_stages [where J = "stage_of t", OF stage_script [OF db2(2)] stage_script rebuild_step [OF assms(1)] this]
      show ?thesis using sub db2(1) by (auto simp: rebuild_def numeral_nat simp del: stage_of.simps)
    qed
  qed (use zero_less_numeral in blast)
qed

lemma open_halfway:
  assumes "psTable db = None" "psOld db = Some t" "openRankings db = (r, db')"
  shows "settled newRankings (Some t) db' \<and> (True \<notin> set (psScript db) \<longrightarrow> r = Inr ()) \<or>
    True \<in> set (psScript db) \<and> psTable db' = None \<and> psOld db' = Some t"
proof -
  let ?J = "\<lambda>i d. if i = (0 :: nat) then psTable d = None \<and> psOld d = Some t else settled newRankings (Some t) d"
  have "(\<exists>err i. r = Inl err \<and> True \<in> set (psScript db) \<and> ?J i db') \<or>
    (\<exists>db2. set (psScript db2) \<subseteq> set (psScript db) \<and> ?J 2 db2 \<and> migratePowerStoneKey db2 = (r, db'))"
    using assms(1,2) by (intro open_phases [where J = ?J, OF _ _ _ _ assms(3)])
      (auto simp: ensureTable_def ensureIndex_def settled_def)
  then show ?thesis
  proof
    assume "\<exists>db2. set (psScript db2) \<subseteq> set (psScript db) \<and> ?J 2 db2 \<and> migratePowerStoneKey db2 = (r, db')"
    then obtain db2 where db2: "set (psScript db2) \<subseteq> set (psScript db)" "settled newRankings (Some t) db2" "migratePowerStoneKey db2 = (r, db')"
      by auto
    then have "psTable db2 = Some newRankings" by (simp add: settled_def)
    with inspect_quiet [OF db2(3)] new_not_old db2(1,2) show ?thesis by (auto simp: newRankings_def)
  qed (auto split: if_splits)
qed

lemma open_upgradeState:
  assumes "oldVersion t" "upgradeState t db" "openRankings db = (r, db')"
  shows "upgradeState t db'"
proof -
  have new: "\<not> containsStr (tblSql (newRankings\<lparr>tblRows := x\<rparr>)) oldKeyText" "\<not> containsStr (tblSql newRankings) oldKeyText" for x
    using new_not_old by (simp_all add: newRankings_def)
  consider "stage_of t 0 db" | "psTable db = None" "psOld db = Some t" | "settled newRankings (Some t) db"
    | old where "settled (newRankings\<lparr>tblRows := tblRows t\<rparr>) old db" "old = None \<or> old = Some t"
    using assms(2) by (auto simp: upgradeState_def settled_def)
  then show ?thesis
  proof cases
    case 1
    from rebuild_outcome [OF assms(1) this assms(3)] stage_kept show ?thesis by blast
  next
    case 2
    from open_halfway [OF this assms(3)] show ?thesis by (auto simp: upgradeState_def settled_def)
  next
    case 3
    from open_settled [OF this new(2) assms(3)] show ?thesis by (auto simp: upgradeState_def settled_def)
  next
    case 4
    from open_settled [OF this(1) new(1) assms(3)] 4(2) show ?thesis by (auto simp: upgradeState_def settled_def)
  qed
qed

text \<open>Any number of starts, each with the failures of its script.\<close>

fun openAll :: "bool list list \<Rightarrow> PsDb \<Rightarrow> PsDb" where
  "openAll [] db = db"
| "openAll (sc # scs) db = openAll scs (snd (openRankings (db\<lparr>psScript := sc\<rparr>)))"

lemma openAll_keeps:
  assumes "I db" "\<And>d sc. I d \<Longrightarrow> I (d\<lparr>psScript := sc\<rparr>)" "\<And>d r d'. I d \<Longrightarrow> openRankings d = (r, d') \<Longrightarrow> I d'"
  shows "I (openAll scs db)"
  using assms(1)
proof (induction scs arbitrary: db)
  case (Cons sc scs)
  with assms(2) [of db sc] assms(3) [of "db\<lparr>psScript := sc\<rparr>"] show ?case by (metis openAll.simps(2) prod.collapse)
qed simp

text \<open>
  C40: upgrading a database of the early version loses no score. A start without failures succeeds and leaves
  the leaderboard with exactly the old rows, in the new form, and no later start, with whatever failures, changes
  them again. And whatever statements fail, in any number of starts, all the rows are still in the database: on the
  leaderboard, or in the table they were moved to.
\<close>

theorem upgrade_keeps_scores:
  assumes "oldVersion t" "psTable db = Some t" "psOld db = None" "psIndexOn db \<in> {None, Some ''power_stone_rankings''}"
  shows "(True \<notin> set (psScript db) \<longrightarrow> fst (openRankings db) = Inr () \<and>
      (\<forall>scs. psTable (openAll scs (snd (openRankings db))) = Some (newRankings\<lparr>tblRows := tblRows t\<rparr>))) \<and>
    (\<forall>scs. boardRows (openAll scs db) = tblRows t \<or> (\<exists>old. psOld (openAll scs db) = Some old \<and> tblRows old = tblRows t))"
proof -
  let ?u = "newRankings\<lparr>tblRows := tblRows t\<rparr>"
  obtain r db1 where o: "openRankings db = (r, db1)" by fastforce
  have start: "stage_of t 0 db" using assms(2-4) by (simp add: settled_def)
  have new: "\<not> containsStr (tblSql ?u) oldKeyText" using new_not_old by (simp add: newRankings_def)
  have later: "settled ?u None (openAll scs db1)" if "settled ?u None db1" for scs
    by (rule openAll_keeps [where I = "settled ?u None", OF that], simp) (use open_settled [OF _ new] in blast)
  have "r = Inr () \<and> settled ?u None db1" if "True \<notin> set (psScript db)"
    using rebuild_outcome [OF assms(1) start o] that by (auto simp: numeral_nat)
  moreover have "upgradeState t (openAll scs db)" for scs
    by (rule openAll_keeps [where I = "upgradeState t", OF stage_kept [OF start] _ open_upgradeState [OF assms(1)]])
      (simp_all add: upgradeState_def)
  moreover have "boardRows d = tblRows t \<or> (\<exists>old. psOld d = Some old \<and> tblRows old = tblRows t)" if "upgradeState t d" for d
    using that by (auto simp: upgradeState_def boardRows_def)
  moreover have "psTable d = Some ?u" if "settled ?u None d" for d using that by (simp add: settled_def)
  ultimately show ?thesis using o later by simp
qed

definition demo_old_table :: PsTable where
  "demo_old_table = \<lparr>tblSql = ''x ('' @ oldKeyText, tblPerSlot = True, tblRows = [((100000, 1), 7, [1])]\<rparr>"

definition demo_old_db :: PsDb where
  "demo_old_db = \<lparr>psTable = Some demo_old_table, psOld = None, psIndexOn = None, psScript = []\<rparr>"

lemma demo_old_version: "oldVersion demo_old_table"
proof -
  have "containsStr (tblSql demo_old_table) oldKeyText"
    unfolding containsStr_iff by (intro exI [of _ 3]) (simp add: demo_old_table_def)
  then show ?thesis by (simp add: oldVersion_def) (simp add: demo_old_table_def)
qed

theorem upgrade_keeps_scores_witness:
  "fst (openRankings demo_old_db) = Inr () \<and> boardRows (snd (openRankings demo_old_db)) = [((100000, 1), 7, [1])]"
proof -
  have "psTable demo_old_db = Some demo_old_table" "psOld demo_old_db = None" "psIndexOn demo_old_db = None" "psScript demo_old_db = []"
    by (simp_all add: demo_old_db_def)
  moreover from this upgrade_keeps_scores [OF demo_old_version, of demo_old_db]
  have "fst (openRankings demo_old_db) = Inr ()"
    "\<forall>scs. psTable (openAll scs (snd (openRankings demo_old_db))) = Some (newRankings\<lparr>tblRows := tblRows demo_old_table\<rparr>)"
    by simp_all
  moreover from this(2) [rule_format, of "[]"]
  have "psTable (snd (openRankings demo_old_db)) = Some (newRankings\<lparr>tblRows := tblRows demo_old_table\<rparr>)" by simp
  ultimately show ?thesis by (simp add: boardRows_def demo_old_table_def)
qed

text \<open>
  The statements of the rebuild are not one transaction. If the new table cannot be created, or its rows not copied, the
  start fails; the next one succeeds, finds a table of the new form, and the leaderboard is empty from then on.
\<close>

lemma interrupted_upgrade_hides_scores:
  assumes "stage_of t 1 db \<or> stage_of t 2 db"
  shows "boardRows (openAll scs db) = []" "fst (openRankings (openAll scs db\<lparr>psScript := []\<rparr>)) = Inr ()"
proof -
  let ?I = "\<lambda>d. psTable d = None \<and> psOld d = Some t \<or> settled newRankings (Some t) d"
  have new: "\<not> containsStr (tblSql newRankings) oldKeyText" using new_not_old by (simp add: newRankings_def)
  have start: "?I db" using assms by (auto simp: numeral_2_eq_2)
  have step: "?I d'" if "?I d" "openRankings d = (r, d')" for d r d'
    using that(1)
  proof
    assume "settled newRankings (Some t) d"
    from open_settled [OF this new that(2)] show ?thesis by simp
  next
    assume "psTable d = None \<and> psOld d = Some t"
    with open_halfway [OF _ _ that(2), of t] show ?thesis by auto
  qed
  have script: "?I (d\<lparr>psScript := sc\<rparr>)" if "?I d" for d sc using that by simp
  have I: "?I (openAll scs db)" for scs
    by (rule openAll_keeps [where I = ?I, OF start script step])
  from I [of scs] show "boardRows (openAll scs db) = []" by (auto simp: boardRows_def settled_def newRankings_def)
  let ?d = "openAll scs db\<lparr>psScript := []\<rparr>"
  have "psTable ?d = None \<and> psOld ?d = Some t \<or> settled newRankings (Some t) ?d" using I [of scs] by auto
  moreover obtain r d' where o: "openRankings ?d = (r, d')" by fastforce
  moreover have "psTable ?d = None \<and> psOld ?d = Some t \<Longrightarrow> r = Inr ()" using open_halfway [OF _ _ o, of t] by auto
  moreover have "settled newRankings (Some t) ?d \<Longrightarrow> r = Inr ()" using open_settled [OF _ new o, of "Some t"] by simp
  ultimately show "fst (openRankings ?d) = Inr ()" by auto
qed

lemma failed_create_leaves_halfway:
  assumes "oldVersion t" "stage_of t 0 db"
  shows "stage_of t 1 (snd (openRankings (db\<lparr>psScript := replicate 8 False @ [True]\<rparr>)))"
  using assms
  by (auto simp: openRankings_def migratePowerStoneKey_def ensureTable_def ensureIndex_def rebuild_def renameTable_def
      settled_def oldVersion_def Let_def numeral_eq_Suc)

end
