(* ===== verification/Diagnostics.thy ===== *)
theory Diagnostics
  imports Capture_Tools Auth_Token "HOL-Library.List_Lexorder" "HOL-Library.Char_ord"
begin

section \<open>What the server reports about itself\<close>

text \<open>
  The parts of the server that watch it: the connection wrapper of internal/netdebug, the report of changed status
  fields (setField and changedFields of matchmaking.go, with the snapshot of playerdata.go), the cells a
  warning is printed for, the classes of connection errors (core/neterr.go), the names of packet types, and the
  goroutine that prunes the token registry (StartJanitor and Stop of authtoken.go).
\<close>

subsection \<open>Raw traffic\<close>

text \<open>
  \<open>hex.Dump\<close>: lines of sixteen bytes with their offset, a gap after the eighth byte, and the printable characters at
  the right. The last line is filled up with spaces.
\<close>

definition dumpChar :: "byte \<Rightarrow> char" where
  "dumpChar b = (if b < 32 \<or> 126 < b then CHR ''.'' else char_of (unat b))"

definition dumpCell :: "bytes \<Rightarrow> nat \<Rightarrow> string" where
  "dumpCell line i =
     (if i < length line then hexEncode [line ! i] else ''  '') @ '' '' @
     (if i = 7 then '' '' else if i = 15 then '' |'' else '''')"

definition dumpLine :: "nat \<Rightarrow> bytes \<Rightarrow> string" where
  "dumpLine off line =
     padLeft 8 (hexOf off) @ ''  '' @ concat (map (dumpCell line) [0..<16]) @ map dumpChar line @ ''|'' @ [newline]"

function hexDumpFrom :: "nat \<Rightarrow> bytes \<Rightarrow> string" where
  "hexDumpFrom off b =
     (if b = [] then '''' else dumpLine off (take 16 b) @ hexDumpFrom (off + 16) (drop 16 b))"
  by pat_completeness auto
termination by (relation "measure (\<lambda>(off, b). length b)") auto

declare hexDumpFrom.simps [simp del]

definition hexDump :: "bytes \<Rightarrow> string" where
  "hexDump b = hexDumpFrom 0 b"

datatype raw_line = RawRecv nat | RawSend nat | RawDump string | RawTruncated nat nat

definition dumpMax :: nat where "dumpMax = 512"

definition raw_dump :: "bytes \<Rightarrow> raw_line list" where
  "raw_dump b =
     RawDump (''hexdump'' @ [newline] @ hexDump (take dumpMax b)) #
     (if dumpMax < length b then [RawTruncated dumpMax (length b)] else [])"

text \<open>A connection is given by what its \<open>Read\<close> and \<open>Write\<close> do; the wrapper keeps the log beside it.\<close>

type_synonym 'c conn_read = "nat \<Rightarrow> 'c \<Rightarrow> (bytes \<times> string option) \<times> 'c"
type_synonym 'c conn_write = "bytes \<Rightarrow> 'c \<Rightarrow> (nat \<times> string option) \<times> 'c"

definition Wrap :: "'c \<Rightarrow> raw_line list \<Rightarrow> 'c \<times> raw_line list" where
  "Wrap c log = (c, log)"

definition raw_Read :: "'c conn_read \<Rightarrow> ('c \<times> raw_line list) conn_read" where
  "raw_Read rd n s =
     (let ((b, err), c) = rd n (fst s)
      in ((b, err), (c, snd s @ (if 0 < length b then RawRecv (length b) # raw_dump b else []))))"

definition raw_Write :: "'c conn_write \<Rightarrow> ('c \<times> raw_line list) conn_write" where
  "raw_Write wr b s =
     (let log = snd s @ (if 0 < length b then RawSend (length b) # raw_dump b else []);
          (r, c) = wr b (fst s)
      in (r, (c, log)))"

datatype conn_op = DoRead nat | DoWrite bytes
datatype conn_result = ReadGave bytes "string option" | WriteGave nat "string option"

fun conn_run :: "'c conn_read \<Rightarrow> 'c conn_write \<Rightarrow> conn_op list \<Rightarrow> 'c \<Rightarrow> conn_result list \<times> 'c" where
  "conn_run rd wr [] c = ([], c)"
| "conn_run rd wr (DoRead n # ops) c =
     (let ((b, err), c1) = rd n c; (rs, c2) = conn_run rd wr ops c1 in (ReadGave b err # rs, c2))"
| "conn_run rd wr (DoWrite b # ops) c =
     (let ((n, err), c1) = wr b c; (rs, c2) = conn_run rd wr ops c1 in (WriteGave n err # rs, c2))"

lemma hexDigit_line: "n < 16 \<Longrightarrow> hexDigit n \<noteq> newline"
  using hexDigit_ink [of n] by (auto simp: isSpace_def newline_def)

lemma dumpLine_lines: "length (filter (\<lambda>c. c = newline) (dumpLine off line)) = 1"
proof -
  have hex: "newline \<notin> set (hexOf n)" for n
  proof (induction n rule: hexOf.induct)
    case (1 n)
    then show ?case using hexDigit_line [of n] hexDigit_line [of "n mod 16"] by (subst hexOf.simps) auto
  qed
  have enc: "newline \<notin> set (hexEncode bs)" for bs
    using hexEncode_ink [of newline bs] by (auto simp: isSpace_def newline_def)
  have "dumpChar b \<noteq> newline" for b
  proof
    assume "dumpChar b = newline"
    then have "\<not> b < 32" "char_of (unat b) = newline" by (auto simp: dumpChar_def newline_def split: if_splits)
    then have "of_char (char_of (unat b)) = (of_char newline :: nat)" by simp
    then have "unat b mod 256 = 10" by (simp add: newline_def)
    with \<open>\<not> b < 32\<close> show False using unat_lt_256 [of b] by (simp add: word_less_nat_alt)
  qed
  moreover have "newline \<notin> set (dumpCell line i)" for i
    using enc by (auto simp: dumpCell_def newline_def)
  ultimately show ?thesis
    using hex by (auto simp: dumpLine_def padLeft_def filter_empty_conv newline_def)
qed

lemma hexDump_lines: "length (filter (\<lambda>c. c = newline) (hexDump b)) = (length b + 15) div 16"
proof -
  have "length (filter (\<lambda>c. c = newline) (hexDumpFrom off b)) = (length b + 15) div 16" for off b
  proof (induction off b rule: hexDumpFrom.induct)
    case (1 off b)
    show ?case
    proof (cases "b = []")
      case False
      have "Suc ((length (drop 16 b) + 15) div 16) = (length b + 15) div 16"
      proof (cases "length b \<le> 16")
        case True
        have "(length b + 15) div 16 = 1" using True False by (intro div_nat_eqI) (auto simp: Suc_le_eq)
        with True show ?thesis by simp
      next
        case False
        then have "length b + 15 = 16 + (length (drop 16 b) + 15)" by simp
        then show ?thesis by (simp only: div_add_self1)
      qed
      with False 1 show ?thesis by (subst hexDumpFrom.simps) (simp add: dumpLine_lines)
    qed (simp add: hexDumpFrom.simps)
  qed
  then show ?thesis by (simp add: hexDump_def)
qed

text \<open>
  Watching a connection does not change it. Whatever is read and written, through the wrapper the calls return
  the same and leave the connection the same as without it. And the log stays small: no dump has more than 33 lines,
  its heading among them.
\<close>

definition dumps_short :: "raw_line list \<Rightarrow> bool" where
  "dumps_short log \<longleftrightarrow> (\<forall>t. RawDump t \<in> set log \<longrightarrow> length (filter (\<lambda>c. c = newline) t) \<le> 33)"

lemma raw_dump_short: "dumps_short (raw_dump b)"
proof -
  have "(length (take 512 b) + 15) div 16 \<le> (512 + 15) div 16" by (intro div_le_mono) simp
  then show ?thesis
    using hexDump_lines [of "take 512 b"] by (auto simp: dumps_short_def raw_dump_def dumpMax_def newline_def)
qed

lemma dumps_short_append [simp]: "dumps_short (a @ b) \<longleftrightarrow> dumps_short a \<and> dumps_short b"
  "dumps_short (RawRecv n # a) \<longleftrightarrow> dumps_short a" "dumps_short (RawSend n # a) \<longleftrightarrow> dumps_short a" "dumps_short []"
  by (auto simp: dumps_short_def)

lemma raw_connection_transparent:
  assumes "conn_run rd wr ops c = (rs, c')" "dumps_short log"
  shows "\<exists>log'. conn_run (raw_Read rd) (raw_Write wr) ops (Wrap c log) = (rs, (c', log')) \<and> dumps_short log'"
  using assms unfolding Wrap_def
proof (induction rd wr ops c arbitrary: rs c' log rule: conn_run.induct)
  case (2 rd wr n ops c)
  obtain b err c1 where r: "rd n c = ((b, err), c1)" by (metis prod.collapse)
  obtain rs1 where rs: "conn_run rd wr ops c1 = (rs1, c')" "rs = ReadGave b err # rs1"
    using 2(2) r by (auto split: prod.splits)
  let ?log = "log @ (if 0 < length b then RawRecv (length b) # raw_dump b else [])"
  obtain log' where "conn_run (raw_Read rd) (raw_Write wr) ops (c1, ?log) = (rs1, c', log')" "dumps_short log'"
    using 2(1) [OF r [symmetric] refl refl rs(1), of ?log] 2(3) raw_dump_short [of b] by (cases "b = []") auto
  moreover have "raw_Read rd n (c, log) = ((b, err), (c1, ?log))" by (simp add: raw_Read_def r)
  ultimately show ?case using rs(2) by simp
next
  case (3 rd wr b ops c)
  obtain n err c1 where r: "wr b c = ((n, err), c1)" by (metis prod.collapse)
  obtain rs1 where rs: "conn_run rd wr ops c1 = (rs1, c')" "rs = WriteGave n err # rs1"
    using 3(2) r by (auto split: prod.splits)
  let ?log = "log @ (if 0 < length b then RawSend (length b) # raw_dump b else [])"
  obtain log' where "conn_run (raw_Read rd) (raw_Write wr) ops (c1, ?log) = (rs1, c', log')" "dumps_short log'"
    using 3(1) [OF r [symmetric] refl refl rs(1), of ?log] 3(3) raw_dump_short [of b] by (cases "b = []") auto
  moreover have "raw_Write wr b (c, log) = ((n, err), (c1, ?log))" by (simp add: raw_Write_def r)
  ultimately show ?case using rs(2) by simp
qed simp

subsection \<open>Changed status fields\<close>

text \<open>
  The mirror of the scalars in a status message. A message is given by the value of each field it has, under the
  name the mirror gives it; of the time at which a phantom leaves only the presence counts, as the value 1.
\<close>

definition setField :: "string \<Rightarrow> u32 \<Rightarrow> (string \<rightharpoonup> u32) \<Rightarrow> (string \<rightharpoonup> u32)" where
  "setField name v m = m(name \<mapsto> v)"

definition statusNames :: "string list" where
  "statusNames =
     [''ps.archetype'', ''ps.covenant'', ''ps.unknown_4'', ''ps.unknown_5'', ''ps.unknown_6'', ''ps.sitting_at_bonfire'',
      ''ps.disable_cross_region'', ''ps.human_effigy_burnt'', ''ps.unknown_13'', ''ps.unknown_14'', ''ps.soul_level'',
      ''ps.unknown_16'', ''ps.unknown_17'', ''ps.unknown_20'', ''ps.phantom_leave_at_present'',
      ''item.named_ring_god'', ''item.dried_fingers'', ''item.unknown_3'', ''item.guardians_seal'', ''item.bell_keepers_seal'',
      ''item.crest_of_the_rat'', ''item.unknown_7'', ''item.unknown_8'',
      ''stats.sinner_points'', ''stats.unknown_1'', ''stats.unknown_2'', ''stats.unknown_5'', ''stats.unknown_10'',
      ''stats.unknown_12'', ''stats.unknown_13'', ''stats.unknown_14'',
      ''loc.online_area'', ''loc.activity_area'', ''loc.cell'']"

definition statusSweep :: "(string \<rightharpoonup> u32) \<Rightarrow> (string \<rightharpoonup> u32) \<Rightarrow> (string \<rightharpoonup> u32)" where
  "statusSweep msg m = fold (\<lambda>n m. case msg n of None \<Rightarrow> m | Some v \<Rightarrow> setField n v m) statusNames m"

definition fieldChange :: "(string \<rightharpoonup> u32) \<Rightarrow> (string \<rightharpoonup> u32) \<Rightarrow> string \<Rightarrow> string option" where
  "fieldChange before after k =
     (case after k of
        None \<Rightarrow> None
      | Some nv \<Rightarrow>
          (case before k of
             None \<Rightarrow> Some (k @ ''=+'' @ decimal (unat nv))
           | Some ov \<Rightarrow> if ov \<noteq> nv then Some (k @ ''='' @ decimal (unat ov) @ ''->'' @ decimal (unat nv)) else None))"

definition changedFields :: "(string \<rightharpoonup> u32) \<Rightarrow> (string \<rightharpoonup> u32) \<Rightarrow> string list \<Rightarrow> string list" where
  "changedFields before after ord = sort (List.map_filter (fieldChange before after) ord)"

lemma statusSweep_apply:
  "statusSweep msg m n = (if n \<in> set statusNames \<and> msg n \<noteq> None then msg n else m n)"
proof -
  have "fold (\<lambda>n m. case msg n of None \<Rightarrow> m | Some v \<Rightarrow> setField n v m) ns m n =
      (if n \<in> set ns \<and> msg n \<noteq> None then msg n else m n)" for ns
    by (induction ns arbitrary: m) (auto simp: setField_def split: option.split)
  then show ?thesis unfolding statusSweep_def .
qed

text \<open>
  The report of a status message does not depend on the order in which the map is visited, and has a line for
  exactly the fields of the message that are new or have another value than before.
\<close>

lemma changed_report:
  assumes "range_order (statusSweep msg m) ord" "range_order (statusSweep msg m) ord'"
  shows "changedFields m (statusSweep msg m) ord = changedFields m (statusSweep msg m) ord'"
    "set (changedFields m (statusSweep msg m) ord) =
      {l. \<exists>k v. k \<in> set statusNames \<and> msg k = Some v \<and> m k \<noteq> Some v \<and>
        l = k @ ''='' @ (case m k of None \<Rightarrow> ''+'' | Some ov \<Rightarrow> decimal (unat ov) @ ''->'') @ decimal (unat v)}"
proof -
  let ?a = "statusSweep msg m"
  have "mset ord = mset ord'" using assms by (intro set_eq_iff_mset_eq_distinct [THEN iffD1]) (auto simp: range_order_def)
  then have "mset (List.map_filter (fieldChange m ?a) ord) = mset (List.map_filter (fieldChange m ?a) ord')"
    by (simp add: map_filter_def mset_filter)
  then show "changedFields m ?a ord = changedFields m ?a ord'"
    unfolding changedFields_def by (intro properties_for_sort) simp_all
  have "set (changedFields m ?a ord) = {l. \<exists>k. ?a k \<noteq> None \<and> fieldChange m ?a k = Some l}"
    using assms(1) by (force simp: changedFields_def map_filter_def range_order_def dom_def)
  also have "\<dots> = {l. \<exists>k v. k \<in> set statusNames \<and> msg k = Some v \<and> m k \<noteq> Some v \<and>
        l = k @ ''='' @ (case m k of None \<Rightarrow> ''+'' | Some ov \<Rightarrow> decimal (unat ov) @ ''->'') @ decimal (unat v)}"
  proof (intro Collect_cong iffI; elim exE conjE)
    fix l k assume "fieldChange m ?a k = Some l"
    then show "\<exists>k v. k \<in> set statusNames \<and> msg k = Some v \<and> m k \<noteq> Some v \<and>
        l = k @ ''='' @ (case m k of None \<Rightarrow> ''+'' | Some ov \<Rightarrow> decimal (unat ov) @ ''->'') @ decimal (unat v)"
      by (intro exI [of _ k]) (auto simp: fieldChange_def statusSweep_apply split: option.splits if_splits)
  next
    fix l k v assume "k \<in> set statusNames" "msg k = Some v" "m k \<noteq> Some v"
      "l = k @ ''='' @ (case m k of None \<Rightarrow> ''+'' | Some ov \<Rightarrow> decimal (unat ov) @ ''->'') @ decimal (unat v)"
    then show "\<exists>k. ?a k \<noteq> None \<and> fieldChange m ?a k = Some l"
      by (intro exI [of _ k]) (auto simp: fieldChange_def statusSweep_apply split: option.splits)
  qed
  finally show "set (changedFields m ?a ord) = {l. \<exists>k v. k \<in> set statusNames \<and> msg k = Some v \<and> m k \<noteq> Some v \<and>
        l = k @ ''='' @ (case m k of None \<Rightarrow> ''+'' | Some ov \<Rightarrow> decimal (unat ov) @ ''->'') @ decimal (unat v)}" .
qed

subsection \<open>Cells, errors and names\<close>

definition bellKeeperCells :: "u32 set" where
  "bellKeeperCells = {101640, 101950, 101630, 101910}"

definition isBellKeeperCell :: "string \<Rightarrow> u32 \<Rightarrow> bool" where
  "isBellKeeperCell raw cell =
     (if raw \<noteq> '''' then list_ex (\<lambda>f. parseUint 32 (trimSpace f) = Some (unat cell)) (splitOn (CHR '','') raw)
      else cell \<in> bellKeeperCells)"

text \<open>The variable replaces the built-in cells: a list of numbers means exactly these.\<close>

fun commaList :: "u32 list \<Rightarrow> string" where
  "commaList [] = ''''"
| "commaList [c] = decimal (unat c)"
| "commaList (c # cs) = decimal (unat c) @ '','' @ commaList cs"

lemma decimal_chars: "c \<in> set (decimal n) \<Longrightarrow> \<not> isSpace c \<and> c \<noteq> CHR '',''"
proof (induction n rule: decimal.induct)
  case (1 n)
  have "\<not> isSpace (digit d) \<and> digit d \<noteq> CHR '',''" if "d < 10" for d
  proof -
    have "list_all (\<lambda>d. \<not> isSpace (digit d) \<and> digit d \<noteq> CHR '','') [0..<10]" by code_simp
    with that show ?thesis by (simp add: list_all_iff)
  qed
  with 1 show ?case by (subst (asm) (2) decimal.simps) (auto split: if_splits)
qed

lemma parse_cell: "parseUint 32 (trimSpace (decimal (unat c))) = Some (unat (c :: u32))"
proof -
  have "trimSpace (decimal (unat c)) = decimal (unat c)"
    using decimal_chars hd_in_set last_in_set by (intro trimSpace_id) blast
  moreover have "unat c < 2 ^ 32" using unsigned_less [where 'a = nat, of c] by simp
  ultimately show ?thesis by (simp only: parseUint_decimal)
qed

lemma bell_keeper_override:
  assumes "cells \<noteq> []"
  shows "isBellKeeperCell (commaList cells) cell \<longleftrightarrow> cell \<in> set cells"
proof -
  have ne: "commaList cells \<noteq> ''''" using assms by (cases cells rule: commaList.cases) auto
  have "splitOn (CHR '','') (commaList cells) = map (\<lambda>c. decimal (unat c)) cells"
    using assms
  proof (induction cells rule: commaList.induct)
    case (2 c)
    have "CHR '','' \<notin> set (decimal (unat c))" using decimal_chars by blast
    then show ?case by (simp add: splitOn_none)
  next
    case (3 c d cs)
    have "CHR '','' \<notin> set (decimal (unat c))" using decimal_chars by blast
    then show ?case using 3 by (simp add: splitOn_append_sep splitOn_none)
  qed simp
  with ne show ?thesis by (auto simp: isBellKeeperCell_def list_ex_iff parse_cell dest: word_unat_eq_iff [THEN iffD2])
qed

text \<open>
  Errors as Go chains them. A \<open>net.Error\<close> says whether it is a timeout, and may wrap the system error.
\<close>

datatype go_error = EOF | UnexpectedEOF | NetClosed | DeadlineExceeded | OtherError string
  | NetError bool go_error | Wrapped string go_error

fun errorsIs :: "go_error \<Rightarrow> go_error \<Rightarrow> bool" where
  "errorsIs (NetError t e) target = (NetError t e = target \<or> errorsIs e target)"
| "errorsIs (Wrapped m e) target = (Wrapped m e = target \<or> errorsIs e target)"
| "errorsIs e target = (e = target)"

text \<open>\<open>errors.As(err, &ne) && ne.Timeout()\<close>; an expired deadline is a \<open>net.Error\<close> itself.\<close>

fun asTimeout :: "go_error \<Rightarrow> bool" where
  "asTimeout (NetError t e) = t"
| "asTimeout DeadlineExceeded = True"
| "asTimeout (Wrapped m e) = asTimeout e"
| "asTimeout e = False"

definition IsBenignDisconnect :: "go_error option \<Rightarrow> bool" where
  "IsBenignDisconnect err =
     (case err of
        None \<Rightarrow> True
      | Some e \<Rightarrow>
          errorsIs e EOF \<or> errorsIs e UnexpectedEOF \<or> errorsIs e NetClosed \<or> errorsIs e DeadlineExceeded \<or> asTimeout e)"

datatype log_level = LogDebug | LogWarn

definition logStageFailure :: "string \<Rightarrow> go_error \<Rightarrow> log_level \<times> string" where
  "logStageFailure msg err = (if IsBenignDisconnect (Some err) then (LogDebug, msg) else (LogWarn, msg))"

text \<open>
  A failure of the protocol or the ciphers, which is no error of the connection, is always reported as a warning,
  however it is wrapped. So is a connection reset by the peer, which is a \<open>net.Error\<close> but no timeout.
\<close>

fun root_cause :: "go_error \<Rightarrow> go_error" where
  "root_cause (Wrapped m e) = root_cause e"
| "root_cause e = e"

lemma protocol_failure_warned: "root_cause e = OtherError what \<Longrightarrow> logStageFailure msg e = (LogWarn, msg)"
  by (induction e rule: root_cause.induct) (auto simp: logStageFailure_def IsBenignDisconnect_def)

lemma peer_reset_warned:
  "root_cause e = NetError False (OtherError ''connection reset by peer'') \<Longrightarrow> logStageFailure msg e = (LogWarn, msg)"
  by (induction e rule: root_cause.induct) (auto simp: logStageFailure_def IsBenignDisconnect_def)

definition opCodeString :: "OpCode \<Rightarrow> string" where
  "opCodeString x =
     (if x = OpUnset then ''UNSET'' else if x = OpSYN then ''SYN'' else if x = OpRACK then ''RACK''
      else if x = OpDAT then ''DAT'' else if x = OpHBT then ''HBT'' else if x = OpFIN then ''FIN''
      else if x = OpRST then ''RST'' else if x = OpACK then ''ACK'' else if x = OpSYNACK then ''SYN_ACK''
      else if x = OpDATACK then ''DAT_ACK'' else if x = OpFINACK then ''FIN_ACK''
      else ''OpCode(0x'' @ hexOf (unat x) @ '')'')"

subsection \<open>The janitor of the token registry\<close>

text \<open>
  The goroutine waits for its ticker or for the channel in \<open>r.stop\<close>, and looks that field up anew each time it
  starts to wait. \<open>Stop\<close> closes the channel and sets the field to nil; nothing can be received from a nil channel. A
  closed channel can be received from at any time, but when the ticker has fired as well the runtime picks either.
\<close>

datatype jan_pc = JanIdle | JanLoop | JanWaiting "nat option" | JanPruning | JanDone

record Janitor =
  janReg :: Registry
  janStop :: "nat option"
  janClosed :: "nat set"
  janPc :: jan_pc

definition StopJanitor :: "Janitor \<Rightarrow> Janitor" where
  "StopJanitor j =
     (case janStop j of None \<Rightarrow> j | Some c \<Rightarrow> j\<lparr>janClosed := insert c (janClosed j), janStop := None\<rparr>)"

inductive jan_step :: "Janitor \<Rightarrow> Janitor \<Rightarrow> bool" where
  launch: "janPc j = JanIdle \<Longrightarrow> c \<notin> janClosed j \<Longrightarrow> jan_step j (j\<lparr>janStop := Some c, janPc := JanLoop\<rparr>)"
| wait: "janPc j = JanLoop \<Longrightarrow> jan_step j (j\<lparr>janPc := JanWaiting (janStop j)\<rparr>)"
| tick: "janPc j = JanWaiting c \<Longrightarrow> jan_step j (j\<lparr>janPc := JanPruning\<rparr>)"
| prunes: "janPc j = JanPruning \<Longrightarrow> jan_step j (j\<lparr>janReg := prune t (janReg j), janPc := JanLoop\<rparr>)"
| leave: "janPc j = JanWaiting (Some c) \<Longrightarrow> c \<in> janClosed j \<Longrightarrow> jan_step j (j\<lparr>janPc := JanDone\<rparr>)"
| stopping: "jan_step j (StopJanitor j)"

definition janStart :: "Registry \<Rightarrow> Janitor" where
  "janStart r = \<lparr>janReg = r, janStop = None, janClosed = {}, janPc = JanIdle\<rparr>"

text \<open>
  Only expired tokens go. And \<open>Stop\<close> is not reliable: if the goroutine is pruning at that moment, or about to wait, it
  waits on a nil channel from then on and never ends, whatever happens later.
\<close>

lemma jan_prunes_only:
  assumes "jan_step\<^sup>*\<^sup>* j j'"
  shows "regm (janReg j') \<subseteq>\<^sub>m regm (janReg j)"
  using assms
proof (induction rule: rtranclp_induct)
  case (step y z)
  have "regm (janReg z) \<subseteq>\<^sub>m regm (janReg y)"
    using step.hyps(2)
  proof cases
    case (prunes t)
    then show ?thesis by (auto simp: map_le_def prune_def split: option.splits if_splits)
  qed (auto simp: StopJanitor_def split: option.splits)
  with step.IH show ?case by (rule map_le_trans [rotated])
qed simp

definition jan_stuck :: "Janitor \<Rightarrow> bool" where
  "jan_stuck j \<longleftrightarrow> janStop j = None \<and> janPc j \<in> {JanLoop, JanPruning, JanWaiting None}"

lemma jan_outlives_stop:
  assumes "janPc j = JanLoop \<or> janPc j = JanPruning" "jan_step\<^sup>*\<^sup>* (StopJanitor j) j'"
  shows "janPc j' \<noteq> JanDone"
proof -
  have "jan_stuck (StopJanitor j)" using assms(1) by (auto simp: jan_stuck_def StopJanitor_def split: option.split)
  with assms(2) have "jan_stuck j'"
  proof (induction rule: rtranclp_induct)
    case (step y z)
    from step.hyps(2) step.IH [OF step.prems] show ?case
      by cases (auto simp: jan_stuck_def StopJanitor_def split: option.splits)
  qed
  then show ?thesis by (auto simp: jan_stuck_def)
qed

lemma jan_can_stop:
  assumes "janPc j = JanWaiting (Some c)" "janStop j = Some c"
  shows "jan_step (StopJanitor j) ((StopJanitor j)\<lparr>janPc := JanDone\<rparr>)"
    "\<exists>j'. jan_step (StopJanitor j) j' \<and> jan_stuck j'"
proof -
  have s: "janPc (StopJanitor j) = JanWaiting (Some c)" "c \<in> janClosed (StopJanitor j)" "janStop (StopJanitor j) = None"
    using assms by (auto simp: StopJanitor_def)
  from s(1,2) show "jan_step (StopJanitor j) ((StopJanitor j)\<lparr>janPc := JanDone\<rparr>)" by (rule jan_step.leave)
  from s(3) jan_step.tick [OF s(1)] show "\<exists>j'. jan_step (StopJanitor j) j' \<and> jan_stuck j'"
    by (intro exI [of _ "(StopJanitor j)\<lparr>janPc := JanPruning\<rparr>"]) (simp add: jan_stuck_def)
qed

end
