(* ===== verification/Spec2Isabelle.thy ===== *)
theory Spec2Isabelle
  imports Rudp_Findings Game_Handlers Client_Emulator Edge_Services Key_Dump Store_Migration Diagnostics
begin

text \<open>
  A verification development of the Dark Souls II online server (repository comradesean/dso, Go).

  \<^bold>\<open>The program.\<close> A client logs in over TCP: the login service (internal/server/login) tells it where the
  auth service is, the auth service (internal/server/auth) runs a four-stage handshake, registers a random
  token together with a fresh key in the token registry (internal/server/authtoken) and hands out the address
  of the game service. The client then speaks reliable UDP to the game service (internal/server/game): every
  datagram carries the token in the clear and is encrypted under the key; the transport
  (internal/frpg/rudp) orders and retransmits packets and reassembles messages; each message has an opcode
  and a protocol buffer and is dispatched to a handler. Handlers keep summon signs, ghosts, bloodstains and
  arena registrations in memory, blood messages, players, characters and the leaderboard in SQLite
  (internal/server/store), and push messages to the sessions of other clients.

  \<^bold>\<open>The theories\<close>, in the order of the layers:

  \<^item> \<^emph>\<open>Prelude\<close>, \<^emph>\<open>Go_Strings\<close>: bytes and machine integers, encoding/binary, slices, iteration order of Go maps,
    time arithmetic; the parts of strings, strconv and unicode/utf16 the code uses.
  \<^item> \<^emph>\<open>Rudp_Sequence\<close>, \<^emph>\<open>Rudp_Packet\<close>, \<^emph>\<open>Rudp_Session\<close>: rudp/sequence.go, packet.go, session.go. Sequence numbers
    are 32-bit words taken modulo 4096. A session is a record with the fields of the Go struct; every
    method is a function on it; the transmit callback is a function of the datagrams sent so far.
    \<^emph>\<open>Rudp_Invariant\<close> has the well-formedness of every reachable session, \<^emph>\<open>Rudp_Delivery\<close> in-order delivery
    over a network that loses, duplicates and reorders, conservation of queued packets by the pump and
    the detection of dead peers, \<^emph>\<open>Rudp_Findings\<close> what goes wrong. \<^emph>\<open>Rudp_Message\<close>: rudp/message.go, with the
    end-to-end theorem for whole messages.
  \<^item> \<^emph>\<open>Cwc\<close>, \<^emph>\<open>X931\<close>, \<^emph>\<open>Frpg_Cipher\<close>, \<^emph>\<open>Tcp_Stream\<close>: internal/crypto (cwc, x931, frpgcipher) and internal/frpg
    (packet, message): AES-CWC with its lazily reduced hash, RSA padding, the datagram and stream ciphers
    behind one interface, and the framed stream of the TCP services.
  \<^item> \<^emph>\<open>Auth_Token\<close>, \<^emph>\<open>Server_Core\<close>, \<^emph>\<open>Auth_Service\<close>: the token registry, advertised addresses and the binary
    replies, the login and auth services; what a connection does to the registry, on every outcome.
  \<^item> \<^emph>\<open>Protobuf\<close>, \<^emph>\<open>Matchmaking\<close>, \<^emph>\<open>Game_Stores\<close>, \<^emph>\<open>Sqlite_Store\<close>: generic protocol buffer messages; matchmaking.go;
    the memory stores of sign.go, ghost.go, bloodstain.go and quickmatch.go; store.go as the effect of each
    SQL statement on tables, with failures as a script.
  \<^item> \<^emph>\<open>Game_State\<close>: the state of the game service. Sessions are objects on a heap, since handlers hold pointers to
    them and push to the sessions of others; \<open>frame\<close> is the contract of a handler.
  \<^item> \<^emph>\<open>Resource_Push\<close>, \<^emph>\<open>Sign_Service\<close>, \<^emph>\<open>Content_Service\<close>, \<^emph>\<open>Match_Service\<close>, \<^emph>\<open>Player_Service\<close>, \<^emph>\<open>World_Service\<close>:
    every handler of the service: obelisk, event chest and regulation pushes; summon and Mirror Knight
    signs; ghosts, bloodstains, blood messages and the relay; invasions, visits and the arena; characters,
    deaths and the leaderboard; bells, statistics, link checks and login.
  \<^item> \<^emph>\<open>Game_Service\<close>: dispatch (boot.go), sessions, message loop, pump and clean-up (game.go).
    \<^emph>\<open>Game_Invariant\<close> and \<^emph>\<open>Game_Handlers\<close> have the runs of the whole service as an inductive relation: datagrams, in
    the two halves their lock regions make, interleaved with the pump, the auth service, the janitor, the
    test bell and the goroutines of the resource pushes. They show that only authenticated clients get
    through, that one client cannot touch another, that a departing player leaves nothing behind, that a
    dropped client can come back, which messages are answered, and that the stores stay well formed.
  \<^item> \<^emph>\<open>Config_Load\<close>, \<^emph>\<open>Go_Paths\<close>, \<^emph>\<open>Rsa_Keys\<close>, \<^emph>\<open>Server_Run\<close>: internal/config (the environment file, the overlay of the defaults,
    validation), the parts of path and filepath the code uses, internal/crypto/keys (generation and loading of
    the RSA key) and internal/server/core with cmd/dsoserver: building the server and running its services,
    as an interleaving of the goroutines with the one that waits for them.
  \<^item> \<^emph>\<open>Edge_Services\<close>: the bootstrap file service and the DNS redirector.
  \<^item> \<^emph>\<open>Client_Emulator\<close>: internal/client, the client side of login and auth, and the runs of it against the two services.
    This theory joins it to the game service.
  \<^item> \<^emph>\<open>Capture_Proto\<close>, \<^emph>\<open>Capture_Tools\<close>: the offline tools for captured traffic. The parser of unknown protocol
    buffers of cmd/corpus against the wire grammar; the rest of cmd/corpus, cmd/decodecap and cmd/verifykey, with the
    theorem that a message sent by the transport of the server ends up, decrypted and reassembled, in the corpus.
  \<^item> \<^emph>\<open>Key_Tool\<close>, \<^emph>\<open>Memory_Tools\<close>, \<^emph>\<open>Key_Dump\<close>: cmd/dsotool (key generation and the patch that carries the key), the
    searches through the memory of another process of tools/memscan and tools/keydump, and the debugger
    of tools/keydump as a transition system over the memory and the threads of the game.
  \<^item> \<^emph>\<open>Store_Migration\<close>: the rebuild of old leaderboard tables when the database is opened, statement by statement and
    with any of them failing.
  \<^item> \<^emph>\<open>Diagnostics\<close>: the raw-traffic wrapper (internal/netdebug), the report of changed status fields, the classes of
    connection errors, and the goroutine that prunes the token registry, with what can go wrong when it is stopped.

  \<^bold>\<open>Interfaces.\<close> \<open>wire_codec\<close> (Prelude), \<open>cipher\<close> (Frpg_Cipher) and \<open>protected_stream\<close> (Tcp_Stream) are what the
  encoders, the ciphers and the framed streams promise; \<open>token_store\<close> (Auth_Token) what the two services
  rely on; \<open>id_registry\<close> (Game_Stores) what the stores that hand out numbers promise; \<open>service_invariant\<close>
  (Game_Invariant) what an invariant of the runs has to survive. Each is interpreted on the model.

  \<^bold>\<open>Conventions.\<close> Errors are values of sum types, in handlers with the text of the first part of the Go
  error. Every operation under a mutex is one step. The clock is read once per operation or message, and
  given as an argument; so are random bytes, the order in which a loop visits a Go map, and the environment.
  Loops are total functions: the loops of the transport end because a queue shrinks, the message loop
  because no handler adds to what the client has sent; the search for a free character slot, which need not
  end, is a partial function with a proof of when it does, and so are the loops of the capture parser, which
  can run forever. A value of type \<open>outcome\<close> says whether such a loop returned or panicked. Only the parse loop
  of the login reply (Server_Core) has fuel, one more than there are bytes, which is enough since every round
  consumes at least one; running out is an error of its own, not a result.

  \<^bold>\<open>Parameters.\<close> AES as a block function, OAEP, SHA-256, zlib, the IPv6 parser, protowire, the protocol
  buffer codecs, PEM and PKCS#1, random primes, net/http and the DNS library, the Windows debug and memory calls, the
  SQL engine's failures and file reads are arguments. Where a theorem needs more of them
  than that they are functions, it says so as a hypothesis. A blob read back from SQLite is taken as set even
  when it is empty.

  \<^bold>\<open>Not modelled.\<close> Sockets and deadlines; the formatting of log lines; generated protocol buffer code; the
  parsing of command lines by the flag package and usage texts; data races,
  since goroutines are taken to interleave at lock regions.
\<close>

section \<open>From the login to the game\<close>

lemma sealed_datagram_opens:
  assumes "NewContext aes key = Inr ctx" "aes_block_size (aes key)" "length tok = 8" "length iv = 11" "pt \<noteq> []"
  obtains dg where "clientSeal ctx tok (Inr iv) (pt, syn) = Inr dg" "TokenFromDatagram dg = Some tok"
    "openClientToServer ctx dg = Inr (pt, syn)"
proof -
  have "aes_block_size (block ctx)" "iv_ok (Inr iv)"
    using NewContext_key(2) [OF assms(1,2)] assms(4) by (simp_all add: iv_ok_def)
  then obtain dg where "clientSeal ctx tok (Inr iv) (pt, syn) = Inr dg"
    "openClientToServer ctx dg = Inr (pt, syn)"
    using client_udp.encrypts [of "Inr iv" ctx tok "(pt, syn)"]
      client_udp.inverts [of "Inr iv" ctx tok "(pt, syn)"] assms(3,5) by auto
  with clientSeal_token [OF assms(3)] that show ?thesis by blast
qed

text \<open>
  C4: a player gets from the title screen into the game. When the two sides can log in, there is a run of
  the client emulator against the login and the auth service, both sides computed from each other's bytes,
  in which the client, dialling the login address and then the address it is told, ends with a token, a
  game key and the advertised address and port of the game service. If it then seals any nonempty datagram
  with that key and token and sends it within the lifetime of the token from an address without a session,
  the game service decrypts exactly what was sealed and opens a session for that address, with that token
  and with the cipher of that key.
\<close>

theorem login_to_game:
  assumes "login_ready l cl c cfg peer rd srd half srv token' oct"
    and "aesBlock net = libAES l" "sessions s from = None" "now e \<le> t + ttl (tokens s)"
    and "length iv = 11" "pt \<noteq> []"
  shows "\<exists>res reg' ctx dg s'. login_run l cl c cfg peer rd srd t (tokens s) res reg' \<and>
    GameServerIP res = addrString oct \<and> resPort res = unat (word_of_int (GamePort cfg) :: u16) \<and>
    NewContext (libAES l) (GameKey res) = Inr ctx \<and>
    clientSeal ctx (AuthToken res) (Inr iv) (pt, syn) = Inr dg \<and>
    acceptDatagram net e from dg (s\<lparr>tokens := reg'\<rparr>) = (Some (nextPtr s, pt), s') \<and>
    sessions s' from = Some (nextPtr s) \<and> token (heap s' (nextPtr s)) = AuthToken res \<and>
    cipher (heap s' (nextPtr s)) = ctx"
proof -
  let ?reg = "Add t (tokens s) token' (half @ srv)"
  have len: "length (half @ srv) = 16" "length token' = 8" "aes_block_size (libAES l (half @ srv))"
    using assms(1) by (auto simp: login_ready_def draws_ok_def client_draws_def)
  obtain ctx where ctx: "NewContext (libAES l) (half @ srv) = Inr ctx"
    using NewContext_16 [OF len(1)] by blast
  obtain dg where dg: "clientSeal ctx token' (Inr iv) (pt, syn) = Inr dg" "TokenFromDatagram dg = Some token'"
    "openClientToServer ctx dg = Inr (pt, syn)"
    by (rule sealed_datagram_opens [OF ctx len(3,2) assms(5,6)])
  have "fst (Lookup (now e) ?reg token') = Some (half @ srv)"
    using assms(4) by (simp add: tokens.lookup_live tokens.add_same)
  then obtain ts where "Lookup (now e) ?reg token' = (Some (half @ srv), ts)"
    by (metis prod.collapse)
  with assms(2,3) ctx dg(2,3) obtain s' where
    "acceptDatagram net e from dg (s\<lparr>tokens := ?reg\<rparr>) = (Some (nextPtr s, pt), s')"
    "sessions s' from = Some (nextPtr s)" "token (heap s' (nextPtr s)) = token'" "cipher (heap s' (nextPtr s)) = ctx"
    by (simp add: acceptDatagram_def session_def Let_def newClient_def)
  with login_completes [OF assms(1), of t "tokens s"] ctx dg(1) show ?thesis
    by (intro exI conjI) auto
qed

theorem login_to_game_witness:
  "\<exists>res reg' ctx dg s'.
     login_run demo_server_libs demo_client_libs demo_emulator demo_config None demo_client_rand demo_rand 0
       (tokens demo_start) res reg' \<and> resPort res = 50010 \<and>
     acceptDatagram demo_net \<lparr>now = 1, rnd = (0, 0)\<rparr> ''ps3'' dg (demo_start\<lparr>tokens := reg'\<rparr>) =
       (Some (nextPtr demo_start, [7, 7]), s')"
proof -
  have "aesBlock demo_net = libAES demo_server_libs" "sessions demo_start ''ps3'' = None"
    by (simp_all add: demo_net_def demo_server_libs_def demo_libs_def demo_start_def NewService_def)
  moreover have "now \<lparr>now = 1, rnd = (0, 0)\<rparr> \<le> 0 + ttl (tokens demo_start)"
    by (simp add: demo_start_def NewService_def Add_def NewRegistry_def TTL_def second_def millisecond_def)
  moreover have "unat (word_of_int (GamePort demo_config) :: u16) = 50010"
    by (simp add: demo_config_def)
  ultimately show ?thesis
    using login_to_game [OF demo_login_ready, of demo_net demo_start "''ps3''" "\<lparr>now = 1, rnd = (0, 0)\<rparr>" 0
        "replicate 11 0" "[7, 7]"] by fastforce
qed

end
